(* ===== verification/Prelude.thy ===== *)
theory Prelude
  imports Main "HOL-Library.Char_ord" "HOL-Library.List_Lexorder" "HOL-Library.Product_Lexorder"
begin

text \<open>
  The vocabulary the component theories share: results of calls that may raise, and the
  operations of Python's strings and lists that the program uses.

  A Python string is a HOL \<open>string\<close>, read as a sequence of code points below 256; the order
  on strings is Python's lexicographic order on code points. A call that may raise returns
  \<open>'e + 'a\<close>, with \<open>Inl\<close> for the exception.
\<close>

named_theorems result_simps \<open>equations that run a computation in the result type\<close>
named_theorems py_defs \<open>definitions of the string operations, for evaluation on concrete input\<close>

section \<open>Results\<close>

type_synonym ('e, 'a) result = "'e + 'a"

definition bindR :: "('e, 'a) result \<Rightarrow> ('a \<Rightarrow> ('e, 'b) result) \<Rightarrow> ('e, 'b) result" where
  "bindR m f = (case m of Inl e \<Rightarrow> Inl e | Inr x \<Rightarrow> f x)"

definition mapError :: "('e \<Rightarrow> 'f) \<Rightarrow> ('e, 'a) result \<Rightarrow> ('f, 'a) result" where
  "mapError g m = (case m of Inl e \<Rightarrow> Inl (g e) | Inr x \<Rightarrow> Inr x)"

text \<open>A list comprehension whose element expression may raise: the first exception wins.\<close>

fun mapR :: "('a \<Rightarrow> ('e, 'b) result) \<Rightarrow> 'a list \<Rightarrow> ('e, 'b list) result" where
  "mapR f [] = Inr []"
| "mapR f (x # xs) = bindR (f x) (\<lambda>y. bindR (mapR f xs) (\<lambda>ys. Inr (y # ys)))"

definition succeeds :: "('e, 'a) result \<Rightarrow> bool" where
  "succeeds m = (case m of Inl _ \<Rightarrow> False | Inr _ \<Rightarrow> True)"

lemma bindR_simps [simp, result_simps]:
  "bindR (Inl e) f = Inl e"
  "bindR (Inr x) f = f x"
  by (simp_all add: bindR_def)

lemma mapError_simps [simp, result_simps]:
  "mapError g (Inl e) = Inl (g e)"
  "mapError g (Inr x) = Inr x"
  by (simp_all add: mapError_def)

lemma succeeds_simps [simp]: "\<not> succeeds (Inl e)" "succeeds (Inr x)"
  by (simp_all add: succeeds_def)

lemma succeeds_iff: "succeeds m \<longleftrightarrow> (\<exists>x. m = Inr x)"
  by (cases m) simp_all

lemma bindR_Inr_iff: "bindR m f = Inr y \<longleftrightarrow> (\<exists>x. m = Inr x \<and> f x = Inr y)"
  by (cases m) simp_all

lemma bindR_Inl_iff: "bindR m f = Inl e \<longleftrightarrow> m = Inl e \<or> (\<exists>x. m = Inr x \<and> f x = Inl e)"
  by (cases m) simp_all

lemma mapError_Inr_iff: "mapError g m = Inr x \<longleftrightarrow> m = Inr x"
  by (cases m) simp_all

lemma bindR_InrE:
  assumes "bindR m f = Inr y"
  obtains x where "m = Inr x" "f x = Inr y"
  using assms by (auto simp: bindR_Inr_iff)

lemma mapR_Inr_iff: "mapR f xs = Inr ys \<longleftrightarrow> list_all2 (\<lambda>x y. f x = Inr y) xs ys"
  by (induction xs arbitrary: ys) (auto simp: bindR_Inr_iff list_all2_Cons1)

lemma mapR_length: "mapR f xs = Inr ys \<Longrightarrow> length ys = length xs"
  by (simp add: mapR_Inr_iff list_all2_lengthD)

lemma mapR_succeeds_iff: "succeeds (mapR f xs) \<longleftrightarrow> (\<forall>x \<in> set xs. succeeds (f x))"
  by (induction xs) (auto simp: succeeds_iff bindR_Inr_iff)

lemma mapR_in_set: "mapR f xs = Inr ys \<Longrightarrow> y \<in> set ys \<Longrightarrow> \<exists>x \<in> set xs. f x = Inr y"
  by (induction xs arbitrary: ys) (auto simp: bindR_Inr_iff)

lemma mapR_pure: "(\<And>x. x \<in> set xs \<Longrightarrow> f x = Inr (g x)) \<Longrightarrow> mapR f xs = Inr (map g xs)"
  by (induction xs) auto

section \<open>Characters\<close>

abbreviation ord :: "char \<Rightarrow> nat" where
  "ord c \<equiv> of_char c"

abbreviation DQ :: char where "DQ \<equiv> CHR 0x22"
abbreviation SQ :: char where "SQ \<equiv> CHR 0x27"
abbreviation BSLASH :: char where "BSLASH \<equiv> CHR 0x5C"
abbreviation NL :: char where "NL \<equiv> CHR 0x0A"
abbreviation CR :: char where "CR \<equiv> CHR 0x0D"
abbreviation TAB :: char where "TAB \<equiv> CHR 0x09"

text \<open>\<open>ord(ch) < 0x20 or ord(ch) == 0x7F\<close>.\<close>

definition is_control :: "char \<Rightarrow> bool" where
  "is_control c \<longleftrightarrow> ord c < 0x20 \<or> ord c = 0x7F"

text \<open>
  \<open>str.lower\<close> on code points below 256: the ASCII capitals, and the Latin-1 capitals
  U+00C0 to U+00DE without the multiplication sign.
\<close>

definition lower_char :: "char \<Rightarrow> char" where
  "lower_char c = (let n = ord c in
     if (65 \<le> n \<and> n \<le> 90) \<or> (192 \<le> n \<and> n \<le> 222 \<and> n \<noteq> 215) then char_of (n + 32) else c)"

definition py_lower :: "string \<Rightarrow> string" where
  [py_defs]: "py_lower = map lower_char"

text \<open>\<open>str.isspace\<close> on code points below 256, which \<open>str.strip\<close> removes.\<close>

definition is_space :: "char \<Rightarrow> bool" where
  "is_space c = (let n = ord c in
     (9 \<le> n \<and> n \<le> 13) \<or> (28 \<le> n \<and> n \<le> 32) \<or> n = 133 \<or> n = 160)"

definition strip_by :: "(char \<Rightarrow> bool) \<Rightarrow> string \<Rightarrow> string" where
  [py_defs]: "strip_by p s = rev (dropWhile p (rev (dropWhile p s)))"

definition py_strip :: "string \<Rightarrow> string" where
  [py_defs]: "py_strip = strip_by is_space"

definition is_ascii_digit :: "char \<Rightarrow> bool" where
  "is_ascii_digit c \<longleftrightarrow> 48 \<le> ord c \<and> ord c \<le> 57"

text \<open>\<open>str.isdigit\<close> on code points below 256 also holds of the superscripts 2, 3 and 1.\<close>

definition is_digit_char :: "char \<Rightarrow> bool" where
  "is_digit_char c \<longleftrightarrow> is_ascii_digit c \<or> ord c \<in> {178, 179, 185}"

definition py_isdigit :: "string \<Rightarrow> bool" where
  [py_defs]: "py_isdigit s \<longleftrightarrow> s \<noteq> [] \<and> list_all is_digit_char s"

lemma ord_char_of: "n < 256 \<Longrightarrow> ord (char_of n) = n"
  by simp

lemma ord_lower_char: "ord (lower_char c) =
    (if (65 \<le> ord c \<and> ord c \<le> 90) \<or> (192 \<le> ord c \<and> ord c \<le> 222 \<and> ord c \<noteq> 215)
     then ord c + 32 else ord c)"
  by (simp add: lower_char_def Let_def)

lemma lower_char_idem [simp]: "lower_char (lower_char c) = lower_char c"
proof -
  have "ord (lower_char (lower_char c)) = ord (lower_char c)"
    unfolding ord_lower_char [of "lower_char c"] by (simp add: ord_lower_char)
  then show ?thesis by simp
qed

lemma py_lower_idem [simp]: "py_lower (py_lower s) = py_lower s"
  by (induction s) (simp_all add: py_lower_def)

lemma py_lower_length [simp]: "length (py_lower s) = length s"
  by (simp add: py_lower_def)

lemma py_lower_Nil_iff [simp]: "py_lower s = [] \<longleftrightarrow> s = []"
  by (simp add: py_lower_def)

lemma is_space_lower [simp]: "is_space (lower_char c) \<longleftrightarrow> is_space c"
  by (simp add: is_space_def Let_def ord_lower_char)

lemma lower_char_eq_iff:
  assumes "lower_char d = d" and "ord d < 97 \<or> (122 < ord d \<and> ord d < 224)"
  shows "lower_char c = d \<longleftrightarrow> c = d"
proof
  assume a: "lower_char c = d"
  then have "ord (lower_char c) = ord d" by simp
  with assms(2) have "ord c = ord d"
    by (auto simp: ord_lower_char split: if_splits)
  then show "c = d" by simp
next
  assume "c = d" then show "lower_char c = d" using assms(1) by simp
qed

section \<open>Strings: strip, split, join, replace\<close>

definition py_startswith :: "string \<Rightarrow> string \<Rightarrow> bool" where
  [py_defs]: "py_startswith p s \<longleftrightarrow> take (length p) s = p"

fun py_split :: "char \<Rightarrow> string \<Rightarrow> string list" where
  "py_split d [] = [[]]"
| "py_split d (c # cs) =
     (if c = d then [] # py_split d cs
      else case py_split d cs of [] \<Rightarrow> [[c]] | s # ss \<Rightarrow> (c # s) # ss)"

fun py_join :: "string \<Rightarrow> string list \<Rightarrow> string" where
  "py_join sep [] = []"
| "py_join sep [x] = x"
| "py_join sep (x # y # ys) = x @ sep @ py_join sep (y # ys)"

text \<open>\<open>s.replace(c, r)\<close> for a one-character \<open>c\<close>.\<close>

definition py_replace :: "char \<Rightarrow> string \<Rightarrow> string \<Rightarrow> string" where
  [py_defs]: "py_replace c r s = concat (map (\<lambda>x. if x = c then r else [x]) s)"

lemma py_split_nonempty [simp]: "py_split d s \<noteq> []"
  by (cases s) (auto split: list.splits)

lemma py_join_Cons: "ys \<noteq> [] \<Longrightarrow> py_join sep (x # ys) = x @ sep @ py_join sep ys"
  by (cases ys) simp_all

lemma py_join_split [simp]: "py_join [d] (py_split d s) = s"
proof (induction s)
  case Nil
  then show ?case by simp
next
  case (Cons c cs)
  obtain s ss where s: "py_split d cs = s # ss"
    by (cases "py_split d cs") auto
  show ?case using Cons s by (cases ss) auto
qed

lemma py_split_no_sep: "d \<notin> set s \<Longrightarrow> py_split d s = [s]"
  by (induction s) auto

lemma py_split_append: "d \<notin> set s \<Longrightarrow> py_split d (s @ d # t) = s # py_split d t"
  by (induction s) auto

lemma py_split_join:
  assumes "\<forall>s \<in> set ss. d \<notin> set s" and "ss \<noteq> []"
  shows "py_split d (py_join [d] ss) = ss"
  using assms
proof (induction ss)
  case Nil
  then show ?case by simp
next
  case (Cons s ss)
  then show ?case
    by (cases "ss = []") (simp_all add: py_join_Cons py_split_no_sep py_split_append)
qed

lemma py_split_no_delim: "s \<in> set (py_split d t) \<Longrightarrow> d \<notin> set s"
proof (induction t arbitrary: s)
  case Nil
  then show ?case by simp
next
  case (Cons c cs)
  then show ?case by (auto split: if_splits list.splits)
qed

lemma py_split_length_sum:
  "length (concat (py_split d s)) + length (py_split d s) = Suc (length s)"
  by (induction s) (auto split: list.splits)

lemma py_split_segment_length: "s \<in> set (py_split d t) \<Longrightarrow> length s \<le> length t"
proof (induction t arbitrary: s)
  case Nil
  then show ?case by simp
next
  case (Cons c cs)
  obtain a as where "py_split d cs = a # as"
    by (cases "py_split d cs") auto
  with Cons show ?case by (fastforce split: if_splits)
qed

lemma dropWhile_id_iff: "dropWhile p s = s \<longleftrightarrow> s = [] \<or> \<not> p (hd s)"
  by (cases s) (auto dest: arg_cong [where f = length],
    metis length_dropWhile_le le_imp_less_Suc length_Cons less_irrefl)

lemma hd_dropWhile_not: "dropWhile p s \<noteq> [] \<Longrightarrow> \<not> p (hd (dropWhile p s))"
  by (rule hd_dropWhile)

lemma strip_by_id_iff: "strip_by p s = s \<longleftrightarrow> s = [] \<or> (\<not> p (hd s) \<and> \<not> p (last s))"
proof
  assume a: "strip_by p s = s"
  have l: "length (strip_by p s) \<le> length (dropWhile p s)"
    by (metis strip_by_def length_dropWhile_le length_rev)
  have "length (dropWhile p s) \<le> length s" by (rule length_dropWhile_le)
  with l a have "length (dropWhile p s) = length s" by simp
  then have d: "dropWhile p s = s"
    by (metis append_Nil length_append length_0_conv add_cancel_left_left
        takeWhile_dropWhile_id)
  with a have "dropWhile p (rev s) = rev s"
    by (simp add: strip_by_def) (metis rev_rev_ident)
  with d show "s = [] \<or> (\<not> p (hd s) \<and> \<not> p (last s))"
    by (auto simp: dropWhile_id_iff hd_rev)
next
  assume "s = [] \<or> (\<not> p (hd s) \<and> \<not> p (last s))"
  then show "strip_by p s = s"
    by (auto simp: strip_by_def dropWhile_id_iff [THEN iffD2] hd_rev)
qed

lemma strip_by_idem [simp]: "strip_by p (strip_by p s) = strip_by p s"
proof -
  let ?t = "strip_by p s"
  have "?t = [] \<or> (\<not> p (hd ?t) \<and> \<not> p (last ?t))"
  proof (cases "?t = []")
    case False
    let ?d = "dropWhile p s"
    let ?u = "dropWhile p (rev ?d)"
    have u: "?u \<noteq> []" using False by (simp add: strip_by_def)
    then have lst: "\<not> p (last ?t)"
      by (simp add: strip_by_def last_rev hd_dropWhile_not)
    have ne: "?d \<noteq> []" using u by (metis dropWhile.simps(1) rev.simps(1))
    have "last ?u = last (rev ?d)"
      using u by (metis last_appendR takeWhile_dropWhile_id)
    then have "hd ?t = hd ?d"
      using u ne by (simp add: strip_by_def hd_rev last_rev)
    with ne lst show ?thesis by (simp add: hd_dropWhile_not)
  qed simp
  then show ?thesis by (simp add: strip_by_id_iff)
qed

lemma py_strip_idem [simp]: "py_strip (py_strip s) = py_strip s"
  by (simp add: py_strip_def)

lemma strip_by_set: "set (strip_by p s) \<subseteq> set s"
  by (metis strip_by_def set_rev set_dropWhileD subsetI)

lemma strip_by_length: "length (strip_by p s) \<le> length s"
  by (metis strip_by_def length_dropWhile_le length_rev order_trans)

lemma strip_lower_comm: "py_strip (py_lower s) = py_lower (py_strip s)"
  by (simp add: py_strip_def strip_by_def py_lower_def dropWhile_map rev_map o_def)

section \<open>Numbers as text\<close>

definition digit_char :: "nat \<Rightarrow> char" where
  "digit_char n = (if n < 10 then char_of (48 + n) else char_of (87 + n))"

definition digit_val :: "char \<Rightarrow> nat" where
  "digit_val c = (if ord c < 58 then ord c - 48 else ord c - 87)"

text \<open>The digits of \<open>n\<close> in base \<open>b\<close>, most significant first, as \<open>str\<close> and \<open>:x\<close> write them.\<close>

fun base_digits :: "nat \<Rightarrow> nat \<Rightarrow> string" where
  "base_digits b n =
     (if b < 2 \<or> n < b then [digit_char n] else base_digits b (n div b) @ [digit_char (n mod b)])"

declare base_digits.simps [simp del]

definition nat_str :: "nat \<Rightarrow> string" where
  "nat_str n = base_digits 10 n"

definition hex_str :: "nat \<Rightarrow> string" where
  "hex_str n = base_digits 16 n"

definition int_str :: "int \<Rightarrow> string" where
  "int_str i = (if i < 0 then CHR ''-'' # nat_str (nat (- i)) else nat_str (nat i))"

text \<open>Left padding with zeros, as the formats \<open>02x\<close> and \<open>04d\<close> do.\<close>

definition zero_pad :: "nat \<Rightarrow> string \<Rightarrow> string" where
  "zero_pad w s = replicate (w - length s) (CHR ''0'') @ s"

definition read_base :: "nat \<Rightarrow> string \<Rightarrow> nat" where
  "read_base b s = foldl (\<lambda>a c. b * a + digit_val c) 0 s"

definition read_nat :: "string \<Rightarrow> nat" where
  "read_nat s = read_base 10 s"

definition read_int :: "string \<Rightarrow> int" where
  "read_int s = (case s of [] \<Rightarrow> 0
     | c # cs \<Rightarrow> if c = CHR ''-'' then - int (read_nat cs) else int (read_nat s))"

lemma digit_val_char: "n < 36 \<Longrightarrow> digit_val (digit_char n) = n"
  by (simp add: digit_val_def digit_char_def)

lemma digit_char_ascii: "n < 10 \<Longrightarrow> is_ascii_digit (digit_char n)"
  by (simp add: is_ascii_digit_def digit_char_def)

lemma base_digits_nonempty [simp]: "base_digits b n \<noteq> []"
  by (subst base_digits.simps) simp

lemma read_base_snoc: "read_base b (s @ [c]) = b * read_base b s + digit_val c"
  by (simp add: read_base_def)

lemma read_base_digits: "2 \<le> b \<Longrightarrow> b \<le> 36 \<Longrightarrow> read_base b (base_digits b n) = n"
proof (induction b n rule: base_digits.induct)
  case (1 b n)
  show ?case
  proof (cases "n < b")
    case True
    with "1.prems" show ?thesis
      by (subst base_digits.simps) (simp add: read_base_def digit_val_char)
  next
    case False
    with 1 have "read_base b (base_digits b (n div b)) = n div b" by simp
    moreover have "n mod b < 36"
      using "1.prems" by (metis less_le_trans mod_less_divisor zero_less_numeral order_less_le_trans)
    ultimately show ?thesis using False "1.prems"
      by (subst base_digits.simps) (simp add: read_base_snoc digit_val_char)
  qed
qed

lemma read_nat_str [simp]: "read_nat (nat_str n) = n"
  by (simp add: read_nat_def nat_str_def read_base_digits)

lemma read_hex_str [simp]: "read_base 16 (hex_str n) = n"
  by (simp add: hex_str_def read_base_digits)

lemma nat_str_inj [simp]: "nat_str m = nat_str n \<longleftrightarrow> m = n"
  by (metis read_nat_str)

lemma nat_str_nonempty [simp]: "nat_str n \<noteq> []"
  by (simp add: nat_str_def)

lemma base_digits_set: "2 \<le> b \<Longrightarrow> c \<in> set (base_digits b n) \<Longrightarrow> \<exists>d < b. c = digit_char d"
proof (induction b n rule: base_digits.induct)
  case (1 b n)
  show ?case
  proof (cases "n < b")
    case True
    with "1.prems" show ?thesis by (subst (asm) base_digits.simps) auto
  next
    case False
    from 1 False have "c \<in> set (base_digits b (n div b)) \<or> c = digit_char (n mod b)"
      by (subst (asm) base_digits.simps) auto
    with 1 False show ?thesis by (auto intro: exI [of _ "n mod b"])
  qed
qed

lemma nat_str_digits: "c \<in> set (nat_str n) \<Longrightarrow> is_ascii_digit c"
  unfolding nat_str_def by (drule base_digits_set [rotated]) (auto intro: digit_char_ascii)

lemma read_int_str [simp]: "read_int (int_str i) = i"
proof (cases "i < 0")
  case True
  then show ?thesis by (simp add: int_str_def read_int_def)
next
  case False
  obtain c cs where c: "nat_str (nat i) = c # cs" by (cases "nat_str (nat i)") auto
  have "is_ascii_digit c" using nat_str_digits [of c "nat i"] c by simp
  then have "c \<noteq> CHR ''-''" by (auto simp: is_ascii_digit_def)
  with False c show ?thesis
    by (simp add: int_str_def read_int_def) (metis c nat_0_le not_less read_nat_str)
qed

lemma int_str_inj [simp]: "int_str i = int_str j \<longleftrightarrow> i = j"
  by (metis read_int_str)

lemma int_str_chars: "c \<in> set (int_str i) \<Longrightarrow> is_ascii_digit c \<or> c = CHR ''-''"
  by (auto simp: int_str_def dest: nat_str_digits split: if_splits)

section \<open>Lists\<close>

text \<open>
  Python's \<open>xs[-k:]\<close> for an integer \<open>k\<close>: the last \<open>k\<close> elements for a positive \<open>k\<close>, the
  whole list for \<open>k = 0\<close> (since \<open>-0 = 0\<close>), and a suffix from \<open>-k\<close> for a negative \<open>k\<close>.
\<close>

definition py_suffix :: "int \<Rightarrow> 'a list \<Rightarrow> 'a list" where
  "py_suffix k xs = (if 0 < k then drop (length xs - nat k) xs else drop (nat (- k)) xs)"

lemma py_suffix_zero: "py_suffix 0 xs = xs"
  by (simp add: py_suffix_def)

section \<open>Lines\<close>

text \<open>Lines as a text, each with its line feed.\<close>

definition lines_text :: "string list \<Rightarrow> string" where
  "lines_text ls = concat (map (\<lambda>l. l @ [NL]) ls)"

section \<open>Parsing an integer\<close>

text \<open>\<open>int(s)\<close> on a string: surrounding white space, a sign, digits with single underscores,
  at most 4300 of them. A byte string differs in what counts as white space.\<close>

definition read_integer :: "string \<Rightarrow> int option" where
  "read_integer t =
     (let neg = (t \<noteq> [] \<and> hd t = CHR ''-'');
          body = (if t \<noteq> [] \<and> hd t \<in> {CHR ''-'', CHR ''+''} then tl t else t);
          parts = py_split CHR ''_'' body
      in if list_all (\<lambda>p. p \<noteq> [] \<and> list_all is_ascii_digit p) parts \<and> length (concat parts) \<le> 4300
         then Some ((if neg then -1 else 1) * int (read_nat (concat parts))) else None)"

definition py_int_of_str :: "string \<Rightarrow> int option" where
  "py_int_of_str s = read_integer (py_strip s)"

definition is_ascii_space :: "char \<Rightarrow> bool" where
  "is_ascii_space c \<longleftrightarrow> ord c \<in> {9..13} \<or> c = CHR '' ''"

definition py_int_of_bytes :: "string \<Rightarrow> int option" where
  "py_int_of_bytes s = read_integer (strip_by is_ascii_space s)"

lemma base_digits_length: "0 < k \<Longrightarrow> n < 10 ^ k \<Longrightarrow> length (base_digits 10 n) \<le> k"
proof (induction k arbitrary: n)
  case (Suc k)
  then show ?case
    by (cases "n < 10") (auto simp: less_mult_imp_div_less mult.commute base_digits.simps [of 10 n] intro!: Suc.IH,
        cases k, auto)
qed simp

lemma nat_str_length: "0 < k \<Longrightarrow> n < 10 ^ k \<Longrightarrow> length (nat_str n) \<le> k"
  by (simp add: nat_str_def base_digits_length)

lemma read_integer_str: "length (nat_str n) \<le> 4300 \<Longrightarrow> read_integer (nat_str n) = Some (int n)"
proof -
  assume n: "length (nat_str n) \<le> 4300"
  have d: "\<forall>c \<in> set (nat_str n). is_ascii_digit c" using nat_str_digits by blast
  have "hd (nat_str n) \<in> set (nat_str n)" by simp
  with d have "is_ascii_digit (hd (nat_str n))" by blast
  then have h: "hd (nat_str n) \<noteq> CHR ''-''" "hd (nat_str n) \<noteq> CHR ''+''" by (auto simp: is_ascii_digit_def)
  have "CHR ''_'' \<notin> set (nat_str n)" using d by (auto simp: is_ascii_digit_def)
  then show ?thesis using d h n
    by (simp add: read_integer_def py_split_no_sep list_all_iff)
qed

end
