(* ===== verification/Ip_Address.thy ===== *)
theory Ip_Address
  imports Prelude
begin

text \<open>
  The part of Python's standard module \<open>ipaddress\<close> that the rule schema and the settings
  call: parsing of IPv4 and IPv6 addresses and networks, and \<open>is_loopback\<close>. An address is
  the integer the module keeps; \<open>None\<close> is the \<open>ValueError\<close> the callers catch.
\<close>

section \<open>IPv4\<close>

definition parse_octet :: "string \<Rightarrow> nat option" where
  "parse_octet s =
     (if s = [] \<or> \<not> list_all is_ascii_digit s then None
      else if 3 < length s then None
      else if s \<noteq> ''0'' \<and> hd s = CHR ''0'' then None
      else let n = read_nat s in if 255 < n then None else Some n)"

fun parse_octets :: "string list \<Rightarrow> nat \<Rightarrow> nat option" where
  "parse_octets [] acc = Some acc"
| "parse_octets (s # ss) acc =
     (case parse_octet s of None \<Rightarrow> None | Some n \<Rightarrow> parse_octets ss (256 * acc + n))"

definition ipv4_int :: "string \<Rightarrow> nat option" where
  "ipv4_int s =
     (let octets = py_split CHR ''.'' s
      in if s = [] \<or> length octets \<noteq> 4 then None else parse_octets octets 0)"

definition prefix_length :: "nat \<Rightarrow> string \<Rightarrow> nat option" where
  "prefix_length width s =
     (if s = [] \<or> \<not> list_all is_ascii_digit s then None
      else let n = read_nat s in if width < n then None else Some n)"

text \<open>A dotted netmask is a run of ones followed by zeros; a hostmask is the complement.\<close>

definition dotted_mask_ok :: "string \<Rightarrow> bool" where
  "dotted_mask_ok s = (case ipv4_int s of None \<Rightarrow> False
     | Some n \<Rightarrow> n \<in> set (map (\<lambda>k. 2 ^ 32 - 2 ^ k) [0..<33]) \<or> n \<in> set (map (\<lambda>k. 2 ^ k - 1) [0..<33]))"

definition ipv4_network_ok :: "string \<Rightarrow> bool" where
  "ipv4_network_ok s = (case py_split CHR ''/'' s of
       [addr] \<Rightarrow> ipv4_int addr \<noteq> None
     | [addr, msk] \<Rightarrow> ipv4_int addr \<noteq> None \<and> (prefix_length 32 msk \<noteq> None \<or> dotted_mask_ok msk)
     | _ \<Rightarrow> False)"

section \<open>IPv6\<close>

definition is_hex_digit :: "char \<Rightarrow> bool" where
  "is_hex_digit c \<longleftrightarrow> is_ascii_digit c \<or> (65 \<le> ord c \<and> ord c \<le> 70) \<or> (97 \<le> ord c \<and> ord c \<le> 102)"

definition parse_hextet :: "string \<Rightarrow> nat option" where
  "parse_hextet s =
     (if s = [] \<or> \<not> list_all is_hex_digit s \<or> 4 < length s then None
      else Some (read_base 16 (py_lower s)))"

fun parse_hextets :: "string list \<Rightarrow> nat \<Rightarrow> nat option" where
  "parse_hextets [] acc = Some acc"
| "parse_hextets (s # ss) acc =
     (case parse_hextet s of None \<Rightarrow> None | Some n \<Rightarrow> parse_hextets ss (65536 * acc + n))"

text \<open>\<open>addr, sep, scope = s.partition('%')\<close>: no scope, or a non-empty one without a percent sign.\<close>

definition split_scope :: "string \<Rightarrow> string option" where
  "split_scope s = (case py_split CHR 0x25 s of
       [addr] \<Rightarrow> Some addr
     | [addr, scope] \<Rightarrow> (if scope = [] then None else Some addr)
     | _ \<Rightarrow> None)"

text \<open>An IPv4 suffix becomes two hextets.\<close>

definition expand_v4_suffix :: "string list \<Rightarrow> string list option" where
  "expand_v4_suffix parts =
     (if CHR ''.'' \<in> set (last parts) then
        (case ipv4_int (last parts) of None \<Rightarrow> None
         | Some n \<Rightarrow> Some (butlast parts @ [hex_str (n div 65536), hex_str (n mod 65536)]))
      else Some parts)"

text \<open>The index of the one empty part between the end points, where \<open>::\<close> was.\<close>

definition inner_empty :: "string list \<Rightarrow> nat list" where
  "inner_empty parts = filter (\<lambda>i. parts ! i = []) [1..<length parts - 1]"

definition place_hextets :: "string list \<Rightarrow> nat option" where
  "place_hextets parts = (case inner_empty parts of
       [] \<Rightarrow> if length parts \<noteq> 8 then None else parse_hextets parts 0
     | [skip] \<Rightarrow>
         (let hi = (if hd parts = [] then skip - 1 else skip);
              lo0 = length parts - skip - 1;
              lo = (if last parts = [] then lo0 - 1 else lo0)
          in if hd parts = [] \<and> hi \<noteq> 0 then None
             else if last parts = [] \<and> lo \<noteq> 0 then None
             else if 8 < hi + lo + 1 then None
             else case parse_hextets (take hi parts) 0 of None \<Rightarrow> None
                  | Some h \<Rightarrow> parse_hextets (drop (length parts - lo) parts) (h * 65536 ^ (8 - (hi + lo))))
     | _ \<Rightarrow> None)"

definition ipv6_int :: "string \<Rightarrow> nat option" where
  "ipv6_int s = (case split_scope s of None \<Rightarrow> None
     | Some addr \<Rightarrow>
         (let parts = py_split CHR '':'' addr
          in if addr = [] \<or> length parts < 3 then None
             else case expand_v4_suffix parts of None \<Rightarrow> None
                  | Some ps \<Rightarrow> if 9 < length ps then None else place_hextets ps))"

definition ipv6_network_ok :: "string \<Rightarrow> bool" where
  "ipv6_network_ok s = (case py_split CHR ''/'' s of
       [addr] \<Rightarrow> ipv6_int addr \<noteq> None
     | [addr, msk] \<Rightarrow> ipv6_int addr \<noteq> None \<and> prefix_length 128 msk \<noteq> None
     | _ \<Rightarrow> False)"

section \<open>The entry points\<close>

text \<open>\<open>ipaddress.ip_network(s, strict=False)\<close> returns.\<close>

definition ip_network_ok :: "string \<Rightarrow> bool" where
  "ip_network_ok s \<longleftrightarrow> ipv4_network_ok s \<or> ipv6_network_ok s"

datatype ip_addr = V4 nat | V6 nat

definition ip_address :: "string \<Rightarrow> ip_addr option" where
  "ip_address s =
     (if CHR ''/'' \<in> set s then None
      else case ipv4_int s of Some n \<Rightarrow> Some (V4 n)
           | None \<Rightarrow> (case ipv6_int s of None \<Rightarrow> None | Some n \<Rightarrow> Some (V6 n)))"

text \<open>
  \<open>is_loopback\<close>: 127.0.0.0/8, or ::1; an IPv4-mapped IPv6 address answers as the IPv4 one does.
\<close>

fun is_loopback :: "ip_addr \<Rightarrow> bool" where
  "is_loopback (V4 n) = (n div 2 ^ 24 = 127)"
| "is_loopback (V6 n) =
     (if n div 2 ^ 32 = 0xFFFF then n mod 2 ^ 32 div 2 ^ 24 = 127 else n = 1)"

section \<open>What the parsers accept\<close>

lemma parse_octet_bound: "parse_octet s = Some n \<Longrightarrow> n \<le> 255"
  by (auto simp: parse_octet_def Let_def split: if_splits)

lemma parse_octets_bound:
  "parse_octets ss acc = Some n \<Longrightarrow> n < (acc + 1) * 256 ^ length ss"
proof (induction ss arbitrary: acc)
  case Nil
  then show ?case by simp
next
  case (Cons s ss)
  then obtain k where k: "parse_octet s = Some k" "parse_octets ss (256 * acc + k) = Some n"
    by (auto split: option.splits)
  have "n < (256 * acc + k + 1) * 256 ^ length ss" using Cons.IH k(2) by blast
  also have "\<dots> \<le> (256 * acc + 256) * 256 ^ length ss"
    using parse_octet_bound [OF k(1)] by (intro mult_le_mono1) simp
  finally show ?case by (simp add: algebra_simps)
qed

lemma ipv4_int_bound: "ipv4_int s = Some n \<Longrightarrow> n < 2 ^ 32"
  using parse_octets_bound [of "py_split CHR ''.'' s" 0 n]
  by (auto simp: ipv4_int_def Let_def split: if_splits)

lemma parse_octets_chars:
  "parse_octets ss acc = Some n \<Longrightarrow> s \<in> set ss \<Longrightarrow> list_all is_ascii_digit s"
  by (induction ss arbitrary: acc)
     (auto simp: parse_octet_def Let_def split: option.splits if_splits)

end
