(* ===== verification/Rule_Model.thy ===== *)
theory Rule_Model
  imports Prelude Ip_Address
begin

text \<open>
  The rule schema of \<open>models/rule.py\<close>: the enumerations, \<open>Condition\<close>, \<open>Rule\<close>, \<open>RuleChain\<close>,
  \<open>RuleCreate\<close>, \<open>RuleUpdate\<close> and \<open>DecisionRecord\<close>, each with the validators its model runs.
  A record is the model's data; the \<open>validate_\<close> function is what constructing the model does,
  with \<open>Inl\<close> for the \<open>ValidationError\<close>.
\<close>

section \<open>Enumerations and constants\<close>

definition KNOWN_FIELDS :: "string list" where
  "KNOWN_FIELDS = [''eventid'', ''filterhostname'', ''filterid'', ''filteripaddress'',
     ''filternodename'', ''filterpriority'', ''filtertype'', ''notificationtime'', ''name'',
     ''severity'']"

definition CEF_HEADER_FIELDS :: "string list" where
  "CEF_HEADER_FIELDS = [''cefversion'', ''devicevendor'', ''deviceproduct'', ''deviceversion'',
     ''deviceeventclassid'', ''name'', ''severity'']"

definition SYSLOG_FIELDS :: "string list" where
  "SYSLOG_FIELDS = [''syslog.appname'', ''syslog.facility'', ''syslog.hostname'',
     ''syslog.message'', ''syslog.msgid'', ''syslog.procid'', ''syslog.severity'',
     ''syslog.timestamp'']"

datatype operator =
    EQ | NE | IN | NOT_IN | CONTAINS | STARTS_WITH | ENDS_WITH | GLOB | CIDR
  | LT | LTE | GT | GTE | EXISTS | NOT_EXISTS

definition all_operators :: "operator list" where
  "all_operators = [EQ, NE, IN, NOT_IN, CONTAINS, STARTS_WITH, ENDS_WITH, GLOB, CIDR,
     LT, LTE, GT, GTE, EXISTS, NOT_EXISTS]"

definition NULLARY_OPERATORS :: "operator set" where
  "NULLARY_OPERATORS = {EXISTS, NOT_EXISTS}"

definition LIST_OPERATORS :: "operator set" where
  "LIST_OPERATORS = {IN, NOT_IN}"

definition NUMERIC_OPERATORS :: "operator set" where
  "NUMERIC_OPERATORS = {LT, LTE, GT, GTE}"

definition STRING_OPERATORS :: "operator set" where
  "STRING_OPERATORS = {CONTAINS, STARTS_WITH, ENDS_WITH, GLOB}"

lemmas operator_classes =
  NULLARY_OPERATORS_def LIST_OPERATORS_def NUMERIC_OPERATORS_def STRING_OPERATORS_def

datatype action = FORWARD | DROP

fun action_value :: "action \<Rightarrow> string" where
  "action_value FORWARD = ''forward''"
| "action_value DROP = ''drop''"

text \<open>\<open>Action(value)\<close>: \<open>None\<close> is the \<open>ValueError\<close> for any other string.\<close>

definition action_of :: "string \<Rightarrow> action option" where
  "action_of s = (if s = ''forward'' then Some FORWARD else if s = ''drop'' then Some DROP else None)"

lemma action_of_value [simp]: "action_of (action_value a) = Some a"
  by (cases a) (simp_all add: action_of_def)

lemma action_value_inj [simp]: "action_value a = action_value b \<longleftrightarrow> a = b"
  by (cases a; cases b) simp_all

section \<open>Values\<close>

text \<open>
  A finite float is the decimal its \<open>repr\<close> denotes (sign, digits, exponent of ten), which is
  the decimal \<open>Decimal(repr(value))\<close> keeps. A \<open>pyval\<close> is an object the encoder can meet;
  \<open>value_typed\<close> is the annotation \<open>ScalarValue | list[ScalarValue] | None\<close>.
\<close>

datatype pyfloat = Finite bool nat int | Infinite bool | NaN

datatype pyval =
    PNone | PStr string | PBool bool | PInt int | PFloat pyfloat | PList "pyval list"

fun is_scalar :: "pyval \<Rightarrow> bool" where
  "is_scalar (PStr _) = True"
| "is_scalar (PBool _) = True"
| "is_scalar (PInt _) = True"
| "is_scalar (PFloat _) = True"
| "is_scalar _ = False"

fun value_typed :: "pyval \<Rightarrow> bool" where
  "value_typed PNone = True"
| "value_typed (PList vs) = list_all is_scalar vs"
| "value_typed v = is_scalar v"

fun is_str :: "pyval \<Rightarrow> bool" where
  "is_str (PStr _) = True"
| "is_str _ = False"

fun is_list :: "pyval \<Rightarrow> bool" where
  "is_list (PList _) = True"
| "is_list _ = False"

lemma is_str_iff: "is_str v \<longleftrightarrow> (\<exists>s. v = PStr s)"
  by (cases v) simp_all

lemma is_list_iff: "is_list v \<longleftrightarrow> (\<exists>vs. v = PList vs)"
  by (cases v) simp_all

section \<open>Conditions\<close>

record condition =
  cond_field :: string
  cond_op :: operator
  cond_value :: pyval
  case_sensitive :: bool

datatype validation_error =
    FieldLength nat
  | EmptyPathSegment string
  | BadValueType
  | TakesNoValue operator
  | RequiresValue operator
  | RequiresListValue operator
  | RequiresNonEmptyList operator
  | ListNotAccepted operator
  | RequiresNumericValue operator
  | RequiresStringValue operator
  | InvalidCIDR string
  | GlobPatternTooLong
  | BadId string
  | NameLength nat
  | NegativeOrder int
  | ConditionCount nat
  | RetainNeedsDrop
  | DuplicateRuleId string
  | BadAction string

text \<open>\<open>_normalize_field\<close>.\<close>

definition normalize_field :: "string \<Rightarrow> (validation_error, string) result" where
  "normalize_field v =
     (let segments = map (\<lambda>s. py_lower (py_strip s)) (py_split CHR ''.'' (py_strip v))
      in if list_ex (\<lambda>s. s = []) segments then Inl (EmptyPathSegment v)
         else Inr (py_join ''.'' segments))"

text \<open>\<open>_check_value_shape\<close>.\<close>

definition check_value_shape :: "condition \<Rightarrow> (validation_error, condition) result" where
  "check_value_shape c =
     (let op = cond_op c; v = cond_value c in
      if op \<in> NULLARY_OPERATORS then
        (if v \<noteq> PNone then Inl (TakesNoValue op) else Inr c)
      else if v = PNone then Inl (RequiresValue op)
      else if op \<in> LIST_OPERATORS then
        (if \<not> is_list v then Inl (RequiresListValue op)
         else if v = PList [] then Inl (RequiresNonEmptyList op)
         else Inr c)
      else if is_list v then Inl (ListNotAccepted op)
      else if op \<in> NUMERIC_OPERATORS \<and> is_str v then Inl (RequiresNumericValue op)
      else if op \<in> STRING_OPERATORS \<and> \<not> is_str v then Inl (RequiresStringValue op)
      else if op = CIDR then
        (case v of PStr s \<Rightarrow> if ip_network_ok s then Inr c else Inl (InvalidCIDR s)
         | _ \<Rightarrow> Inl (RequiresStringValue CIDR))
      else if op = GLOB then
        (case v of PStr s \<Rightarrow> if 512 < length s then Inl GlobPatternTooLong else Inr c
         | _ \<Rightarrow> Inl (RequiresStringValue GLOB))
      else Inr c)"

text \<open>Constructing a \<open>Condition\<close>: the field constraints, then the two validators.\<close>

definition validate_condition :: "condition \<Rightarrow> (validation_error, condition) result" where
  "validate_condition c =
     (if length (cond_field c) < 1 \<or> 256 < length (cond_field c)
      then Inl (FieldLength (length (cond_field c)))
      else bindR (normalize_field (cond_field c)) (\<lambda>f.
        if \<not> value_typed (cond_value c) then Inl BadValueType
        else check_value_shape (c\<lparr>cond_field := f\<rparr>)))"

section \<open>Rules\<close>

record rule =
  rule_id :: string
  rule_name :: string
  rule_description :: string
  rule_enabled :: bool
  rule_order :: int
  rule_action :: action
  rule_conditions :: "condition list"
  rule_output :: string
  rule_retain :: bool
  rule_shadow :: bool
  rule_version :: int
  rule_updated :: int

text \<open>The pattern \<open>^[a-z0-9][a-z0-9-]{0,62}$\<close>.\<close>

definition is_id_start :: "char \<Rightarrow> bool" where
  "is_id_start c \<longleftrightarrow> (97 \<le> ord c \<and> ord c \<le> 122) \<or> is_ascii_digit c"

definition is_id_char :: "char \<Rightarrow> bool" where
  "is_id_char c \<longleftrightarrow> is_id_start c \<or> c = CHR ''-''"

fun id_pattern :: "string \<Rightarrow> bool" where
  "id_pattern [] = False"
| "id_pattern (c # cs) = (is_id_start c \<and> list_all is_id_char cs \<and> length cs \<le> 62)"

definition check_name :: "string \<Rightarrow> (validation_error, string) result" where
  "check_name s = (if length s < 1 \<or> 200 < length s then Inl (NameLength (length s)) else Inr s)"

definition check_order :: "int \<Rightarrow> (validation_error, int) result" where
  "check_order i = (if i < 0 then Inl (NegativeOrder i) else Inr i)"

definition check_conditions ::
    "condition list \<Rightarrow> (validation_error, condition list) result" where
  "check_conditions cs =
     (if length cs < 1 \<or> 64 < length cs then Inl (ConditionCount (length cs))
      else mapR validate_condition cs)"

text \<open>\<open>_check_retain_payload\<close>, the same check on \<open>Rule\<close> and \<open>RuleCreate\<close>.\<close>

definition check_retain_payload :: "bool \<Rightarrow> action \<Rightarrow> (validation_error, unit) result" where
  "check_retain_payload retain act = (if retain \<and> act \<noteq> DROP then Inl RetainNeedsDrop else Inr ())"

definition validate_rule :: "rule \<Rightarrow> (validation_error, rule) result" where
  "validate_rule r =
     (if \<not> id_pattern (rule_id r) then Inl (BadId (rule_id r))
      else bindR (check_name (rule_name r)) (\<lambda>_.
        bindR (check_order (rule_order r)) (\<lambda>_.
          bindR (check_conditions (rule_conditions r)) (\<lambda>cs.
            bindR (check_retain_payload (rule_retain r) (rule_action r)) (\<lambda>_.
              Inr (r\<lparr>rule_conditions := cs\<rparr>))))))"

section \<open>The chain\<close>

record rule_chain =
  chain_rules :: "rule list"
  default_action :: action
  shadow_mode :: bool

text \<open>\<open>_check_unique_and_sorted\<close>: the loop over the rules with the set of ids seen so far.\<close>

fun check_unique_ids :: "string set \<Rightarrow> rule list \<Rightarrow> (validation_error, unit) result" where
  "check_unique_ids seen [] = Inr ()"
| "check_unique_ids seen (r # rs) =
     (if rule_id r \<in> seen then Inl (DuplicateRuleId (rule_id r))
      else check_unique_ids (insert (rule_id r) seen) rs)"

definition validate_chain :: "rule_chain \<Rightarrow> (validation_error, rule_chain) result" where
  "validate_chain ch = bindR (check_unique_ids {} (chain_rules ch)) (\<lambda>_. Inr ch)"

text \<open>\<open>active\<close>: the enabled rules, sorted (stably) by order and then id.\<close>

definition order_key :: "rule \<Rightarrow> int \<times> string" where
  "order_key r = (rule_order r, rule_id r)"

definition active :: "rule_chain \<Rightarrow> rule list" where
  "active ch = sort_key order_key (filter rule_enabled (chain_rules ch))"

section \<open>The API payloads\<close>

record rule_create =
  new_name :: string
  new_description :: string
  new_enabled :: bool
  new_order :: int
  new_action :: action
  new_conditions :: "condition list"
  new_output :: string
  new_retain :: bool
  new_shadow :: bool

definition validate_create :: "rule_create \<Rightarrow> (validation_error, rule_create) result" where
  "validate_create p =
     bindR (check_name (new_name p)) (\<lambda>_.
       bindR (check_order (new_order p)) (\<lambda>_.
         bindR (check_conditions (new_conditions p)) (\<lambda>cs.
           bindR (check_retain_payload (new_retain p) (new_action p)) (\<lambda>_.
             Inr (p\<lparr>new_conditions := cs\<rparr>)))))"

text \<open>Every field of an update is optional; \<open>None\<close> covers both an absent field and a null.\<close>

record rule_update =
  upd_name :: "string option"
  upd_description :: "string option"
  upd_enabled :: "bool option"
  upd_order :: "int option"
  upd_action :: "action option"
  upd_conditions :: "condition list option"
  upd_output :: "string option"
  upd_retain :: "bool option"
  upd_shadow :: "bool option"

definition check_opt ::
    "('a \<Rightarrow> (validation_error, 'a) result) \<Rightarrow> 'a option \<Rightarrow> (validation_error, 'a option) result" where
  "check_opt f v = (case v of None \<Rightarrow> Inr None | Some x \<Rightarrow> bindR (f x) (\<lambda>y. Inr (Some y)))"

definition validate_update :: "rule_update \<Rightarrow> (validation_error, rule_update) result" where
  "validate_update p =
     bindR (check_opt check_name (upd_name p)) (\<lambda>_.
       bindR (check_opt check_order (upd_order p)) (\<lambda>_.
         bindR (check_opt check_conditions (upd_conditions p)) (\<lambda>cs.
           Inr (p\<lparr>upd_conditions := cs\<rparr>))))"

section \<open>Decisions\<close>

datatype decision = D_FORWARD | D_DROP | D_FORWARD_PARSE_ERROR

fun decision_value :: "decision \<Rightarrow> string" where
  "decision_value D_FORWARD = ''forward''"
| "decision_value D_DROP = ''drop''"
| "decision_value D_FORWARD_PARSE_ERROR = ''forward_parse_error''"

datatype reason = R_RULE | R_DEFAULT | R_PARSE_ERROR | R_SHADOW

record decision_record =
  dec_ts :: int
  dec_decision :: decision
  dec_rule_id :: "string option"
  dec_rule_version :: "int option"
  dec_reason :: reason
  dec_source :: "string option"
  dec_event_id :: "string option"
  dec_node :: "string option"
  dec_fields :: "(string \<times> string) list"
  dec_raw :: "string option"
  dec_extra :: "(string \<times> pyval) list"

section \<open>Normalising a field name\<close>

lemma py_join_length:
  "ss \<noteq> [] \<Longrightarrow> Suc (length (py_join [d] ss)) = length (concat ss) + length ss"
proof (induction ss)
  case Nil
  then show ?case by simp
next
  case (Cons s ss)
  then show ?case by (cases "ss = []") (simp_all add: py_join_Cons)
qed

lemma py_join_dot_eq: "py_join ''.'' ss = py_join [CHR ''.''] ss"
  by simp

text \<open>A segment that normalisation leaves as it is.\<close>

definition clean_segment :: "string \<Rightarrow> bool" where
  "clean_segment s \<longleftrightarrow> s \<noteq> [] \<and> py_lower s = s \<and> py_strip s = s \<and> CHR ''.'' \<notin> set s"

lemma clean_segment_hd_last:
  assumes "clean_segment s"
  shows "\<not> is_space (hd s)" "\<not> is_space (last s)"
  using assms by (auto simp: clean_segment_def py_strip_def strip_by_id_iff)

lemma dot_not_in_lower: "CHR ''.'' \<notin> set s \<Longrightarrow> CHR ''.'' \<notin> set (py_lower s)"
proof
  assume n: "CHR ''.'' \<notin> set s" and "CHR ''.'' \<in> set (py_lower s)"
  then obtain c where "c \<in> set s" and c: "lower_char c = CHR ''.''"
    unfolding py_lower_def by force
  moreover have "c = CHR ''.''"
    by (rule lower_char_eq_iff [THEN iffD1, OF _ _ c]) (simp_all add: lower_char_def)
  ultimately show False using n by simp
qed

lemma normalized_segment_clean:
  assumes "s \<in> set (py_split CHR ''.'' t)" and "py_lower (py_strip s) \<noteq> []"
  shows "clean_segment (py_lower (py_strip s))"
proof -
  have "CHR ''.'' \<notin> set s" using assms(1) by (rule py_split_no_delim)
  then have "CHR ''.'' \<notin> set (py_strip s)"
    using strip_by_set by (auto simp: py_strip_def)
  then show ?thesis
    using assms(2) by (simp add: clean_segment_def dot_not_in_lower strip_lower_comm)
qed

lemma normalize_field_Inr:
  assumes "normalize_field v = Inr f"
  obtains ss where "ss \<noteq> []" "list_all clean_segment ss" "f = py_join [CHR ''.''] ss"
    "length ss = length (py_split CHR ''.'' (py_strip v))" "length f \<le> length v"
proof -
  define ts where "ts = py_split CHR ''.'' (py_strip v)"
  define ss where "ss = map (\<lambda>s. py_lower (py_strip s)) ts"
  have f: "f = py_join [CHR ''.''] ss" and ne: "\<not> list_ex (\<lambda>s. s = []) ss"
    using assms by (auto simp: normalize_field_def Let_def ts_def ss_def split: if_splits)
  have nn: "ss \<noteq> []" by (simp add: ss_def ts_def)
  have cl: "list_all clean_segment ss"
    unfolding list_all_iff
  proof
    fix x assume x: "x \<in> set ss"
    then obtain t where t: "t \<in> set ts" "x = py_lower (py_strip t)" by (auto simp: ss_def)
    have "x \<noteq> []" using x ne by (auto simp: list_ex_iff)
    with t show "clean_segment x"
      using normalized_segment_clean [of t "py_strip v"] by (simp add: ts_def)
  qed
  have "length (concat ss) \<le> length (concat ts)"
    unfolding ss_def
    by (induction ts) (auto simp: py_strip_def intro: add_mono strip_by_length)
  moreover have "Suc (length f) = length (concat ss) + length ss"
    using py_join_length [OF nn] f by simp
  moreover have "length (concat ts) + length ts = Suc (length (py_strip v))"
    unfolding ts_def by (rule py_split_length_sum)
  moreover have "length (py_strip v) \<le> length v"
    by (simp add: py_strip_def strip_by_length)
  ultimately have "length f \<le> length v" by (simp add: ss_def)
  moreover have "length ss = length (py_split CHR ''.'' (py_strip v))"
    by (simp add: ss_def ts_def)
  ultimately show ?thesis using that nn cl f by blast
qed

lemma py_join_hd_last:
  assumes "ss \<noteq> []" and "list_all clean_segment ss"
  shows "py_join [d] ss \<noteq> []" "hd (py_join [d] ss) = hd (hd ss)"
    "last (py_join [d] ss) = last (last ss)"
proof -
  show ne: "py_join [d] ss \<noteq> []"
    using assms by (cases ss rule: remdups_adj.cases) (auto simp: clean_segment_def)
  show "hd (py_join [d] ss) = hd (hd ss)"
    using assms by (cases ss rule: remdups_adj.cases) (auto simp: clean_segment_def)
  show "last (py_join [d] ss) = last (last ss)"
    using assms
  proof (induction ss)
    case Nil
    then show ?case by simp
  next
    case (Cons s ss)
    show ?case
    proof (cases "ss = []")
      case False
      with Cons.prems have "py_join [d] ss \<noteq> []"
        by (cases ss rule: remdups_adj.cases) (auto simp: clean_segment_def)
      with Cons False show ?thesis by (simp add: py_join_Cons)
    qed simp
  qed
qed

lemma normalize_field_join:
  assumes "ss \<noteq> []" and "list_all clean_segment ss"
  shows "normalize_field (py_join [CHR ''.''] ss) = Inr (py_join [CHR ''.''] ss)"
proof -
  let ?f = "py_join [CHR ''.''] ss"
  have "py_strip ?f = ?f"
    using py_join_hd_last [OF assms] assms clean_segment_hd_last
    by (auto simp: py_strip_def strip_by_id_iff list_all_iff)
  moreover have "py_split CHR ''.'' ?f = ss"
    by (rule py_split_join) (use assms in \<open>auto simp: list_all_iff clean_segment_def\<close>)
  moreover have "map (\<lambda>s. py_lower (py_strip s)) ss = ss"
    using assms(2) by (intro map_idI) (auto simp: list_all_iff clean_segment_def)
  moreover have "\<not> list_ex (\<lambda>s. s = []) ss"
    using assms(2) by (auto simp: list_all_iff list_ex_iff clean_segment_def)
  ultimately show ?thesis by (simp add: normalize_field_def)
qed

lemma normalize_field_idem: "normalize_field v = Inr f \<Longrightarrow> normalize_field f = Inr f"
  by (elim normalize_field_Inr) (simp add: normalize_field_join)

section \<open>What a valid condition is\<close>

lemma check_value_shape_same: "check_value_shape c = Inr d \<Longrightarrow> d = c"
  by (auto simp: check_value_shape_def Let_def split: if_splits pyval.splits)

lemma check_value_shape_field:
  "check_value_shape (c\<lparr>cond_field := f\<rparr>) = Inr d \<longleftrightarrow>
     d = c\<lparr>cond_field := f\<rparr> \<and> check_value_shape c = Inr c"
  by (auto simp: check_value_shape_def Let_def split: if_splits pyval.splits)

lemma validate_condition_Inr_iff:
  "validate_condition c = Inr d \<longleftrightarrow>
     1 \<le> length (cond_field c) \<and> length (cond_field c) \<le> 256 \<and> value_typed (cond_value c) \<and>
     (\<exists>f. normalize_field (cond_field c) = Inr f \<and> d = c\<lparr>cond_field := f\<rparr> \<and>
        check_value_shape c = Inr c)"
  by (auto simp: validate_condition_def bindR_Inr_iff check_value_shape_field not_less Suc_le_eq
      split: if_splits)

text \<open>A condition as the model holds it after construction.\<close>

definition valid_condition :: "condition \<Rightarrow> bool" where
  "valid_condition c \<longleftrightarrow> validate_condition c = Inr c"

lemma validate_condition_idem: "validate_condition c = Inr d \<Longrightarrow> valid_condition d"
proof -
  assume a: "validate_condition c = Inr d"
  then obtain f where f: "normalize_field (cond_field c) = Inr f" "d = c\<lparr>cond_field := f\<rparr>"
    "check_value_shape c = Inr c" "length (cond_field c) \<le> 256" "value_typed (cond_value c)"
    by (auto simp: validate_condition_Inr_iff)
  obtain ss where ss: "ss \<noteq> []" "list_all clean_segment ss" "f = py_join [CHR ''.''] ss"
    "length f \<le> length (cond_field c)"
    using normalize_field_Inr [OF f(1)] by metis
  have "f \<noteq> []" using py_join_hd_last(1) [OF ss(1,2)] ss(3) by simp
  then have "1 \<le> length f" by (cases f) simp_all
  with f ss show ?thesis
    by (simp add: valid_condition_def validate_condition_Inr_iff check_value_shape_field
        normalize_field_join)
qed

lemma valid_condition_field:
  assumes "valid_condition c"
  obtains ss where "ss \<noteq> []" "list_all clean_segment ss" "cond_field c = py_join [CHR ''.''] ss"
    "length (cond_field c) \<le> 256"
proof -
  have "normalize_field (cond_field c) = Inr (cond_field c)" and l: "length (cond_field c) \<le> 256"
    using assms by (auto simp: valid_condition_def validate_condition_Inr_iff
        dest!: arg_cong [where f = cond_field])
  then show ?thesis using that by (elim normalize_field_Inr) simp
qed

lemma mapR_valid_conditions:
  "mapR validate_condition cs = Inr ds \<Longrightarrow> mapR validate_condition ds = Inr ds"
proof (induction cs arbitrary: ds)
  case Nil
  then show ?case by simp
next
  case (Cons c cs)
  then show ?case
    using validate_condition_idem by (auto simp: bindR_Inr_iff valid_condition_def)
qed

section \<open>Validating rules and chains\<close>

lemma check_conditions_idem: "check_conditions cs = Inr ds \<Longrightarrow> check_conditions ds = Inr ds"
  by (auto simp: check_conditions_def dest: mapR_valid_conditions mapR_length split: if_splits)

lemma check_conditions_valid:
  "check_conditions cs = Inr ds \<Longrightarrow>
     1 \<le> length ds \<and> length ds \<le> 64 \<and> list_all valid_condition ds"
proof -
  assume a: "check_conditions cs = Inr ds"
  then have m: "mapR validate_condition cs = Inr ds" and l: "1 \<le> length cs" "length cs \<le> 64"
    by (auto simp: check_conditions_def Suc_le_eq split: if_splits)
  have "list_all valid_condition ds"
    using mapR_in_set [OF m] by (auto simp: list_all_iff dest: validate_condition_idem)
  with mapR_length [OF m] l show ?thesis by simp
qed

definition valid_rule :: "rule \<Rightarrow> bool" where
  "valid_rule r \<longleftrightarrow> validate_rule r = Inr r"

lemma check_name_Inr [simp]: "check_name s = Inr t \<longleftrightarrow> t = s \<and> 1 \<le> length s \<and> length s \<le> 200"
  by (cases s) (auto simp: check_name_def)

lemma check_order_Inr [simp]: "check_order i = Inr j \<longleftrightarrow> j = i \<and> 0 \<le> i"
  by (auto simp: check_order_def)

lemma check_retain_Inr [simp]: "check_retain_payload b a = Inr u \<longleftrightarrow> (b \<longrightarrow> a = DROP)"
  by (auto simp: check_retain_payload_def)

lemma validate_rule_Inr_iff:
  "validate_rule r = Inr s \<longleftrightarrow>
     id_pattern (rule_id r) \<and> 1 \<le> length (rule_name r) \<and> length (rule_name r) \<le> 200 \<and>
     0 \<le> rule_order r \<and> (rule_retain r \<longrightarrow> rule_action r = DROP) \<and>
     (\<exists>cs. check_conditions (rule_conditions r) = Inr cs \<and> s = r\<lparr>rule_conditions := cs\<rparr>)"
  by (auto simp: validate_rule_def bindR_Inr_iff)

lemma validate_rule_valid: "validate_rule r = Inr s \<Longrightarrow> valid_rule s"
  by (auto simp: valid_rule_def validate_rule_Inr_iff dest: check_conditions_idem)

lemma valid_rule_conditions: "valid_rule r \<Longrightarrow> list_all valid_condition (rule_conditions r)"
  by (auto simp: valid_rule_def validate_rule_Inr_iff
      dest!: arg_cong [where f = rule_conditions] dest: check_conditions_valid)

lemma check_unique_ids_iff:
  "check_unique_ids seen rs = Inr () \<longleftrightarrow>
     distinct (map rule_id rs) \<and> seen \<inter> set (map rule_id rs) = {}"
  by (induction rs arbitrary: seen) auto

lemma validate_chain_iff: "validate_chain ch = Inr d \<longleftrightarrow> d = ch \<and> distinct (map rule_id (chain_rules ch))"
  by (auto simp: validate_chain_def bindR_Inr_iff check_unique_ids_iff)

section \<open>The evaluation order\<close>

lemma set_active: "set (active ch) = {r \<in> set (chain_rules ch). rule_enabled r}"
  by (simp add: active_def)

lemma active_sorted: "sorted (map order_key (active ch))"
  by (simp add: active_def)

lemma active_distinct:
  "distinct (map rule_id (chain_rules ch)) \<Longrightarrow> distinct (map order_key (active ch))"
  by (auto simp: active_def distinct_map order_key_def inj_on_def)

section \<open>Properties\<close>

text \<open>A rule accepted by the model is a fixed point of validation, and every field name in
  its conditions is a dot-separated path of nonempty segments without capitals or outer white
  space, which is what the compiler relies on when it splits the path.\<close>

theorem validate_rule_normalises:
  assumes "validate_rule r = Inr s"
  shows "validate_rule s = Inr s \<and> id_pattern (rule_id s) \<and>
    list_all (\<lambda>c. list_all clean_segment (py_split CHR ''.'' (cond_field c)) \<and>
      check_value_shape c = Inr c) (rule_conditions s)"
proof -
  have v: "valid_rule s" by (rule validate_rule_valid [OF assms])
  have "list_all clean_segment (py_split CHR ''.'' (cond_field c)) \<and> check_value_shape c = Inr c"
    if "valid_condition c" for c
  proof (rule valid_condition_field [OF that])
    fix ss assume "ss \<noteq> []" "list_all clean_segment ss" "cond_field c = py_join [CHR ''.''] ss"
    then have "py_split CHR ''.'' (cond_field c) = ss"
      by (simp add: py_split_join list_all_iff clean_segment_def)
    with \<open>list_all clean_segment ss\<close> show ?thesis
      using that by (auto simp: valid_condition_def validate_condition_Inr_iff)
  qed
  then show ?thesis
    using v valid_rule_conditions [OF v] by (auto simp: valid_rule_def validate_rule_Inr_iff list_all_iff)
qed

definition raw_rule :: rule where
  "raw_rule = \<lparr>rule_id = ''noisy-firewall'', rule_name = ''Noisy'', rule_description = [], rule_enabled = True,
     rule_order = 10, rule_action = DROP,
     rule_conditions = [\<lparr>cond_field = '' Syslog . Severity '', cond_op = EQ, cond_value = PStr ''info'',
       case_sensitive = False\<rparr>],
     rule_output = ''default'', rule_retain = True, rule_shadow = False, rule_version = 1, rule_updated = 0\<rparr>"

theorem validate_rule_normalises_witness:
  "\<exists>s. validate_rule raw_rule = Inr s \<and> validate_rule s = Inr s \<and>
     map cond_field (rule_conditions s) = [''syslog.severity'']"
proof -
  let ?s = "raw_rule\<lparr>rule_conditions := [\<lparr>cond_field = ''syslog.severity'', cond_op = EQ,
    cond_value = PStr ''info'', case_sensitive = False\<rparr>]\<rparr>"
  have v: "validate_rule raw_rule = Inr ?s" by code_simp
  show ?thesis using validate_rule_normalises [OF v] v by auto
qed

text \<open>The evaluation order of a chain with unique ids is strict: the active rules are the
  enabled ones, each once, in strictly increasing order of the pair of order and id.\<close>

theorem active_strict_order:
  assumes "validate_chain ch = Inr d"
  shows "sorted_wrt (<) (map order_key (active d)) \<and>
    set (active d) = {r \<in> set (chain_rules ch). rule_enabled r} \<and>
    length (active d) = length (filter rule_enabled (chain_rules ch))"
proof -
  have d: "d = ch" "distinct (map rule_id (chain_rules ch))" using assms by (auto simp: validate_chain_iff)
  then have "distinct (map order_key (active ch))" by (intro active_distinct)
  then have "sorted_wrt (<) (map order_key (active ch))"
    using active_sorted [of ch] by (simp add: strict_sorted_iff)
  with d show ?thesis using set_active [of ch] by (simp add: active_def)
qed

theorem active_strict_order_witness:
  "let ch = \<lparr>chain_rules = [raw_rule\<lparr>rule_id := ''b''\<rparr>, raw_rule\<lparr>rule_id := ''a''\<rparr>,
       raw_rule\<lparr>rule_id := ''c'', rule_order := 5\<rparr>, raw_rule\<lparr>rule_id := ''d'', rule_enabled := False\<rparr>],
       default_action = FORWARD, shadow_mode = False\<rparr>
   in map rule_id (active ch) = [''c'', ''a'', ''b''] \<and> sorted_wrt (<) (map order_key (active ch))"
proof -
  let ?ch = "\<lparr>chain_rules = [raw_rule\<lparr>rule_id := ''b''\<rparr>, raw_rule\<lparr>rule_id := ''a''\<rparr>,
       raw_rule\<lparr>rule_id := ''c'', rule_order := 5\<rparr>, raw_rule\<lparr>rule_id := ''d'', rule_enabled := False\<rparr>],
       default_action = FORWARD, shadow_mode = False\<rparr>"
  have v: "validate_chain ?ch = Inr ?ch" by (simp add: validate_chain_def)
  have ids: "map rule_id (active ?ch) = [''c'', ''a'', ''b'']" by code_simp
  show ?thesis unfolding Let_def using active_strict_order [OF v] ids by blast
qed

end
