(* ===== verification/Encoder.thy ===== *)
theory Encoder
  imports Prelude Rule_Model
begin

text \<open>
  The injection boundary, \<open>compiler/encoder.py\<close>: typed encoding of user values into VRL
  literals. The first sections are the module's functions; the last ones are readers of the
  literal forms (a quoted string, a plain decimal, a path, a regular expression of the
  generated shape) and the theorems that reading an encoded value gives the value back.
\<close>

section \<open>Limits and errors\<close>

definition MAX_STRING_LEN :: nat where "MAX_STRING_LEN = 4096"
definition MAX_LIST_LEN :: nat where "MAX_LIST_LEN = 1024"
definition MAX_NUMBER_LITERAL_LEN :: nat where "MAX_NUMBER_LITERAL_LEN = 128"

lemmas encoder_limits = MAX_STRING_LEN_def MAX_LIST_LEN_def MAX_NUMBER_LITERAL_LEN_def

datatype encode_error =
    StringTooLong nat
  | BoolIsNotANumber
  | NonFiniteFloat pyfloat
  | TooManyDigits pyfloat
  | IntOutOfRange int
  | ListTooLong nat
  | CannotEncode pyval
  | EmptyFieldName
  | FieldNameTooLong nat
  | EmptySegment string
  | GlobTooLong nat
  | RegexHasQuote
  | RegexHasNewline

section \<open>Strings\<close>

text \<open>\<open>_SIMPLE_ESCAPES.get\<close>.\<close>

definition simple_escape :: "char \<Rightarrow> string option" where
  "simple_escape c =
     (if c = BSLASH then Some [BSLASH, BSLASH]
      else if c = DQ then Some [BSLASH, DQ]
      else if c = NL then Some [BSLASH, CHR ''n'']
      else if c = CR then Some [BSLASH, CHR ''r'']
      else if c = TAB then Some [BSLASH, CHR ''t'']
      else None)"

text \<open>The body of the loop of \<open>encode_string\<close>.\<close>

definition escape_char :: "char \<Rightarrow> string" where
  "escape_char c = (case simple_escape c of
       Some e \<Rightarrow> e
     | None \<Rightarrow>
         if is_control c then [BSLASH, CHR ''u'', CHR ''{''] @ hex_str (ord c) @ ''}''
         else [c])"

definition encode_string :: "string \<Rightarrow> (encode_error, string) result" where
  "encode_string s =
     (if MAX_STRING_LEN < length s then Inl (StringTooLong (length s))
      else Inr (DQ # concat (map escape_char s) @ [DQ]))"

section \<open>Numbers\<close>

text \<open>\<open>format(Decimal(repr(value)), "f")\<close> for the decimal with these digits and exponent.\<close>

definition format_f :: "bool \<Rightarrow> nat \<Rightarrow> int \<Rightarrow> string" where
  "format_f neg coef e =
     (let ds = nat_str coef;
          e' = (if coef = 0 \<and> 0 < e then 0 else e);
          dotplace = e' + int (length ds);
          parts =
            (if dotplace < 0 then (''0'', replicate (nat (- dotplace)) (CHR ''0'') @ ds)
             else if int (length ds) < dotplace
             then (ds @ replicate (nat (dotplace - int (length ds))) (CHR ''0''), [])
             else ((if take (nat dotplace) ds = [] then ''0'' else take (nat dotplace) ds),
                   drop (nat dotplace) ds))
      in (if neg then ''-'' else []) @ fst parts @
         (if snd parts = [] then [] else CHR ''.'' # snd parts))"

fun encode_number :: "pyval \<Rightarrow> (encode_error, string) result" where
  "encode_number (PBool b) = Inl BoolIsNotANumber"
| "encode_number (PFloat (Finite neg coef e)) =
     (let text = format_f neg coef e
      in if MAX_NUMBER_LITERAL_LEN < length text then Inl (TooManyDigits (Finite neg coef e))
         else if CHR ''.'' \<notin> set text then Inr (text @ ''.0'')
         else Inr text)"
| "encode_number (PFloat f) = Inl (NonFiniteFloat f)"
| "encode_number (PInt i) =
     (if \<not> (- (2 ^ 63) \<le> i \<and> i < 2 ^ 63) then Inl (IntOutOfRange i) else Inr (int_str i))"
| "encode_number v = Inl (CannotEncode v)"

section \<open>Scalars and lists\<close>

lemma mapR_cong [fundef_cong]:
  "xs = ys \<Longrightarrow> (\<And>x. x \<in> set ys \<Longrightarrow> f x = g x) \<Longrightarrow> mapR f xs = mapR g ys"
  by (induction xs arbitrary: ys) auto

definition bracketed :: "string list \<Rightarrow> string" where
  "bracketed items = ''['' @ py_join '', '' items @ '']''"

fun encode :: "pyval \<Rightarrow> (encode_error, string) result" where
  "encode (PBool b) = Inr (if b then ''true'' else ''false'')"
| "encode (PStr s) = encode_string s"
| "encode (PInt i) = encode_number (PInt i)"
| "encode (PFloat f) = encode_number (PFloat f)"
| "encode (PList vs) =
     (if MAX_LIST_LEN < length vs then Inl (ListTooLong (length vs))
      else bindR (mapR encode vs) (\<lambda>items. Inr (bracketed items)))"
| "encode PNone = Inl (CannotEncode PNone)"

section \<open>Paths\<close>

definition encode_path :: "string \<Rightarrow> (encode_error, string) result" where
  "encode_path field =
     (if field = [] then Inl EmptyFieldName
      else if 256 < length field then Inl (FieldNameTooLong (length field))
      else
        (let segments = py_split CHR ''.'' field
         in if list_ex (\<lambda>s. s = []) segments then Inl (EmptySegment field)
            else bindR (mapR encode_string segments) (\<lambda>items. Inr (bracketed items))))"

section \<open>Globs and regular expressions\<close>

definition REGEX_META :: "char set" where
  "REGEX_META = {CHR ''.'', CHR ''^'', CHR ''$'', CHR ''+'', CHR ''('', CHR '')'', CHR ''['',
     CHR '']'', CHR ''{'', CHR ''}'', CHR ''|'', BSLASH, CHR ''*'', CHR ''?''}"

text \<open>The body of the loop of \<open>glob_to_regex\<close>.\<close>

definition glob_char :: "char \<Rightarrow> string" where
  "glob_char c =
     (if c = CHR ''*'' then ''.*''
      else if c = CHR ''?'' then ''.''
      else if c = SQ then [BSLASH, CHR ''x'', CHR ''2'', CHR ''7'']
      else if c \<in> REGEX_META then [BSLASH, c]
      else if is_control c then [BSLASH, CHR ''x''] @ zero_pad 2 (hex_str (ord c))
      else [c])"

definition glob_to_regex :: "string \<Rightarrow> bool \<Rightarrow> (encode_error, string) result" where
  "glob_to_regex pattern case_insensitive =
     (if 512 < length pattern then Inl (GlobTooLong (length pattern))
      else Inr ((if case_insensitive then ''(?i)'' else []) @
                ''^'' @ concat (map glob_char pattern) @ ''$''))"

definition encode_regex_literal :: "string \<Rightarrow> (encode_error, string) result" where
  "encode_regex_literal regex =
     (if SQ \<in> set regex then Inl RegexHasQuote
      else if NL \<in> set regex \<or> CR \<in> set regex then Inl RegexHasNewline
      else Inr ([CHR ''r'', SQ] @ regex @ [SQ]))"

section \<open>Comments\<close>

definition encode_comment :: "string \<Rightarrow> string" where
  "encode_comment text =
     (let flat = py_replace NL '' '' (py_replace CR '' '' text)
      in ''# '' @ (if 200 < length flat then take 197 flat @ ''...'' else flat))"

section \<open>Reading a string literal back\<close>

text \<open>
  The reader of a quoted literal: the escapes of the form the language defines, up to the
  closing quote. It returns the string and the text after the literal.
\<close>

fun read_string_body :: "string \<Rightarrow> (string \<times> string) option" where
  "read_string_body [] = None"
| "read_string_body (c # cs) =
     (if c = DQ then Some ([], cs)
      else if c = BSLASH then
        (case cs of
           [] \<Rightarrow> None
         | d # ds \<Rightarrow>
             if d = CHR ''u'' then
               (case ds of
                  [] \<Rightarrow> None
                | b # bs \<Rightarrow>
                    (let h = takeWhile (\<lambda>x. x \<noteq> CHR ''}'') bs
                     in map_option (apfst ((#) (char_of (read_base 16 h))))
                          (read_string_body (drop (Suc (length h)) bs))))
             else map_option (apfst ((#)
                    (if d = CHR ''n'' then NL else if d = CHR ''r'' then CR
                     else if d = CHR ''t'' then TAB else d)))
                  (read_string_body ds))
      else map_option (apfst ((#) c)) (read_string_body cs))"

declare read_string_body.simps(2) [simp del]

definition read_string :: "string \<Rightarrow> (string \<times> string) option" where
  "read_string t = (case t of c # cs \<Rightarrow> if c = DQ then read_string_body cs else None | [] \<Rightarrow> None)"

lemma hex_str_no_brace: "takeWhile (\<lambda>x. x \<noteq> CHR ''}'') (hex_str n @ CHR ''}'' # rest) = hex_str n"
proof -
  have "CHR ''}'' \<notin> set (hex_str n)"
  proof
    assume "CHR ''}'' \<in> set (hex_str n)"
    then obtain d where "d < 16" "CHR ''}'' = digit_char d"
      unfolding hex_str_def using base_digits_set [of 16] by auto
    then have "digit_val CHR ''}'' = d" by (simp add: digit_val_char)
    with \<open>d < 16\<close> show False by (simp add: digit_val_def)
  qed
  then show ?thesis by (simp add: takeWhile_append)
qed

lemma read_escape_char:
  "read_string_body (escape_char c @ rest) = map_option (apfst ((#) c)) (read_string_body rest)"
proof (cases "simple_escape c")
  case None
  then have c: "c \<noteq> BSLASH" "c \<noteq> DQ" by (auto simp: simple_escape_def split: if_splits)
  show ?thesis
  proof (cases "is_control c")
    case True
    with None have "escape_char c @ rest = BSLASH # CHR ''u'' # CHR ''{'' # hex_str (ord c) @ CHR ''}'' # rest"
      by (simp add: escape_char_def)
    then show ?thesis
      by (simp add: read_string_body.simps(2) Let_def hex_str_no_brace)
  next
    case False
    with None c show ?thesis by (simp add: escape_char_def read_string_body.simps(2))
  qed
next
  case (Some e)
  then show ?thesis
    by (auto simp: escape_char_def simple_escape_def read_string_body.simps(2) split: if_splits)
qed

lemma read_escaped: "read_string_body (concat (map escape_char s) @ DQ # rest) = Some (s, rest)"
proof (induction s)
  case Nil
  then show ?case by (simp add: read_string_body.simps(2))
next
  case (Cons c s)
  then show ?case by (simp add: read_escape_char)
qed

lemma encode_string_Inr_iff:
  "encode_string s = Inr t \<longleftrightarrow> length s \<le> 4096 \<and> t = DQ # concat (map escape_char s) @ [DQ]"
  by (auto simp: encode_string_def MAX_STRING_LEN_def)

lemma encode_string_succeeds: "succeeds (encode_string s) \<longleftrightarrow> length s \<le> 4096"
  by (simp add: succeeds_iff encode_string_Inr_iff)

lemma read_encode_string: "encode_string s = Inr t \<Longrightarrow> read_string (t @ rest) = Some (s, rest)"
  by (auto simp: encode_string_Inr_iff read_string_def read_escaped)

lemma escape_char_no_control: "d \<in> set (escape_char c) \<Longrightarrow> \<not> is_control d"
proof (cases "simple_escape c")
  case None
  assume d: "d \<in> set (escape_char c)"
  show ?thesis
  proof (cases "is_control c")
    case True
    with None d have "d \<in> {BSLASH, CHR ''u'', CHR ''{'', CHR ''}''} \<or> d \<in> set (hex_str (ord c))"
      by (auto simp: escape_char_def)
    moreover have "\<not> is_control d" if h: "d \<in> set (hex_str (ord c))"
    proof -
      obtain k where "k < 16" "d = digit_char k"
        using h base_digits_set [of 16 d "ord c"] unfolding hex_str_def by auto
      then show ?thesis by (simp add: digit_char_def is_control_def)
    qed
    ultimately show ?thesis by (auto simp: is_control_def)
  next
    case False
    with None d show ?thesis by (simp add: escape_char_def)
  qed
next
  case (Some e)
  assume "d \<in> set (escape_char c)"
  with Some show ?thesis
    by (auto simp: escape_char_def simple_escape_def is_control_def split: if_splits)
qed

section \<open>Reading a number back\<close>

definition read_decimal :: "string \<Rightarrow> bool \<times> nat \<times> nat" where
  "read_decimal t =
     (let neg = (t \<noteq> [] \<and> hd t = CHR ''-''); body = (if neg then tl t else t)
      in case py_split CHR ''.'' body of
           [a] \<Rightarrow> (neg, read_nat a, 0)
         | a # b # _ \<Rightarrow> (neg, read_nat (a @ b), length b))"

lemma read_base_append: "read_base b (s @ t) = read_base b s * b ^ length t + read_base b t"
proof (induction t rule: rev_induct)
  case Nil
  then show ?case by (simp add: read_base_def)
next
  case (snoc c t)
  have "read_base b (s @ t @ [c]) = b * read_base b (s @ t) + digit_val c"
    by (metis append_assoc read_base_snoc)
  with snoc show ?case by (simp add: read_base_snoc algebra_simps)
qed

lemma read_base_zeros [simp]: "read_base b (replicate k (CHR ''0'')) = 0"
  by (induction k) (simp_all add: read_base_def digit_val_def flip: replicate_append_same)

lemma read_nat_zeros_left [simp]: "read_nat (replicate k (CHR ''0'') @ s) = read_nat s"
  by (simp add: read_nat_def read_base_append)

lemma read_nat_zero_Cons [simp]: "read_nat (CHR ''0'' # s) = read_nat s"
  using read_nat_zeros_left [of 1 s] by simp

lemma read_nat_zeros_right [simp]: "read_nat (s @ replicate k (CHR ''0'')) = read_nat s * 10 ^ k"
  by (simp add: read_nat_def read_base_append)

text \<open>The digits and the point of a plain decimal.\<close>

definition plain_digits :: "string \<Rightarrow> bool" where
  "plain_digits s \<longleftrightarrow> list_all is_ascii_digit s"

lemma plain_digits_simps [simp]:
  "plain_digits []"
  "plain_digits (c # s) \<longleftrightarrow> is_ascii_digit c \<and> plain_digits s"
  "plain_digits (s @ t) \<longleftrightarrow> plain_digits s \<and> plain_digits t"
  "plain_digits (replicate k c) \<longleftrightarrow> k = 0 \<or> is_ascii_digit c"
  by (auto simp: plain_digits_def list_all_iff)

lemma plain_digits_nat_str [simp]: "plain_digits (nat_str n)"
  by (auto simp: plain_digits_def list_all_iff dest: nat_str_digits)

lemma plain_digits_take_drop:
  "plain_digits s \<Longrightarrow> plain_digits (take n s)" "plain_digits s \<Longrightarrow> plain_digits (drop n s)"
  by (auto simp: plain_digits_def list_all_iff dest: in_set_takeD in_set_dropD)

lemma plain_digits_no_dot: "plain_digits s \<Longrightarrow> CHR ''.'' \<notin> set s"
  by (auto simp: plain_digits_def list_all_iff is_ascii_digit_def)

lemma plain_digits_hd: "plain_digits s \<Longrightarrow> s \<noteq> [] \<Longrightarrow> hd s \<noteq> CHR ''-''"
  by (cases s) (auto simp: is_ascii_digit_def)

lemma ascii_digit_zero [simp]: "is_ascii_digit CHR ''0''"
  by (simp add: is_ascii_digit_def)

text \<open>What \<open>format_f\<close> produces: sign, integer digits, and fraction digits behind a point if any.\<close>

lemma format_f_shape:
  obtains ip fp where
    "format_f neg coef e = (if neg then ''-'' else []) @ ip @ (if fp = [] then [] else CHR ''.'' # fp)"
    "ip \<noteq> []" "plain_digits ip" "plain_digits fp"
    "read_nat (ip @ fp) * 10 ^ nat (- e) = coef * 10 ^ (nat e + length fp)"
proof -
  define ds where "ds = nat_str coef"
  define e' where "e' = (if coef = 0 \<and> 0 < e then 0 else e)"
  define dp where "dp = e' + int (length ds)"
  have ds: "plain_digits ds" "ds \<noteq> []" "read_nat ds = coef" by (simp_all add: ds_def)
  have fmt: "format_f neg coef e = (let parts =
            (if dp < 0 then (''0'', replicate (nat (- dp)) (CHR ''0'') @ ds)
             else if int (length ds) < dp
             then (ds @ replicate (nat (dp - int (length ds))) (CHR ''0''), [])
             else ((if take (nat dp) ds = [] then ''0'' else take (nat dp) ds),
                   drop (nat dp) ds))
      in (if neg then ''-'' else []) @ fst parts @
         (if snd parts = [] then [] else CHR ''.'' # snd parts))"
    by (simp add: format_f_def Let_def ds_def e'_def dp_def)
  consider "dp < 0" | "0 \<le> dp" "int (length ds) < dp" | "0 \<le> dp" "dp \<le> int (length ds)"
    by linarith
  then show ?thesis
  proof cases
    case 1
    then have e: "e' = e" "e < 0" by (auto simp: e'_def dp_def split: if_splits)
    have "nat (- dp) + length ds = nat (- e)" using 1 e by (simp add: dp_def)
    then have "read_nat (''0'' @ replicate (nat (- dp)) (CHR ''0'') @ ds) * 10 ^ nat (- e)
        = coef * 10 ^ (nat e + length (replicate (nat (- dp)) (CHR ''0'') @ ds))"
      using e ds by simp
    with 1 ds show ?thesis
      by (intro that [of "''0''" "replicate (nat (- dp)) (CHR ''0'') @ ds"]) (simp_all add: fmt)
  next
    case 2
    then have e: "e' = e" "0 < e" by (auto simp: e'_def dp_def split: if_splits)
    have "dp - int (length ds) = e" using e by (simp add: dp_def)
    with 2 ds e show ?thesis
      by (intro that [of "ds @ replicate (nat e) (CHR ''0'')" "[]"]) (simp_all add: fmt)
  next
    case 3
    let ?ip = "if take (nat dp) ds = [] then ''0'' else take (nat dp) ds"
    let ?fp = "drop (nat dp) ds"
    have e0: "e' \<le> 0" using 3 by (simp add: dp_def)
    have len: "length ?fp = nat (- e')" using 3 by (simp add: dp_def)
    have rd: "read_nat (?ip @ ?fp) = coef"
    proof (cases "take (nat dp) ds = []")
      case True
      then have "?fp = ds" using ds(2) by simp
      with True ds show ?thesis by simp
    qed (use ds in \<open>simp add: read_nat_def\<close>)
    have "coef * 10 ^ nat (- e) = coef * 10 ^ (nat e + nat (- e'))"
      using e0 by (auto simp: e'_def split: if_splits)
    with 3 ds rd len show ?thesis
      by (intro that [of ?ip ?fp]) (auto simp: fmt plain_digits_take_drop)
  qed
qed

lemma read_decimal_shape:
  assumes "plain_digits ip" "plain_digits fp" "ip \<noteq> []"
  shows "read_decimal ((if neg then ''-'' else []) @ ip @ CHR ''.'' # fp) = (neg, read_nat (ip @ fp), length fp)"
    and "read_decimal ((if neg then ''-'' else []) @ ip) = (neg, read_nat ip, 0)"
proof -
  have d: "CHR ''.'' \<notin> set ip" "CHR ''.'' \<notin> set fp" "hd ip \<noteq> CHR ''-''"
    using assms by (simp_all add: plain_digits_no_dot plain_digits_hd)
  show "read_decimal ((if neg then ''-'' else []) @ ip @ CHR ''.'' # fp) = (neg, read_nat (ip @ fp), length fp)"
    using d assms(3) by (simp add: read_decimal_def py_split_append py_split_no_sep)
  show "read_decimal ((if neg then ''-'' else []) @ ip) = (neg, read_nat ip, 0)"
    using d assms(3) by (simp add: read_decimal_def py_split_no_sep)
qed

text \<open>A float literal: optional sign, digits, a point, digits.\<close>

definition float_literal :: "string \<Rightarrow> bool" where
  "float_literal t \<longleftrightarrow> (\<exists>neg ip fp. t = (if neg then ''-'' else []) @ ip @ CHR ''.'' # fp \<and>
     ip \<noteq> [] \<and> fp \<noteq> [] \<and> plain_digits ip \<and> plain_digits fp)"

lemma encode_float_shape:
  assumes "encode_number (PFloat (Finite neg coef e)) = Inr t"
  obtains ip fp where "t = (if neg then ''-'' else []) @ ip @ CHR ''.'' # fp" "ip \<noteq> []" "fp \<noteq> []"
    "plain_digits ip" "plain_digits fp" "length t \<le> 130"
    "read_nat (ip @ fp) * 10 ^ nat (- e) = coef * 10 ^ (nat e + length fp)"
proof -
  obtain ip fp where f:
    "format_f neg coef e = (if neg then ''-'' else []) @ ip @ (if fp = [] then [] else CHR ''.'' # fp)"
    "ip \<noteq> []" "plain_digits ip" "plain_digits fp"
    "read_nat (ip @ fp) * 10 ^ nat (- e) = coef * 10 ^ (nat e + length fp)"
    by (rule format_f_shape [of neg coef e])
  have len: "length (format_f neg coef e) \<le> 128"
    using assms by (simp add: Let_def MAX_NUMBER_LITERAL_LEN_def split: if_splits)
  show ?thesis
  proof (cases "fp = []")
    case True
    with f have "CHR ''.'' \<notin> set (format_f neg coef e)" by (simp add: plain_digits_no_dot)
    with assms True f have "t = (if neg then ''-'' else []) @ ip @ CHR ''.'' # ''0''"
      by (simp add: Let_def split: if_splits)
    moreover have "read_nat (ip @ ''0'') = read_nat ip * 10"
      using read_nat_zeros_right [of ip 1] by simp
    ultimately show ?thesis
      using f True len by (intro that [of ip "''0''"]) simp_all
  next
    case False
    with f have "CHR ''.'' \<in> set (format_f neg coef e)" by simp
    with assms f False have "t = (if neg then ''-'' else []) @ ip @ CHR ''.'' # fp"
      by (simp add: Let_def split: if_splits)
    with f False len show ?thesis by (intro that [of ip fp]) simp_all
  qed
qed

section \<open>Reading a path back\<close>

lemma read_string_body_length: "read_string_body t = Some (s, r) \<Longrightarrow> length r < length t"
proof (induction t arbitrary: s rule: read_string_body.induct)
  case 1
  then show ?case by simp
next
  case (2 c cs)
  show ?case
  proof (cases "c = DQ \<or> c \<noteq> BSLASH")
    case True
    with 2 show ?thesis
      by (fastforce simp: read_string_body.simps(2) split: if_splits)
  next
    case False
    with "2.prems" obtain d ds where ds: "cs = d # ds"
      by (auto simp: read_string_body.simps(2) split: list.splits)
    show ?thesis
    proof (cases "d = CHR ''u''")
      case True
      with "2.prems" False ds obtain b bs where bs: "ds = b # bs"
        by (auto simp: read_string_body.simps(2) split: list.splits)
      define h where "h = takeWhile (\<lambda>x. x \<noteq> CHR ''}'') bs"
      from "2.prems" False ds bs True obtain s' where
        "read_string_body (drop (Suc (length h)) bs) = Some (s', r)"
        by (auto simp: read_string_body.simps(2) Let_def h_def)
      with "2.IH"(1) [of d ds b bs h s'] False ds bs True
      have "length r < length (drop (Suc (length h)) bs)" by (simp add: h_def)
      with ds bs show ?thesis by simp
    next
      case nu: False
      with "2.prems" False ds obtain s' where "read_string_body ds = Some (s', r)"
        by (auto simp: read_string_body.simps(2))
      with "2.IH"(2) [of d ds s'] False ds nu show ?thesis by simp
    qed
  qed
qed

lemma read_string_length: "read_string t = Some (s, r) \<Longrightarrow> length r < length t"
  by (cases t) (auto simp: read_string_def dest: read_string_body_length split: if_splits)

text \<open>String literals separated by a comma and a space, up to a closing bracket.\<close>

function read_items :: "string \<Rightarrow> (string list \<times> string) option" where
  "read_items t =
     (case read_string t of
        None \<Rightarrow> None
      | Some (s, r) \<Rightarrow>
          if r \<noteq> [] \<and> hd r = CHR '']'' then Some ([s], tl r)
          else if take 2 r = '', '' then map_option (apfst ((#) s)) (read_items (drop 2 r))
          else None)"
  by pat_completeness auto
termination
  by (relation "measure length") (auto dest: read_string_length)

declare read_items.simps [simp del]

definition read_path :: "string \<Rightarrow> (string list \<times> string) option" where
  "read_path t = (if t \<noteq> [] \<and> hd t = CHR ''['' then read_items (tl t) else None)"

lemma read_items_encoded:
  assumes "mapR encode_string ss = Inr items" and "ss \<noteq> []"
  shows "read_items (py_join '', '' items @ CHR '']'' # rest) = Some (ss, rest)"
  using assms
proof (induction ss arbitrary: items)
  case Nil
  then show ?case by simp
next
  case (Cons s ss)
  then obtain i js where i: "encode_string s = Inr i" "mapR encode_string ss = Inr js" "items = i # js"
    by (auto simp: bindR_Inr_iff)
  show ?case
  proof (cases "ss = []")
    case True
    with i show ?thesis
      by (subst read_items.simps) (simp add: read_encode_string)
  next
    case False
    then have "js \<noteq> []" using mapR_length [OF i(2)] by auto
    with i False Cons.IH [OF i(2)] show ?thesis
      by (subst read_items.simps) (simp add: py_join_Cons read_encode_string)
  qed
qed

lemma encode_path_Inr:
  assumes "encode_path f = Inr t"
  obtains items where "mapR encode_string (py_split CHR ''.'' f) = Inr items" "t = bracketed items"
    "f \<noteq> []" "length f \<le> 256" "list_all (\<lambda>s. s \<noteq> []) (py_split CHR ''.'' f)"
  using assms
  by (auto simp: encode_path_def Let_def bindR_Inr_iff list_all_iff list_ex_iff split: if_splits)

lemma read_encode_path: "encode_path f = Inr t \<Longrightarrow> read_path (t @ rest) = Some (py_split CHR ''.'' f, rest)"
  by (erule encode_path_Inr) (simp add: read_path_def bracketed_def read_items_encoded)

lemma encode_path_clean:
  assumes "ss \<noteq> []" "list_all clean_segment ss" "length (py_join [CHR ''.''] ss) \<le> 256"
  shows "\<exists>items. mapR encode_string ss = Inr items \<and>
     encode_path (py_join [CHR ''.''] ss) = Inr (bracketed items)"
proof -
  have sp: "py_split CHR ''.'' (py_join [CHR ''.''] ss) = ss"
    by (rule py_split_join) (use assms in \<open>auto simp: list_all_iff clean_segment_def\<close>)
  have "length s \<le> 4096" if "s \<in> set ss" for s
    using py_split_segment_length [of s "CHR ''.''" "py_join [CHR ''.''] ss"] that assms(3) sp by simp
  then have "succeeds (mapR encode_string ss)"
    by (simp add: mapR_succeeds_iff encode_string_succeeds)
  then obtain items where "mapR encode_string ss = Inr items"
    by (auto simp: succeeds_iff)
  moreover have "\<not> list_ex (\<lambda>s. s = []) ss"
    using assms(2) by (auto simp: list_all_iff list_ex_iff clean_segment_def)
  ultimately show ?thesis
    using assms py_join_hd_last(1) [OF assms(1,2)] by (simp add: encode_path_def sp)
qed

lemma encode_path_valid_condition: "valid_condition c \<Longrightarrow> succeeds (encode_path (cond_field c))"
  by (elim valid_condition_field) (metis encode_path_clean succeeds_simps(2))

section \<open>What a generated regular expression means\<close>

datatype glob_token = AnySequence | AnyChar | Literal char

definition glob_token :: "char \<Rightarrow> glob_token" where
  "glob_token c = (if c = CHR ''*'' then AnySequence else if c = CHR ''?'' then AnyChar else Literal c)"

text \<open>
  A reader of the regular expressions of the generated shape: the optional flag, the two
  anchors, and between them \<open>.*\<close>, \<open>.\<close>, escaped characters and plain characters that are not
  metacharacters.
\<close>

fun read_regex_body :: "string \<Rightarrow> glob_token list option" where
  "read_regex_body [] = None"
| "read_regex_body (c # cs) =
     (if c = CHR ''$'' then (if cs = [] then Some [] else None)
      else if c = CHR ''.'' then
        (if cs \<noteq> [] \<and> hd cs = CHR ''*''
         then map_option ((#) AnySequence) (read_regex_body (tl cs))
         else map_option ((#) AnyChar) (read_regex_body cs))
      else if c = BSLASH then
        (if cs = [] then None
         else if hd cs = CHR ''x''
         then map_option ((#) (Literal (char_of (read_base 16 (take 2 (tl cs))))))
                (read_regex_body (drop 3 cs))
         else if hd cs \<in> REGEX_META then map_option ((#) (Literal (hd cs))) (read_regex_body (tl cs))
         else None)
      else if c \<in> REGEX_META then None
      else map_option ((#) (Literal c)) (read_regex_body cs))"

declare read_regex_body.simps(2) [simp del]

definition read_regex :: "string \<Rightarrow> (bool \<times> glob_token list) option" where
  "read_regex t =
     (let ci = (take 4 t = ''(?i)''); body = (if ci then drop 4 t else t)
      in if body \<noteq> [] \<and> hd body = CHR ''^'' then map_option (Pair ci) (read_regex_body (tl body))
         else None)"

lemma base_digits_16_small: "n < 16 \<Longrightarrow> base_digits 16 n = [digit_char n]"
  by (subst base_digits.simps) simp

lemma control_hex:
  assumes "is_control c"
  shows "length (zero_pad 2 (hex_str (ord c))) = 2"
    and "read_base 16 (zero_pad 2 (hex_str (ord c))) = ord c"
    and "set (zero_pad 2 (hex_str (ord c))) \<subseteq> range digit_char"
proof -
  have len: "length (hex_str (ord c)) \<le> 2"
  proof (cases "ord c < 16")
    case False
    have "ord c div 16 < 16" by (simp add: less_mult_imp_div_less)
    with False show ?thesis
      unfolding hex_str_def by (subst base_digits.simps) (simp add: base_digits_16_small)
  qed (simp add: hex_str_def base_digits_16_small)
  then show "length (zero_pad 2 (hex_str (ord c))) = 2" by (simp add: zero_pad_def)
  show "read_base 16 (zero_pad 2 (hex_str (ord c))) = ord c"
    by (simp add: zero_pad_def read_base_append)
  have "CHR ''0'' = digit_char 0"
    by (rule of_char_eqI [where 'a = nat]) (simp add: digit_char_def)
  then have "CHR ''0'' \<in> range digit_char" by simp
  then show "set (zero_pad 2 (hex_str (ord c))) \<subseteq> range digit_char"
    using base_digits_set [of 16 _ "ord c"] by (fastforce simp: zero_pad_def hex_str_def)
qed

lemma read_glob_char:
  assumes "rest \<noteq> []" "hd rest \<noteq> CHR ''*''"
  shows "read_regex_body (glob_char c @ rest) = map_option ((#) (glob_token c)) (read_regex_body rest)"
proof -
  consider "c = CHR ''*''" | "c = CHR ''?''" | "c = SQ"
    | "c \<in> REGEX_META" "c \<noteq> CHR ''*''" "c \<noteq> CHR ''?''"
    | "is_control c" | "c \<notin> REGEX_META" "c \<noteq> SQ" "\<not> is_control c"
    by blast
  then show ?thesis
  proof cases
    case 5
    then have c: "c \<notin> REGEX_META" "c \<noteq> SQ" by (auto simp: is_control_def REGEX_META_def)
    moreover from c have "c \<noteq> CHR ''*''" "c \<noteq> CHR ''?''" by (auto simp: REGEX_META_def)
    moreover obtain a b where ab: "zero_pad 2 (hex_str (ord c)) = [a, b]"
      using control_hex(1) [OF 5] by (metis length_0_conv length_Suc_conv numeral_2_eq_2)
    ultimately show ?thesis
      using 5 control_hex(2) [OF 5] by (simp add: glob_char_def glob_token_def read_regex_body.simps(2))
  next
    case 4
    then have "c \<noteq> CHR ''x''" "c \<noteq> SQ" by (auto simp: REGEX_META_def)
    with 4 show ?thesis by (simp add: glob_char_def glob_token_def read_regex_body.simps(2))
  next
    case 3
    moreover have "char_of (39 :: nat) = SQ"
      by (rule of_char_eqI [where 'a = nat]) simp
    ultimately show ?thesis
      by (simp add: glob_char_def glob_token_def read_regex_body.simps(2) read_base_def digit_val_def)
  next
    case 6
    then have "c \<noteq> CHR ''$''" "c \<noteq> CHR ''.''" "c \<noteq> BSLASH" "c \<noteq> CHR ''*''" "c \<noteq> CHR ''?''"
      by (auto simp: REGEX_META_def)
    with 6 show ?thesis by (simp add: glob_char_def glob_token_def read_regex_body.simps(2))
  qed (use assms in \<open>simp_all add: glob_char_def glob_token_def read_regex_body.simps(2)\<close>)
qed

lemma glob_char_hd: "glob_char c \<noteq> [] \<and> hd (glob_char c) \<noteq> CHR ''*''"
  by (auto simp: glob_char_def REGEX_META_def)

lemma read_globbed:
  "read_regex_body (concat (map glob_char p) @ ''$'') = Some (map glob_token p)"
proof (induction p)
  case Nil
  then show ?case by (simp add: read_regex_body.simps(2))
next
  case (Cons c p)
  have "concat (map glob_char p) @ ''$'' \<noteq> [] \<and> hd (concat (map glob_char p) @ ''$'') \<noteq> CHR ''*''"
    using glob_char_hd by (cases p) auto
  with Cons show ?case by (simp add: read_glob_char)
qed

lemma glob_to_regex_Inr_iff:
  "glob_to_regex p ci = Inr t \<longleftrightarrow> length p \<le> 512 \<and>
     t = (if ci then ''(?i)'' else []) @ ''^'' @ concat (map glob_char p) @ ''$''"
  by (auto simp: glob_to_regex_def)

lemma read_glob_to_regex: "glob_to_regex p ci = Inr t \<Longrightarrow> read_regex t = Some (ci, map glob_token p)"
  by (cases ci) (simp_all add: glob_to_regex_Inr_iff read_regex_def Let_def read_globbed)

lemma glob_char_safe: "d \<in> set (glob_char c) \<Longrightarrow> d \<noteq> SQ \<and> \<not> is_control d"
proof -
  assume d: "d \<in> set (glob_char c)"
  show ?thesis
  proof (cases "is_control c")
    case True
    then have "c \<notin> REGEX_META" "c \<noteq> SQ" "c \<noteq> CHR ''*''" "c \<noteq> CHR ''?''"
      by (auto simp: is_control_def REGEX_META_def)
    with True d have "d = BSLASH \<or> d = CHR ''x'' \<or> d \<in> set (zero_pad 2 (hex_str (ord c)))"
      by (auto simp: glob_char_def)
    moreover have "d \<noteq> SQ \<and> \<not> is_control d" if h: "d \<in> set (zero_pad 2 (hex_str (ord c)))"
    proof -
      have "d = CHR ''0'' \<or> (\<exists>k<16. d = digit_char k)"
        using h base_digits_set [of 16 d "ord c"]
        by (auto simp: zero_pad_def hex_str_def split: if_splits)
      then show ?thesis
      proof
        assume "\<exists>k<16. d = digit_char k"
        then obtain k where k: "k < 16" "d = digit_char k" by blast
        then have "48 \<le> ord d" "ord d < 127" by (auto simp: digit_char_def)
        then show ?thesis by (auto simp: is_control_def)
      qed (simp add: is_control_def)
    qed
    ultimately show ?thesis by (auto simp: is_control_def)
  next
    case False
    have "d \<in> {CHR ''.'', CHR ''*'', BSLASH, CHR ''x'', CHR ''2'', CHR ''7''} \<or> (d = c \<and> c \<noteq> SQ)"
      using d False by (auto simp: glob_char_def split: if_splits)
    with False show ?thesis by (auto simp: is_control_def)
  qed
qed

lemma glob_regex_safe:
  assumes "glob_to_regex p ci = Inr t"
  shows "SQ \<notin> set t" "\<And>d. d \<in> set t \<Longrightarrow> \<not> is_control d"
  using assms glob_char_safe
  by (auto simp: glob_to_regex_Inr_iff is_control_def split: if_splits)

lemma encode_regex_literal_glob:
  assumes "glob_to_regex p ci = Inr t"
  shows "encode_regex_literal t = Inr ([CHR ''r'', SQ] @ t @ [SQ])"
  using glob_regex_safe [OF assms] by (force simp: encode_regex_literal_def is_control_def)

section \<open>Comments stay on their line\<close>

lemma py_replace_set: "d \<in> set (py_replace c r s) \<Longrightarrow> (d \<in> set s \<and> d \<noteq> c) \<or> d \<in> set r"
  by (auto simp: py_replace_def split: if_splits)

lemma py_replace_length: "length r = 1 \<Longrightarrow> length (py_replace c r s) = length s"
  by (induction s) (auto simp: py_replace_def)

lemma encode_comment_one_line: "d \<in> set (encode_comment t) \<Longrightarrow> d \<noteq> NL \<and> d \<noteq> CR"
proof -
  assume d: "d \<in> set (encode_comment t)"
  have "d \<in> set (py_replace NL '' '' (py_replace CR '' '' t)) \<or> d \<in> {CHR ''#'', CHR '' '', CHR ''.''}"
    using d by (auto simp: encode_comment_def Let_def dest: in_set_takeD split: if_splits)
  then show ?thesis by (auto dest!: py_replace_set)
qed

lemma encode_comment_length: "length (encode_comment t) \<le> 202"
  by (simp add: encode_comment_def Let_def)

section \<open>Properties\<close>


text \<open>A finite float is written as a plain decimal that always has a point and a digit on
  both sides of it, never an exponent, and the decimal read back is exactly the value: the
  coefficient times the power of ten.\<close>

theorem encode_float_exact:
  assumes "encode_number (PFloat (Finite neg coef e)) = Inr t"
  shows "float_literal t \<and>
    (case read_decimal t of (n, digits, places) \<Rightarrow>
       n = neg \<and> digits * 10 ^ nat (- e) = coef * 10 ^ (nat e + places))"
proof -
  obtain ip fp where t: "t = (if neg then ''-'' else []) @ ip @ CHR ''.'' # fp" "ip \<noteq> []" "fp \<noteq> []"
    "plain_digits ip" "plain_digits fp" "read_nat (ip @ fp) * 10 ^ nat (- e) = coef * 10 ^ (nat e + length fp)"
    by (rule encode_float_shape [OF assms]) blast
  then have "float_literal t" unfolding float_literal_def by blast
  then show ?thesis using t read_decimal_shape(1) [OF t(4,5,2), of neg] by simp
qed

theorem encode_float_exact_witness:
  "encode_number (PFloat (Finite True 15 (- 7))) = Inr ''-0.0000015'' \<and> float_literal ''-0.0000015''"
proof -
  have e: "encode_number (PFloat (Finite True 15 (- 7))) = Inr ''-0.0000015''" by code_simp
  show ?thesis using encode_float_exact [OF e] e by blast
qed

text \<open>C33: A list, number, boolean or missing value is encoded or rejected as the VRL value types
  require: an integer literal reads back as the integer and is accepted exactly in the signed
  64-bit range.\<close>

theorem encode_int_roundtrip:
  "case encode (PInt i) of
     Inl e \<Rightarrow> e = IntOutOfRange i \<and> (i < - (2 ^ 63) \<or> 2 ^ 63 \<le> i)
   | Inr t \<Rightarrow> - (2 ^ 63) \<le> i \<and> i < 2 ^ 63 \<and> read_int t = i"
  by auto

text \<open>The path literal of an encodable field name, read as a list of quoted segments, is the
  list of the name's dot-separated segments: a user value cannot add or merge path segments.\<close>

theorem encode_path_segments:
  "case encode_path field of
     Inl e \<Rightarrow> field = [] \<or> 256 < length field \<or> [] \<in> set (py_split CHR ''.'' field)
   | Inr t \<Rightarrow> read_path (t @ rest) = Some (py_split CHR ''.'' field, rest)"
proof (cases "encode_path field")
  case (Inl e)
  have "field = [] \<or> 256 < length field \<or> [] \<in> set (py_split CHR ''.'' field)"
  proof (rule ccontr)
    assume n: "\<not> ?thesis"
    then have "succeeds (mapR encode_string (py_split CHR ''.'' field))"
      using py_split_segment_length [of _ "CHR ''.''" field]
      by (fastforce simp: mapR_succeeds_iff encode_string_succeeds)
    with n Inl show False
      by (auto simp: encode_path_def Let_def list_ex_iff succeeds_iff split: if_splits)
  qed
  with Inl show ?thesis by simp
qed (simp add: read_encode_path)

text \<open>A glob becomes a regular expression that reads back as the glob, token by token,
  anchored at both ends, with the case flag; it holds no quote and no line break, so it always
  fits the raw literal.\<close>

theorem glob_regex_faithful:
  assumes "glob_to_regex p ci = Inr t"
  shows "read_regex t = Some (ci, map glob_token p) \<and>
    encode_regex_literal t = Inr ([CHR ''r'', SQ] @ t @ [SQ]) \<and> SQ \<notin> set t \<and> NL \<notin> set t"
  using read_glob_to_regex [OF assms] encode_regex_literal_glob [OF assms] glob_regex_safe [OF assms]
  by (fastforce simp: is_control_def)

theorem glob_regex_faithful_witness:
  "glob_to_regex ''a.*'' True = Inr [CHR ''('', CHR ''?'', CHR ''i'', CHR '')'', CHR ''^'', CHR ''a'', BSLASH,
     CHR ''.'', CHR ''.'', CHR ''*'', CHR ''$''] \<and>
   read_regex [CHR ''('', CHR ''?'', CHR ''i'', CHR '')'', CHR ''^'', CHR ''a'', BSLASH,
     CHR ''.'', CHR ''.'', CHR ''*'', CHR ''$''] = Some (True, [Literal CHR ''a'', Literal CHR ''.'', AnySequence])"
proof -
  have g: "glob_to_regex ''a.*'' True = Inr [CHR ''('', CHR ''?'', CHR ''i'', CHR '')'', CHR ''^'', CHR ''a'', BSLASH,
     CHR ''.'', CHR ''.'', CHR ''*'', CHR ''$'']" by code_simp
  have m: "map glob_token ''a.*'' = [Literal CHR ''a'', Literal CHR ''.'', AnySequence]" by code_simp
  show ?thesis using glob_regex_faithful [OF g] g m by simp
qed

text \<open>A comment built from user text stays on one line and is at most 202 characters long, so
  nothing the user writes can leave it.\<close>

theorem encode_comment_contained:
  "length (encode_comment t) \<le> 202 \<and> take 2 (encode_comment t) = ''# '' \<and>
   list_all (\<lambda>d. d \<noteq> NL \<and> d \<noteq> CR) (encode_comment t)"
  using encode_comment_one_line [of _ t] encode_comment_length [of t]
  by (auto simp: list_all_iff encode_comment_def Let_def)

end
