(* ===== verification/Py_Float.thy ===== *)
theory Py_Float
  imports Prelude Rule_Model
begin

text \<open>
  \<open>float(n)\<close> of a Python integer, as the decimal its \<open>repr\<close> denotes: exact below 2^53,
  rounded to 53 bits (ties to even) above, and \<open>OverflowError\<close> from 2^1024 on. The \<open>repr\<close> of a
  rounded value is the shortest decimal that rounds to it, nearest first.
\<close>

definition round_div :: "nat \<Rightarrow> nat \<Rightarrow> nat" where
  "round_div a b = (let q = a div b; r = a mod b in
     if 2 * r < b then q else if b < 2 * r then q + 1 else if even q then q else q + 1)"

fun bit_length :: "nat \<Rightarrow> nat" where
  "bit_length n = (if n = 0 then 0 else Suc (bit_length (n div 2)))"

declare bit_length.simps [simp del]

definition nearest_double :: "nat \<Rightarrow> nat" where
  "nearest_double n = (let k = bit_length n in
     if k \<le> 53 then n else round_div n (2 ^ (k - 53)) * 2 ^ (k - 53))"

text \<open>The digits of the shortest decimal for \<open>m\<close>, and the power of ten they are multiplied by.\<close>

definition shortest_decimal :: "nat \<Rightarrow> nat \<times> nat" where
  "shortest_decimal m =
     (let d = length (nat_str m);
          fits = (\<lambda>k. nearest_double (round_div m (10 ^ (d - k)) * 10 ^ (d - k)) = m)
      in case filter fits [1..<d] of
           [] \<Rightarrow> (m, 0)
         | k # _ \<Rightarrow> (round_div m (10 ^ (d - k)), d - k))"

definition int_to_float :: "int \<Rightarrow> pyfloat option" where
  "int_to_float i =
     (let n = nat \<bar>i\<bar>; neg = (i < 0) in
      if n < 2 ^ 53 then Some (Finite neg (10 * n) (-1))
      else let m = nearest_double n in
        if 2 ^ 1024 \<le> m then None
        else if m < 10 ^ 16 then Some (Finite neg (10 * m) (-1))
        else let (c, e) = shortest_decimal m in Some (Finite neg c (int e)))"

lemma int_to_float_exact:
  "\<bar>i\<bar> < 2 ^ 53 \<Longrightarrow> int_to_float i = Some (Finite (i < 0) (10 * nat \<bar>i\<bar>) (-1))"
  by (simp add: int_to_float_def nat_less_iff)

lemma bit_length_bound: "n < 2 ^ bit_length n"
proof (induction n rule: bit_length.induct)
  case (1 n)
  show ?case
  proof (cases "n = 0")
    case False
    with 1 have "n div 2 < 2 ^ bit_length (n div 2)" by simp
    with False show ?thesis by (subst bit_length.simps) simp
  qed simp
qed

lemma bit_length_le: "n < 2 ^ k \<Longrightarrow> bit_length n \<le> k"
proof (induction n arbitrary: k rule: bit_length.induct)
  case (1 n)
  show ?case
  proof (cases "n = 0")
    case True
    then show ?thesis by (simp add: bit_length.simps)
  next
    case False
    with 1 obtain j where j: "k = Suc j" by (cases k) auto
    with 1 False have "bit_length (n div 2) \<le> j" by simp
    with False j show ?thesis by (subst bit_length.simps) simp
  qed
qed

lemma bit_length_ge: "2 ^ k \<le> n \<Longrightarrow> k < bit_length n"
  using bit_length_bound [of n] by (meson le_less_trans nat_power_less_imp_less numeral_2_eq_2
      order_le_less_trans power_less_imp_less_exp zero_less_numeral one_less_numeral_iff semiring_norm(76))

text \<open>Rounding never moves a value below a power of two that it reaches.\<close>

lemma round_div_ge: "0 < b \<Longrightarrow> a div b \<le> round_div a b"
  by (simp add: round_div_def Let_def)

lemma nearest_double_ge_pow:
  assumes "2 ^ k \<le> n" and "53 \<le> k"
  shows "2 ^ k \<le> nearest_double n"
proof -
  define s where "s = bit_length n - 53"
  have k: "k < bit_length n" using assms(1) by (rule bit_length_ge)
  have pos: "n \<noteq> 0" using assms(1) by (metis le_zero_eq power_not_zero zero_neq_numeral)
  then have b: "bit_length n = Suc (bit_length (n div 2))" by (subst bit_length.simps) simp
  have top: "2 ^ (bit_length n - 1) \<le> n"
    using bit_length_le [of n "bit_length n - 1"] b by (metis Suc_n_not_le_n diff_Suc_1 not_less)
  define h :: nat where "h = 52"
  have h: "bit_length n - 1 = h + s" using k assms(2) by (simp add: s_def h_def)
  from top have "2 ^ h * 2 ^ s \<le> n" unfolding h power_add .
  then have "2 ^ h \<le> n div 2 ^ s" by (simp add: less_eq_div_iff_mult_less_eq)
  also have "\<dots> \<le> round_div n (2 ^ s)" by (rule round_div_ge) simp
  finally have "2 ^ h * 2 ^ s \<le> round_div n (2 ^ s) * 2 ^ s" by simp
  moreover have "(2::nat) ^ k \<le> 2 ^ h * 2 ^ s"
    using k h unfolding power_add [symmetric] by (intro power_increasing) simp_all
  ultimately have "2 ^ k \<le> round_div n (2 ^ s) * 2 ^ s" by (rule order_trans [rotated])
  then show ?thesis
    using k assms(2) by (simp add: nearest_double_def Let_def s_def)
qed

lemma int_to_float_overflow: "2 ^ 1024 \<le> \<bar>i\<bar> \<Longrightarrow> int_to_float i = None"
proof -
  assume a: "2 ^ 1024 \<le> \<bar>i\<bar>"
  then have n: "2 ^ 1024 \<le> nat \<bar>i\<bar>" by (simp add: nat_le_iff le_nat_iff)
  have "(2::nat) ^ 1024 \<le> nearest_double (nat \<bar>i\<bar>)"
    by (rule nearest_double_ge_pow [OF n]) simp
  moreover have "\<not> nat \<bar>i\<bar> < 2 ^ 53"
  proof -
    have "(2::nat) ^ 53 \<le> 2 ^ 1024" by (rule power_increasing) simp_all
    with n show ?thesis by linarith
  qed
  ultimately show ?thesis by (simp only: int_to_float_def Let_def if_False if_True)
qed

end
