(* ===== verification/Compiler.thy ===== *)
theory Compiler
  imports Prelude Rule_Model Encoder Py_Float
begin

text \<open>
  The rule compiler, \<open>compiler/compiler.py\<close>: one condition to a boolean VRL expression, a
  rule to a conjunction, a chain to a program. Every function returns the generated text, or
  the exception it raises. The generated text is kept character for character, including the
  constant prelude and the metadata lines.
\<close>

section \<open>Exceptions\<close>

text \<open>
  \<open>Encode\<close> is an \<open>EncodeError\<close> of the encoder; \<open>FloatOverflow\<close> is the \<open>OverflowError\<close> of
  \<open>float(value)\<close>; the others are \<open>CompileError\<close>s.
\<close>

datatype compile_exn =
    Encode encode_error
  | FloatOverflow int
  | NeedsList operator
  | NeedsString operator
  | NeedsNumber operator
  | NoConditions string
  | EncodingFailed encode_error

definition enc :: "(encode_error, 'a) result \<Rightarrow> (compile_exn, 'a) result" where
  "enc m = mapError Encode m"

lemma enc_simps [simp]: "enc (Inl e) = Inl (Encode e)" "enc (Inr x) = Inr x"
  by (simp_all add: enc_def)

lemma enc_Inr_iff [simp]: "enc m = Inr x \<longleftrightarrow> m = Inr x"
  by (cases m) simp_all

definition INDENT :: string where
  "INDENT = ''    ''"

section \<open>Expressions\<close>

text \<open>\<open>_value_expr\<close>, \<open>_text_expr\<close>, \<open>_number_expr\<close>.\<close>

definition value_expr :: "string \<Rightarrow> (compile_exn, string) result" where
  "value_expr field =
     bindR (enc (encode_path field)) (\<lambda>path. Inr (''(get(ev, '' @ path @ '') ?? null)''))"

definition text_expr :: "string \<Rightarrow> (compile_exn, string) result" where
  \<open>text_expr field =
     bindR (value_expr field) (\<lambda>v. Inr (''(to_string('' @ v @ '') ?? "")''))\<close>

definition number_expr :: "string \<Rightarrow> (compile_exn, string) result" where
  "number_expr field =
     bindR (value_expr field) (\<lambda>v. Inr (''(to_float('' @ v @ '') ?? null)''))"

text \<open>\<open>_string_operand\<close> and \<open>_literal_operand\<close>.\<close>

definition string_operand :: "string \<Rightarrow> bool \<Rightarrow> (compile_exn, string) result" where
  "string_operand field ci =
     bindR (text_expr field) (\<lambda>e.
       if \<not> ci then Inr (''downcase('' @ e @ '')'') else Inr e)"

definition literal_operand :: "pyval \<Rightarrow> bool \<Rightarrow> (compile_exn, string) result" where
  "literal_operand v ci =
     (case v of
        PStr s \<Rightarrow> if \<not> ci then enc (encode (PStr (py_lower s))) else enc (encode v)
      | _ \<Rightarrow> enc (encode v))"

text \<open>\<open>float(value)\<close> on the numbers the comparison branch lets through.\<close>

fun to_pyfloat :: "pyval \<Rightarrow> (compile_exn, pyfloat) result" where
  "to_pyfloat (PFloat f) = Inr f"
| "to_pyfloat (PInt i) = (case int_to_float i of None \<Rightarrow> Inl (FloatOverflow i) | Some f \<Rightarrow> Inr f)"
| "to_pyfloat v = Inl (Encode (CannotEncode v))"

fun is_number :: "pyval \<Rightarrow> bool" where
  "is_number (PInt _) = True"
| "is_number (PFloat _) = True"
| "is_number _ = False"

section \<open>Conditions\<close>

definition compile_equality :: "condition \<Rightarrow> (compile_exn, string) result" where
  "compile_equality c =
     bindR (if is_str (cond_value c)
            then bindR (string_operand (cond_field c) (case_sensitive c)) (\<lambda>left.
                   bindR (literal_operand (cond_value c) (case_sensitive c)) (\<lambda>right.
                     Inr (left, right)))
            else bindR (value_expr (cond_field c)) (\<lambda>left.
                   bindR (enc (encode (cond_value c))) (\<lambda>right. Inr (left, right))))
       (\<lambda>(left, right).
         Inr (''('' @ left @ '' '' @ (if cond_op c = EQ then ''=='' else ''!='') @ '' '' @ right @ '')''))"

definition compile_membership :: "condition \<Rightarrow> (compile_exn, string) result" where
  "compile_membership c =
     (case cond_value c of
        PList vs \<Rightarrow>
          bindR (if list_all is_str vs
                 then bindR (string_operand (cond_field c) (case_sensitive c)) (\<lambda>left.
                        bindR (mapR (\<lambda>v. literal_operand v (case_sensitive c)) vs) (\<lambda>items.
                          Inr (left, bracketed items)))
                 else bindR (value_expr (cond_field c)) (\<lambda>left.
                        bindR (enc (encode (PList vs))) (\<lambda>right. Inr (left, right))))
            (\<lambda>(left, right).
              let expr = ''includes('' @ right @ '', '' @ left @ '')''
              in Inr (if cond_op c = IN then ''('' @ expr @ '')'' else ''(!'' @ expr @ '')''))
      | _ \<Rightarrow> Inl (NeedsList (cond_op c)))"

fun substring_fn :: "operator \<Rightarrow> string" where
  "substring_fn CONTAINS = ''contains''"
| "substring_fn STARTS_WITH = ''starts_with''"
| "substring_fn _ = ''ends_with''"

definition compile_substring :: "condition \<Rightarrow> (compile_exn, string) result" where
  "compile_substring c =
     (case cond_value c of
        PStr s \<Rightarrow>
          bindR (text_expr (cond_field c)) (\<lambda>left.
            bindR (enc (encode_string s)) (\<lambda>needle.
              Inr (''('' @ substring_fn (cond_op c) @ ''('' @ left @ '', '' @ needle @
                   '', case_sensitive: '' @ (if case_sensitive c then ''true'' else ''false'') @ ''))'')))
      | _ \<Rightarrow> Inl (NeedsString (cond_op c)))"

definition compile_glob :: "condition \<Rightarrow> (compile_exn, string) result" where
  "compile_glob c =
     (case cond_value c of
        PStr s \<Rightarrow>
          bindR (enc (glob_to_regex s (\<not> case_sensitive c))) (\<lambda>regex.
            bindR (text_expr (cond_field c)) (\<lambda>left.
              bindR (enc (encode_regex_literal regex)) (\<lambda>lit.
                Inr (''(match('' @ left @ '', '' @ lit @ ''))''))))
      | _ \<Rightarrow> Inl (NeedsString GLOB))"

definition compile_cidr :: "condition \<Rightarrow> (compile_exn, string) result" where
  "compile_cidr c =
     (case cond_value c of
        PStr s \<Rightarrow>
          bindR (text_expr (cond_field c)) (\<lambda>left.
            bindR (enc (encode_string s)) (\<lambda>lit.
              Inr (''(ip_cidr_contains('' @ lit @ '', '' @ left @ '') ?? false)'')))
      | _ \<Rightarrow> Inl (NeedsString CIDR))"

fun comparison_sign :: "operator \<Rightarrow> string" where
  "comparison_sign LT = ''<''"
| "comparison_sign LTE = ''<=''"
| "comparison_sign GT = ''>''"
| "comparison_sign _ = ''>=''"

definition compile_comparison :: "condition \<Rightarrow> (compile_exn, string) result" where
  "compile_comparison c =
     (if \<not> is_number (cond_value c) then Inl (NeedsNumber (cond_op c))
      else bindR (number_expr (cond_field c)) (\<lambda>left.
             bindR (to_pyfloat (cond_value c)) (\<lambda>f.
               bindR (enc (encode (PFloat f))) (\<lambda>right.
                 Inr (''(('' @ left @ '' '' @ comparison_sign (cond_op c) @ '' '' @ right @
                      '') ?? false)'')))))"

definition compile_condition :: "condition \<Rightarrow> (compile_exn, string) result" where
  "compile_condition c =
     (case cond_op c of
        EXISTS \<Rightarrow> bindR (value_expr (cond_field c)) (\<lambda>v. Inr (''('' @ v @ '' != null)''))
      | NOT_EXISTS \<Rightarrow> bindR (value_expr (cond_field c)) (\<lambda>v. Inr (''('' @ v @ '' == null)''))
      | EQ \<Rightarrow> compile_equality c
      | NE \<Rightarrow> compile_equality c
      | IN \<Rightarrow> compile_membership c
      | NOT_IN \<Rightarrow> compile_membership c
      | CONTAINS \<Rightarrow> compile_substring c
      | STARTS_WITH \<Rightarrow> compile_substring c
      | ENDS_WITH \<Rightarrow> compile_substring c
      | GLOB \<Rightarrow> compile_glob c
      | CIDR \<Rightarrow> compile_cidr c
      | LT \<Rightarrow> compile_comparison c
      | LTE \<Rightarrow> compile_comparison c
      | GT \<Rightarrow> compile_comparison c
      | GTE \<Rightarrow> compile_comparison c)"

section \<open>Rules\<close>

definition compile_rule_predicate :: "rule \<Rightarrow> (compile_exn, string) result" where
  "compile_rule_predicate r =
     (if rule_conditions r = [] then Inl (NoConditions (rule_id r))
      else bindR (mapR compile_condition (rule_conditions r)) (\<lambda>parts. Inr (py_join '' && '' parts)))"

definition bool_text :: "bool \<Rightarrow> string" where
  "bool_text b = (if b then ''true'' else ''false'')"

text \<open>\<open>_emit_rule_branch\<close>.\<close>

definition emit_rule_branch :: "rule \<Rightarrow> bool \<Rightarrow> (compile_exn, string list) result" where
  "emit_rule_branch r first =
     (let keyword = (if first then ''if'' else ''} else if'');
          comment = encode_comment (rule_id r @ '': '' @
            (if rule_description r \<noteq> [] then rule_description r else rule_name r))
      in bindR (compile_rule_predicate r) (\<lambda>predicate.
           bindR (enc (encode_string (rule_id r))) (\<lambda>id_lit.
             bindR (enc (encode (PInt (rule_version r)))) (\<lambda>version_lit.
               bindR (enc (encode_string (action_value (rule_action r)))) (\<lambda>action_lit.
                 Inr [comment,
                      keyword @ '' '' @ predicate @ '' {'',
                      INDENT @ ''matched_id = '' @ id_lit,
                      INDENT @ ''matched_version = '' @ version_lit,
                      INDENT @ ''matched_action = '' @ action_lit,
                      INDENT @ ''matched_shadow = '' @ bool_text (rule_shadow r),
                      INDENT @ ''matched_retain = '' @ bool_text (rule_retain r)])))))"

section \<open>The program\<close>

text \<open>\<open>_PRELUDE\<close>, one string per line.\<close>

definition PRELUDE_LINES :: "string list" where
  \<open>PRELUDE_LINES = [
     ''# Generated by sixthsense. Do not edit by hand.'',
     ''# Any change here is overwritten on the next bundle publish.'',
     '''',
     ''raw = to_string(.message) ?? ""'',
     '''',
     ''# Every variable is initialized before the branches below. VRL scopes assignments to the'',
     ''# block they appear in, so a variable first assigned inside an if is undefined afterwards.'',
     ''ev = {}'',
     ''parse_ok = false'',
     ''syslog_ok = false'',
     ''cef_ok = false'',
     ''body = raw'',
     ''decision = "forward"'',
     ''reason = "default"'',
     '''',
     ''parsed, perr = parse_syslog(raw)'',
     ''if perr == null {'',
     ''    syslog_ok = true'',
     ''    body = to_string(get(parsed, ["message"]) ?? raw) ?? raw'',
     ''}'',
     '''',
     ''cef, cerr = parse_cef(body)'',
     '''',
     ''# Fall back to locating the CEF marker in the raw datagram.'',
     ''#'',
     ''# This is not defensive coding, it is the common case. `parse_syslog` treats "CEF:" as the'',
     ''# syslog tag and strips it, so the message body it hands back starts at "0|Vendor|..." and'',
     ''# is no longer valid CEF. Parsing from the marker in the original bytes recovers it.'',
     ''if cerr != null {'',
     ''    marker = find(raw, "CEF:")'',
     ''    # The `marker != null` guard is load-bearing. `find` is typed as returning an integer but'',
     ''    # returns null at runtime when the needle is absent, so `marker >= 0` compiles as an'',
     ''    # infallible integer comparison and then fails at runtime on every non-CEF event. The'',
     ''    # program aborts here, before any rule branch, and `.ss` is never assigned.'',
     ''    #'',
     ''    # `(marker >= 0) ?? false` does not work: VRL rejects it with E651, because the type'',
     ''    # checker believes the comparison cannot fail. Short-circuiting is the only form that'',
     ''    # both compiles and guards, so do not simplify this back.'',
     ''    if marker != null && marker >= 0 {'',
     ''        cef, cerr = parse_cef(slice!(raw, marker))'',
     ''    }'',
     ''}'',
     '''',
     ''if cerr == null {'',
     ''    ev = cef'',
     ''    cef_ok = true'',
     ''}'',
     '''',
     ''# D-07: field names match case-insensitively, so normalize once here rather than at every'',
     ''# comparison site.'',
     ''ev = map_keys(ev) -> |k| { downcase(k) }'',
     '''',
     ''# Syslog fields live in their own namespace rather than merged flat (D-14).'',
     ''#'',
     ''# Merging them would put two different things under one name. `severity` is a CEF header'',
     ''# integer from 0 to 10 where higher is worse, and a syslog severity word like "info" or'',
     ''# "err". One rule cannot mean both, and a flat merge silently picks whichever parser ran'',
     ''# last. Nesting makes `severity` and `syslog.severity` two fields an analyst can tell apart.'',
     ''#'',
     ''# CEF fields deliberately stay at the top level. All ten of the known field names are CEF'',
     ''# extension keys, so moving them would break every existing rule.'',
     ''#'',
     ''# map_keys is not recursive, so this subtree is downcased on the way in.'',
     ''if syslog_ok {'',
     ''    ev = set!(ev, ["syslog"], map_keys(parsed) -> |k| { downcase(k) })'',
     ''}'',
     '''',
     ''# D-18 means "neither parser could read it", not "it was not CEF". A plain syslog line is'',
     ''# parsed input and its rules must be enforced.'',
     ''parse_ok = syslog_ok || cef_ok'',
     '''',
     ''matched_id = null'',
     ''matched_version = null'',
     ''matched_action = null'',
     ''matched_shadow = false'',
     ''matched_retain = false'']\<close>

definition METADATA :: "string list" where
  \<open>METADATA = [
     ''ss_event_id = to_string(get(ev, ["eventid"]) ?? "") ?? ""'',
     ''if ss_event_id == "" { ss_event_id = to_string(get(ev, ["syslog", "msgid"]) ?? "") ?? "" }'',
     ''ss_severity = to_string(get(ev, ["severity"]) ?? "") ?? ""'',
     ''if ss_severity == "" { ss_severity = to_string(get(ev, ["syslog", "severity"]) ?? "") ?? "" }'',
     ''ss_host = to_string(get(ev, ["filterhostname"]) ?? "") ?? ""'',
     ''if ss_host == "" { ss_host = to_string(get(ev, ["syslog", "hostname"]) ?? "") ?? "" }'',
     ''ss_name = to_string(get(ev, ["name"]) ?? "") ?? ""'',
     ''if ss_name == "" { ss_name = to_string(get(ev, ["syslog", "appname"]) ?? "") ?? "" }'']\<close>

definition PRELUDE :: string where
  "PRELUDE = concat (map (\<lambda>l. l @ [NL]) PRELUDE_LINES)"

text \<open>The loop over the active rules, with the test for the first index.\<close>

fun emit_branches :: "rule list \<Rightarrow> bool \<Rightarrow> (compile_exn, string list) result" where
  "emit_branches [] first = Inr []"
| "emit_branches (r # rs) first =
     bindR (emit_rule_branch r first) (\<lambda>ls.
       bindR (emit_branches rs False) (\<lambda>rest. Inr (ls @ rest)))"

text \<open>The enforcement section and the record of the decision.\<close>

definition enforcement_lines :: "string \<Rightarrow> string \<Rightarrow> string list" where
  \<open>enforcement_lines default_lit chain_shadow =
     [''shadow_chain = '' @ chain_shadow,
      [],
      ''if !parse_ok {'',
      INDENT @ ''# D-18: unparseable input is forwarded, counted, and sampled.'',
      INDENT @ ''decision = "forward_parse_error"'',
      INDENT @ ''reason = "parse_error"'',
      ''} else if matched_id == null {'',
      INDENT @ ''# D-01: no rule matched, so the chain default applies.'',
      INDENT @ ''decision = '' @ default_lit,
      INDENT @ ''reason = "default"'',
      ''} else if matched_shadow || shadow_chain {'',
      INDENT @ ''# D-29: record the match, enforce nothing.'',
      INDENT @ ''decision = "forward"'',
      INDENT @ ''reason = "shadow"'',
      ''} else {'',
      INDENT @ ''decision = matched_action'',
      INDENT @ ''reason = "rule"'',
      ''}'',
      []]\<close>

definition result_lines :: "string \<Rightarrow> string list" where
  \<open>result_lines version_lit =
     [''.ss = {'',
      INDENT @ ''"chain_version": '' @ version_lit @ '','',
      INDENT @ ''"decision": decision,'',
      INDENT @ ''"reason": reason,'',
      INDENT @ ''"rule_id": matched_id,'',
      INDENT @ ''"rule_version": matched_version,'',
      INDENT @ ''"retain": matched_retain,'',
      INDENT @ ''"parse_ok": parse_ok,'',
      INDENT @ ''"cef_ok": cef_ok,'',
      INDENT @ ''"syslog_ok": syslog_ok,'',
      INDENT @ ''"ts": to_string(now()),'',
      INDENT @ ''"event_id": ss_event_id,'',
      INDENT @ ''"severity": ss_severity,'',
      INDENT @ ''"host": ss_host,'',
      INDENT @ ''"name": ss_name,'',
      ''}'']\<close>

definition chain_lines :: "rule_chain \<Rightarrow> int \<Rightarrow> (compile_exn, string list) result" where
  "chain_lines ch chain_version =
     (let rs = active ch in
      bindR (emit_branches rs True) (\<lambda>branches.
        bindR (enc (encode_string (action_value (default_action ch)))) (\<lambda>default_lit.
          bindR (enc (encode (PInt chain_version))) (\<lambda>version_lit.
            Inr ((if rs \<noteq> [] then branches @ [''}''] else []) @ [[]] @
                 enforcement_lines default_lit (bool_text (shadow_mode ch)) @
                 METADATA @ [[]] @
                 result_lines version_lit)))))"

definition compile_chain :: "rule_chain \<Rightarrow> int \<Rightarrow> (compile_exn, string) result" where
  "compile_chain ch chain_version =
     bindR (chain_lines ch chain_version) (\<lambda>lines. Inr (py_join [NL] (PRELUDE # lines) @ [NL]))"

definition compile_or_raise :: "rule_chain \<Rightarrow> int \<Rightarrow> (compile_exn, string) result" where
  "compile_or_raise ch chain_version =
     mapError (\<lambda>e. case e of Encode x \<Rightarrow> EncodingFailed x | _ \<Rightarrow> e) (compile_chain ch chain_version)"

end
