(* ===== verification/Lexical.thy ===== *)
theory Lexical
  imports Prelude Encoder
begin

text \<open>
  The scanners with which \<open>tests/test_compiler_properties.py\<close> states what the compiler must not
  do: \<open>_balanced\<close> and \<open>_strip_literals\<close>, and a third one for whole programs that also leaves
  comments out. Each is a step on a state, folded over the text.

  Generated text is a sequence of fragments: constant text, string literals, regular
  expression literals, comments. The locales say what the compiler relies on: to a scanner, a
  literal is the same whatever the user put inside it.
\<close>

section \<open>Fragments of generated text\<close>

datatype frag = Txt string | Lit string | Rgx string bool | Cmt string

fun render_frag :: "frag \<Rightarrow> string" where
  "render_frag (Txt s) = s"
| "render_frag (Lit s) = DQ # concat (map escape_char s) @ [DQ]"
| "render_frag (Rgx p ci) =
     [CHR ''r'', SQ] @ ((if ci then ''(?i)'' else []) @ ''^'' @ concat (map glob_char p) @ ''$'') @ [SQ]"
| "render_frag (Cmt s) = CHR ''#'' # s @ [NL]"

definition render :: "frag list \<Rightarrow> string" where
  "render fs = concat (map render_frag fs)"

text \<open>The fragment with what the user put inside it taken out.\<close>

fun blank :: "frag \<Rightarrow> frag" where
  "blank (Txt s) = Txt s"
| "blank (Lit s) = Lit []"
| "blank (Rgx p ci) = Rgx [] False"
| "blank (Cmt s) = Cmt []"

lemma render_simps [simp]:
  "render [] = []"
  "render (f # fs) = render_frag f @ render fs"
  "render (fs @ gs) = render fs @ render gs"
  by (simp_all add: render_def)

text \<open>Constant text holds no quote and no hash; a comment holds no line break.\<close>

fun frag_ok :: "frag \<Rightarrow> bool" where
  "frag_ok (Txt s) = list_all (\<lambda>c. c \<noteq> DQ \<and> c \<noteq> SQ \<and> c \<noteq> CHR ''#'') s"
| "frag_ok (Cmt s) = (NL \<notin> set s)"
| "frag_ok _ = True"

fun no_comment :: "frag \<Rightarrow> bool" where
  "no_comment (Cmt s) = False"
| "no_comment _ = True"

lemma encode_string_frag: "encode_string s = Inr t \<Longrightarrow> t = render_frag (Lit s)"
  by (simp add: encode_string_Inr_iff)

lemma regex_literal_frag:
  "glob_to_regex p ci = Inr r \<Longrightarrow> encode_regex_literal r = Inr t \<Longrightarrow> t = render_frag (Rgx p ci)"
  using encode_regex_literal_glob by (force simp: glob_to_regex_Inr_iff)

section \<open>Scanners to which literals are opaque\<close>

locale literal_scanner =
  fixes scan_step :: "'s \<Rightarrow> char \<Rightarrow> 's"
    and in_code :: "'s \<Rightarrow> bool"
  assumes scan_text: "in_code s \<Longrightarrow> frag_ok (Txt t) \<Longrightarrow> in_code (foldl scan_step s t)"
    and scan_literal: "in_code s \<Longrightarrow>
      foldl scan_step s (render_frag (Lit v)) = foldl scan_step s (render_frag (Lit []))"
    and scan_literal_code: "in_code s \<Longrightarrow> in_code (foldl scan_step s (render_frag (Lit v)))"
    and scan_regex: "in_code s \<Longrightarrow>
      foldl scan_step s (render_frag (Rgx p ci)) = foldl scan_step s (render_frag (Rgx [] False))"
    and scan_regex_code: "in_code s \<Longrightarrow> in_code (foldl scan_step s (render_frag (Rgx p ci)))"
begin

lemma scan_frag:
  assumes "in_code s" "frag_ok f" "no_comment f"
  shows "foldl scan_step s (render_frag f) = foldl scan_step s (render_frag (blank f))"
    and "in_code (foldl scan_step s (render_frag f))"
proof -
  have "foldl scan_step s (render_frag f) = foldl scan_step s (render_frag (blank f)) \<and>
    in_code (foldl scan_step s (render_frag f))"
  proof (cases f)
    case (Txt t)
    then show ?thesis using scan_text [OF assms(1)] assms(2) by simp
  next
    case (Lit v)
    show ?thesis unfolding Lit blank.simps
      using assms(1) by (intro conjI scan_literal scan_literal_code)
  next
    case (Rgx p ci)
    show ?thesis unfolding Rgx blank.simps
      using assms(1) by (intro conjI scan_regex scan_regex_code)
  next
    case (Cmt t)
    then show ?thesis using assms(3) by simp
  qed
  then show "foldl scan_step s (render_frag f) = foldl scan_step s (render_frag (blank f))"
    and "in_code (foldl scan_step s (render_frag f))" by blast+
qed

lemma scan_frags:
  assumes "in_code s" "list_all frag_ok fs" "list_all no_comment fs"
  shows "foldl scan_step s (render fs) = foldl scan_step s (render (map blank fs)) \<and>
    in_code (foldl scan_step s (render fs))"
  using assms
proof (induction fs arbitrary: s)
  case Nil
  then show ?case by simp
next
  case (Cons f fs)
  define s1 where "s1 = foldl scan_step s (render_frag f)"
  have c: "in_code s1" and e: "foldl scan_step s (render_frag (blank f)) = s1"
    using scan_frag [of s f] Cons.prems by (simp_all add: s1_def)
  have "foldl scan_step s1 (render fs) = foldl scan_step s1 (render (map blank fs)) \<and>
      in_code (foldl scan_step s1 (render fs))"
    by (rule Cons.IH [OF c]) (use Cons.prems in simp_all)
  then show ?case
    unfolding render_simps list.map foldl_append e s1_def [symmetric] .
qed

text \<open>Texts of the same shape are the same to the scanner.\<close>

lemma scan_same_shape:
  assumes "in_code s"
    and "list_all frag_ok fs" "list_all no_comment fs"
    and "list_all frag_ok gs" "list_all no_comment gs"
    and "map blank fs = map blank gs"
  shows "foldl scan_step s (render fs) = foldl scan_step s (render gs)"
  using scan_frags [OF assms(1-3)] scan_frags [OF assms(1,4,5)] assms(6) by simp

end

locale program_scanner = literal_scanner +
  assumes scan_comment: "in_code s \<Longrightarrow> NL \<notin> set t \<Longrightarrow>
      foldl scan_step s (render_frag (Cmt t)) = foldl scan_step s (render_frag (Cmt []))"
    and scan_comment_code: "in_code s \<Longrightarrow> in_code (foldl scan_step s (render_frag (Cmt [])))"
begin

lemma scan_program_frag:
  assumes "in_code s" "frag_ok f"
  shows "foldl scan_step s (render_frag f) = foldl scan_step s (render_frag (blank f)) \<and>
    in_code (foldl scan_step s (render_frag f))"
proof (cases "no_comment f")
  case True
  with assms show ?thesis using scan_frag by blast
next
  case False
  then obtain t where "f = Cmt t" by (cases f) auto
  then show ?thesis
    using scan_comment [OF assms(1), of t] scan_comment_code [OF assms(1)] assms(2)
    by (metis blank.simps(4) frag_ok.simps(2))
qed

lemma scan_program:
  assumes "in_code s" "list_all frag_ok fs"
  shows "foldl scan_step s (render fs) = foldl scan_step s (render (map blank fs)) \<and>
    in_code (foldl scan_step s (render fs))"
  using assms
proof (induction fs arbitrary: s)
  case Nil
  then show ?case by simp
next
  case (Cons f fs)
  define s1 where "s1 = foldl scan_step s (render_frag f)"
  have c: "in_code s1" and e: "foldl scan_step s (render_frag (blank f)) = s1"
    using scan_program_frag [of s f] Cons.prems unfolding s1_def by auto
  have "foldl scan_step s1 (render fs) = foldl scan_step s1 (render (map blank fs)) \<and>
      in_code (foldl scan_step s1 (render fs))"
    by (rule Cons.IH [OF c]) (use Cons.prems in simp_all)
  then show ?case
    unfolding render_simps list.map foldl_append e s1_def [symmetric] .
qed

lemma scan_program_same_shape:
  assumes "in_code s" "list_all frag_ok fs" "list_all frag_ok gs" "map blank fs = map blank gs"
  shows "foldl scan_step s (render fs) = foldl scan_step s (render gs)"
  using scan_program [OF assms(1,2)] scan_program [OF assms(1,3)] assms(4) by simp

end

section \<open>Stripping literals\<close>

text \<open>
  \<open>_strip_literals\<close>: the state is where the scan is and the text emitted so far. A quote after
  an emitted \<open>r\<close> opens a regular expression literal.
\<close>

datatype strip_mode = S_Code | S_String | S_Escape | S_Regex

fun strip_step :: "strip_mode \<times> string \<Rightarrow> char \<Rightarrow> strip_mode \<times> string" where
  "strip_step (S_Code, out) c =
     (if c = DQ then (S_String, out @ [DQ, CHR ''@'', DQ])
      else if c = SQ \<and> out \<noteq> [] \<and> last out = CHR ''r'' then (S_Regex, out @ [SQ, CHR ''@'', SQ])
      else (S_Code, out @ [c]))"
| "strip_step (S_String, out) c =
     (if c = BSLASH then (S_Escape, out) else if c = DQ then (S_Code, out) else (S_String, out))"
| "strip_step (S_Escape, out) c = (S_String, out)"
| "strip_step (S_Regex, out) c = (if c = SQ then (S_Code, out) else (S_Regex, out))"

definition strip_literals :: "string \<Rightarrow> string" where
  "strip_literals t = snd (foldl strip_step (S_Code, []) t)"

definition strip_in_code :: "strip_mode \<times> string \<Rightarrow> bool" where
  "strip_in_code s \<longleftrightarrow> fst s = S_Code"

lemma strip_text: "frag_ok (Txt t) \<Longrightarrow> foldl strip_step (S_Code, out) t = (S_Code, out @ t)"
  by (induction t arbitrary: out) auto

lemma escape_char_cases:
  obtains "escape_char c = [c]" "c \<noteq> BSLASH" "c \<noteq> DQ" "c \<noteq> NL"
  | d where "escape_char c = [BSLASH, d]"
  | h where "escape_char c = [BSLASH, CHR ''u'', CHR ''{''] @ h @ ''}''" "DQ \<notin> set h" "BSLASH \<notin> set h" "NL \<notin> set h"
proof (cases "simple_escape c")
  case None
  then have ne: "c \<noteq> BSLASH" "c \<noteq> DQ" "c \<noteq> NL" by (auto simp: simple_escape_def split: if_splits)
  show ?thesis
  proof (cases "is_control c")
    case True
    have "d \<noteq> DQ \<and> d \<noteq> BSLASH \<and> d \<noteq> NL" if h: "d \<in> set (hex_str (ord c))" for d
    proof -
      obtain k where "k < 16" "d = digit_char k"
        using h base_digits_set [of 16 d "ord c"] unfolding hex_str_def by auto
      then have "(48 \<le> ord d \<and> ord d \<le> 57) \<or> 97 \<le> ord d \<and> ord d \<le> 102"
        by (auto simp: digit_char_def)
      then show ?thesis by auto
    qed
    with True None show ?thesis
      by (intro that(3) [of "hex_str (ord c)"]) (auto simp: escape_char_def)
  next
    case False
    with None ne show ?thesis by (intro that(1)) (auto simp: escape_char_def)
  qed
next
  case (Some e)
  then show ?thesis
    by (intro that(2) [of "last e"]) (auto simp: escape_char_def simple_escape_def split: if_splits)
qed

lemma strip_string_plain:
  "DQ \<notin> set h \<Longrightarrow> BSLASH \<notin> set h \<Longrightarrow> foldl strip_step (S_String, out) h = (S_String, out)"
  by (induction h) auto

lemma strip_escape_char: "foldl strip_step (S_String, out) (escape_char c) = (S_String, out)"
  by (cases c rule: escape_char_cases) (simp_all add: strip_string_plain)

lemma strip_escaped: "foldl strip_step (S_String, out) (concat (map escape_char v)) = (S_String, out)"
  by (induction v) (simp_all add: strip_escape_char)

lemma strip_literal:
  "foldl strip_step (S_Code, out) (render_frag (Lit v)) = (S_Code, out @ [DQ, CHR ''@'', DQ])"
  by (simp add: strip_escaped)

lemma strip_regex_plain: "SQ \<notin> set h \<Longrightarrow> foldl strip_step (S_Regex, out) h = (S_Regex, out)"
  by (induction h) auto

lemma regex_body_no_quote: "SQ \<notin> set (concat (map glob_char p))"
  using glob_char_safe by auto

lemma strip_regex:
  "foldl strip_step (S_Code, out) (render_frag (Rgx p ci)) = (S_Code, out @ [CHR ''r'', SQ, CHR ''@'', SQ])"
  using regex_body_no_quote [of p] by (simp add: strip_regex_plain)

interpretation strip: literal_scanner strip_step strip_in_code
proof unfold_locales
  fix s :: "strip_mode \<times> string"
  assume "strip_in_code s"
  then obtain out where s: "s = (S_Code, out)" by (cases s) (simp add: strip_in_code_def)
  show "frag_ok (Txt t) \<Longrightarrow> strip_in_code (foldl strip_step s t)" for t
    by (simp add: s strip_text strip_in_code_def del: frag_ok.simps)
  show "foldl strip_step s (render_frag (Lit v)) = foldl strip_step s (render_frag (Lit []))" for v
    unfolding s strip_literal ..
  show "strip_in_code (foldl strip_step s (render_frag (Lit v)))" for v
    unfolding s strip_literal by (simp add: strip_in_code_def)
  show "foldl strip_step s (render_frag (Rgx p ci)) = foldl strip_step s (render_frag (Rgx [] False))" for p ci
    unfolding s strip_regex ..
  show "strip_in_code (foldl strip_step s (render_frag (Rgx p ci)))" for p ci
    unfolding s strip_regex by (simp add: strip_in_code_def)
qed

section \<open>The skeleton of a program\<close>

text \<open>
  The same for a whole program: the text outside literals and comments. A comment runs to the
  end of its line.
\<close>

datatype skel_mode = K_Code | K_String | K_Escape | K_Regex | K_Comment

fun skel_step :: "skel_mode \<times> string \<Rightarrow> char \<Rightarrow> skel_mode \<times> string" where
  "skel_step (K_Code, out) c =
     (if c = CHR ''#'' then (K_Comment, out)
      else if c = DQ then (K_String, out @ [DQ, CHR ''@'', DQ])
      else if c = SQ \<and> out \<noteq> [] \<and> last out = CHR ''r'' then (K_Regex, out @ [SQ, CHR ''@'', SQ])
      else (K_Code, out @ [c]))"
| "skel_step (K_String, out) c =
     (if c = BSLASH then (K_Escape, out) else if c = DQ then (K_Code, out) else (K_String, out))"
| "skel_step (K_Escape, out) c = (K_String, out)"
| "skel_step (K_Regex, out) c = (if c = SQ then (K_Code, out) else (K_Regex, out))"
| "skel_step (K_Comment, out) c = (if c = NL then (K_Code, out @ [NL]) else (K_Comment, out))"

definition skeleton :: "string \<Rightarrow> string" where
  "skeleton t = snd (foldl skel_step (K_Code, []) t)"

definition skel_in_code :: "skel_mode \<times> string \<Rightarrow> bool" where
  "skel_in_code s \<longleftrightarrow> fst s = K_Code"

lemma skel_text: "frag_ok (Txt t) \<Longrightarrow> foldl skel_step (K_Code, out) t = (K_Code, out @ t)"
  by (induction t arbitrary: out) auto

lemma skel_string_plain:
  "DQ \<notin> set h \<Longrightarrow> BSLASH \<notin> set h \<Longrightarrow> foldl skel_step (K_String, out) h = (K_String, out)"
  by (induction h) auto

lemma skel_escape_char: "foldl skel_step (K_String, out) (escape_char c) = (K_String, out)"
  by (cases c rule: escape_char_cases) (simp_all add: skel_string_plain)

lemma skel_escaped: "foldl skel_step (K_String, out) (concat (map escape_char v)) = (K_String, out)"
  by (induction v) (simp_all add: skel_escape_char)

lemma skel_literal:
  "foldl skel_step (K_Code, out) (render_frag (Lit v)) = (K_Code, out @ [DQ, CHR ''@'', DQ])"
  by (simp add: skel_escaped)

lemma skel_regex_plain: "SQ \<notin> set h \<Longrightarrow> foldl skel_step (K_Regex, out) h = (K_Regex, out)"
  by (induction h) auto

lemma skel_regex:
  "foldl skel_step (K_Code, out) (render_frag (Rgx p ci)) = (K_Code, out @ [CHR ''r'', SQ, CHR ''@'', SQ])"
  using regex_body_no_quote [of p] by (simp add: skel_regex_plain)

lemma skel_comment_plain: "NL \<notin> set h \<Longrightarrow> foldl skel_step (K_Comment, out) h = (K_Comment, out)"
  by (induction h) auto

lemma skel_comment:
  "NL \<notin> set t \<Longrightarrow> foldl skel_step (K_Code, out) (render_frag (Cmt t)) = (K_Code, out @ [NL])"
  by (simp add: skel_comment_plain)

interpretation skel: program_scanner skel_step skel_in_code
proof unfold_locales
  fix s :: "skel_mode \<times> string"
  assume "skel_in_code s"
  then obtain out where s: "s = (K_Code, out)" by (cases s) (simp add: skel_in_code_def)
  show "frag_ok (Txt t) \<Longrightarrow> skel_in_code (foldl skel_step s t)" for t
    by (simp add: s skel_text skel_in_code_def del: frag_ok.simps)
  show "foldl skel_step s (render_frag (Lit v)) = foldl skel_step s (render_frag (Lit []))" for v
    unfolding s skel_literal ..
  show "skel_in_code (foldl skel_step s (render_frag (Lit v)))" for v
    unfolding s skel_literal by (simp add: skel_in_code_def)
  show "foldl skel_step s (render_frag (Rgx p ci)) = foldl skel_step s (render_frag (Rgx [] False))" for p ci
    unfolding s skel_regex ..
  show "skel_in_code (foldl skel_step s (render_frag (Rgx p ci)))" for p ci
    unfolding s skel_regex by (simp add: skel_in_code_def)
  show "foldl skel_step s (render_frag (Cmt t)) = foldl skel_step s (render_frag (Cmt []))"
    if "NL \<notin> set t" for t
    using that by (simp add: s skel_comment del: render_frag.simps)
  show "skel_in_code (foldl skel_step s (render_frag (Cmt [])))"
    by (simp add: s skel_comment skel_in_code_def del: render_frag.simps)
qed

section \<open>Balanced brackets\<close>

text \<open>
  \<open>_balanced\<close>: the mode, the previous character (\<open>text[index - 1]\<close>), the three depths, and
  whether some depth has gone below zero, where the function returns \<open>False\<close> at once.
\<close>

datatype bal_mode = B_Code | B_String | B_Escape | B_Regex | B_Comment

record bal =
  bal_mode :: bal_mode
  bal_prev :: "char option"
  depth_paren :: int
  depth_brace :: int
  depth_brack :: int
  bal_failed :: bool

definition bal_init :: bal where
  "bal_init = \<lparr>bal_mode = B_Code, bal_prev = None, depth_paren = 0, depth_brace = 0,
     depth_brack = 0, bal_failed = False\<rparr>"

definition bal_code_char :: "bal \<Rightarrow> char \<Rightarrow> bal" where
  "bal_code_char s c =
     (if c = CHR ''#'' then s\<lparr>bal_mode := B_Comment\<rparr>
      else if c = DQ then s\<lparr>bal_mode := B_String\<rparr>
      else if c = SQ \<and> bal_prev s = Some CHR ''r'' then s\<lparr>bal_mode := B_Regex\<rparr>
      else if c = CHR ''('' then s\<lparr>depth_paren := depth_paren s + 1\<rparr>
      else if c = CHR ''{'' then s\<lparr>depth_brace := depth_brace s + 1\<rparr>
      else if c = CHR ''['' then s\<lparr>depth_brack := depth_brack s + 1\<rparr>
      else if c = CHR '')'' then
        s\<lparr>depth_paren := depth_paren s - 1, bal_failed := bal_failed s \<or> depth_paren s - 1 < 0\<rparr>
      else if c = CHR ''}'' then
        s\<lparr>depth_brace := depth_brace s - 1, bal_failed := bal_failed s \<or> depth_brace s - 1 < 0\<rparr>
      else if c = CHR '']'' then
        s\<lparr>depth_brack := depth_brack s - 1, bal_failed := bal_failed s \<or> depth_brack s - 1 < 0\<rparr>
      else s)"

definition bal_step :: "bal \<Rightarrow> char \<Rightarrow> bal" where
  "bal_step s c =
     (case bal_mode s of
        B_Comment \<Rightarrow> (if c = NL then s\<lparr>bal_mode := B_Code\<rparr> else s)
      | B_String \<Rightarrow>
          (if c = BSLASH then s\<lparr>bal_mode := B_Escape\<rparr>
           else if c = DQ then s\<lparr>bal_mode := B_Code\<rparr> else s)
      | B_Escape \<Rightarrow> s\<lparr>bal_mode := B_String\<rparr>
      | B_Regex \<Rightarrow> (if c = SQ then s\<lparr>bal_mode := B_Code\<rparr> else s)
      | B_Code \<Rightarrow> bal_code_char s c)\<lparr>bal_prev := Some c\<rparr>"

definition balanced :: "string \<Rightarrow> bool" where
  "balanced t =
     (let s = foldl bal_step bal_init t
      in \<not> bal_failed s \<and> depth_paren s = 0 \<and> depth_brace s = 0 \<and> depth_brack s = 0 \<and>
         bal_mode s \<in> {B_Code, B_Comment})"

definition bal_in_code :: "bal \<Rightarrow> bool" where
  "bal_in_code s \<longleftrightarrow> bal_mode s = B_Code"

lemma bal_code_char_mode:
  "c \<noteq> DQ \<Longrightarrow> c \<noteq> SQ \<Longrightarrow> c \<noteq> CHR ''#'' \<Longrightarrow> bal_mode (bal_code_char s c) = bal_mode s"
  by (simp add: bal_code_char_def)

lemma bal_text: "bal_in_code s \<Longrightarrow> frag_ok (Txt t) \<Longrightarrow> bal_in_code (foldl bal_step s t)"
  by (induction t arbitrary: s) (auto simp: bal_in_code_def bal_step_def bal_code_char_mode)

text \<open>Inside a literal or a comment, characters only move the previous character along.\<close>

definition bal_move :: "bal \<Rightarrow> string \<Rightarrow> bal" where
  "bal_move s t = (if t = [] then s else s\<lparr>bal_prev := Some (last t)\<rparr>)"

lemma bal_move_append: "bal_move (bal_move s t) u = bal_move s (t @ u)"
  by (simp add: bal_move_def)

lemma bal_move_mode [simp]: "bal_mode (bal_move s t) = bal_mode s"
  by (simp add: bal_move_def)

lemma bal_string_plain:
  "bal_mode s = B_String \<Longrightarrow> DQ \<notin> set h \<Longrightarrow> BSLASH \<notin> set h \<Longrightarrow> foldl bal_step s h = bal_move s h"
  by (induction h arbitrary: s) (auto simp: bal_step_def bal_move_def)

lemma bal_regex_plain:
  "bal_mode s = B_Regex \<Longrightarrow> SQ \<notin> set h \<Longrightarrow> foldl bal_step s h = bal_move s h"
  by (induction h arbitrary: s) (auto simp: bal_step_def bal_move_def)

lemma bal_comment_plain:
  "bal_mode s = B_Comment \<Longrightarrow> NL \<notin> set h \<Longrightarrow> foldl bal_step s h = bal_move s h"
  by (induction h arbitrary: s) (auto simp: bal_step_def bal_move_def)

lemma bal_escape_char:
  assumes "bal_mode s = B_String"
  shows "foldl bal_step s (escape_char c) = bal_move s (escape_char c)"
proof (cases c rule: escape_char_cases)
  case 1
  with assms show ?thesis by (simp add: bal_step_def bal_move_def)
next
  case (2 d)
  with assms show ?thesis by (simp add: bal_step_def bal_move_def)
next
  case (3 h)
  have "foldl bal_step s [BSLASH, CHR ''u'', CHR ''{''] = bal_move s [BSLASH, CHR ''u'', CHR ''{'']"
    using assms by (simp add: bal_step_def bal_move_def)
  moreover have "foldl bal_step (bal_move s [BSLASH, CHR ''u'', CHR ''{'']) (h @ ''}'') =
      bal_move (bal_move s [BSLASH, CHR ''u'', CHR ''{'']) (h @ ''}'')"
    by (rule bal_string_plain) (use assms 3 in auto)
  ultimately show ?thesis unfolding 3(1) by (simp only: foldl_append bal_move_append)
qed

lemma bal_escaped:
  "bal_mode s = B_String \<Longrightarrow>
     foldl bal_step s (concat (map escape_char v)) = bal_move s (concat (map escape_char v))"
proof (induction v arbitrary: s)
  case Nil
  then show ?case by (simp add: bal_move_def)
next
  case (Cons c v)
  then show ?case by (simp add: bal_escape_char bal_move_append)
qed

lemma bal_literal:
  assumes "bal_in_code s"
  shows "foldl bal_step s (render_frag (Lit v)) = s\<lparr>bal_prev := Some DQ\<rparr>"
proof -
  let ?s1 = "s\<lparr>bal_mode := B_String, bal_prev := Some DQ\<rparr>"
  have "foldl bal_step ?s1 (concat (map escape_char v)) = bal_move ?s1 (concat (map escape_char v))"
    by (rule bal_escaped) simp
  with assms show ?thesis
    by (simp add: bal_step_def bal_code_char_def bal_in_code_def bal_move_def)
qed

lemma bal_regex_wrapped:
  assumes "bal_in_code s" "SQ \<notin> set body"
  shows "foldl bal_step s ([CHR ''r'', SQ] @ body @ [SQ]) = s\<lparr>bal_prev := Some SQ\<rparr>"
proof -
  let ?s1 = "s\<lparr>bal_mode := B_Regex, bal_prev := Some SQ\<rparr>"
  have body: "foldl bal_step ?s1 body = bal_move ?s1 body"
    by (rule bal_regex_plain) (use assms in simp_all)
  have start: "foldl bal_step s [CHR ''r'', SQ] = ?s1"
    using assms by (simp add: bal_step_def bal_code_char_def bal_in_code_def)
  have "bal_step (bal_move ?s1 body) SQ = s\<lparr>bal_prev := Some SQ\<rparr>"
    using assms by (simp add: bal_step_def bal_in_code_def bal_move_def)
  then show ?thesis
    unfolding foldl_append start body by simp
qed

lemma bal_regex:
  assumes "bal_in_code s"
  shows "foldl bal_step s (render_frag (Rgx p ci)) = s\<lparr>bal_prev := Some SQ\<rparr>"
  unfolding render_frag.simps
  by (rule bal_regex_wrapped [OF assms]) (use regex_body_no_quote [of p] in auto)

lemma bal_comment:
  assumes "bal_in_code s" "NL \<notin> set t"
  shows "foldl bal_step s (render_frag (Cmt t)) = s\<lparr>bal_prev := Some NL\<rparr>"
proof -
  let ?s1 = "s\<lparr>bal_mode := B_Comment, bal_prev := Some CHR ''#''\<rparr>"
  have "foldl bal_step ?s1 t = bal_move ?s1 t"
    by (rule bal_comment_plain) (use assms in simp_all)
  with assms show ?thesis
    by (simp add: bal_step_def bal_code_char_def bal_in_code_def bal_move_def)
qed

interpretation bal: program_scanner bal_step bal_in_code
proof unfold_locales
  fix s assume s: "bal_in_code s"
  show "frag_ok (Txt t) \<Longrightarrow> bal_in_code (foldl bal_step s t)" for t
    by (rule bal_text [OF s])
  show "foldl bal_step s (render_frag (Lit v)) = foldl bal_step s (render_frag (Lit []))" for v
    unfolding bal_literal [OF s] ..
  show "bal_in_code (foldl bal_step s (render_frag (Lit v)))" for v
    using s unfolding bal_literal [OF s] by (simp add: bal_in_code_def)
  show "foldl bal_step s (render_frag (Rgx p ci)) = foldl bal_step s (render_frag (Rgx [] False))" for p ci
    unfolding bal_regex [OF s] ..
  show "bal_in_code (foldl bal_step s (render_frag (Rgx p ci)))" for p ci
    using s unfolding bal_regex [OF s] by (simp add: bal_in_code_def)
  show "foldl bal_step s (render_frag (Cmt t)) = foldl bal_step s (render_frag (Cmt []))"
    if "NL \<notin> set t" for t
    using bal_comment [OF s that] bal_comment [OF s, of "[]"] by simp
  show "bal_in_code (foldl bal_step s (render_frag (Cmt [])))"
    using s bal_comment [OF s, of "[]"] by (simp add: bal_in_code_def)
qed

section \<open>Neutral text\<close>

text \<open>A well-placed scan: in code, no failure yet, no depth below zero.\<close>

definition bal_good :: "bal \<Rightarrow> bool" where
  "bal_good s \<longleftrightarrow> bal_mode s = B_Code \<and> \<not> bal_failed s \<and>
     0 \<le> depth_paren s \<and> 0 \<le> depth_brace s \<and> 0 \<le> depth_brack s"

definition depths :: "bal \<Rightarrow> int \<times> int \<times> int" where
  "depths s = (depth_paren s, depth_brace s, depth_brack s)"

text \<open>Text that a well-placed scan passes with every depth where it was.\<close>

definition neutral :: "string \<Rightarrow> bool" where
  "neutral t \<longleftrightarrow> (\<forall>s. bal_good s \<longrightarrow> bal_good (foldl bal_step s t) \<and> depths (foldl bal_step s t) = depths s)"

lemma neutralI:
  "(\<And>s. bal_good s \<Longrightarrow> bal_good (foldl bal_step s t) \<and> depths (foldl bal_step s t) = depths s) \<Longrightarrow> neutral t"
  by (simp add: neutral_def)

lemma neutralD:
  assumes "neutral t" "bal_good s"
  shows "bal_good (foldl bal_step s t)"
    and "depth_paren (foldl bal_step s t) = depth_paren s"
    and "depth_brace (foldl bal_step s t) = depth_brace s"
    and "depth_brack (foldl bal_step s t) = depth_brack s"
  using assms by (auto simp: neutral_def depths_def)

lemma neutral_Nil [simp, intro]: "neutral []"
  by (simp add: neutral_def)

lemma neutral_append [intro]: "neutral t \<Longrightarrow> neutral u \<Longrightarrow> neutral (t @ u)"
  by (simp add: neutral_def)

lemma neutral_concat: "(\<And>t. t \<in> set ts \<Longrightarrow> neutral t) \<Longrightarrow> neutral (concat ts)"
  by (induction ts) auto

lemma neutral_join: "neutral sep \<Longrightarrow> (\<And>t. t \<in> set ts \<Longrightarrow> neutral t) \<Longrightarrow> neutral (py_join sep ts)"
  by (induction sep ts rule: py_join.induct) (auto intro!: neutral_append)

text \<open>Text with no bracket, quote or hash.\<close>

definition flat_char :: "char \<Rightarrow> bool" where
  "flat_char c \<longleftrightarrow> c \<noteq> DQ \<and> c \<noteq> SQ \<and> c \<noteq> CHR ''#'' \<and> c \<noteq> CHR ''('' \<and> c \<noteq> CHR '')'' \<and>
     c \<noteq> CHR ''{'' \<and> c \<noteq> CHR ''}'' \<and> c \<noteq> CHR ''['' \<and> c \<noteq> CHR '']''"

lemma neutral_flat: "list_all flat_char t \<Longrightarrow> neutral t"
proof (rule neutralI)
  show "list_all flat_char t \<Longrightarrow> bal_good s \<Longrightarrow>
      bal_good (foldl bal_step s t) \<and> depths (foldl bal_step s t) = depths s" for s
  proof (induction t arbitrary: s)
    case Nil
    then show ?case by simp
  next
    case (Cons c t)
    then have "bal_step s c = s\<lparr>bal_prev := Some c\<rparr>"
      by (simp add: bal_step_def bal_code_char_def flat_char_def bal_good_def)
    moreover have "bal_good (s\<lparr>bal_prev := Some c\<rparr>)" "depths (s\<lparr>bal_prev := Some c\<rparr>) = depths s"
      using Cons.prems by (simp_all add: bal_good_def depths_def)
    ultimately show ?case using Cons by simp
  qed
qed

lemma neutral_literal: "neutral (render_frag (Lit v))"
  by (rule neutralI) (simp add: bal_literal bal_in_code_def bal_good_def depths_def del: render_frag.simps)

lemma neutral_regex: "neutral (render_frag (Rgx p ci))"
  by (rule neutralI) (simp add: bal_regex bal_in_code_def bal_good_def depths_def del: render_frag.simps)

lemma neutral_comment: "NL \<notin> set t \<Longrightarrow> neutral (render_frag (Cmt t))"
  by (rule neutralI) (simp add: bal_comment bal_in_code_def bal_good_def depths_def del: render_frag.simps)

text \<open>Neutral text in a pair of brackets is neutral.\<close>

lemma bal_open:
  assumes "bal_good s"
  shows "bal_good (bal_step s CHR ''('') \<and> depths (bal_step s CHR ''('') = (depth_paren s + 1, depth_brace s, depth_brack s)"
    and "bal_good (bal_step s CHR ''{'') \<and> depths (bal_step s CHR ''{'') = (depth_paren s, depth_brace s + 1, depth_brack s)"
    and "bal_good (bal_step s CHR ''['') \<and> depths (bal_step s CHR ''['') = (depth_paren s, depth_brace s, depth_brack s + 1)"
  using assms by (simp_all add: bal_step_def bal_code_char_def bal_good_def depths_def)

lemma bal_close:
  assumes "bal_good s"
  shows "0 < depth_paren s \<Longrightarrow> bal_good (bal_step s CHR '')'') \<and> depths (bal_step s CHR '')'') = (depth_paren s - 1, depth_brace s, depth_brack s)"
    and "0 < depth_brace s \<Longrightarrow> bal_good (bal_step s CHR ''}'') \<and> depths (bal_step s CHR ''}'') = (depth_paren s, depth_brace s - 1, depth_brack s)"
    and "0 < depth_brack s \<Longrightarrow> bal_good (bal_step s CHR '']'') \<and> depths (bal_step s CHR '']'') = (depth_paren s, depth_brace s, depth_brack s - 1)"
  using assms by (simp_all add: bal_step_def bal_code_char_def bal_good_def depths_def)

lemma neutral_parens: "neutral t \<Longrightarrow> neutral (''('' @ t @ '')'')"
proof (rule neutralI)
  fix s assume t: "neutral t" and s: "bal_good s"
  let ?a = "bal_step s CHR ''(''" and ?b = "foldl bal_step (bal_step s CHR ''('') t"
  have "bal_good ?b \<and> depths ?b = (depth_paren s + 1, depth_brace s, depth_brack s)"
    using t bal_open(1) [OF s] by (auto simp: neutral_def)
  moreover from this have "0 < depth_paren ?b" using s by (auto simp: depths_def bal_good_def)
  ultimately show "bal_good (foldl bal_step s (''('' @ t @ '')'')) \<and>
      depths (foldl bal_step s (''('' @ t @ '')'')) = depths s"
    using bal_close(1) [of ?b] by (auto simp: depths_def)
qed

lemma neutral_braces: "neutral t \<Longrightarrow> neutral (''{'' @ t @ ''}'')"
proof (rule neutralI)
  fix s assume t: "neutral t" and s: "bal_good s"
  let ?b = "foldl bal_step (bal_step s CHR ''{'') t"
  have "bal_good ?b \<and> depths ?b = (depth_paren s, depth_brace s + 1, depth_brack s)"
    using t bal_open(2) [OF s] by (auto simp: neutral_def)
  moreover from this have "0 < depth_brace ?b" using s by (auto simp: depths_def bal_good_def)
  ultimately show "bal_good (foldl bal_step s (''{'' @ t @ ''}'')) \<and>
      depths (foldl bal_step s (''{'' @ t @ ''}'')) = depths s"
    using bal_close(2) [of ?b] by (auto simp: depths_def)
qed

lemma neutral_brackets: "neutral t \<Longrightarrow> neutral (''['' @ t @ '']'')"
proof (rule neutralI)
  fix s assume t: "neutral t" and s: "bal_good s"
  let ?b = "foldl bal_step (bal_step s CHR ''['') t"
  have "bal_good ?b \<and> depths ?b = (depth_paren s, depth_brace s, depth_brack s + 1)"
    using t bal_open(3) [OF s] by (auto simp: neutral_def)
  moreover from this have "0 < depth_brack ?b" using s by (auto simp: depths_def bal_good_def)
  ultimately show "bal_good (foldl bal_step s (''['' @ t @ '']'')) \<and>
      depths (foldl bal_step s (''['' @ t @ '']'')) = depths s"
    using bal_close(3) [of ?b] by (auto simp: depths_def)
qed

lemma bal_init_good: "bal_good bal_init" "depths bal_init = (0, 0, 0)"
  by (simp_all add: bal_good_def bal_init_def depths_def)

lemma neutral_balanced: "neutral t \<Longrightarrow> balanced t"
  using neutralD [OF _ bal_init_good(1)]
  by (simp add: balanced_def Let_def bal_good_def) (simp add: bal_init_def)

end
