(* ===== verification/Injection.thy ===== *)
theory Injection
  imports Prelude Rule_Model Encoder Py_Float Compiler Lexical
begin

text \<open>
  What the compiler guarantees about the text it generates: the generated text of a condition
  as a sequence of fragments, so that user strings occur in it inside literals only; which
  conditions compile; and the bracket structure of conditions and programs.
\<close>

section \<open>Conditions as fragments\<close>

fun sep_frags :: "string \<Rightarrow> frag list list \<Rightarrow> frag list" where
  "sep_frags sep [] = []"
| "sep_frags sep [x] = x"
| "sep_frags sep (x # y # ys) = x @ Txt sep # sep_frags sep (y # ys)"

definition bracket_frags :: "frag list list \<Rightarrow> frag list" where
  "bracket_frags fss = Txt ''['' # sep_frags '', '' fss @ [Txt '']'']"

definition path_frags :: "string \<Rightarrow> frag list" where
  "path_frags f = bracket_frags (map (\<lambda>s. [Lit s]) (py_split CHR ''.'' f))"

definition value_frags :: "string \<Rightarrow> frag list" where
  "value_frags f = Txt ''(get(ev, '' # path_frags f @ [Txt '') ?? null)'']"

definition text_frags :: "string \<Rightarrow> frag list" where
  "text_frags f = Txt ''(to_string('' # value_frags f @ [Txt '') ?? '', Lit [], Txt '')'']"

definition number_frags :: "string \<Rightarrow> frag list" where
  "number_frags f = Txt ''(to_float('' # value_frags f @ [Txt '') ?? null)'']"

definition operand_frags :: "string \<Rightarrow> bool \<Rightarrow> frag list" where
  "operand_frags f cs = (if cs then text_frags f else Txt ''downcase('' # text_frags f @ [Txt '')''])"

definition float_text :: "bool \<Rightarrow> nat \<Rightarrow> int \<Rightarrow> string" where
  "float_text n k e =
     (if CHR ''.'' \<in> set (format_f n k e) then format_f n k e else format_f n k e @ ''.0'')"

fun literal_frags :: "pyval \<Rightarrow> frag list" where
  "literal_frags (PStr s) = [Lit s]"
| "literal_frags (PBool b) = [Txt (if b then ''true'' else ''false'')]"
| "literal_frags (PInt i) = [Txt (int_str i)]"
| "literal_frags (PFloat (Finite n k e)) = [Txt (float_text n k e)]"
| "literal_frags (PList vs) = bracket_frags (map literal_frags vs)"
| "literal_frags _ = []"

text \<open>The literal with the case folded when the comparison ignores case.\<close>

fun folded :: "bool \<Rightarrow> pyval \<Rightarrow> pyval" where
  "folded cs (PStr s) = PStr (if cs then s else py_lower s)"
| "folded cs v = v"

fun the_str :: "pyval \<Rightarrow> string" where
  "the_str (PStr s) = s"
| "the_str _ = []"

fun the_list :: "pyval \<Rightarrow> pyval list" where
  "the_list (PList vs) = vs"
| "the_list _ = []"

fun the_float :: "pyval \<Rightarrow> pyfloat" where
  "the_float (PFloat f) = f"
| "the_float (PInt i) = (case int_to_float i of Some f \<Rightarrow> f | None \<Rightarrow> NaN)"
| "the_float _ = NaN"

definition equality_frags :: "condition \<Rightarrow> frag list" where
  "equality_frags c =
     Txt ''('' #
     (if is_str (cond_value c) then operand_frags (cond_field c) (case_sensitive c)
      else value_frags (cond_field c)) @
     Txt ('' '' @ (if cond_op c = EQ then ''=='' else ''!='') @ '' '') #
     literal_frags (folded (case_sensitive c) (cond_value c)) @ [Txt '')'']"

definition membership_frags :: "condition \<Rightarrow> frag list" where
  "membership_frags c =
     (let vs = the_list (cond_value c) in
      Txt (if cond_op c = IN then ''(includes('' else ''(!includes('') #
      (if list_all is_str vs
       then bracket_frags (map (\<lambda>v. literal_frags (folded (case_sensitive c) v)) vs) @
            Txt '', '' # operand_frags (cond_field c) (case_sensitive c)
       else bracket_frags (map literal_frags vs) @ Txt '', '' # value_frags (cond_field c)) @
      [Txt ''))''])"

definition substring_frags :: "condition \<Rightarrow> frag list" where
  "substring_frags c =
     Txt (''('' @ substring_fn (cond_op c) @ ''('') # text_frags (cond_field c) @
     [Txt '', '', Lit (the_str (cond_value c)),
      Txt ('', case_sensitive: '' @ (if case_sensitive c then ''true'' else ''false'') @ ''))'')]"

definition cond_frags :: "condition \<Rightarrow> frag list" where
  "cond_frags c =
     (case cond_op c of
        EXISTS \<Rightarrow> Txt ''('' # value_frags (cond_field c) @ [Txt '' != null)'']
      | NOT_EXISTS \<Rightarrow> Txt ''('' # value_frags (cond_field c) @ [Txt '' == null)'']
      | EQ \<Rightarrow> equality_frags c
      | NE \<Rightarrow> equality_frags c
      | IN \<Rightarrow> membership_frags c
      | NOT_IN \<Rightarrow> membership_frags c
      | CONTAINS \<Rightarrow> substring_frags c
      | STARTS_WITH \<Rightarrow> substring_frags c
      | ENDS_WITH \<Rightarrow> substring_frags c
      | GLOB \<Rightarrow> Txt ''(match('' # text_frags (cond_field c) @
          [Txt '', '', Rgx (the_str (cond_value c)) (\<not> case_sensitive c), Txt ''))'']
      | CIDR \<Rightarrow> [Txt ''(ip_cidr_contains('', Lit (the_str (cond_value c)), Txt '', ''] @
          text_frags (cond_field c) @ [Txt '') ?? false)'']
      | _ \<Rightarrow> Txt ''(('' # number_frags (cond_field c) @
          Txt ('' '' @ comparison_sign (cond_op c) @ '' '') #
          literal_frags (PFloat (the_float (cond_value c))) @ [Txt '') ?? false)''])"

section \<open>The compiler renders the fragments\<close>

lemma render_sep: "render (sep_frags sep fss) = py_join sep (map render fss)"
  by (induction sep fss rule: sep_frags.induct) simp_all

lemma render_bracket: "render (bracket_frags fss) = bracketed (map render fss)"
  by (simp add: bracket_frags_def bracketed_def render_sep)

lemma mapR_render:
  assumes "mapR f vs = Inr ts" "\<And>v t. v \<in> set vs \<Longrightarrow> f v = Inr t \<Longrightarrow> t = render (g v)"
  shows "ts = map (\<lambda>v. render (g v)) vs"
  using assms by (induction vs arbitrary: ts) (auto simp: bindR_Inr_iff)

lemma encode_string_render: "encode_string s = Inr t \<Longrightarrow> t = render [Lit s]"
  by (simp add: encode_string_Inr_iff)

lemma encode_path_render: "encode_path f = Inr t \<Longrightarrow> t = render (path_frags f)"
proof -
  assume "encode_path f = Inr t"
  then obtain items where i: "mapR encode_string (py_split CHR ''.'' f) = Inr items" "t = bracketed items"
    by (auto simp: encode_path_def Let_def bindR_Inr_iff split: if_splits)
  have "items = map (\<lambda>s. render [Lit s]) (py_split CHR ''.'' f)"
    by (rule mapR_render [OF i(1)]) (rule encode_string_render)
  with i(2) show ?thesis by (simp add: path_frags_def render_bracket o_def)
qed

lemma value_expr_render: "value_expr f = Inr t \<Longrightarrow> t = render (value_frags f)"
  by (auto simp: value_expr_def value_frags_def bindR_Inr_iff dest: encode_path_render)

lemma text_expr_render: "text_expr f = Inr t \<Longrightarrow> t = render (text_frags f)"
  by (auto simp: text_expr_def text_frags_def bindR_Inr_iff dest!: value_expr_render)

lemma number_expr_render: "number_expr f = Inr t \<Longrightarrow> t = render (number_frags f)"
  by (auto simp: number_expr_def number_frags_def bindR_Inr_iff dest!: value_expr_render)

lemma string_operand_render: "string_operand f cs = Inr t \<Longrightarrow> t = render (operand_frags f cs)"
  by (auto simp: string_operand_def operand_frags_def bindR_Inr_iff dest!: text_expr_render split: if_splits)

lemma encode_render: "encode v = Inr t \<Longrightarrow> t = render (literal_frags v)"
proof (induction v arbitrary: t rule: literal_frags.induct)
  case (5 vs)
  then obtain items where i: "mapR encode vs = Inr items" "t = bracketed items"
    by (auto simp: bindR_Inr_iff split: if_splits)
  have "items = map (\<lambda>v. render (literal_frags v)) vs"
    by (rule mapR_render [OF i(1)]) (rule 5(1))
  with i(2) show ?case by (simp add: render_bracket o_def)
qed (auto simp: encode_string_Inr_iff float_text_def Let_def split: if_splits)

lemma literal_operand_render: "literal_operand v cs = Inr t \<Longrightarrow> t = render (literal_frags (folded cs v))"
  by (cases v) (auto simp: literal_operand_def simp del: encode.simps literal_frags.simps
      split: if_splits dest!: encode_render)

lemma compile_equality_render: "compile_equality c = Inr t \<Longrightarrow> t = render (equality_frags c)"
  by (cases "cond_value c")
    (auto simp: compile_equality_def equality_frags_def bindR_Inr_iff
      simp del: encode.simps literal_frags.simps split: if_splits
      dest!: string_operand_render literal_operand_render value_expr_render encode_render)

lemma compile_membership_render: "compile_membership c = Inr t \<Longrightarrow> t = render (membership_frags c)"
proof -
  assume a: "compile_membership c = Inr t"
  then obtain vs where v: "cond_value c = PList vs"
    by (auto simp: compile_membership_def split: pyval.splits)
  have items: "items = map (\<lambda>v. render (literal_frags (folded (case_sensitive c) v))) vs"
    if m: "mapR (\<lambda>v. literal_operand v (case_sensitive c)) vs = Inr items" for items
    by (rule mapR_render [OF m]) (rule literal_operand_render)
  have lists: "r = bracketed (map (\<lambda>v. render (literal_frags v)) vs)" if e: "encode (PList vs) = Inr r" for r
    using encode_render [OF e] by (simp add: render_bracket o_def)
  show ?thesis
    using a unfolding compile_membership_def v membership_frags_def
    by (auto simp: bindR_Inr_iff Let_def render_bracket o_def simp del: encode.simps split: if_splits
        dest!: items lists string_operand_render value_expr_render)
qed

lemma compile_substring_render: "compile_substring c = Inr t \<Longrightarrow> t = render (substring_frags c)"
  by (auto simp: compile_substring_def substring_frags_def bindR_Inr_iff split: pyval.splits
      dest!: text_expr_render encode_string_render)

lemma to_pyfloat_the: "to_pyfloat v = Inr f \<Longrightarrow> f = the_float v"
  by (cases v) (auto split: option.splits)

lemma compile_comparison_render:
  assumes "compile_comparison c = Inr t"
  shows "t = ''(('' @ render (number_frags (cond_field c)) @ '' '' @ comparison_sign (cond_op c) @
      '' '' @ render (literal_frags (PFloat (the_float (cond_value c)))) @ '') ?? false)''"
  using assms
  by (auto simp: compile_comparison_def bindR_Inr_iff simp del: encode.simps split: if_splits
      dest!: number_expr_render to_pyfloat_the encode_render)

lemma compile_glob_render:
  assumes "compile_glob c = Inr t"
  shows "t = ''(match('' @ render (text_frags (cond_field c)) @ '', '' @
      render [Rgx (the_str (cond_value c)) (\<not> case_sensitive c)] @ ''))''"
proof -
  obtain s r e l where *: "cond_value c = PStr s" "glob_to_regex s (\<not> case_sensitive c) = Inr r"
    "text_expr (cond_field c) = Inr e" "encode_regex_literal r = Inr l"
    "t = ''(match('' @ e @ '', '' @ l @ ''))''"
    using assms by (auto simp: compile_glob_def bindR_Inr_iff split: pyval.splits)
  have "l = render [Rgx s (\<not> case_sensitive c)]"
    using regex_literal_frag [OF *(2,4)] by (simp del: render_frag.simps)
  with * show ?thesis by (simp add: text_expr_render del: render_frag.simps)
qed

lemma compile_cidr_render:
  assumes "compile_cidr c = Inr t"
  shows "t = ''(ip_cidr_contains('' @ render [Lit (the_str (cond_value c))] @ '', '' @
      render (text_frags (cond_field c)) @ '') ?? false)''"
  using assms
  by (auto simp: compile_cidr_def bindR_Inr_iff split: pyval.splits
      dest!: text_expr_render encode_string_render)

lemma compile_condition_render: "compile_condition c = Inr t \<Longrightarrow> t = render (cond_frags c)"
  by (cases "cond_op c")
    (auto simp: compile_condition_def cond_frags_def bindR_Inr_iff
      dest!: value_expr_render compile_equality_render compile_membership_render
        compile_substring_render compile_comparison_render compile_glob_render compile_cidr_render)

section \<open>Which conditions compile\<close>

fun encodable :: "pyval \<Rightarrow> bool" where
  "encodable (PStr s) \<longleftrightarrow> length s \<le> 4096"
| "encodable (PBool b) \<longleftrightarrow> True"
| "encodable (PInt i) \<longleftrightarrow> - (2 ^ 63) \<le> i \<and> i < 2 ^ 63"
| "encodable (PFloat (Finite n k e)) \<longleftrightarrow> length (format_f n k e) \<le> 128"
| "encodable (PFloat f) \<longleftrightarrow> False"
| "encodable (PList vs) \<longleftrightarrow> length vs \<le> 1024 \<and> (\<forall>v \<in> set vs. encodable v)"
| "encodable PNone \<longleftrightarrow> False"

definition encodable_value :: "condition \<Rightarrow> bool" where
  "encodable_value c =
     (case cond_op c of
        EXISTS \<Rightarrow> True
      | NOT_EXISTS \<Rightarrow> True
      | EQ \<Rightarrow> encodable (cond_value c)
      | NE \<Rightarrow> encodable (cond_value c)
      | IN \<Rightarrow> (case cond_value c of
           PList vs \<Rightarrow> (\<forall>v \<in> set vs. encodable v) \<and> (list_all is_str vs \<or> length vs \<le> 1024)
         | _ \<Rightarrow> False)
      | NOT_IN \<Rightarrow> (case cond_value c of
           PList vs \<Rightarrow> (\<forall>v \<in> set vs. encodable v) \<and> (list_all is_str vs \<or> length vs \<le> 1024)
         | _ \<Rightarrow> False)
      | GLOB \<Rightarrow> (case cond_value c of PStr s \<Rightarrow> length s \<le> 512 | _ \<Rightarrow> False)
      | op \<Rightarrow>
          if op \<in> NUMERIC_OPERATORS
          then is_number (cond_value c) \<and> encodable (PFloat (the_float (cond_value c)))
          else is_str (cond_value c) \<and> encodable (cond_value c))"

lemma succeeds_bindR: "succeeds (bindR m f) \<longleftrightarrow> (\<exists>x. m = Inr x \<and> succeeds (f x))"
  by (cases m) simp_all

lemma succeeds_enc [simp]: "succeeds (enc m) \<longleftrightarrow> succeeds m"
  by (cases m) simp_all

lemma encode_succeeds: "succeeds (encode v) \<longleftrightarrow> encodable v"
proof (induction v rule: encodable.induct)
  case (6 vs)
  then show ?case
    by (auto simp: succeeds_bindR MAX_LIST_LEN_def simp flip: succeeds_iff)
      (metis mapR_succeeds_iff succeeds_iff)+
qed (auto simp: encode_string_succeeds Let_def MAX_NUMBER_LITERAL_LEN_def)

lemma value_expr_succeeds: "succeeds (value_expr f) \<longleftrightarrow> succeeds (encode_path f)"
  by (auto simp: value_expr_def succeeds_iff bindR_Inr_iff)

lemma text_expr_succeeds: "succeeds (text_expr f) \<longleftrightarrow> succeeds (encode_path f)"
  unfolding value_expr_succeeds [symmetric] by (auto simp: text_expr_def succeeds_iff bindR_Inr_iff)

lemma number_expr_succeeds: "succeeds (number_expr f) \<longleftrightarrow> succeeds (encode_path f)"
  unfolding value_expr_succeeds [symmetric] by (auto simp: number_expr_def succeeds_iff bindR_Inr_iff)

lemma string_operand_succeeds: "succeeds (string_operand f cs) \<longleftrightarrow> succeeds (encode_path f)"
  unfolding text_expr_succeeds [symmetric] by (auto simp: string_operand_def succeeds_iff bindR_Inr_iff)

lemma literal_operand_succeeds: "succeeds (literal_operand v cs) \<longleftrightarrow> encodable v"
  by (cases v) (simp_all add: literal_operand_def encode_succeeds encode_string_succeeds del: encode.simps(1,3-6))

lemmas operand_succeeds =
  value_expr_succeeds text_expr_succeeds number_expr_succeeds string_operand_succeeds
  literal_operand_succeeds encode_succeeds

text \<open>The last step of each function only builds text.\<close>

lemma succeeds_bindR_Inr [simp]: "succeeds (bindR m (\<lambda>x. Inr (g x))) \<longleftrightarrow> succeeds m"
  by (cases m) simp_all

lemma path_operands:
  assumes "succeeds (encode_path f)"
  obtains v t n s where "value_expr f = Inr v" "text_expr f = Inr t" "number_expr f = Inr n"
    "string_operand f cs = Inr s"
  using assms operand_succeeds(1-3) [of f] operand_succeeds(4) [of f cs] by (auto simp: succeeds_iff)

lemma compile_equality_succeeds:
  assumes "succeeds (encode_path (cond_field c))"
  shows "succeeds (compile_equality c) \<longleftrightarrow> encodable (cond_value c)"
  by (rule path_operands [OF assms, of "case_sensitive c"])
    (simp add: compile_equality_def split_def operand_succeeds)

lemma compile_membership_succeeds:
  assumes "succeeds (encode_path (cond_field c))"
  shows "succeeds (compile_membership c) \<longleftrightarrow>
     (case cond_value c of
        PList vs \<Rightarrow> (\<forall>v \<in> set vs. encodable v) \<and> (list_all is_str vs \<or> length vs \<le> 1024)
      | _ \<Rightarrow> False)"
proof (rule path_operands [OF assms, of "case_sensitive c"])
  fix v s
  assume "value_expr (cond_field c) = Inr v" "string_operand (cond_field c) (case_sensitive c) = Inr s"
  then show ?thesis
    by (auto simp: compile_membership_def split_def Let_def if_distrib [of succeeds] operand_succeeds
        mapR_succeeds_iff simp del: encode.simps split: pyval.splits)
qed

lemma compile_substring_succeeds:
  assumes "succeeds (encode_path (cond_field c))"
  shows "succeeds (compile_substring c) \<longleftrightarrow> is_str (cond_value c) \<and> encodable (cond_value c)"
  by (rule path_operands [OF assms, of "case_sensitive c"])
    (simp add: compile_substring_def encode_string_succeeds split: pyval.splits)

lemma compile_cidr_succeeds:
  assumes "succeeds (encode_path (cond_field c))"
  shows "succeeds (compile_cidr c) \<longleftrightarrow> is_str (cond_value c) \<and> encodable (cond_value c)"
  by (rule path_operands [OF assms, of "case_sensitive c"])
    (simp add: compile_cidr_def encode_string_succeeds split: pyval.splits)

lemma glob_regex_literal: "length s \<le> 512 \<Longrightarrow>
    \<exists>r t. glob_to_regex s ci = Inr r \<and> encode_regex_literal r = Inr t"
  using encode_regex_literal_glob by (force simp: glob_to_regex_Inr_iff)

lemma compile_glob_succeeds:
  assumes "succeeds (encode_path (cond_field c))"
  shows "succeeds (compile_glob c) \<longleftrightarrow> (case cond_value c of PStr s \<Rightarrow> length s \<le> 512 | _ \<Rightarrow> False)"
proof (rule path_operands [OF assms, of "case_sensitive c"])
  fix t assume t: "text_expr (cond_field c) = Inr t"
  show ?thesis
  proof (cases "cond_value c")
    case (PStr s)
    then show ?thesis
      using t glob_regex_literal [of s "\<not> case_sensitive c"]
      by (cases "length s \<le> 512") (auto simp: compile_glob_def, simp add: glob_to_regex_def)
  qed (simp_all add: compile_glob_def)
qed

lemma compile_comparison_succeeds:
  assumes "succeeds (encode_path (cond_field c))"
  shows "succeeds (compile_comparison c) \<longleftrightarrow>
     is_number (cond_value c) \<and> encodable (PFloat (the_float (cond_value c)))"
proof (rule path_operands [OF assms, of "case_sensitive c"])
  fix n assume n: "number_expr (cond_field c) = Inr n"
  show ?thesis
  proof (cases "to_pyfloat (cond_value c)")
    case (Inl e)
    then show ?thesis
      by (cases "cond_value c") (auto simp: compile_comparison_def n split: option.splits)
  next
    case (Inr f)
    then show ?thesis
      using to_pyfloat_the [OF Inr]
      by (simp add: compile_comparison_def n encode_succeeds del: encode.simps)
  qed
qed

lemma compile_condition_succeeds:
  assumes "succeeds (encode_path (cond_field c))"
  shows "succeeds (compile_condition c) \<longleftrightarrow> encodable_value c"
proof -
  note succ = compile_equality_succeeds compile_membership_succeeds compile_substring_succeeds
    compile_cidr_succeeds compile_glob_succeeds compile_comparison_succeeds
  show ?thesis
    by (cases "cond_op c")
      (simp_all add: compile_condition_def encodable_value_def operand_succeeds succ assms
        NUMERIC_OPERATORS_def)
qed

section \<open>Generated text outside literals\<close>

definition number_char :: "char \<Rightarrow> bool" where
  "number_char c \<longleftrightarrow> is_ascii_digit c \<or> c = CHR ''-'' \<or> c = CHR ''.''"

lemma number_char_flat: "number_char c \<Longrightarrow> flat_char c"
  by (auto simp: number_char_def is_ascii_digit_def flat_char_def)

lemma int_str_number: "list_all number_char (int_str i)"
  using int_str_chars by (auto simp: list_all_iff number_char_def)

lemma plain_digits_number: "plain_digits s \<Longrightarrow> list_all number_char s"
  by (auto simp: plain_digits_def list_all_iff number_char_def)

lemma float_text_number: "list_all number_char (float_text n k e)"
proof -
  obtain ip fp where f:
    "format_f n k e = (if n then ''-'' else []) @ ip @ (if fp = [] then [] else CHR ''.'' # fp)"
    "plain_digits ip" "plain_digits fp"
    by (rule format_f_shape [of n k e])
  have "list_all number_char (format_f n k e)"
    unfolding f(1) using f(2,3) by (simp add: plain_digits_number number_char_def)
  then show ?thesis by (simp add: float_text_def number_char_def)
qed

lemma flat_frag_ok: "list_all flat_char t \<Longrightarrow> frag_ok (Txt t)"
  by (auto simp: list_all_iff flat_char_def)

lemma number_frag_ok: "list_all number_char t \<Longrightarrow> frag_ok (Txt t)"
  by (rule flat_frag_ok) (auto simp: list_all_iff dest: number_char_flat)

text \<open>The constant parts of a condition hold no quote and no hash; no comment occurs in it.\<close>

definition code_frags :: "frag list \<Rightarrow> bool" where
  "code_frags fs \<longleftrightarrow> list_all frag_ok fs \<and> list_all no_comment fs"

lemma code_frags_simps [simp]:
  "code_frags []"
  "code_frags (f # fs) \<longleftrightarrow> frag_ok f \<and> no_comment f \<and> code_frags fs"
  "code_frags (fs @ gs) \<longleftrightarrow> code_frags fs \<and> code_frags gs"
  by (auto simp: code_frags_def)

lemma code_frags_sep:
  "frag_ok (Txt sep) \<Longrightarrow> (\<And>fs. fs \<in> set fss \<Longrightarrow> code_frags fs) \<Longrightarrow> code_frags (sep_frags sep fss)"
  by (induction sep fss rule: sep_frags.induct) simp_all

lemma code_frags_bracket: "(\<And>fs. fs \<in> set fss \<Longrightarrow> code_frags fs) \<Longrightarrow> code_frags (bracket_frags fss)"
  by (simp add: bracket_frags_def code_frags_sep)

lemma code_frags_operands [simp]:
  "code_frags (value_frags f)" "code_frags (text_frags f)" "code_frags (number_frags f)"
  "code_frags (operand_frags f cs)"
  by (auto simp: value_frags_def text_frags_def number_frags_def operand_frags_def path_frags_def
      intro!: code_frags_bracket)

lemma code_frags_literal [simp]: "code_frags (literal_frags v)"
proof (induction v rule: literal_frags.induct)
  case (5 vs)
  then show ?case by (auto intro!: code_frags_bracket)
qed (use int_str_number float_text_number in \<open>simp_all add: number_frag_ok del: frag_ok.simps(1)\<close>,
  simp_all)

lemma substring_fn_ok: "frag_ok (Txt (substring_fn op))" "frag_ok (Txt (comparison_sign op))"
  by (cases op; simp)+

lemma code_frags_cond: "code_frags (cond_frags c)"
proof -
  have "code_frags (equality_frags c)" by (simp add: equality_frags_def)
  moreover have "code_frags (membership_frags c)"
    by (auto simp: membership_frags_def Let_def intro!: code_frags_bracket)
  moreover have "code_frags (substring_frags c)"
    using substring_fn_ok(1) [of "cond_op c"] by (simp add: substring_frags_def)
  ultimately show ?thesis
    using substring_fn_ok(2) [of "cond_op c"]
    by (cases "cond_op c") (simp_all add: cond_frags_def)
qed

section \<open>Conditions of the same shape\<close>

text \<open>A value with the contents of its strings taken out.\<close>

fun value_shape :: "pyval \<Rightarrow> pyval" where
  "value_shape (PStr s) = PStr []"
| "value_shape (PList vs) = PList (map value_shape vs)"
| "value_shape v = v"

definition same_shape :: "condition \<Rightarrow> condition \<Rightarrow> bool" where
  "same_shape c d \<longleftrightarrow>
     cond_op c = cond_op d \<and> case_sensitive c = case_sensitive d \<and>
     length (py_split CHR ''.'' (cond_field c)) = length (py_split CHR ''.'' (cond_field d)) \<and>
     value_shape (cond_value c) = value_shape (cond_value d)"

lemma blank_sep: "map blank (sep_frags sep fss) = sep_frags sep (map (map blank) fss)"
  by (induction sep fss rule: sep_frags.induct) simp_all

lemma blank_bracket: "map blank (bracket_frags fss) = bracket_frags (map (map blank) fss)"
  by (simp add: bracket_frags_def blank_sep)

lemma blank_path:
  "map blank (path_frags f) = bracket_frags (replicate (length (py_split CHR ''.'' f)) [Lit []])"
  by (simp add: path_frags_def blank_bracket o_def map_replicate_const)

lemma blank_operands:
  assumes "length (py_split CHR ''.'' f) = length (py_split CHR ''.'' g)"
  shows "map blank (value_frags f) = map blank (value_frags g)"
    and "map blank (text_frags f) = map blank (text_frags g)"
    and "map blank (number_frags f) = map blank (number_frags g)"
    and "map blank (operand_frags f cs) = map blank (operand_frags g cs)"
  using assms by (simp_all add: value_frags_def text_frags_def number_frags_def operand_frags_def blank_path)

lemma blank_literal: "map blank (literal_frags v) = map blank (literal_frags (value_shape v))"
proof (induction v rule: literal_frags.induct)
  case (5 vs)
  then show ?case by (simp add: blank_bracket o_def cong: map_cong)
qed simp_all

lemma blank_literal_eq:
  "value_shape v = value_shape w \<Longrightarrow> map blank (literal_frags v) = map blank (literal_frags w)"
  using blank_literal [of v] blank_literal [of w] by simp

lemma value_shape_folded: "value_shape (folded cs v) = value_shape v"
  by (cases v) simp_all

lemma value_shape_is_str: "value_shape v = value_shape w \<Longrightarrow> is_str v = is_str w"
  by (cases v; cases w) simp_all

lemma value_shape_the_list:
  "value_shape v = value_shape w \<Longrightarrow> map value_shape (the_list v) = map value_shape (the_list w)"
  by (cases v; cases w) simp_all

lemma value_shape_the_float: "value_shape v = value_shape w \<Longrightarrow> the_float v = the_float w"
  by (cases v; cases w) simp_all

lemma is_str_shape: "is_str v \<longleftrightarrow> value_shape v = PStr []"
  by (cases v) simp_all

lemma value_shape_all_str:
  assumes "map value_shape vs = map value_shape ws"
  shows "list_all is_str vs = list_all is_str ws"
proof -
  have *: "list_all is_str xs \<longleftrightarrow> list_all (\<lambda>v. v = PStr []) (map value_shape xs)" for xs
    by (simp add: list_all_iff is_str_shape)
  show ?thesis unfolding * assms ..
qed

lemma blank_literals:
  assumes "map value_shape vs = map value_shape ws"
  shows "map blank (bracket_frags (map (\<lambda>v. literal_frags (folded cs v)) vs)) =
           map blank (bracket_frags (map (\<lambda>v. literal_frags (folded cs v)) ws))"
    and "map blank (bracket_frags (map literal_frags vs)) = map blank (bracket_frags (map literal_frags ws))"
proof -
  have shapes: "map (\<lambda>v. map blank (literal_frags v)) xs =
      map (\<lambda>v. map blank (literal_frags v)) (map value_shape xs)" for xs
    unfolding list.map_comp o_def by (rule map_cong [OF refl blank_literal])
  have *: "map (\<lambda>v. map blank (literal_frags v)) vs' = map (\<lambda>v. map blank (literal_frags v)) ws'"
    if "map value_shape vs' = map value_shape ws'" for vs' ws'
    using shapes [of vs'] shapes [of ws'] that by simp
  show "map blank (bracket_frags (map literal_frags vs)) = map blank (bracket_frags (map literal_frags ws))"
    using * [OF assms] by (simp add: blank_bracket o_def)
  have "map value_shape (map (folded cs) vs) = map value_shape (map (folded cs) ws)"
    using assms by (simp add: o_def value_shape_folded)
  from * [OF this] show "map blank (bracket_frags (map (\<lambda>v. literal_frags (folded cs v)) vs)) =
      map blank (bracket_frags (map (\<lambda>v. literal_frags (folded cs v)) ws))"
    by (simp add: blank_bracket o_def)
qed

lemma blank_cond:
  assumes "same_shape c d"
  shows "map blank (cond_frags c) = map blank (cond_frags d)"
proof -
  note s = assms [unfolded same_shape_def]
  note ops = blank_operands [of "cond_field c" "cond_field d"]
  have lit: "map blank (literal_frags (folded b (cond_value c))) = map blank (literal_frags (folded b (cond_value d)))" for b
    by (rule blank_literal_eq) (use s in \<open>simp add: value_shape_folded\<close>)
  note vs = value_shape_the_list [of "cond_value c" "cond_value d"]
  have eq: "map blank (equality_frags c) = map blank (equality_frags d)"
    using s ops lit value_shape_is_str [of "cond_value c" "cond_value d"] by (simp add: equality_frags_def)
  have mem: "map blank (membership_frags c) = map blank (membership_frags d)"
    using s ops blank_literals [OF vs] value_shape_all_str [OF vs] by (simp add: membership_frags_def Let_def)
  have sub: "map blank (substring_frags c) = map blank (substring_frags d)"
    using s ops by (simp add: substring_frags_def)
  show ?thesis
    using s ops eq mem sub value_shape_the_float [of "cond_value c" "cond_value d"]
    by (cases "cond_op d") (simp_all add: cond_frags_def)
qed

lemma strip_cond:
  assumes "compile_condition c = Inr t" "compile_condition d = Inr u" "same_shape c d"
  shows "strip_literals t = strip_literals u"
proof -
  have "foldl strip_step (S_Code, []) (render (cond_frags c)) = foldl strip_step (S_Code, []) (render (cond_frags d))"
    using strip.scan_same_shape [of "(S_Code, [])" "cond_frags c" "cond_frags d"]
      code_frags_cond [of c] code_frags_cond [of d] blank_cond [OF assms(3)]
    by (simp add: code_frags_def strip_in_code_def)
  then show ?thesis
    unfolding strip_literals_def compile_condition_render [OF assms(1)]
      compile_condition_render [OF assms(2)] by (rule arg_cong)
qed

section \<open>Brackets\<close>

lemma neutral_render_literal: "neutral (render (literal_frags v))"
proof (induction v rule: literal_frags.induct)
  case (5 vs)
  have "neutral (bracketed (map (\<lambda>v. render (literal_frags v)) vs))"
    unfolding bracketed_def
    by (intro neutral_brackets neutral_join) (auto simp: 5 intro: neutral_flat simp: flat_char_def)
  then show ?case by (simp add: render_bracket o_def)
next
  case (3 i)
  have "list_all flat_char (int_str i)"
    using int_str_number [of i] by (auto simp: list_all_iff number_char_flat)
  then show ?case by (simp add: neutral_flat)
next
  case (4 n k e)
  have "list_all flat_char (float_text n k e)"
    using float_text_number [of n k e] by (auto simp: list_all_iff number_char_flat)
  then show ?case by (simp add: neutral_flat)
next
  case (1 s)
  then show ?case using neutral_literal [of s] by simp
qed (auto intro!: neutral_flat simp: flat_char_def)

lemma neutral_Cons: "flat_char c \<Longrightarrow> neutral t \<Longrightarrow> neutral (c # t)"
  using neutral_append [of "[c]" t] neutral_flat [of "[c]"] by simp

text \<open>Text between brackets followed by more text.\<close>

lemma neutral_group:
  assumes "neutral t" "neutral u"
  shows "neutral (CHR ''('' # t @ CHR '')'' # u)" and "neutral (CHR ''['' # t @ CHR '']'' # u)"
    and "neutral (CHR ''{'' # t @ CHR ''}'' # u)"
  using neutral_append [OF neutral_parens [OF assms(1)] assms(2)]
    neutral_append [OF neutral_brackets [OF assms(1)] assms(2)]
    neutral_append [OF neutral_braces [OF assms(1)] assms(2)] by simp_all

lemma neutral_bracket_frags:
  "(\<And>fs. fs \<in> set fss \<Longrightarrow> neutral (render fs)) \<Longrightarrow> neutral (render (bracket_frags fss))"
  unfolding render_bracket bracketed_def
  by (intro neutral_brackets neutral_join) (auto intro: neutral_flat simp: flat_char_def)

lemma neutral_path: "neutral (render (path_frags f))"
  unfolding path_frags_def
  by (rule neutral_bracket_frags) (use neutral_literal in auto)

lemma neutral_value: "neutral (render (value_frags f))"
proof -
  have "neutral (''('' @ (''get'' @ (''('' @ (''ev, '' @ render (path_frags f)) @ '')'') @ '' ?? null'') @ '')'')"
    by (intro neutral_parens neutral_append neutral_path neutral_flat) (simp_all add: flat_char_def)
  then show ?thesis by (simp add: value_frags_def)
qed

lemma neutral_text: "neutral (render (text_frags f))"
proof -
  have "neutral (''('' @ (''to_string'' @ (''('' @ render (value_frags f) @ '')'') @ '' ?? '' @ render_frag (Lit [])) @ '')'')"
    by (intro neutral_parens neutral_append neutral_value neutral_literal neutral_flat) (simp_all add: flat_char_def)
  then show ?thesis by (simp add: text_frags_def)
qed

lemma neutral_number: "neutral (render (number_frags f))"
proof -
  have "neutral (''('' @ (''to_float'' @ (''('' @ render (value_frags f) @ '')'') @ '' ?? null'') @ '')'')"
    by (intro neutral_parens neutral_append neutral_value neutral_flat) (simp_all add: flat_char_def)
  then show ?thesis by (simp add: number_frags_def)
qed

lemma neutral_operand: "neutral (render (operand_frags f cs))"
proof -
  have "neutral (''downcase'' @ (''('' @ render (text_frags f) @ '')''))"
    by (intro neutral_parens neutral_append neutral_text neutral_flat) (simp_all add: flat_char_def)
  then show ?thesis by (simp add: operand_frags_def neutral_text)
qed

lemmas neutral_parts =
  neutral_value neutral_text neutral_number neutral_operand neutral_render_literal
  neutral_literal neutral_regex

lemma substring_fn_flat: "list_all flat_char (substring_fn op)" "list_all flat_char (comparison_sign op)"
  by (cases op; simp add: flat_char_def)+

lemma neutral_equality: "neutral (render (equality_frags c))"
proof -
  have "neutral (''('' @ (render (if is_str (cond_value c) then operand_frags (cond_field c) (case_sensitive c)
      else value_frags (cond_field c)) @ ('' '' @ (if cond_op c = EQ then ''=='' else ''!='') @ '' '') @
      render (literal_frags (folded (case_sensitive c) (cond_value c)))) @ '')'')"
    by (intro neutral_parens neutral_append neutral_render_literal)
      (auto intro: neutral_parts neutral_flat simp: flat_char_def)
  then show ?thesis by (simp add: equality_frags_def if_distrib [of render])
qed

lemma neutral_membership: "neutral (render (membership_frags c))"
proof -
  let ?cs = "case_sensitive c" and ?vs = "the_list (cond_value c)"
  let ?inner = "if list_all is_str ?vs
    then render (bracket_frags (map (\<lambda>v. literal_frags (folded ?cs v)) ?vs)) @ '', '' @ render (operand_frags (cond_field c) ?cs)
    else render (bracket_frags (map literal_frags ?vs)) @ '', '' @ render (value_frags (cond_field c))"
  have "neutral ?inner"
    by (auto intro!: neutral_append neutral_bracket_frags neutral_parts neutral_Cons neutral_Nil
        simp: flat_char_def)
  moreover have "neutral (''('' @ ((if cond_op c = IN then ''includes'' else ''!includes'') @ (''('' @ t @ '')'')) @ '')'')"
    if "neutral t" for t
    by (intro neutral_parens neutral_append neutral_flat that) (auto simp: flat_char_def)
  ultimately have "neutral (''('' @ ((if cond_op c = IN then ''includes'' else ''!includes'') @ (''('' @ ?inner @ '')'')) @ '')'')"
    by blast
  then show ?thesis by (simp add: membership_frags_def Let_def split: if_splits)
qed

lemma neutral_substring: "neutral (render (substring_frags c))"
proof -
  have "neutral (''('' @ (substring_fn (cond_op c) @ (''('' @ (render (text_frags (cond_field c)) @ '', '' @
      render_frag (Lit (the_str (cond_value c))) @
      '', case_sensitive: '' @ (if case_sensitive c then ''true'' else ''false'')) @ '')'')) @ '')'')"
    by (intro neutral_parens neutral_append neutral_parts neutral_flat substring_fn_flat)
      (auto simp: flat_char_def)
  then show ?thesis by (simp add: substring_frags_def)
qed

lemma neutral_cond: "neutral (render (cond_frags c))"
proof -
  have ex: "neutral (''('' @ (render (value_frags (cond_field c)) @ op) @ '')'')" if "list_all flat_char op" for op
    by (intro neutral_parens neutral_append neutral_parts neutral_flat that)
  have glob: "neutral (''('' @ (''match'' @ (''('' @ (render (text_frags (cond_field c)) @ '', '' @
      render_frag (Rgx (the_str (cond_value c)) (\<not> case_sensitive c))) @ '')'')) @ '')'')"
    by (intro neutral_parens neutral_append neutral_parts neutral_flat) (simp_all add: flat_char_def)
  have cidr: "neutral (''('' @ (''ip_cidr_contains'' @ (''('' @ (render_frag (Lit (the_str (cond_value c))) @
      '', '' @ render (text_frags (cond_field c))) @ '')'') @ '' ?? false'') @ '')'')"
    by (intro neutral_parens neutral_append neutral_parts neutral_flat) (simp_all add: flat_char_def)
  have cmp: "neutral (''('' @ ((''('' @ (render (number_frags (cond_field c)) @
      ('' '' @ comparison_sign (cond_op c) @ '' '') @
      render (literal_frags (PFloat (the_float (cond_value c))))) @ '')'') @ '' ?? false'') @ '')'')"
    using substring_fn_flat(2) [of "cond_op c"]
    by (intro neutral_parens neutral_append neutral_parts neutral_flat) (simp_all add: flat_char_def)
  show ?thesis
    using ex [of "'' != null''"] ex [of "'' == null''"] glob cidr cmp
      neutral_equality [of c] neutral_membership [of c] neutral_substring [of c]
    by (cases "cond_op c") (simp_all add: cond_frags_def flat_char_def del: render_frag.simps(2,3))
qed

section \<open>Which chains compile\<close>

definition fits_int64 :: "int \<Rightarrow> bool" where
  "fits_int64 i \<longleftrightarrow> - (2 ^ 63) \<le> i \<and> i < 2 ^ 63"

definition encodable_rule :: "rule \<Rightarrow> bool" where
  "encodable_rule r \<longleftrightarrow> (\<forall>c \<in> set (rule_conditions r). encodable_value c) \<and> fits_int64 (rule_version r)"

lemma predicate_succeeds:
  assumes "valid_rule r"
  shows "succeeds (compile_rule_predicate r) \<longleftrightarrow> (\<forall>c \<in> set (rule_conditions r). encodable_value c)"
proof -
  have "rule_conditions r \<noteq> []" using assms by (auto simp: valid_rule_def validate_rule_Inr_iff check_conditions_def)
  moreover have "\<forall>c \<in> set (rule_conditions r). succeeds (compile_condition c) \<longleftrightarrow> encodable_value c"
    using valid_rule_conditions [OF assms] compile_condition_succeeds encode_path_valid_condition by (auto simp: list_all_iff)
  ultimately show ?thesis by (simp add: compile_rule_predicate_def mapR_succeeds_iff)
qed

lemma id_pattern_length: "id_pattern s \<Longrightarrow> length s \<le> 63"
  by (cases s) auto

lemma branch_succeeds:
  assumes "valid_rule r"
  shows "succeeds (emit_rule_branch r first) \<longleftrightarrow> encodable_rule r"
proof -
  have "id_pattern (rule_id r)" using assms by (auto simp: valid_rule_def validate_rule_Inr_iff)
  then have "succeeds (encode_string (rule_id r))" using id_pattern_length [of "rule_id r"] by (simp add: encode_string_succeeds)
  moreover have "succeeds (encode_string (action_value (rule_action r)))"
    by (cases "rule_action r") (simp_all add: encode_string_succeeds)
  ultimately obtain i a where "encode_string (rule_id r) = Inr i" "encode_string (action_value (rule_action r)) = Inr a"
    by (auto simp: succeeds_iff)
  moreover have "succeeds (encode (PInt (rule_version r))) \<longleftrightarrow> fits_int64 (rule_version r)"
    unfolding encode_succeeds by (simp add: fits_int64_def)
  ultimately show ?thesis
    using predicate_succeeds [OF assms]
    by (auto simp: emit_rule_branch_def encodable_rule_def Let_def succeeds_iff bindR_Inr_iff simp del: encode.simps)
qed

lemma branches_succeed:
  "\<forall>r \<in> set rs. valid_rule r \<Longrightarrow> succeeds (emit_branches rs first) \<longleftrightarrow> (\<forall>r \<in> set rs. encodable_rule r)"
proof (induction rs arbitrary: first)
  case (Cons r rs)
  then show ?case using branch_succeeds [of r first] Cons.IH [of False] by (auto simp: succeeds_iff bindR_Inr_iff)
qed simp

lemma chain_compiles_iff:
  assumes "\<forall>r \<in> set (chain_rules ch). valid_rule r"
  shows "(\<exists>p. compile_chain ch v = Inr p) \<longleftrightarrow>
    fits_int64 v \<and> (\<forall>r \<in> set (chain_rules ch). rule_enabled r \<longrightarrow> encodable_rule r)"
proof -
  have "set (active ch) = {r \<in> set (chain_rules ch). rule_enabled r}" by (auto simp: active_def)
  moreover have "\<exists>d. encode_string (action_value (default_action ch)) = Inr d"
    unfolding succeeds_iff [symmetric] by (cases "default_action ch") (simp_all add: encode_string_succeeds)
  moreover have "succeeds (encode (PInt v)) \<longleftrightarrow> fits_int64 v" unfolding encode_succeeds by (simp add: fits_int64_def)
  ultimately show ?thesis using branches_succeed [of "active ch" True] assms
    by (cases "active ch = []") (auto simp: compile_chain_def chain_lines_def Let_def succeeds_iff bindR_Inr_iff simp del: encode.simps)
qed

section \<open>Properties\<close>

text \<open>A rule whose threshold is no number, for the concrete instance.\<close>

definition plain_rule :: "bool \<Rightarrow> rule" where
  "plain_rule on = \<lparr>rule_id = ''a'', rule_name = ''a'', rule_description = [], rule_enabled = on, rule_order = 0,
     rule_action = DROP, rule_conditions = [\<lparr>cond_field = ''severity'', cond_op = GT, cond_value = PBool True,
       case_sensitive = False\<rparr>], rule_output = ''default'', rule_retain = False, rule_shadow = False,
     rule_version = 1, rule_updated = 0\<rparr>"

text \<open>C34: A chain of valid rules compiles exactly when the enabled ones are encodable: every condition
  has an encodable value, and rule and chain versions fit in 64 bits. A disabled rule never
  keeps a chain from compiling.\<close>

theorem valid_chain_compiles_iff:
  assumes "\<forall>r \<in> set (chain_rules ch). valid_rule r"
  shows "(\<exists>p. compile_or_raise ch v = Inr p) \<longleftrightarrow>
    fits_int64 v \<and> (\<forall>r \<in> set (chain_rules ch). rule_enabled r \<longrightarrow> encodable_rule r)"
  unfolding compile_or_raise_def mapError_Inr_iff by (rule chain_compiles_iff [OF assms])

theorem valid_chain_compiles_iff_witness:
  "valid_rule (plain_rule True) \<and> valid_rule (plain_rule False) \<and>
   \<not> (\<exists>p. compile_or_raise \<lparr>chain_rules = [plain_rule True], default_action = FORWARD, shadow_mode = False\<rparr> 1 = Inr p) \<and>
   (\<exists>p. compile_or_raise \<lparr>chain_rules = [plain_rule False], default_action = FORWARD, shadow_mode = False\<rparr> 1 = Inr p)"
proof -
  have v: "valid_rule (plain_rule True)" "valid_rule (plain_rule False)" by code_simp+
  have e: "\<not> encodable_rule (plain_rule True)" "fits_int64 1" by code_simp+
  have on: "rule_enabled (plain_rule b) = b" for b by (simp add: plain_rule_def)
  show ?thesis
    using valid_chain_compiles_iff [of "\<lparr>chain_rules = [plain_rule True], default_action = FORWARD, shadow_mode = False\<rparr>" 1]
      valid_chain_compiles_iff [of "\<lparr>chain_rules = [plain_rule False], default_action = FORWARD, shadow_mode = False\<rparr>" 1] v e on
    by simp
qed

text \<open>A valid condition compiles exactly when its value is encodable: strings up to 4096
  characters, integers in 64 bits, finite floats with a literal of at most 128 characters, mixed
  lists up to 1024 items, and for an ordering operator a number. Validation alone does not
  guarantee it.\<close>

theorem valid_condition_compiles_iff:
  assumes "valid_condition c"
  shows "(\<exists>t. compile_condition c = Inr t) \<longleftrightarrow> encodable_value c"
  using compile_condition_succeeds [OF encode_path_valid_condition [OF assms]] by (simp add: succeeds_iff)

theorem valid_condition_compiles_iff_witness:
  "valid_condition \<lparr>cond_field = ''severity'', cond_op = GT, cond_value = PBool True, case_sensitive = False\<rparr> \<and>
   \<not> (\<exists>t. compile_condition \<lparr>cond_field = ''severity'', cond_op = GT, cond_value = PBool True,
        case_sensitive = False\<rparr> = Inr t)"
proof -
  have v: "valid_condition \<lparr>cond_field = ''severity'', cond_op = GT, cond_value = PBool True, case_sensitive = False\<rparr>"
    by code_simp
  have "\<not> encodable_value \<lparr>cond_field = ''severity'', cond_op = GT, cond_value = PBool True, case_sensitive = False\<rparr>"
    by code_simp
  with v valid_condition_compiles_iff [OF v] show ?thesis by blast
qed

text \<open>The injection invariant: two conditions that differ only in the contents of strings (the
  value, list items, field segments) compile to the same text outside string and regular
  expression literals.\<close>

theorem values_cannot_change_code:
  assumes "compile_condition c = Inr t" "compile_condition d = Inr u" "same_shape c d"
  shows "strip_literals t = strip_literals u"
  by (rule strip_cond [OF assms])

definition hostile_condition :: condition where
  "hostile_condition = \<lparr>cond_field = ''name'', cond_op = GLOB,
     cond_value = PStr ([SQ, CHR '')'', DQ] @ '' || true # *''), case_sensitive = False\<rparr>"

theorem values_cannot_change_code_witness:
  "\<exists>t u. compile_condition hostile_condition = Inr t \<and>
     compile_condition (hostile_condition\<lparr>cond_value := PStr ''x''\<rparr>) = Inr u \<and>
     t \<noteq> u \<and> strip_literals t = strip_literals u"
proof -
  have s: "succeeds (compile_condition hostile_condition)"
    "succeeds (compile_condition (hostile_condition\<lparr>cond_value := PStr ''x''\<rparr>))" by code_simp+
  then obtain t u where tu: "compile_condition hostile_condition = Inr t"
    "compile_condition (hostile_condition\<lparr>cond_value := PStr ''x''\<rparr>) = Inr u"
    by (auto simp: succeeds_iff)
  have "same_shape hostile_condition (hostile_condition\<lparr>cond_value := PStr ''x''\<rparr>)" by code_simp
  then have st: "strip_literals t = strip_literals u" by (rule values_cannot_change_code [OF tu])
  have "compile_condition hostile_condition \<noteq> compile_condition (hostile_condition\<lparr>cond_value := PStr ''x''\<rparr>)"
    by code_simp
  then have "t \<noteq> u" unfolding tu by blast
  with tu st show ?thesis by blast
qed

section \<open>Valid conditions that do not compile\<close>

text \<open>A numeric threshold beyond the range of a double passes validation and then raises an
  \<open>OverflowError\<close>, which is not an encoder error.\<close>

lemma huge_threshold_overflows:
  "let c = \<lparr>cond_field = ''severity'', cond_op = GT, cond_value = PInt (2 ^ 1024), case_sensitive = False\<rparr>
   in valid_condition c \<and> compile_condition c = Inl (FloatOverflow (2 ^ 1024))"
proof -
  let ?c = "\<lparr>cond_field = ''severity'', cond_op = GT, cond_value = PInt (2 ^ 1024), case_sensitive = False\<rparr>"
  have n: "normalize_field ''severity'' = Inr ''severity''" by code_simp
  have v: "valid_condition ?c"
    by (simp add: valid_condition_def validate_condition_def n check_value_shape_def operator_classes)
  have "succeeds (encode_path ''severity'')" by code_simp
  then obtain e where "number_expr ''severity'' = Inr e"
    unfolding number_expr_succeeds [symmetric] by (auto simp: succeeds_iff)
  moreover have "int_to_float (2 ^ 1024) = None" by (rule int_to_float_overflow) simp
  ultimately have "compile_condition ?c = Inl (FloatOverflow (2 ^ 1024))"
    by (simp add: compile_condition_def compile_comparison_def del: power_numeral)
  with v show ?thesis unfolding Let_def by blast
qed

text \<open>An ordering operator with a boolean passes validation and is rejected by the compiler.\<close>

lemma boolean_threshold_rejected:
  "let c = \<lparr>cond_field = ''severity'', cond_op = LTE, cond_value = PBool True, case_sensitive = False\<rparr>
   in valid_condition c \<and> compile_condition c = Inl (NeedsNumber LTE)"
  by code_simp

text \<open>The list limit of the encoder does not bind a list of strings.\<close>

lemma string_list_unlimited:
  "encodable_value \<lparr>cond_field = f, cond_op = IN, cond_value = PList (replicate n (PStr ''x'')), case_sensitive = cs\<rparr>"
  by (simp add: encodable_value_def list_all_iff)

end
