(* ===== verification/Program_Text.thy ===== *)
theory Program_Text
  imports Prelude Rule_Model Encoder Compiler Lexical Injection
begin

text \<open>
  The whole generated program as fragments: its bracket structure and the text outside literals
  and comments depend on the shape of the active rules only.
\<close>

section \<open>Lexing the constant text\<close>

text \<open>The constant parts of the program hold string literals without escapes, and comments.\<close>

function lex :: "string \<Rightarrow> frag list" where
  "lex [] = []"
| "lex (c # cs) =
     (if c = DQ then
        (let s = takeWhile (\<lambda>x. x \<noteq> DQ) cs in Lit s # lex (drop (Suc (length s)) cs))
      else if c = CHR ''#'' then
        (let s = takeWhile (\<lambda>x. x \<noteq> NL) cs in Cmt s # lex (drop (Suc (length s)) cs))
      else
        (let s = takeWhile (\<lambda>x. x \<noteq> DQ \<and> x \<noteq> CHR ''#'') cs in Txt (c # s) # lex (drop (length s) cs)))"
  by pat_completeness auto
termination
  by (relation "measure length") auto

definition lexed :: "string \<Rightarrow> bool" where
  "lexed t \<longleftrightarrow> render (lex t) = t \<and> list_all frag_ok (lex t)"

definition lex_lines :: "string list \<Rightarrow> frag list" where
  "lex_lines ls = concat (map (\<lambda>l. lex (l @ [NL])) ls)"

lemma lines_text_simps [simp]:
  "lines_text [] = []" "lines_text (l # ls) = l @ NL # lines_text ls"
  "lines_text (ls @ ms) = lines_text ls @ lines_text ms"
  by (simp_all add: lines_text_def)

lemma lex_lines_Cons: "lex_lines (l # ls) = lex (l @ [NL]) @ lex_lines ls"
  by (simp add: lex_lines_def)

lemma lexed_lines:
  "list_all (\<lambda>l. lexed (l @ [NL])) ls \<Longrightarrow> render (lex_lines ls) = lines_text ls \<and> list_all frag_ok (lex_lines ls)"
  by (induction ls) (simp_all add: lex_lines_Cons lexed_def, simp add: lex_lines_def)

text \<open>The constant lines around the branches; the first ends where the default action goes.\<close>

definition ENFORCE_TOP :: "string list" where
  \<open>ENFORCE_TOP =
     [[],
      ''if !parse_ok {'',
      INDENT @ ''# D-18: unparseable input is forwarded, counted, and sampled.'',
      INDENT @ ''decision = "forward_parse_error"'',
      INDENT @ ''reason = "parse_error"'',
      ''} else if matched_id == null {'',
      INDENT @ ''# D-01: no rule matched, so the chain default applies.'']\<close>

definition ENFORCE_REST :: "string list" where
  \<open>ENFORCE_REST =
     [INDENT @ ''reason = "default"'',
      ''} else if matched_shadow || shadow_chain {'',
      INDENT @ ''# D-29: record the match, enforce nothing.'',
      INDENT @ ''decision = "forward"'',
      INDENT @ ''reason = "shadow"'',
      ''} else {'',
      INDENT @ ''decision = matched_action'',
      INDENT @ ''reason = "rule"'',
      ''}'',
      []]\<close>

definition RESULT_REST :: "string list" where
  \<open>RESULT_REST =
     [INDENT @ ''"decision": decision,'',
      INDENT @ ''"reason": reason,'',
      INDENT @ ''"rule_id": matched_id,'',
      INDENT @ ''"rule_version": matched_version,'',
      INDENT @ ''"retain": matched_retain,'',
      INDENT @ ''"parse_ok": parse_ok,'',
      INDENT @ ''"cef_ok": cef_ok,'',
      INDENT @ ''"syslog_ok": syslog_ok,'',
      INDENT @ ''"ts": to_string(now()),'',
      INDENT @ ''"event_id": ss_event_id,'',
      INDENT @ ''"severity": ss_severity,'',
      INDENT @ ''"host": ss_host,'',
      INDENT @ ''"name": ss_name,'',
      ''}'']\<close>

lemma enforcement_split:
  "enforcement_lines d s = [''shadow_chain = '' @ s] @ ENFORCE_TOP @ [INDENT @ ''decision = '' @ d] @ ENFORCE_REST"
  by (simp add: enforcement_lines_def ENFORCE_TOP_def ENFORCE_REST_def)

lemma result_split:
  \<open>result_lines v = [''.ss = {'', INDENT @ ''"chain_version": '' @ v @ '',''] @ RESULT_REST\<close>
  by (simp add: result_lines_def RESULT_REST_def)

lemma lexed_constants:
  "list_all (\<lambda>l. lexed (l @ [NL])) PRELUDE_LINES"
  "list_all (\<lambda>l. lexed (l @ [NL])) METADATA"
  "list_all (\<lambda>l. lexed (l @ [NL])) ENFORCE_TOP"
  "list_all (\<lambda>l. lexed (l @ [NL])) ENFORCE_REST"
  "list_all (\<lambda>l. lexed (l @ [NL])) RESULT_REST"
  by code_simp+

lemmas lexed_constant_lines = lexed_constants [THEN lexed_lines]

section \<open>The program as fragments\<close>

definition comment_frag :: "rule \<Rightarrow> frag" where
  "comment_frag r = Cmt (tl (encode_comment (rule_id r @ '': '' @
     (if rule_description r \<noteq> [] then rule_description r else rule_name r))))"

definition branch_frags :: "rule \<Rightarrow> bool \<Rightarrow> frag list" where
  "branch_frags r first =
     comment_frag r # Txt ((if first then ''if'' else ''} else if'') @ '' '') #
     sep_frags '' && '' (map cond_frags (rule_conditions r)) @
     [Txt ('' {'' @ NL # INDENT @ ''matched_id = ''), Lit (rule_id r),
      Txt (NL # INDENT @ ''matched_version = '' @ int_str (rule_version r) @ NL # INDENT @ ''matched_action = ''),
      Lit (action_value (rule_action r)),
      Txt (NL # INDENT @ ''matched_shadow = '' @ bool_text (rule_shadow r) @ NL # INDENT @
        ''matched_retain = '' @ bool_text (rule_retain r) @ [NL])]"

fun branches_frags :: "rule list \<Rightarrow> bool \<Rightarrow> frag list" where
  "branches_frags [] first = []"
| "branches_frags (r # rs) first = branch_frags r first @ branches_frags rs False"

definition program_frags :: "rule_chain \<Rightarrow> int \<Rightarrow> frag list" where
  "program_frags ch v =
     lex_lines PRELUDE_LINES @ Txt [NL] # branches_frags (active ch) True @
     (if active ch = [] then [] else [Txt ''}'', Txt [NL]]) @
     Txt (NL # ''shadow_chain = '' @ bool_text (shadow_mode ch) @ [NL]) # lex_lines ENFORCE_TOP @
     [Txt (INDENT @ ''decision = ''), Lit (action_value (default_action ch)), Txt [NL]] @
     lex_lines ENFORCE_REST @ lex_lines METADATA @
     [Txt (NL # ''.ss = {'' @ NL # INDENT), Lit ''chain_version'', Txt ('': '' @ int_str v @ '','' @ [NL])] @
     lex_lines RESULT_REST"

lemma encode_comment_Cons: "encode_comment t = CHR ''#'' # tl (encode_comment t)"
  by (simp add: encode_comment_def Let_def)

lemma render_comment_frag:
  "render_frag (comment_frag r) = encode_comment (rule_id r @ '': '' @
     (if rule_description r \<noteq> [] then rule_description r else rule_name r)) @ [NL]"
  unfolding comment_frag_def render_frag.simps by (subst (2) encode_comment_Cons) simp

lemma predicate_render:
  "compile_rule_predicate r = Inr t \<Longrightarrow> t = render (sep_frags '' && '' (map cond_frags (rule_conditions r)))"
proof -
  assume "compile_rule_predicate r = Inr t"
  then obtain ps where p: "mapR compile_condition (rule_conditions r) = Inr ps" "t = py_join '' && '' ps"
    by (auto simp: compile_rule_predicate_def bindR_Inr_iff split: if_splits)
  have "ps = map (\<lambda>c. render (cond_frags c)) (rule_conditions r)"
    by (rule mapR_render [OF p(1)]) (rule compile_condition_render)
  with p(2) show ?thesis by (simp add: render_sep o_def)
qed

lemma branch_render: "emit_rule_branch r first = Inr ls \<Longrightarrow> lines_text ls = render (branch_frags r first)"
  unfolding emit_rule_branch_def Let_def branch_frags_def
  by (auto simp: bindR_Inr_iff render_comment_frag simp del: render_frag.simps(2,4) split: if_splits
      dest!: predicate_render encode_string_render)

lemma branches_render: "emit_branches rs first = Inr ls \<Longrightarrow> lines_text ls = render (branches_frags rs first)"
  by (induction rs arbitrary: first ls) (auto simp: bindR_Inr_iff branch_render)

lemma join_lines: "ls \<noteq> [] \<Longrightarrow> py_join [NL] ls @ [NL] = lines_text ls"
  by (induction ls rule: induct_list012) simp_all

lemma PRELUDE_lines: "PRELUDE = lines_text PRELUDE_LINES"
  by (simp add: PRELUDE_def lines_text_def)

lemma compile_chain_render:
  assumes "compile_chain ch v = Inr t"
  shows "t = render (program_frags ch v)"
proof -
  obtain ls where ls: "chain_lines ch v = Inr ls" and t: "t = lines_text (PRELUDE # ls)"
    using assms join_lines [of "PRELUDE # _"] by (auto simp: compile_chain_def bindR_Inr_iff)
  obtain bs where b: "emit_branches (active ch) True = Inr bs"
    and ls: "ls = (if active ch \<noteq> [] then bs @ [''}''] else []) @ [[]] @
      enforcement_lines (render_frag (Lit (action_value (default_action ch)))) (bool_text (shadow_mode ch)) @
      METADATA @ [[]] @ result_lines (int_str v)"
    using ls
    by (auto simp: chain_lines_def Let_def bindR_Inr_iff
        simp del: render_frag.simps(2) split: if_splits dest!: encode_string_render)
  have "render_frag (Lit ''chain_version'') = DQ # ''chain_version'' @ [DQ]" by code_simp
  then show ?thesis
    unfolding t ls using branches_render [OF b] b lexed_constant_lines
    by (auto simp: program_frags_def PRELUDE_lines enforcement_split result_split
        simp del: render_frag.simps(2))
qed

section \<open>The text outside literals and comments\<close>

definition same_rule_shape :: "rule \<Rightarrow> rule \<Rightarrow> bool" where
  "same_rule_shape r s \<longleftrightarrow>
     list_all2 same_shape (rule_conditions r) (rule_conditions s) \<and>
     rule_version r = rule_version s \<and> rule_shadow r = rule_shadow s \<and> rule_retain r = rule_retain s"

definition same_chain_shape :: "rule_chain \<Rightarrow> rule_chain \<Rightarrow> bool" where
  "same_chain_shape c d \<longleftrightarrow>
     list_all2 same_rule_shape (active c) (active d) \<and> shadow_mode c = shadow_mode d"

text \<open>Flatness evaluated on literal characters only.\<close>

lemmas flat_Char = flat_char_def [of "Char b0 b1 b2 b3 b4 b5 b6 b7" for b0 b1 b2 b3 b4 b5 b6 b7]

lemma comment_frag_ok: "frag_ok (comment_frag r)"
proof -
  have "NL \<notin> set (encode_comment t)" for t
    using encode_comment_one_line by blast
  then have "NL \<notin> set (tl (encode_comment t))" for t
    by (metis encode_comment_Cons list.set_intros(2))
  then show ?thesis by (simp add: comment_frag_def)
qed

lemma bool_text_ok: "frag_ok (Txt (bool_text b))" "list_all flat_char (bool_text b)"
  by (cases b; simp add: bool_text_def flat_char_def)+

lemma int_text_ok: "frag_ok (Txt (int_str i))" "list_all flat_char (int_str i)"
  using int_str_number [of i] by (auto simp: list_all_iff number_char_flat intro: number_frag_ok)
    (auto dest!: number_char_flat simp: flat_char_def)

lemma cond_frags_ok: "list_all frag_ok (cond_frags c)"
  using code_frags_cond [of c] by (simp add: code_frags_def)

lemma sep_frags_ok:
  "frag_ok (Txt sep) \<Longrightarrow> (\<And>fs. fs \<in> set fss \<Longrightarrow> list_all frag_ok fs) \<Longrightarrow> list_all frag_ok (sep_frags sep fss)"
  by (induction sep fss rule: sep_frags.induct) simp_all

lemma branch_frags_ok: "list_all frag_ok (branch_frags r first)"
proof -
  have "list_all frag_ok (sep_frags '' && '' (map cond_frags (rule_conditions r)))"
    by (rule sep_frags_ok) (auto simp: cond_frags_ok)
  then show ?thesis
    using comment_frag_ok [of r] int_text_ok(1) [of "rule_version r"]
      bool_text_ok(1) [of "rule_shadow r"] bool_text_ok(1) [of "rule_retain r"]
    by (simp add: branch_frags_def INDENT_def)
qed

lemma branches_frags_ok: "list_all frag_ok (branches_frags rs first)"
  by (induction rs arbitrary: first) (simp_all add: branch_frags_ok)

lemma program_frags_ok: "list_all frag_ok (program_frags ch v)"
  using branches_frags_ok [of "active ch" True] lexed_constant_lines
    int_text_ok(1) [of v] bool_text_ok(1) [of "shadow_mode ch"]
  by (simp add: program_frags_def INDENT_def)

lemma blank_conds:
  "list_all2 same_shape cs ds \<Longrightarrow> map (map blank) (map cond_frags cs) = map (map blank) (map cond_frags ds)"
  by (induction rule: list_all2_induct) (simp_all add: blank_cond)

lemma blank_branch:
  assumes "same_rule_shape r s"
  shows "map blank (branch_frags r first) = map blank (branch_frags s first)"
  using assms blank_conds [of "rule_conditions r" "rule_conditions s"]
  by (simp add: branch_frags_def same_rule_shape_def comment_frag_def blank_sep)

lemma blank_branches:
  "list_all2 same_rule_shape rs ss \<Longrightarrow> map blank (branches_frags rs first) = map blank (branches_frags ss first)"
  by (induction arbitrary: first rule: list_all2_induct) (simp_all add: blank_branch)

lemma blank_program:
  assumes "same_chain_shape c d"
  shows "map blank (program_frags c v) = map blank (program_frags d v)"
proof -
  have "active c = [] \<longleftrightarrow> active d = []"
    using assms by (auto simp: same_chain_shape_def)
  then show ?thesis
    using assms blank_branches [of "active c" "active d" True]
    by (simp add: program_frags_def same_chain_shape_def)
qed

lemma skeleton_chain:
  assumes "compile_chain c v = Inr t" "compile_chain d v = Inr u" "same_chain_shape c d"
  shows "skeleton t = skeleton u"
proof -
  have "foldl skel_step (K_Code, []) (render (program_frags c v)) =
      foldl skel_step (K_Code, []) (render (program_frags d v))"
    by (rule skel.scan_program_same_shape)
      (use program_frags_ok blank_program [OF assms(3)] in \<open>simp_all add: skel_in_code_def\<close>)
  then show ?thesis
    unfolding skeleton_def compile_chain_render [OF assms(1)] compile_chain_render [OF assms(2)]
    by (rule arg_cong)
qed

section \<open>Brackets of the program\<close>

text \<open>
  The net effect of a constant text on the depths, computed from a state with some braces open.
  It is the same from every well-placed state with at least as many braces open.
\<close>

definition bal_from :: "int \<Rightarrow> bal" where
  "bal_from b = bal_init\<lparr>depth_brace := b\<rparr>"

definition net_ok :: "int \<Rightarrow> int \<Rightarrow> string \<Rightarrow> bool" where
  "net_ok b b' t \<longleftrightarrow> 0 \<le> b \<and> t \<noteq> [] \<and> hd t \<noteq> SQ \<and>
     (let u = foldl bal_step (bal_from b) t
      in \<not> bal_failed u \<and> bal_mode u = B_Code \<and> depth_paren u = 0 \<and> depth_brack u = 0 \<and>
         depth_brace u = b' \<and> 0 \<le> b')"

text \<open>Two scans that differ by some open brackets below.\<close>

definition above :: "int \<times> int \<times> int \<Rightarrow> bal \<Rightarrow> bal \<Rightarrow> bool" where
  "above = (\<lambda>(p, q, k) s u. bal_mode s = bal_mode u \<and> \<not> bal_failed s \<and>
     depth_paren s = depth_paren u + p \<and> depth_brace s = depth_brace u + q \<and>
     depth_brack s = depth_brack u + k \<and> 0 \<le> p \<and> 0 \<le> q \<and> 0 \<le> k)"

lemma bal_prev_step [simp]: "bal_prev (bal_step s c) = Some c"
  by (simp add: bal_step_def)

lemma bal_failed_step: "bal_failed s \<Longrightarrow> bal_failed (bal_step s c)"
  by (simp add: bal_step_def bal_code_char_def split: bal_mode.splits)

lemma bal_failed_foldl: "bal_failed s \<Longrightarrow> bal_failed (foldl bal_step s t)"
  by (induction t arbitrary: s) (auto dest: bal_failed_step)

lemma above_code_char:
  assumes "above (p, q, k) s u" "bal_prev s = bal_prev u \<or> c \<noteq> SQ" "\<not> bal_failed (bal_code_char u c)"
  shows "above (p, q, k) (bal_code_char s c) (bal_code_char u c)"
proof -
  consider "c = CHR ''#''" | "c = DQ" | "c = SQ" | "c = CHR ''(''" | "c = CHR ''{''" | "c = CHR ''[''"
    | "c = CHR '')''" | "c = CHR ''}''" | "c = CHR '']''"
    | "flat_char c"
    unfolding flat_char_def by blast
  then show ?thesis
    using assms by cases (simp_all add: above_def bal_code_char_def flat_char_def)
qed

lemma above_step:
  assumes "above d s u" "bal_prev s = bal_prev u \<or> c \<noteq> SQ" "\<not> bal_failed (bal_step u c)"
  shows "above d (bal_step s c) (bal_step u c)"
proof -
  obtain p q k where d: "d = (p, q, k)" by (cases d)
  have m: "bal_mode s = bal_mode u" using assms(1) by (simp add: above_def d)
  show ?thesis
  proof (cases "bal_mode u = B_Code")
    case True
    with assms m have "above (p, q, k) (bal_code_char s c) (bal_code_char u c)"
      by (intro above_code_char) (simp_all add: d bal_step_def)
    with True m show ?thesis by (simp add: bal_step_def above_def d)
  next
    case False
    with assms m show ?thesis
      by (cases "bal_mode u") (simp_all add: bal_step_def above_def d)
  qed
qed

lemma above_foldl:
  assumes "above d s u" "bal_prev s = bal_prev u \<or> t = [] \<or> hd t \<noteq> SQ" "\<not> bal_failed (foldl bal_step u t)"
  shows "above d (foldl bal_step s t) (foldl bal_step u t)"
  using assms
proof (induction t arbitrary: s u)
  case Nil
  then show ?case by simp
next
  case (Cons c t)
  have nf: "\<not> bal_failed (bal_step u c)"
    using Cons.prems(3) bal_failed_foldl by fastforce
  have "above d (bal_step s c) (bal_step u c)"
    by (rule above_step [OF Cons.prems(1) _ nf]) (use Cons.prems in auto)
  with Cons show ?case by simp
qed

lemma net_ok_shift:
  assumes "net_ok b b' t" "bal_good s" "b \<le> depth_brace s"
  shows "bal_good (foldl bal_step s t) \<and>
    depths (foldl bal_step s t) = (depth_paren s, depth_brace s + (b' - b), depth_brack s)"
proof -
  let ?d = "(depth_paren s, depth_brace s - b, depth_brack s)"
  have "above ?d s (bal_from b)"
    using assms by (simp add: above_def bal_from_def bal_init_def bal_good_def)
  then have "above ?d (foldl bal_step s t) (foldl bal_step (bal_from b) t)"
    by (rule above_foldl) (use assms in \<open>auto simp: net_ok_def Let_def\<close>)
  with assms show ?thesis
    by (auto simp: above_def net_ok_def Let_def bal_good_def depths_def)
qed

text \<open>Effects on the brace depth in sequence.\<close>

definition braces :: "int \<Rightarrow> int \<Rightarrow> string \<Rightarrow> bool" where
  "braces b b' t \<longleftrightarrow> (\<forall>s. bal_good s \<longrightarrow> b \<le> depth_brace s \<longrightarrow>
     bal_good (foldl bal_step s t) \<and>
     depths (foldl bal_step s t) = (depth_paren s, depth_brace s + (b' - b), depth_brack s))"

lemma net_ok_braces: "net_ok b b' t \<Longrightarrow> braces b b' t"
  using net_ok_shift by (auto simp: braces_def)

lemma braces_append: "braces b b' t \<Longrightarrow> braces b' b'' u \<Longrightarrow> braces b b'' (t @ u)"
  unfolding braces_def depths_def foldl_append by (smt (verit) prod.inject)

lemma neutral_braces_same: "neutral t \<Longrightarrow> braces b b t"
  by (auto simp: braces_def neutral_def depths_def)

lemma braces_balanced: "braces 0 0 t \<Longrightarrow> balanced t"
  unfolding braces_def balanced_def Let_def
  by (drule spec [of _ bal_init]) (use bal_init_good in \<open>auto simp: depths_def bal_good_def\<close>)

lemma net_constants:
  "net_ok 0 0 (lines_text PRELUDE_LINES)" "net_ok 0 1 (lines_text ENFORCE_TOP)"
  "net_ok 1 0 (lines_text ENFORCE_REST)" "net_ok 0 0 (lines_text METADATA)"
  "net_ok 1 0 (lines_text RESULT_REST)" "net_ok 1 0 (''} else if '')"
  "net_ok 0 1 ('' {'' @ NL # INDENT @ ''matched_id = '')" "net_ok 1 0 ''}''"
  "net_ok 0 1 (NL # ''.ss = {'' @ NL # INDENT)"
  by code_simp+

lemmas net_braces = net_constants [THEN net_ok_braces]

lemma neutral_comment_frag: "neutral (render_frag (comment_frag r))"
  using comment_frag_ok [of r] unfolding comment_frag_def by (intro neutral_comment) simp

lemma neutral_predicate: "neutral (render (sep_frags '' && '' (map cond_frags cs)))"
  unfolding render_sep by (rule neutral_join) (auto intro: neutral_cond neutral_flat simp: flat_char_def)

lemma branch_braces: "braces (if first then 0 else 1) 1 (render (branch_frags r first))"
proof -
  let ?kw = "(if first then ''if'' else ''} else if'') @ '' ''"
  let ?tail = "render_frag (Lit (rule_id r)) @
      (NL # INDENT @ ''matched_version = '' @ int_str (rule_version r) @ NL # INDENT @ ''matched_action = '') @
      render_frag (Lit (action_value (rule_action r))) @
      (NL # INDENT @ ''matched_shadow = '' @ bool_text (rule_shadow r) @ NL # INDENT @
        ''matched_retain = '' @ bool_text (rule_retain r) @ [NL])"
  have kw: "braces (if first then 0 else 1) 0 ?kw"
    using net_braces(6) neutral_braces_same [OF neutral_flat [of "''if ''"], of 0]
    by (simp add: flat_Char)
  have tail: "braces 1 1 ?tail"
    by (intro neutral_braces_same neutral_append neutral_literal neutral_flat)
      (simp_all add: INDENT_def flat_Char int_text_ok(2)
        bool_text_ok(2))
  have "braces (if first then 0 else 1) 1 (render_frag (comment_frag r) @ ?kw @
      render (sep_frags '' && '' (map cond_frags (rule_conditions r))) @
      ('' {'' @ NL # INDENT @ ''matched_id = '') @ ?tail)"
    by (intro braces_append [OF neutral_braces_same [OF neutral_comment_frag]] braces_append [OF kw]
        braces_append [OF neutral_braces_same [OF neutral_predicate]] braces_append [OF net_braces(7)] tail)
  then show ?thesis by (simp add: branch_frags_def del: render_frag.simps(2,4))
qed

lemma branches_braces:
  "rs \<noteq> [] \<Longrightarrow> braces (if first then 0 else 1) 1 (render (branches_frags rs first))"
proof (induction rs arbitrary: first)
  case (Cons r rs)
  show ?case
  proof (cases "rs = []")
    case True
    then show ?thesis using branch_braces [of first r] by simp
  next
    case False
    then show ?thesis
      using braces_append [OF branch_braces [of first r]] Cons.IH [of False] by simp
  qed
qed simp

lemma program_braces: "braces 0 0 (render (program_frags ch v))"
proof -
  have flat: "braces b b t" if "list_all flat_char t" for b t
    by (intro neutral_braces_same neutral_flat that)
  have lit: "braces b b (render_frag (Lit t))" for b t
    by (intro neutral_braces_same neutral_literal)
  have rules: "braces 0 0 (if active ch = [] then [] else render (branches_frags (active ch) True) @ ''}'' @ [NL])"
    using branches_braces [of "active ch" True] flat [of "[]" 0]
      braces_append [OF _ braces_append [OF net_braces(8) flat [of "[NL]" 0]]]
    by (simp add: flat_Char)
  have 1: "braces 0 0 (NL # ''shadow_chain = '' @ bool_text (shadow_mode ch) @ [NL])"
    by (rule flat) (simp add: flat_Char bool_text_ok(2))
  have 2: "braces 1 1 ((INDENT @ ''decision = '') @ render_frag (Lit (action_value (default_action ch))) @ [NL])"
    by (rule braces_append [OF flat braces_append [OF lit flat]]) (simp_all add: INDENT_def flat_Char)
  have 3: "braces 1 1 (render_frag (Lit ''chain_version'') @ ('': '' @ int_str v @ '','' @ [NL]))"
    by (rule braces_append [OF lit flat]) (simp add: flat_Char int_text_ok(2))
  have "braces 0 0 (lines_text PRELUDE_LINES @ [NL] @
      (if active ch = [] then [] else render (branches_frags (active ch) True) @ ''}'' @ [NL]) @
      (NL # ''shadow_chain = '' @ bool_text (shadow_mode ch) @ [NL]) @ lines_text ENFORCE_TOP @
      ((INDENT @ ''decision = '') @ render_frag (Lit (action_value (default_action ch))) @ [NL]) @
      lines_text ENFORCE_REST @ lines_text METADATA @ (NL # ''.ss = {'' @ NL # INDENT) @
      (render_frag (Lit ''chain_version'') @ ('': '' @ int_str v @ '','' @ [NL])) @ lines_text RESULT_REST)"
    by (intro braces_append [OF net_braces(1)] braces_append [OF flat [of "[NL]" 0]] braces_append [OF rules]
        braces_append [OF 1] braces_append [OF net_braces(2)] braces_append [OF 2]
        braces_append [OF net_braces(3)] braces_append [OF net_braces(4)] braces_append [OF net_braces(9)]
        braces_append [OF 3] net_braces(5)) (simp add: flat_Char)
  then show ?thesis
    using lexed_constant_lines by (simp add: program_frags_def del: render_frag.simps(2) split: if_splits)
qed

lemma compile_chain_brackets: "compile_chain ch v = Inr t \<Longrightarrow> balanced t"
  using compile_chain_render program_braces braces_balanced by blast

section \<open>Properties\<close>

text \<open>C25: Every compiled chain is a program whose brackets balance outside literals and comments,
  however its rules are named, described and conditioned.\<close>

theorem compiled_chain_balanced:
  "case compile_or_raise ch v of Inl e \<Rightarrow> compile_chain ch v = Inl e \<or> (\<exists>x. e = EncodingFailed x \<and> compile_chain ch v = Inl (Encode x))
   | Inr t \<Rightarrow> balanced t"
  using compile_chain_brackets [of ch v]
  by (cases "compile_chain ch v") (auto simp: compile_or_raise_def split: compile_exn.splits)

text \<open>C7: The injection invariant for a whole program: two chains whose active rules agree in
  operators, flags, versions and shapes of values compile to the same text outside literals and
  comments. Rule ids, names, descriptions, actions, field names and string values of the user
  occur inside literals and comments only.\<close>

theorem chains_cannot_change_code:
  assumes "compile_chain c v = Inr t" "compile_chain d v = Inr u" "same_chain_shape c d"
  shows "skeleton t = skeleton u"
  by (rule skeleton_chain [OF assms])

definition hostile_chain :: "string \<Rightarrow> rule_chain" where
  "hostile_chain s = \<lparr>chain_rules = [\<lparr>rule_id = ''r-1'', rule_name = s, rule_description = [], rule_enabled = True,
     rule_order = 1, rule_action = DROP,
     rule_conditions = [\<lparr>cond_field = ''name'', cond_op = EQ, cond_value = PStr s, case_sensitive = False\<rparr>],
     rule_output = ''default'', rule_retain = False, rule_shadow = False, rule_version = 1, rule_updated = 0\<rparr>],
     default_action = FORWARD, shadow_mode = False\<rparr>"

theorem chains_cannot_change_code_witness:
  "\<exists>t u. compile_chain (hostile_chain ([DQ, NL] @ ''} else { decision = 1 #'')) 4 = Inr t \<and>
     compile_chain (hostile_chain ''plain'') 4 = Inr u \<and> skeleton t = skeleton u"
proof -
  have s: "succeeds (chain_lines (hostile_chain ([DQ, NL] @ ''} else { decision = 1 #'')) 4)"
    "succeeds (chain_lines (hostile_chain ''plain'') 4)" by code_simp+
  then obtain t u where tu: "compile_chain (hostile_chain ([DQ, NL] @ ''} else { decision = 1 #'')) 4 = Inr t"
    "compile_chain (hostile_chain ''plain'') 4 = Inr u"
    by (auto simp: succeeds_iff compile_chain_def)
  have "same_chain_shape (hostile_chain ([DQ, NL] @ ''} else { decision = 1 #'')) (hostile_chain ''plain'')"
    by code_simp
  then show ?thesis using chains_cannot_change_code [OF tu] tu by blast
qed

end
