(* ===== verification/Decision.thy ===== *)
theory Decision
  imports Complex_Main Prelude Rule_Model Encoder Compiler Lexical Injection
begin

text \<open>
  What the generated program decides. VRL is not part of the repository: the locales
  state the documented meaning of the few statement and expression forms the compiler emits
  around the rule predicates, with the evaluation of everything else left open. In every
  such semantics the program takes the first enabled rule, in evaluation order, whose predicate
  holds, and enforces it as \<open>decide\<close> says.
\<close>

section \<open>The specification\<close>

record verdict =
  v_decision :: decision
  v_reason :: reason
  v_rule :: "rule option"

fun action_decision :: "action \<Rightarrow> decision" where
  "action_decision FORWARD = D_FORWARD"
| "action_decision DROP = D_DROP"

definition decide :: "rule_chain \<Rightarrow> bool \<Rightarrow> (rule \<Rightarrow> bool) \<Rightarrow> verdict" where
  "decide ch parse_ok matches =
     (let m = find matches (active ch) in
      if \<not> parse_ok then \<lparr>v_decision = D_FORWARD_PARSE_ERROR, v_reason = R_PARSE_ERROR, v_rule = m\<rparr>
      else case m of
        None \<Rightarrow> \<lparr>v_decision = action_decision (default_action ch), v_reason = R_DEFAULT, v_rule = None\<rparr>
      | Some r \<Rightarrow>
          if rule_shadow r \<or> shadow_mode ch
          then \<lparr>v_decision = D_FORWARD, v_reason = R_SHADOW, v_rule = m\<rparr>
          else \<lparr>v_decision = action_decision (rule_action r), v_reason = R_RULE, v_rule = m\<rparr>)"

fun reason_value :: "reason \<Rightarrow> string" where
  "reason_value R_RULE = ''rule''"
| "reason_value R_DEFAULT = ''default''"
| "reason_value R_PARSE_ERROR = ''parse_error''"
| "reason_value R_SHADOW = ''shadow''"

lemma action_decision_value [simp]: "decision_value (action_decision a) = action_value a"
  by (cases a) simp_all

lemma decide_drop:
  assumes "v_decision (decide ch ok matches) = D_DROP"
  shows "ok \<and> (case find matches (active ch) of
           None \<Rightarrow> default_action ch = DROP
         | Some r \<Rightarrow> rule_action r = DROP \<and> \<not> rule_shadow r \<and> \<not> shadow_mode ch)"
proof -
  have a: "action_decision x = D_DROP \<longleftrightarrow> x = DROP" for x by (cases x) simp_all
  from assms show ?thesis
    by (auto simp: decide_def Let_def a split: option.splits if_splits)
qed

section \<open>Values, variables and lines\<close>

datatype vrl_value =
    VStr string | VInt int | VBool bool | VNull
  | VFloat rat | VRegex string | VList "vrl_value list" | VObj "(string \<times> vrl_value) list"

type_synonym venv = "string \<Rightarrow> vrl_value"

definition var_char :: "char \<Rightarrow> bool" where
  "var_char c \<longleftrightarrow> (97 \<le> ord c \<and> ord c \<le> 122) \<or> c = CHR ''_''"

definition is_var :: "string \<Rightarrow> bool" where
  "is_var x \<longleftrightarrow> x \<noteq> [] \<and> list_all var_char x \<and> x \<notin> {''if'', ''true'', ''false'', ''null''}"

text \<open>A line of a block: an indented assignment, or a comment.\<close>

definition dedent :: "string \<Rightarrow> string" where
  "dedent l = (if take 4 l = INDENT then drop 4 l else l)"

definition block_line :: "string \<Rightarrow> bool" where
  "block_line l \<longleftrightarrow>
     (take 4 l = INDENT \<or> (l \<noteq> [] \<and> hd l = CHR ''#'')) \<and> take 3 (dedent l) \<noteq> ''if ''"

definition if_line :: "string \<Rightarrow> string" where
  "if_line p = ''if '' @ p @ '' {''"

definition elif_line :: "string \<Rightarrow> string" where
  "elif_line p = ''} else if '' @ p @ '' {''"

definition after_chain :: "string list \<Rightarrow> string list" where
  "after_chain ls = tl (dropWhile (\<lambda>l. l \<noteq> ''}'') ls)"

section \<open>The language, as far as the program relies on it\<close>

locale vrl_expressions =
  fixes eval :: "venv \<Rightarrow> string \<Rightarrow> vrl_value"
  assumes eval_string: "encode_string s = Inr t \<Longrightarrow> eval env t = VStr s"
    and eval_int: "eval env (int_str i) = VInt i"
    and eval_bool: "eval env (bool_text b) = VBool b"
    and eval_null: "eval env ''null'' = VNull"
    and eval_var: "is_var x \<Longrightarrow> eval env x = env x"
    and eval_not: "is_var x \<Longrightarrow> env x = VBool b \<Longrightarrow> eval env (''!'' @ x) = VBool (\<not> b)"
    and eval_is_null: "is_var x \<Longrightarrow> eval env (x @ '' == null'') = VBool (env x = VNull)"
    and eval_or: "is_var x \<Longrightarrow> is_var y \<Longrightarrow> env x = VBool a \<Longrightarrow> env y = VBool b \<Longrightarrow>
      eval env (x @ '' || '' @ y) = VBool (a \<or> b)"

locale vrl_statements = vrl_expressions +
  fixes run :: "string list \<Rightarrow> venv \<Rightarrow> venv"
  assumes run_Nil: "run [] env = env"
    and run_blank: "run ([] # ls) env = run ls env"
    and run_comment: "run ((CHR ''#'' # t) # ls) env = run ls env"
    and run_assign: "is_var x \<Longrightarrow> run ((x @ '' = '' @ e) # ls) env = run ls (env(x := eval env e))"
    and run_then: "list_all block_line body \<Longrightarrow> eval env p = VBool True \<Longrightarrow>
      hd rest \<in> insert ''}'' (insert ''} else {'' (range elif_line)) \<Longrightarrow> rest \<noteq> [] \<Longrightarrow>
      run (if_line p # body @ rest) env = run (after_chain rest) (run (map dedent body) env)"
    and run_elif: "list_all block_line body \<Longrightarrow> eval env p \<noteq> VBool True \<Longrightarrow>
      run (if_line p # body @ elif_line q # rest) env = run (if_line q # rest) env"
    and run_else: "list_all block_line body \<Longrightarrow> list_all block_line body' \<Longrightarrow> eval env p \<noteq> VBool True \<Longrightarrow>
      run (if_line p # body @ ''} else {'' # body' @ ''}'' # rest) env = run rest (run (map dedent body') env)"
    and run_endif: "list_all block_line body \<Longrightarrow> eval env p \<noteq> VBool True \<Longrightarrow>
      run (if_line p # body @ ''}'' # rest) env = run rest env"

text \<open>The last lines of the prelude: no rule has matched yet.\<close>

definition reset_lines :: "string list" where
  "reset_lines = drop (length PRELUDE_LINES - 5) PRELUDE_LINES"

definition reset_env :: "venv \<Rightarrow> venv" where
  "reset_env env = env(''matched_id'' := VNull, ''matched_version'' := VNull, ''matched_action'' := VNull,
     ''matched_shadow'' := VBool False, ''matched_retain'' := VBool False)"

definition match_env :: "rule \<Rightarrow> venv \<Rightarrow> venv" where
  "match_env r env = env(''matched_id'' := VStr (rule_id r), ''matched_version'' := VInt (rule_version r),
     ''matched_action'' := VStr (action_value (rule_action r)),
     ''matched_shadow'' := VBool (rule_shadow r), ''matched_retain'' := VBool (rule_retain r))"

text \<open>What the program has in its variables for the decision record.\<close>

definition outcome :: "venv \<Rightarrow> vrl_value list" where
  "outcome env = map env [''decision'', ''reason'', ''matched_id'', ''matched_version'', ''matched_retain'']"

definition verdict_values :: "verdict \<Rightarrow> vrl_value list" where
  "verdict_values v =
     [VStr (decision_value (v_decision v)), VStr (reason_value (v_reason v))] @
     (case v_rule v of
        None \<Rightarrow> [VNull, VNull, VBool False]
      | Some r \<Rightarrow> [VStr (rule_id r), VInt (rule_version r), VBool (rule_retain r)])"

definition rule_holds :: "(venv \<Rightarrow> string \<Rightarrow> vrl_value) \<Rightarrow> venv \<Rightarrow> rule \<Rightarrow> bool" where
  "rule_holds eval env r = (case compile_rule_predicate r of Inr p \<Rightarrow> eval env p = VBool True | Inl e \<Rightarrow> False)"

lemma rule_holds_compiled: "compile_rule_predicate r = Inr p \<Longrightarrow> rule_holds eval env r \<longleftrightarrow> eval env p = VBool True"
  by (simp add: rule_holds_def)

lemma reset_lines_eq: "reset_lines =
    [''matched_id = null'', ''matched_version = null'', ''matched_action = null'',
     ''matched_shadow = false'', ''matched_retain = false'']"
  by (simp add: reset_lines_def PRELUDE_LINES_def)

lemma var_names:
  "is_var ''matched_id''" "is_var ''matched_version''" "is_var ''matched_action''"
  "is_var ''matched_shadow''" "is_var ''matched_retain''" "is_var ''decision''" "is_var ''reason''"
  "is_var ''shadow_chain''" "is_var ''parse_ok''"
  by code_simp+

text \<open>The lines of one rule, by what they are.\<close>

definition match_lines :: "rule \<Rightarrow> string \<Rightarrow> string \<Rightarrow> string list" where
  "match_lines r id_lit action_lit =
     [INDENT @ ''matched_id = '' @ id_lit,
      INDENT @ ''matched_version = '' @ int_str (rule_version r),
      INDENT @ ''matched_action = '' @ action_lit,
      INDENT @ ''matched_shadow = '' @ bool_text (rule_shadow r),
      INDENT @ ''matched_retain = '' @ bool_text (rule_retain r)]"

lemma emit_rule_branch_lines:
  assumes "emit_rule_branch r first = Inr ls"
  obtains c p i a where
    "ls = [CHR ''#'' # c, (if first then if_line p else elif_line p)] @ match_lines r i a"
    "compile_rule_predicate r = Inr p" "encode_string (rule_id r) = Inr i"
    "encode_string (action_value (rule_action r)) = Inr a"
proof -
  have "\<exists>c. encode_comment t = CHR ''#'' # c" for t
    by (simp add: encode_comment_def Let_def)
  then show ?thesis
    using assms that
    by (fastforce simp: emit_rule_branch_def Let_def bindR_Inr_iff match_lines_def if_line_def
        elif_line_def split: if_splits)
qed

lemma match_lines_block: "list_all block_line (match_lines r i a)"
  by (simp add: match_lines_def block_line_def dedent_def INDENT_def)

lemma block_line_comment [simp]: "block_line (CHR ''#'' # c)"
  by (simp add: block_line_def dedent_def INDENT_def)

lemma dedent_comment: "dedent (CHR ''#'' # c) = CHR ''#'' # c"
  by (simp add: dedent_def INDENT_def)

lemma branch_lines_not_end: "emit_branches rs first = Inr ls \<Longrightarrow> l \<in> set ls \<Longrightarrow> l \<noteq> ''}''"
proof (induction rs arbitrary: first ls)
  case (Cons r rs)
  then obtain bl more where b: "emit_rule_branch r first = Inr bl"
    "emit_branches rs False = Inr more" "ls = bl @ more"
    by (auto simp: bindR_Inr_iff)
  have "l \<noteq> ''}''" if "l \<in> set bl"
    using b(1) that
    by (elim emit_rule_branch_lines) (auto simp: match_lines_def if_line_def elif_line_def INDENT_def split: if_splits)
  with Cons b show ?case by auto
qed simp

lemma after_chain_end: "(\<And>l. l \<in> set ls \<Longrightarrow> l \<noteq> ''}'') \<Longrightarrow> after_chain (ls @ ''}'' # rest) = rest"
  by (induction ls) (auto simp: after_chain_def)

text \<open>The blocks of the enforcement section.\<close>

definition enforce_parse :: "string list" where
  \<open>enforce_parse =
     [INDENT @ ''# D-18: unparseable input is forwarded, counted, and sampled.'',
      INDENT @ ''decision = "forward_parse_error"'', INDENT @ ''reason = "parse_error"'']\<close>

definition enforce_default :: "string \<Rightarrow> string list" where
  \<open>enforce_default d =
     [INDENT @ ''# D-01: no rule matched, so the chain default applies.'',
      INDENT @ ''decision = '' @ d, INDENT @ ''reason = "default"'']\<close>

definition enforce_shadow :: "string list" where
  \<open>enforce_shadow =
     [INDENT @ ''# D-29: record the match, enforce nothing.'',
      INDENT @ ''decision = "forward"'', INDENT @ ''reason = "shadow"'']\<close>

definition enforce_else :: "string list" where
  \<open>enforce_else = [INDENT @ ''decision = matched_action'', INDENT @ ''reason = "rule"'']\<close>

lemmas enforce_defs = enforce_parse_def enforce_default_def enforce_shadow_def enforce_else_def

lemma enforce_blocks:
  "list_all block_line enforce_parse" "list_all block_line (enforce_default d)"
  "list_all block_line enforce_shadow" "list_all block_line enforce_else"
  by (simp_all add: enforce_defs block_line_def dedent_def INDENT_def)

lemma enforcement_shape:
  "enforcement_lines d s = [''shadow_chain = '' @ s, []] @ if_line ''!parse_ok'' # enforce_parse @
     elif_line ''matched_id == null'' # enforce_default d @
     elif_line ''matched_shadow || shadow_chain'' # enforce_shadow @ ''} else {'' # enforce_else @ [''}'', []]"
  by (simp add: enforcement_lines_def enforce_defs if_line_def elif_line_def)

lemma plain_literals:
  \<open>encode_string ''forward_parse_error'' = Inr ''"forward_parse_error"''\<close>
  \<open>encode_string ''parse_error'' = Inr ''"parse_error"''\<close>
  \<open>encode_string ''default'' = Inr ''"default"''\<close>
  \<open>encode_string ''forward'' = Inr ''"forward"''\<close>
  \<open>encode_string ''shadow'' = Inr ''"shadow"''\<close>
  \<open>encode_string ''rule'' = Inr ''"rule"''\<close>
  by code_simp+

context vrl_statements
begin

lemmas run_assigns = var_names [THEN run_assign, simplified]

lemma eval_bool_texts: "eval env ''true'' = VBool True" "eval env ''false'' = VBool False"
  using eval_bool [of env True] eval_bool [of env False] by (simp_all add: bool_text_def)

lemma run_reset: "run (reset_lines @ ls) env = run ls (reset_env env)"
  by (simp add: reset_lines_eq run_assigns eval_null eval_bool_texts reset_env_def)

lemma run_match_lines:
  assumes "encode_string (rule_id r) = Inr i" "encode_string (action_value (rule_action r)) = Inr a"
  shows "run (map dedent (match_lines r i a) @ ls) env = run ls (match_env r env)"
  using assms
  by (simp add: match_lines_def dedent_def INDENT_def run_assigns eval_string eval_int eval_bool match_env_def)

lemma run_taken:
  assumes "emit_branches rs False = Inr bs" "eval env p = VBool True"
    and "encode_string (rule_id r) = Inr i" "encode_string (action_value (rule_action r)) = Inr a"
  shows "run (if_line p # match_lines r i a @ bs @ ''}'' # rest) env = run rest (match_env r env)"
proof (cases rs)
  case Nil
  with assms show ?thesis
    using run_then [of "match_lines r i a" env p "''}'' # rest"] after_chain_end [of "[]" rest]
      run_match_lines [OF assms(3,4), of "[]" env]
    by (simp add: match_lines_block run_Nil)
next
  case (Cons r' rs')
  then obtain bl more where b: "emit_rule_branch r' False = Inr bl"
    "emit_branches rs' False = Inr more" "bs = bl @ more"
    using assms(1) by (auto simp: bindR_Inr_iff)
  from b(1) obtain c q i' a' where bl: "bl = [CHR ''#'' # c, elif_line q] @ match_lines r' i' a'"
    by (elim emit_rule_branch_lines) simp
  let ?rest = "elif_line q # match_lines r' i' a' @ more @ ''}'' # rest"
  let ?body = "match_lines r i a @ [CHR ''#'' # c]"
  have "l \<noteq> ''}''" if "l \<in> set (elif_line q # match_lines r' i' a' @ more)" for l
    using that branch_lines_not_end [OF assms(1)] b(3) bl by auto
  then have end_: "after_chain ?rest = rest"
    using after_chain_end [of "elif_line q # match_lines r' i' a' @ more" rest] by simp
  have "run (if_line p # ?body @ ?rest) env = run (after_chain ?rest) (run (map dedent ?body) env)"
    by (rule run_then) (use assms(2) in \<open>simp_all add: match_lines_block\<close>)
  also have "run (map dedent ?body) env = match_env r env"
    using run_match_lines [OF assms(3,4), of "[CHR ''#'' # c]" env]
    by (simp add: dedent_comment run_comment run_Nil)
  finally show ?thesis by (simp add: end_ b(3) bl)
qed

lemma run_not_taken:
  assumes "emit_branches rs False = Inr bs" "list_all block_line body" "eval env p \<noteq> VBool True"
  shows "run (if_line p # body @ bs @ ''}'' # rest) env =
    run rest (case find (rule_holds eval env) rs of None \<Rightarrow> env | Some r \<Rightarrow> match_env r env)"
  using assms
proof (induction rs arbitrary: bs body p)
  case Nil
  then show ?case by (simp add: run_endif)
next
  case (Cons r rs)
  then obtain bl more where b: "emit_rule_branch r False = Inr bl"
    "emit_branches rs False = Inr more" "bs = bl @ more"
    by (auto simp: bindR_Inr_iff)
  from b(1) obtain c q i a where bl: "bl = [CHR ''#'' # c, elif_line q] @ match_lines r i a"
    and q: "compile_rule_predicate r = Inr q" and ia: "encode_string (rule_id r) = Inr i"
    "encode_string (action_value (rule_action r)) = Inr a"
    by (elim emit_rule_branch_lines) simp
  have "run (if_line p # (body @ [CHR ''#'' # c]) @ elif_line q # match_lines r i a @ more @ ''}'' # rest) env =
      run (if_line q # match_lines r i a @ more @ ''}'' # rest) env"
    by (rule run_elif) (use Cons.prems in simp_all)
  also have "\<dots> = run rest (case find (rule_holds eval env) (r # rs) of None \<Rightarrow> env | Some r \<Rightarrow> match_env r env)"
  proof (cases "eval env q = VBool True")
    case True
    then show ?thesis using run_taken [OF b(2) True ia] q by (simp add: rule_holds_compiled)
  next
    case False
    then show ?thesis
      using Cons.IH [OF b(2) match_lines_block False] q by (simp add: rule_holds_compiled)
  qed
  finally show ?case by (simp add: b(3) bl)
qed

text \<open>The matching section: the first rule whose predicate holds, if any.\<close>

lemma run_branches:
  assumes "emit_branches rs True = Inr bs"
  shows "run ((if rs \<noteq> [] then bs @ [''}''] else []) @ rest) env =
    run rest (case find (rule_holds eval env) rs of None \<Rightarrow> env | Some r \<Rightarrow> match_env r env)"
proof (cases rs)
  case Nil
  then show ?thesis by simp
next
  case (Cons r rs')
  then obtain bl more where b: "emit_rule_branch r True = Inr bl"
    "emit_branches rs' False = Inr more" "bs = bl @ more"
    using assms by (auto simp: bindR_Inr_iff)
  from b(1) obtain c q i a where bl: "bl = [CHR ''#'' # c, if_line q] @ match_lines r i a"
    and q: "compile_rule_predicate r = Inr q" and ia: "encode_string (rule_id r) = Inr i"
    "encode_string (action_value (rule_action r)) = Inr a"
    by (elim emit_rule_branch_lines) simp
  show ?thesis
  proof (cases "eval env q = VBool True")
    case True
    then show ?thesis
      using run_taken [OF b(2) True ia, of rest] q
      by (simp add: Cons b(3) bl run_comment rule_holds_compiled)
  next
    case False
    then show ?thesis
      using run_not_taken [OF b(2) match_lines_block False, of r i a rest] q
      by (simp add: Cons b(3) bl run_comment rule_holds_compiled)
  qed
qed

text \<open>The enforcement section.\<close>

lemmas eval_plain_literals = plain_literals [THEN eval_string]

lemma enforce_runs:
  "run (map dedent enforce_parse) env = env(''decision'' := VStr ''forward_parse_error'', ''reason'' := VStr ''parse_error'')"
  "encode_string t = Inr d \<Longrightarrow>
     run (map dedent (enforce_default d)) env = env(''decision'' := VStr t, ''reason'' := VStr ''default'')"
  "run (map dedent enforce_shadow) env = env(''decision'' := VStr ''forward'', ''reason'' := VStr ''shadow'')"
  "run (map dedent enforce_else) env = env(''decision'' := env ''matched_action'', ''reason'' := VStr ''rule'')"
  by (simp_all add: enforce_defs dedent_def INDENT_def run_comment run_assigns run_Nil
      eval_plain_literals eval_string eval_var var_names)

lemma run_enforcement:
  assumes "encode_string (action_value (default_action ch)) = Inr d"
    and m: "env ''matched_id'' = (case m of None \<Rightarrow> VNull | Some r \<Rightarrow> VStr (rule_id r))"
    and a: "\<And>r. m = Some r \<Longrightarrow> env ''matched_action'' = VStr (action_value (rule_action r)) \<and>
      env ''matched_shadow'' = VBool (rule_shadow r)"
    and ok: "env ''parse_ok'' = VBool ok"
  shows "run (enforcement_lines d (bool_text (shadow_mode ch)) @ rest) env =
    run rest (env(''shadow_chain'' := VBool (shadow_mode ch),
      ''decision'' := VStr (if \<not> ok then ''forward_parse_error'' else case m of
          None \<Rightarrow> action_value (default_action ch)
        | Some r \<Rightarrow> if rule_shadow r \<or> shadow_mode ch then ''forward'' else action_value (rule_action r)),
      ''reason'' := VStr (if \<not> ok then ''parse_error'' else case m of
          None \<Rightarrow> ''default'' | Some r \<Rightarrow> if rule_shadow r \<or> shadow_mode ch then ''shadow'' else ''rule'')))"
    (is "_ = run rest ?final")
proof -
  let ?env = "env(''shadow_chain'' := VBool (shadow_mode ch))"
  let ?tail4 = "enforce_else @ ''}'' # [] # rest"
  let ?tail3 = "enforce_shadow @ ''} else {'' # ?tail4"
  let ?tail2 = "enforce_default d @ elif_line ''matched_shadow || shadow_chain'' # ?tail3"
  have ends: "after_chain (elif_line ''matched_id == null'' # ?tail2) = [] # rest"
    "after_chain (elif_line ''matched_shadow || shadow_chain'' # ?tail3) = [] # rest"
    "after_chain (''} else {'' # ?tail4) = [] # rest"
    by (simp_all add: after_chain_def enforce_defs elif_line_def INDENT_def)
  have start: "run (enforcement_lines d (bool_text (shadow_mode ch)) @ rest) env =
      run (if_line ''!parse_ok'' # enforce_parse @ elif_line ''matched_id == null'' # ?tail2) ?env"
    by (simp add: enforcement_shape run_assigns eval_bool run_blank)
  have not_ok: "eval e ''!parse_ok'' = VBool (\<not> b)" if "e ''parse_ok'' = VBool b" for e b
    using eval_not [of "''parse_ok''" e b] that by (simp add: var_names)
  have is_null: "eval e ''matched_id == null'' = VBool (e ''matched_id'' = VNull)" for e
    using eval_is_null [of "''matched_id''" e] by (simp add: var_names)
  have shadowed: "eval e ''matched_shadow || shadow_chain'' = VBool (b \<or> c)"
    if "e ''matched_shadow'' = VBool b" "e ''shadow_chain'' = VBool c" for e b c
    using eval_or [of "''matched_shadow''" "''shadow_chain''" e b c] that by (simp add: var_names)
  show ?thesis
  proof (cases ok)
    case False
    then show ?thesis
      unfolding start using ok
      by (subst run_then) (simp_all add: ends not_ok enforce_blocks run_blank enforce_runs)
  next
    case True
    then have *: "run (if_line ''!parse_ok'' # enforce_parse @ elif_line ''matched_id == null'' # ?tail2) ?env =
        run (if_line ''matched_id == null'' # ?tail2) ?env"
      using ok by (intro run_elif) (simp_all add: not_ok enforce_blocks)
    show ?thesis
    proof (cases m)
      case None
      then show ?thesis
        unfolding start * using True m assms(1)
        by (subst run_then) (simp_all add: ends is_null enforce_blocks run_blank enforce_runs)
    next
      case (Some r)
      then have **: "run (if_line ''matched_id == null'' # ?tail2) ?env =
          run (if_line ''matched_shadow || shadow_chain'' # ?tail3) ?env"
        using m by (intro run_elif) (simp_all add: is_null enforce_blocks)
      have sh: "eval ?env ''matched_shadow || shadow_chain'' = VBool (rule_shadow r \<or> shadow_mode ch)"
        by (rule shadowed) (use a Some in simp_all)
      show ?thesis
      proof (cases "rule_shadow r \<or> shadow_mode ch")
        case True
        then show ?thesis
          unfolding start * ** using \<open>ok\<close> Some sh
          by (subst run_then) (simp_all add: ends enforce_blocks run_blank enforce_runs)
      next
        case False
        then show ?thesis
          unfolding start * ** using \<open>ok\<close> Some sh a [OF Some]
          by (subst run_else) (simp_all add: enforce_blocks run_blank enforce_runs)
      qed
    qed
  qed
qed

text \<open>The two sections together, from the reset of the match variables on.\<close>

lemma run_decision:
  assumes bs: "emit_branches (active ch) True = Inr bs"
    and d: "encode_string (action_value (default_action ch)) = Inr d"
    and ok: "env ''parse_ok'' = VBool ok"
  shows "outcome (run (reset_lines @ (if active ch \<noteq> [] then bs @ [''}''] else []) @ [[]] @
      enforcement_lines d (bool_text (shadow_mode ch))) env) =
    verdict_values (decide ch ok (rule_holds eval (reset_env env)))"
proof -
  let ?m = "find (rule_holds eval (reset_env env)) (active ch)"
  let ?env = "case ?m of None \<Rightarrow> reset_env env | Some r \<Rightarrow> match_env r (reset_env env)"
  have "outcome (run (reset_lines @ (if active ch \<noteq> [] then bs @ [''}''] else []) @ [[]] @
      enforcement_lines d (bool_text (shadow_mode ch))) env) =
    outcome (run (enforcement_lines d (bool_text (shadow_mode ch)) @ []) ?env)"
    using run_branches [OF bs] by (simp add: run_reset run_blank)
  also have "\<dots> = verdict_values (decide ch ok (rule_holds eval (reset_env env)))"
    by (subst run_enforcement [OF d, where m = ?m and ok = ok])
      (auto simp: run_Nil outcome_def verdict_values_def decide_def Let_def match_env_def reset_env_def ok
        split: option.splits)
  finally show ?thesis .
qed

end

section \<open>A semantics of these forms\<close>

text \<open>Expressions: the simple forms by their text, anything else by a parameter.\<close>

definition line_eval :: "(venv \<Rightarrow> string \<Rightarrow> vrl_value) \<Rightarrow> venv \<Rightarrow> string \<Rightarrow> vrl_value" where
  "line_eval other env t =
     (let x = takeWhile var_char t; after = dropWhile var_char t in
      case read_string t of
        Some (s, rest) \<Rightarrow> if rest = [] then VStr s else other env t
      | None \<Rightarrow>
          if t = ''true'' then VBool True else if t = ''false'' then VBool False
          else if t = ''null'' then VNull
          else if t \<noteq> [] \<and> list_all (\<lambda>c. is_ascii_digit c \<or> c = CHR ''-'') t then VInt (read_int t)
          else if is_var t then env t
          else if t \<noteq> [] \<and> hd t = CHR ''!'' \<and> is_var (tl t) then
            (case env (tl t) of VBool b \<Rightarrow> VBool (\<not> b) | v \<Rightarrow> v)
          else if is_var x \<and> after = '' == null'' then VBool (env x = VNull)
          else if is_var x \<and> take 4 after = '' || '' \<and> is_var (drop 4 after) then
            (case (env x, env (drop 4 after)) of (VBool a, VBool b) \<Rightarrow> VBool (a \<or> b) | _ \<Rightarrow> VNull)
          else other env t)"

text \<open>Statements, a line at a time: running, inside a block, looking for a branch, past the chain.\<close>

datatype line_mode = Run | In_Block | Seek | Skip

definition assign_line :: "(venv \<Rightarrow> string \<Rightarrow> vrl_value) \<Rightarrow> string \<Rightarrow> venv \<Rightarrow> venv" where
  "assign_line ev l env =
     (let x = takeWhile var_char l; after = dropWhile var_char l
      in if is_var x \<and> take 3 after = '' = '' then env(x := ev env (drop 3 after)) else env)"

definition condition_text :: "nat \<Rightarrow> string \<Rightarrow> string" where
  "condition_text n l = take (length l - n - 2) (drop n l)"

fun line_step :: "(venv \<Rightarrow> string \<Rightarrow> vrl_value) \<Rightarrow> line_mode \<times> venv \<Rightarrow> string \<Rightarrow> line_mode \<times> venv" where
  "line_step ev (Run, env) l =
     (if take 3 l = ''if ''
      then (if ev env (condition_text 3 l) = VBool True then In_Block else Seek, env)
      else (Run, assign_line ev l env))"
| "line_step ev (In_Block, env) l =
     (if l = ''}'' then (Run, env)
      else if block_line l then (In_Block, assign_line ev (dedent l) env)
      else (Skip, env))"
| "line_step ev (Seek, env) l =
     (if l = ''}'' then (Run, env)
      else if l = ''} else {'' then (In_Block, env)
      else if take 10 l = ''} else if ''
      then (if ev env (condition_text 10 l) = VBool True then In_Block else Seek, env)
      else (Seek, env))"
| "line_step ev (Skip, env) l = (if l = ''}'' then Run else Skip, env)"

definition line_run :: "(venv \<Rightarrow> string \<Rightarrow> vrl_value) \<Rightarrow> string list \<Rightarrow> venv \<Rightarrow> venv" where
  "line_run ev ls env = snd (foldl (line_step ev) (Run, env) ls)"

lemma read_string_not_quote: "t \<noteq> [] \<Longrightarrow> hd t \<noteq> DQ \<Longrightarrow> read_string t = None"
  by (cases t) (simp_all add: read_string_def)

lemma var_span:
  assumes "is_var x" "after = [] \<or> \<not> var_char (hd after)"
  shows "takeWhile var_char (x @ after) = x" "dropWhile var_char (x @ after) = after"
proof -
  have x: "\<And>c. c \<in> set x \<Longrightarrow> var_char c" using assms(1) by (simp add: is_var_def list_all_iff)
  have "takeWhile var_char after = []" "dropWhile var_char after = after"
    using assms(2) by (cases after; simp)+
  then show "takeWhile var_char (x @ after) = x" "dropWhile var_char (x @ after) = after"
    using x by (simp_all add: takeWhile_append2 dropWhile_append2)
qed

lemma is_var_hd: "is_var x \<Longrightarrow> x \<noteq> [] \<and> var_char (hd x)"
  by (cases x) (simp_all add: is_var_def)

lemma var_char_not: "var_char c \<Longrightarrow> c \<noteq> DQ \<and> c \<noteq> CHR ''!'' \<and> c \<noteq> CHR ''-'' \<and> \<not> is_ascii_digit c \<and> c \<noteq> CHR '' ''"
  by (auto simp: var_char_def is_ascii_digit_def)

lemma not_var_space: "CHR '' '' \<in> set t \<Longrightarrow> \<not> is_var t" "CHR ''!'' \<in> set t \<Longrightarrow> \<not> is_var t"
proof -
  have "\<not> var_char CHR '' ''" "\<not> var_char CHR ''!''" by (simp_all add: var_char_def)
  then show "CHR '' '' \<in> set t \<Longrightarrow> \<not> is_var t" "CHR ''!'' \<in> set t \<Longrightarrow> \<not> is_var t"
    by (auto simp: is_var_def list_all_iff)
qed

interpretation line_exp: vrl_expressions "line_eval other" for other
proof unfold_locales
  fix env s t assume "encode_string s = Inr t"
  then have "read_string (t @ []) = Some (s, [])" by (rule read_encode_string)
  then show "line_eval other env t = VStr s" by (simp add: line_eval_def Let_def)
next
  fix env i
  have c: "list_all (\<lambda>c. is_ascii_digit c \<or> c = CHR ''-'') (int_str i)"
    using int_str_chars by (auto simp: list_all_iff)
  have ne: "int_str i \<noteq> []" by (simp add: int_str_def)
  then have h: "is_ascii_digit (hd (int_str i)) \<or> hd (int_str i) = CHR ''-''"
    using c by (cases "int_str i") auto
  then have "hd (int_str i) \<noteq> DQ" "int_str i \<notin> {''true'', ''false'', ''null''}"
    by (auto simp: is_ascii_digit_def)
  then show "line_eval other env (int_str i) = VInt i"
    using c ne read_string_not_quote [OF ne] by (simp add: line_eval_def Let_def)
next
  show "line_eval other env (bool_text b) = VBool b" for env b
    by (simp add: line_eval_def Let_def bool_text_def read_string_def)
  show "line_eval other env ''null'' = VNull" for env
    by (simp add: line_eval_def Let_def read_string_def)
next
  fix x env assume x: "is_var x"
  then show "line_eval other env x = env x"
    using is_var_hd [OF x] var_char_not [of "hd x"] read_string_not_quote [of x]
    by (cases x) (auto simp: line_eval_def Let_def is_var_def)
next
  fix x :: string and env :: venv and b
  assume "is_var x" "env x = VBool b"
  then show "line_eval other env (''!'' @ x) = VBool (\<not> b)"
    using not_var_space(2) [of "''!'' @ x"]
    by (auto simp: line_eval_def Let_def read_string_def is_ascii_digit_def)
next
  fix x :: string and env :: venv
  assume x: "is_var x"
  let ?t = "x @ '' == null''"
  have s: "takeWhile var_char ?t = x" "dropWhile var_char ?t = '' == null''"
    using var_span [OF x, of "'' == null''"] by (simp_all add: var_char_def)
  have h: "hd ?t = hd x" "var_char (hd x)" using is_var_hd [OF x] by simp_all
  then have "read_string ?t = None" "hd ?t \<noteq> CHR ''!''" "\<not> list_all (\<lambda>c. is_ascii_digit c \<or> c = CHR ''-'') ?t"
    using is_var_hd [OF x] var_char_not [of "hd x"] read_string_not_quote [of ?t] by (auto simp: is_ascii_digit_def)
  moreover have "\<not> is_var ?t" "?t \<notin> {''true'', ''false'', ''null''}"
    using not_var_space(1) [of ?t] by (auto dest: arg_cong [where f = "\<lambda>t. CHR '' '' \<in> set t"])
  ultimately show "line_eval other env ?t = VBool (env x = VNull)"
    using x s by (simp add: line_eval_def Let_def)
next
  fix x y :: string and env :: venv and a b
  assume x: "is_var x" "is_var y" "env x = VBool a" "env y = VBool b"
  let ?t = "x @ '' || '' @ y"
  have s: "takeWhile var_char ?t = x" "dropWhile var_char ?t = '' || '' @ y"
    using var_span [OF x(1), of "'' || '' @ y"] by (simp_all add: var_char_def)
  have h: "hd ?t = hd x" "var_char (hd x)" using is_var_hd [OF x(1)] by simp_all
  then have "read_string ?t = None" "hd ?t \<noteq> CHR ''!''" "\<not> list_all (\<lambda>c. is_ascii_digit c \<or> c = CHR ''-'') ?t"
    using is_var_hd [OF x(1)] var_char_not [of "hd x"] read_string_not_quote [of ?t] by (auto simp: is_ascii_digit_def)
  moreover have "\<not> is_var ?t" "?t \<notin> {''true'', ''false'', ''null''}"
    using not_var_space(1) [of ?t] by (auto dest: arg_cong [where f = "\<lambda>t. CHR '' '' \<in> set t"])
  ultimately show "line_eval other env ?t = VBool (a \<or> b)"
    using x s by (simp add: line_eval_def Let_def)
qed

lemma if_line_parts [simp]:
  "take 3 (if_line p) = ''if ''" "condition_text 3 (if_line p) = p"
  by (simp_all add: if_line_def condition_text_def)

lemma elif_line_parts [simp]:
  "take 10 (elif_line p) = ''} else if ''" "condition_text 10 (elif_line p) = p"
  "elif_line p \<noteq> ''}''" "elif_line p \<noteq> ''} else {''" "\<not> block_line (elif_line p)"
  by (simp_all add: elif_line_def condition_text_def block_line_def INDENT_def)

lemma block_line_not:
  "block_line l \<Longrightarrow> l \<noteq> ''}'' \<and> l \<noteq> ''} else {'' \<and> take 10 l \<noteq> ''} else if ''"
  by (cases l) (auto simp: block_line_def INDENT_def)

lemma skip_lines: "snd (foldl (line_step ev) (Skip, env) ls) = line_run ev (after_chain ls) env"
  by (induction ls) (simp_all add: line_run_def after_chain_def)

lemma seek_block:
  "list_all block_line body \<Longrightarrow> foldl (line_step ev) (Seek, env) body = (Seek, env)"
  by (induction body) (auto dest: block_line_not)

lemma run_block:
  "list_all block_line body \<Longrightarrow>
     foldl (line_step ev) (In_Block, env) body = (In_Block, line_run ev (map dedent body) env) \<and>
     foldl (line_step ev) (Run, env) (map dedent body) = (Run, line_run ev (map dedent body) env)"
proof (induction body arbitrary: env)
  case (Cons l body)
  have l: "block_line l" "take 3 (dedent l) \<noteq> ''if ''" "l \<noteq> ''}''"
    using Cons.prems block_line_not by (auto simp: block_line_def)
  then show ?case
    using Cons.IH [of "assign_line ev (dedent l) env"] Cons.prems by (simp add: line_run_def)
qed (simp add: line_run_def)

lemma assign_text:
  assumes "is_var x"
  shows "take 3 (x @ '' = '' @ e) \<noteq> ''if ''" "assign_line ev (x @ '' = '' @ e) env = env(x := ev env e)"
proof -
  have s: "takeWhile var_char (x @ '' = '' @ e) = x" "dropWhile var_char (x @ '' = '' @ e) = '' = '' @ e"
    using var_span [OF assms, of "'' = '' @ e"] by (simp_all add: var_char_def)
  show "take 3 (x @ '' = '' @ e) \<noteq> ''if ''"
  proof
    assume "take 3 (x @ '' = '' @ e) = ''if ''"
    then have "x @ '' = '' @ e = ''if '' @ drop 3 (x @ '' = '' @ e)" by (metis append_take_drop_id)
    then have "takeWhile var_char (x @ '' = '' @ e) = takeWhile var_char (''if '' @ drop 3 (x @ '' = '' @ e))"
      by (rule arg_cong)
    then have "takeWhile var_char (x @ '' = '' @ e) = ''if''" by (simp add: var_char_def)
    with s(1) assms show False by (simp add: is_var_def)
  qed
  show "assign_line ev (x @ '' = '' @ e) env = env(x := ev env e)"
    using assms s by (simp add: assign_line_def Let_def)
qed

lemma step_assign:
  assumes "is_var x"
  shows "line_step ev (Run, env) (x @ '' = '' @ e) = (Run, env(x := ev env e))"
  unfolding line_step.simps assign_text(2) [OF assms] using assign_text(1) [OF assms] by (rule if_not_P)

interpretation line_prog: vrl_statements "line_eval other" "line_run (line_eval other)" for other
proof unfold_locales
  fix ls :: "string list" and env :: venv
  show "line_run (line_eval other) [] env = env" by (simp add: line_run_def)
  show "line_run (line_eval other) ([] # ls) env = line_run (line_eval other) ls env"
    by (simp add: line_run_def assign_line_def is_var_def Let_def)
  show "line_run (line_eval other) ((CHR ''#'' # t) # ls) env = line_run (line_eval other) ls env" for t
    by (simp add: line_run_def assign_line_def is_var_def Let_def var_char_def)
  show "is_var x \<Longrightarrow> line_run (line_eval other) ((x @ '' = '' @ e) # ls) env =
      line_run (line_eval other) ls (env(x := line_eval other env e))" for x e
    unfolding line_run_def foldl_Cons by (subst step_assign) simp_all
next
  fix body rest :: "string list" and env :: venv and p :: string
  assume b: "list_all block_line body" and p: "line_eval other env p = VBool True"
    and r: "hd rest \<in> insert ''}'' (insert ''} else {'' (range elif_line))" "rest \<noteq> []"
  let ?env = "line_run (line_eval other) (map dedent body) env"
  obtain l ls where rest: "rest = l # ls" using r(2) by (cases rest) auto
  have "\<not> block_line ''} else {''" by (simp add: block_line_def INDENT_def)
  then have "snd (foldl (line_step (line_eval other)) (In_Block, ?env) rest) =
      line_run (line_eval other) (after_chain rest) ?env"
    using r(1) skip_lines [of "line_eval other" ?env ls]
    by (auto simp: rest line_run_def after_chain_def)
  then show "line_run (line_eval other) (if_line p # body @ rest) env =
      line_run (line_eval other) (after_chain rest) ?env"
    using p run_block [OF b] by (simp add: line_run_def [of _ "if_line p # _"])
next
  fix body rest :: "string list" and env :: venv and p q :: string
  assume b: "list_all block_line body" and p: "line_eval other env p \<noteq> VBool True"
  show "line_run (line_eval other) (if_line p # body @ elif_line q # rest) env =
      line_run (line_eval other) (if_line q # rest) env"
    using p seek_block [OF b] by (simp add: line_run_def)
  show "line_run (line_eval other) (if_line p # body @ ''}'' # rest) env = line_run (line_eval other) rest env"
    using p seek_block [OF b] by (simp add: line_run_def)
  fix body' assume b': "list_all block_line body'"
  show "line_run (line_eval other) (if_line p # body @ ''} else {'' # body' @ ''}'' # rest) env =
      line_run (line_eval other) rest (line_run (line_eval other) (map dedent body') env)"
    using p seek_block [OF b] run_block [OF b'] by (simp add: line_run_def [of _ "_ # _"])
      (simp add: line_run_def)
qed

section \<open>What the program decides\<close>

definition decision_section :: "rule_chain \<Rightarrow> string list \<Rightarrow> string \<Rightarrow> string list" where
  "decision_section ch bs d =
     (if active ch \<noteq> [] then bs @ [''}''] else []) @ [[]] @ enforcement_lines d (bool_text (shadow_mode ch))"

lemma chain_lines_section:
  assumes "chain_lines ch v = Inr ls"
  obtains bs d tail where "emit_branches (active ch) True = Inr bs"
    "encode_string (action_value (default_action ch)) = Inr d"
    "ls = decision_section ch bs d @ METADATA @ tail"
  using assms that by (auto simp: chain_lines_def Let_def bindR_Inr_iff decision_section_def split: if_splits)

lemma section_decides:
  assumes "vrl_statements eval run" "chain_lines ch v = Inr ls" "env ''parse_ok'' = VBool ok"
  shows "\<exists>sec tail. ls = sec @ METADATA @ tail \<and>
    outcome (run (reset_lines @ sec) env) = verdict_values (decide ch ok (rule_holds eval (reset_env env)))"
proof (rule chain_lines_section [OF assms(2)])
  fix bs d tail
  assume *: "emit_branches (active ch) True = Inr bs"
    "encode_string (action_value (default_action ch)) = Inr d"
    "ls = decision_section ch bs d @ METADATA @ tail"
  show ?thesis
    using * vrl_statements.run_decision [where env = env and ok = ok, OF assms(1) *(1,2) assms(3)]
    by (intro exI [of _ "decision_section ch bs d"] exI [of _ tail]) (simp add: decision_section_def)
qed

text \<open>Two rules for the concrete instances: one condition each, the second one shadowed.\<close>

definition sample_rule :: "string \<Rightarrow> int \<Rightarrow> bool \<Rightarrow> rule" where
  "sample_rule i n sh = \<lparr>rule_id = i, rule_name = ''sample'', rule_description = [], rule_enabled = True,
     rule_order = n, rule_action = DROP,
     rule_conditions = [\<lparr>cond_field = ''filterhostname'', cond_op = EQ, cond_value = PStr ''Fw-01'',
       case_sensitive = False\<rparr>],
     rule_output = ''default'', rule_retain = False, rule_shadow = sh, rule_version = 3, rule_updated = 0\<rparr>"

definition sample_chain :: rule_chain where
  "sample_chain = \<lparr>chain_rules = [sample_rule ''noisy-b'' 20 True, sample_rule ''noisy-a'' 10 False],
     default_action = FORWARD, shadow_mode = False\<rparr>"

definition parsed_env :: venv where
  "parsed_env = (\<lambda>x. VNull)(''parse_ok'' := VBool True)"

lemma sample_chain_lines: "\<exists>ls. chain_lines sample_chain 7 = Inr ls"
proof -
  have "succeeds (chain_lines sample_chain 7)" by code_simp
  then show ?thesis by (simp add: succeeds_iff)
qed

text \<open>In every semantics of VRL that gives assignments, comments and flat if chains their
  documented meaning, the matching and enforcement sections of a compiled chain leave in
  \<open>decision\<close>, \<open>reason\<close>, \<open>matched_id\<close>, \<open>matched_version\<close> and \<open>matched_retain\<close> the verdict of the
  specification: a parse failure is forwarded, otherwise the first active rule whose predicate
  holds decides, a shadowed match only records, and no match takes the chain default.\<close>

theorem program_decides:
  assumes "vrl_statements eval run" "chain_lines ch v = Inr ls" "env ''parse_ok'' = VBool ok"
  shows "\<exists>sec tail. ls = sec @ METADATA @ tail \<and>
    outcome (run (reset_lines @ sec) env) = verdict_values (decide ch ok (rule_holds eval (reset_env env)))"
  by (rule section_decides [where env = env and ok = ok, OF assms])

theorem program_decides_witness:
  "\<exists>ls sec tail. chain_lines sample_chain 7 = Inr ls \<and> ls = sec @ METADATA @ tail \<and>
     outcome (line_run (line_eval (\<lambda>env t. VBool True)) (reset_lines @ sec) parsed_env) =
       [VStr ''drop'', VStr ''rule'', VStr ''noisy-a'', VInt 3, VBool False]"
proof -
  obtain ls where ls: "chain_lines sample_chain 7 = Inr ls" using sample_chain_lines by blast
  have ok: "parsed_env ''parse_ok'' = VBool True" by (simp add: parsed_env_def)
  have "verdict_values (decide sample_chain True
      (rule_holds (line_eval (\<lambda>env t. VBool True)) (reset_env parsed_env))) =
    [VStr ''drop'', VStr ''rule'', VStr ''noisy-a'', VInt 3, VBool False]"
    by code_simp
  then show ?thesis
    using program_decides [where env = parsed_env and ok = True,
        OF line_prog.vrl_statements_axioms [of "\<lambda>env t. VBool True"] ls ok] ls by auto
qed

text \<open>The compiled program sets the decision to drop only on a parsed event, and only because
  the first matching active rule drops with neither its own nor the chain's shadow flag
  set, or because nothing matched and the chain default is to drop. Everything else is forwarded.\<close>

theorem program_drops_only_if:
  assumes "vrl_statements eval run" "chain_lines ch v = Inr ls" "env ''parse_ok'' = VBool ok"
  shows "\<exists>sec tail. ls = sec @ METADATA @ tail \<and>
    (run (reset_lines @ sec) env ''decision'' = VStr ''drop'' \<longrightarrow>
       ok \<and> (case find (rule_holds eval (reset_env env)) (active ch) of
               None \<Rightarrow> default_action ch = DROP
             | Some r \<Rightarrow> rule_action r = DROP \<and> \<not> rule_shadow r \<and> \<not> shadow_mode ch))"
proof -
  have v: "decision_value x = ''drop'' \<Longrightarrow> x = D_DROP" for x by (cases x) simp_all
  obtain sec tail where "ls = sec @ METADATA @ tail"
    "outcome (run (reset_lines @ sec) env) = verdict_values (decide ch ok (rule_holds eval (reset_env env)))"
    using section_decides [where env = env and ok = ok, OF assms] by blast
  then have "run (reset_lines @ sec) env ''decision'' =
      VStr (decision_value (v_decision (decide ch ok (rule_holds eval (reset_env env)))))"
    by (simp add: outcome_def verdict_values_def)
  then show ?thesis
    using decide_drop [of ch ok "rule_holds eval (reset_env env)"] v \<open>ls = _\<close> by auto
qed

theorem program_drops_only_if_witness:
  "\<exists>ls sec tail. chain_lines sample_chain 7 = Inr ls \<and> ls = sec @ METADATA @ tail \<and>
     (line_run (line_eval (\<lambda>env t. VBool True)) (reset_lines @ sec) parsed_env ''decision'' = VStr ''drop'' \<longrightarrow>
       find (rule_holds (line_eval (\<lambda>env t. VBool True)) (reset_env parsed_env)) (active sample_chain) \<noteq> None)"
proof -
  obtain ls where ls: "chain_lines sample_chain 7 = Inr ls" using sample_chain_lines by blast
  have ok: "parsed_env ''parse_ok'' = VBool True" by (simp add: parsed_env_def)
  have d: "default_action sample_chain \<noteq> DROP" by (simp add: sample_chain_def)
  show ?thesis
    using program_drops_only_if [where env = parsed_env and ok = True,
        OF line_prog.vrl_statements_axioms [of "\<lambda>env t. VBool True"] ls ok] ls d
    by (fastforce split: option.splits)
qed

end
