(* ===== verification/Predicate_Syntax.thy ===== *)
theory Predicate_Syntax
  imports Complex_Main Prelude Rule_Model Encoder Py_Float Compiler Lexical Injection Decision
begin

text \<open>
  What a compiled condition means. The first part reads the generated predicates: a parser of
  the parenthesised expressions \<open>compile_condition\<close> writes, with every literal read back to
  its value. The second part evaluates the expression that was read, with VRL's standard
  library as a parameter. The last part states what each operator of the rule model asks of an
  event, and shows that the text of a compiled condition, read and evaluated, is that.
\<close>

section \<open>Expressions\<close>

text \<open>
  A group holds one primary or one operator between two primaries, so no precedence is involved
  in reading it. The labels of a call are empty for positional arguments.
\<close>

datatype vexpr =
    EStr string
  | EInt int
  | EFlt rat
  | ERegex string
  | EName string
  | EList "vexpr list"
  | ENot vexpr
  | ECall string "string list" "vexpr list"
  | EGroup vexpr
  | EOp string vexpr vexpr

section \<open>Reading\<close>

text \<open>The value of a decimal literal.\<close>

definition decimal_value :: "bool \<times> nat \<times> nat \<Rightarrow> rat" where
  "decimal_value d = (case d of (neg, digits, places) \<Rightarrow>
     (if neg then -1 else 1) * (of_nat digits / 10 ^ places))"

definition number_expr_of :: "string \<Rightarrow> vexpr" where
  "number_expr_of tok =
     (if CHR ''.'' \<in> set tok then EFlt (decimal_value (read_decimal tok)) else EInt (read_int tok))"

text \<open>An argument, with its label when it has one.\<close>

definition parse_arg ::
    "(string \<Rightarrow> (vexpr \<times> string) option) \<Rightarrow> string \<Rightarrow> ((string \<times> vexpr) \<times> string) option" where
  "parse_arg p t =
     (let x = takeWhile var_char t; r = dropWhile var_char t in
      if x \<noteq> [] \<and> take 2 r = '': '' then map_option (apfst (Pair x)) (p (drop 2 r))
      else map_option (apfst (Pair [])) (p t))"

text \<open>One or more arguments up to the closing character.\<close>

fun parse_args ::
    "(string \<Rightarrow> (vexpr \<times> string) option) \<Rightarrow> nat \<Rightarrow> char \<Rightarrow> string \<Rightarrow>
     ((string \<times> vexpr) list \<times> string) option" where
  "parse_args p 0 d t = None"
| "parse_args p (Suc k) d t =
     Option.bind (parse_arg p t) (\<lambda>(a, r).
       if r \<noteq> [] \<and> hd r = d then Some ([a], tl r)
       else if take 2 r = '', '' then map_option (apfst ((#) a)) (parse_args p k d (drop 2 r))
       else None)"

text \<open>The inside of a group, after its opening parenthesis.\<close>

definition parse_group :: "(string \<Rightarrow> (vexpr \<times> string) option) \<Rightarrow> string \<Rightarrow> (vexpr \<times> string) option" where
  "parse_group p t =
     Option.bind (p t) (\<lambda>(a, r).
       if r \<noteq> [] \<and> hd r = CHR '')'' then Some (EGroup a, tl r)
       else if r \<noteq> [] \<and> hd r = CHR '' '' then
         (let op = takeWhile (\<lambda>c. c \<noteq> CHR '' '') (tl r) in
          Option.bind (p (drop (Suc (length op)) (tl r))) (\<lambda>(b, s).
            if s \<noteq> [] \<and> hd s = CHR '')'' then Some (EGroup (EOp op a b), tl s) else None))
       else None)"

text \<open>A primary. The fuel bounds the nesting; the length of the text is always enough.\<close>

fun parse_primary :: "nat \<Rightarrow> string \<Rightarrow> (vexpr \<times> string) option" where
  "parse_primary 0 t = None"
| "parse_primary (Suc n) [] = None"
| "parse_primary (Suc n) (c # cs) =
     (if c = DQ then map_option (apfst EStr) (read_string (c # cs))
      else if c = CHR ''('' then parse_group (parse_primary n) cs
      else if c = CHR ''['' then
        (if cs \<noteq> [] \<and> hd cs = CHR '']'' then Some (EList [], tl cs)
         else map_option (apfst (\<lambda>as. EList (map snd as))) (parse_args (parse_primary n) n CHR '']'' cs))
      else if c = CHR ''!'' then map_option (apfst ENot) (parse_primary n cs)
      else if c = CHR ''r'' \<and> cs \<noteq> [] \<and> hd cs = SQ then
        (let re = takeWhile (\<lambda>x. x \<noteq> SQ) (tl cs); r = dropWhile (\<lambda>x. x \<noteq> SQ) (tl cs) in
         if r = [] then None else Some (ERegex re, tl r))
      else if is_ascii_digit c \<or> c = CHR ''-'' then
        Some (number_expr_of (takeWhile number_char (c # cs)), dropWhile number_char (c # cs))
      else if var_char c then
        (let x = takeWhile var_char (c # cs); r = dropWhile var_char (c # cs) in
         if r \<noteq> [] \<and> hd r = CHR ''('' then
           map_option (apfst (\<lambda>as. ECall x (map fst as) (map snd as)))
             (parse_args (parse_primary n) n CHR '')'' (tl r))
         else Some (EName x, r))
      else None)"

text \<open>A predicate: groups joined by \<open>&&\<close>.\<close>

fun is_group :: "vexpr \<Rightarrow> bool" where
  "is_group (EGroup _) = True"
| "is_group _ = False"

fun parse_conjuncts :: "nat \<Rightarrow> string \<Rightarrow> vexpr list option" where
  "parse_conjuncts 0 t = None"
| "parse_conjuncts (Suc n) t =
     Option.bind (parse_primary (Suc n) t) (\<lambda>(e, r).
       if \<not> is_group e then None
       else if r = [] then Some [e]
       else if take 4 r = '' && '' then map_option ((#) e) (parse_conjuncts n (drop 4 r))
       else None)"

definition parse_predicate :: "string \<Rightarrow> vexpr list option" where
  "parse_predicate t = parse_conjuncts (length t) t"

section \<open>Texts that read as an expression, wherever they stand\<close>

definition ends_operand :: "string \<Rightarrow> bool" where
  "ends_operand rest \<longleftrightarrow> rest = [] \<or> hd rest \<in> {CHR '' '', CHR '')'', CHR '','', CHR '']''}"

definition unlabelled :: "string \<Rightarrow> bool" where
  "unlabelled t \<longleftrightarrow> take 2 (dropWhile var_char t) \<noteq> '': ''"

definition reads_as :: "string \<Rightarrow> vexpr \<Rightarrow> bool" where
  "reads_as t e \<longleftrightarrow> (\<forall>n rest. length t \<le> n \<longrightarrow> ends_operand rest \<longrightarrow>
     parse_primary n (t @ rest) = Some (e, rest) \<and> unlabelled (t @ rest))"

lemma ends_operand_simps [simp]:
  "ends_operand []" "ends_operand (c # cs) \<longleftrightarrow> c \<in> {CHR '' '', CHR '')'', CHR '','', CHR '']''}"
  by (simp_all add: ends_operand_def)

lemma ends_operand_chars:
  assumes "ends_operand rest"
  shows "rest = [] \<or> (\<not> var_char (hd rest) \<and> \<not> number_char (hd rest) \<and> hd rest \<noteq> CHR ''('' \<and> hd rest \<noteq> CHR '':'')"
  using assms
  by (cases rest) (auto simp: var_char_def number_char_def is_ascii_digit_def)

lemma reads_asD:
  "reads_as t e \<Longrightarrow> length t \<le> n \<Longrightarrow> ends_operand rest \<Longrightarrow> parse_primary n (t @ rest) = Some (e, rest)"
  "reads_as t e \<Longrightarrow> ends_operand rest \<Longrightarrow> unlabelled (t @ rest)"
  by (auto simp: reads_as_def)

lemma reads_as_nonempty: "reads_as t e \<Longrightarrow> t \<noteq> []"
  by (metis append_Nil ends_operand_simps(1) list.size(3) order_refl option.distinct(1)
      parse_primary.simps(1) reads_asD(1))

lemma parse_primary_special:
  "parse_primary (Suc n) (CHR ''('' # cs) = parse_group (parse_primary n) cs"
  "parse_primary (Suc n) (CHR ''!'' # cs) = map_option (apfst ENot) (parse_primary n cs)"
  "parse_primary (Suc n) (DQ # cs) = map_option (apfst EStr) (read_string (DQ # cs))"
  by simp_all

declare parse_primary.simps(3) [simp del]

lemma unlabelled_start: "\<not> var_char c \<Longrightarrow> c \<noteq> CHR '':'' \<Longrightarrow> unlabelled (c # t)"
  by (simp add: unlabelled_def)

lemma not_var_starts:
  "\<not> var_char DQ" "\<not> var_char CHR ''(''" "\<not> var_char CHR ''[''" "\<not> var_char CHR ''!''"
  "\<not> var_char CHR ''-''" "is_ascii_digit c \<Longrightarrow> \<not> var_char c \<and> c \<noteq> CHR '':''"
  by (auto simp: var_char_def is_ascii_digit_def)

lemma reads_string:
  assumes "encode_string s = Inr t"
  shows "reads_as t (EStr s)"
  unfolding reads_as_def
proof (intro allI impI conjI)
  fix n rest assume n: "length t \<le> n"
  from assms obtain u where t: "t = DQ # u" by (simp add: encode_string_Inr_iff)
  with n obtain m where "n = Suc m" by (cases n) auto
  then show "parse_primary n (t @ rest) = Some (EStr s, rest)"
    using read_encode_string [OF assms, of rest] t by (simp add: parse_primary_special)
  show "unlabelled (t @ rest)" by (simp add: t unlabelled_start not_var_starts)
qed

lemma reads_not: "reads_as t e \<Longrightarrow> reads_as (CHR ''!'' # t) (ENot e)"
  unfolding reads_as_def
proof (intro allI impI conjI)
  fix n rest
  assume r: "\<forall>n rest. length t \<le> n \<longrightarrow> ends_operand rest \<longrightarrow>
     parse_primary n (t @ rest) = Some (e, rest) \<and> unlabelled (t @ rest)"
    and n: "length (CHR ''!'' # t) \<le> n" "ends_operand rest"
  then obtain m where "n = Suc m" "length t \<le> m" by (cases n) auto
  then show "parse_primary n ((CHR ''!'' # t) @ rest) = Some (ENot e, rest)"
    using r n(2) by (simp add: parse_primary_special)
  show "unlabelled ((CHR ''!'' # t) @ rest)" by (simp add: unlabelled_start not_var_starts)
qed

lemma reads_group:
  assumes "reads_as t e"
  shows "reads_as (''('' @ t @ '')'') (EGroup e)"
  unfolding reads_as_def
proof (intro allI impI conjI)
  fix n rest assume n: "length (''('' @ t @ '')'') \<le> n"
  then obtain m where m: "n = Suc m" "length t \<le> m" by (cases n) auto
  then show "parse_primary n ((''('' @ t @ '')'') @ rest) = Some (EGroup e, rest)"
    using reads_asD(1) [OF assms m(2), of "CHR '')'' # rest"]
    by (simp add: parse_primary_special parse_group_def)
  show "unlabelled ((''('' @ t @ '')'') @ rest)" by (simp add: unlabelled_start not_var_starts)
qed

lemma reads_op:
  assumes "reads_as t a" "reads_as u b" "CHR '' '' \<notin> set op"
  shows "reads_as (''('' @ t @ '' '' @ op @ '' '' @ u @ '')'') (EGroup (EOp op a b))"
  unfolding reads_as_def
proof (intro allI impI conjI)
  let ?t = "''('' @ t @ '' '' @ op @ '' '' @ u @ '')''"
  fix n rest assume n: "length ?t \<le> n"
  then obtain m where m: "n = Suc m" "length t \<le> m" "length u \<le> m" by (cases n) auto
  let ?after = "op @ CHR '' '' # u @ CHR '')'' # rest"
  have op: "takeWhile (\<lambda>c. c \<noteq> CHR '' '') ?after = op"
    using assms(3) by (subst takeWhile_append2) auto
  show "parse_primary n (?t @ rest) = Some (EGroup (EOp op a b), rest)"
    using reads_asD(1) [OF assms(1) m(2), of "CHR '' '' # ?after"]
      reads_asD(1) [OF assms(2) m(3), of "CHR '')'' # rest"] m(1) op
    by (simp add: parse_primary_special parse_group_def Let_def)
  show "unlabelled (?t @ rest)" by (simp add: unlabelled_start not_var_starts)
qed

text \<open>Arguments, labelled or not, and lists of them.\<close>

definition arg_reads :: "string \<Rightarrow> string \<times> vexpr \<Rightarrow> bool" where
  "arg_reads t a \<longleftrightarrow>
     (fst a = [] \<and> reads_as t (snd a)) \<or>
     (fst a \<noteq> [] \<and> list_all var_char (fst a) \<and> (\<exists>u. t = fst a @ '': '' @ u \<and> reads_as u (snd a)))"

lemma parse_arg_reads:
  assumes "arg_reads t a" "length t \<le> n" "ends_operand rest"
  shows "parse_arg (parse_primary n) (t @ rest) = Some (a, rest)"
  using assms(1) unfolding arg_reads_def
proof (elim disjE conjE exE)
  assume a: "fst a = []" "reads_as t (snd a)"
  then show ?thesis
    using reads_asD [OF a(2)] assms(2,3)
    by (simp add: parse_arg_def Let_def unlabelled_def) (metis prod.collapse)
next
  fix u assume a: "fst a \<noteq> []" "list_all var_char (fst a)" "t = fst a @ '': '' @ u" "reads_as u (snd a)"
  have "\<not> var_char CHR '':''" by (simp add: var_char_def)
  with a have s: "takeWhile var_char (t @ rest) = fst a" "dropWhile var_char (t @ rest) = '': '' @ u @ rest"
    by (simp_all add: takeWhile_append2 dropWhile_append2 list_all_iff)
  have "length u \<le> n" using assms(2) a(3) by simp
  then have "parse_primary n (u @ rest) = Some (snd a, rest)"
    using reads_asD(1) [OF a(4) _ assms(3), of n] by simp
  with a(1) show ?thesis by (simp add: parse_arg_def s Let_def)
qed

lemma arg_reads_nonempty: "arg_reads t a \<Longrightarrow> t \<noteq> []"
  by (auto simp: arg_reads_def dest: reads_as_nonempty)

lemma parse_args_reads:
  assumes "list_all2 arg_reads ts as" "ts \<noteq> []" "d \<in> {CHR '')'', CHR '']''}"
    and "length (py_join '', '' ts) \<le> n" "length ts \<le> k"
  shows "parse_args (parse_primary n) k d (py_join '', '' ts @ d # rest) = Some (as, rest)"
  using assms
proof (induction ts arbitrary: as k)
  case Nil
  then show ?case by simp
next
  case (Cons t ts)
  then obtain a bs where a: "as = a # bs" "arg_reads t a" "list_all2 arg_reads ts bs"
    by (auto simp: list_all2_Cons1)
  from Cons.prems obtain j where k: "k = Suc j" by (cases k) auto
  show ?case
  proof (cases "ts = []")
    case True
    then show ?thesis
      using a k Cons.prems(3,4) parse_arg_reads [OF a(2), of n "d # rest"] by auto
  next
    case False
    have "length t \<le> n" "length (py_join '', '' ts) \<le> n"
      using Cons.prems(4) False by (simp_all add: py_join_Cons)
    then show ?thesis
      using a k False Cons.prems(3,5) Cons.IH [OF a(3) False Cons.prems(3), of j]
        parse_arg_reads [OF a(2), of n "'', '' @ py_join '', '' ts @ d # rest"]
      by (auto simp: py_join_Cons)
  qed
qed

lemma args_length: "list_all2 arg_reads ts as \<Longrightarrow> length ts \<le> length (py_join '', '' ts)"
proof (induction ts as rule: list_all2_induct)
  case (Cons t ts a as)
  then show ?case
    using arg_reads_nonempty [of t a] by (cases ts; cases t) (auto simp: py_join_Cons)
qed simp

lemma reads_list:
  assumes "list_all2 reads_as ts es"
  shows "reads_as (bracketed ts) (EList es)"
  unfolding reads_as_def
proof (intro allI impI conjI)
  fix n rest assume n: "length (bracketed ts) \<le> n"
  then obtain m where m: "n = Suc m" "length (py_join '', '' ts) \<le> m"
    by (cases n) (auto simp: bracketed_def)
  show "unlabelled (bracketed ts @ rest)" by (simp add: bracketed_def unlabelled_start not_var_starts)
  show "parse_primary n (bracketed ts @ rest) = Some (EList es, rest)"
  proof (cases "ts = []")
    case True
    then show ?thesis using assms m(1) by (simp add: bracketed_def parse_primary.simps(3))
  next
    case False
    have l: "list_all2 arg_reads ts (map (Pair []) es)"
      using assms by (simp add: list_all2_map2 arg_reads_def)
    then have p: "parse_args (parse_primary m) m CHR '']'' (py_join '', '' ts @ CHR '']'' # rest) =
        Some (map (Pair []) es, rest)"
      using m(2) args_length [OF l] False by (intro parse_args_reads) auto
    obtain t us a bs where t: "ts = t # us" "arg_reads t a" using l False by (cases ts) (auto simp: list_all2_Cons1)
    let ?b = "py_join '', '' ts @ CHR '']'' # rest"
    have "hd ?b \<noteq> CHR '']''"
    proof
      assume h: "hd ?b = CHR '']''"
      then obtain b where b: "?b = CHR '']'' # b" by (cases ?b) auto
      have "parse_arg (parse_primary m) (CHR '']'' # b) = None"
        by (cases m) (simp_all add: parse_arg_def Let_def var_char_def parse_primary.simps(3)
            is_ascii_digit_def)
      then have "parse_args (parse_primary m) m CHR '']'' ?b = None"
        unfolding b by (cases m) simp_all
      with p show False by simp
    qed
    with m(1) p show ?thesis
      by (simp add: bracketed_def parse_primary.simps(3) comp_def)
  qed
qed

lemma reads_call:
  assumes "list_all2 arg_reads ts as" "ts \<noteq> []" "is_var f"
  shows "reads_as (f @ ''('' @ py_join '', '' ts @ '')'') (ECall f (map fst as) (map snd as))"
  unfolding reads_as_def
proof (intro allI impI conjI)
  let ?t = "f @ ''('' @ py_join '', '' ts @ '')''"
  fix n rest assume n: "length ?t \<le> n"
  have s: "takeWhile var_char (?t @ rest) = f" "dropWhile var_char (?t @ rest) = ''('' @ py_join '', '' ts @ '')'' @ rest"
    using var_span [OF assms(3), of "''('' @ py_join '', '' ts @ '')'' @ rest"] not_var_starts(2) by simp_all
  then show "unlabelled (?t @ rest)" by (simp add: unlabelled_def)
  obtain c cs where f: "f = c # cs" "var_char c" "list_all var_char cs"
    using assms(3) by (cases f) (auto simp: is_var_def)
  then have c: "c \<noteq> DQ" "c \<noteq> CHR ''(''" "c \<noteq> CHR ''[''" "c \<noteq> CHR ''!''" "\<not> is_ascii_digit c" "c \<noteq> CHR ''-''"
    using not_var_starts by auto
  have q: "hd (cs @ ''('' @ x) \<noteq> SQ" for x
    using f(3) by (cases cs) (auto simp: var_char_def)
  from n obtain m where m: "n = Suc m" "length (py_join '', '' ts) \<le> m" by (cases n) auto
  have "parse_args (parse_primary m) m CHR '')'' (py_join '', '' ts @ CHR '')'' # rest) = Some (as, rest)"
    using m(2) args_length [OF assms(1)] assms(1,2) by (intro parse_args_reads) auto
  moreover have "parse_primary n (?t @ rest) =
      (let x = takeWhile var_char (?t @ rest); r = dropWhile var_char (?t @ rest) in
         if r \<noteq> [] \<and> hd r = CHR ''('' then
           map_option (apfst (\<lambda>as. ECall x (map fst as) (map snd as)))
             (parse_args (parse_primary m) m CHR '')'' (tl r))
         else Some (EName x, r))"
    using c q f(2) by (simp add: f(1) m(1) parse_primary.simps(3))
  ultimately show "parse_primary n (?t @ rest) = Some (ECall f (map fst as) (map snd as), rest)"
    unfolding s Let_def by simp
qed

lemma reads_name:
  assumes "x \<noteq> []" "list_all var_char x"
  shows "reads_as x (EName x)"
  unfolding reads_as_def
proof (intro allI impI conjI)
  fix n rest assume n: "length x \<le> n" and rest: "ends_operand rest"
  then have r: "rest = [] \<or> \<not> var_char (hd rest) \<and> hd rest \<noteq> CHR ''('' \<and> hd rest \<noteq> CHR '':''"
    using ends_operand_chars by blast
  have x: "\<And>c. c \<in> set x \<Longrightarrow> var_char c" using assms(2) by (simp add: list_all_iff)
  have s: "takeWhile var_char (x @ rest) = x" "dropWhile var_char (x @ rest) = rest"
    using r x by (cases rest; simp add: takeWhile_append2 dropWhile_append2)+
  show "unlabelled (x @ rest)"
    unfolding unlabelled_def s using r by (cases rest) auto
  obtain c cs where f: "x = c # cs" "var_char c" "list_all var_char cs"
    using assms by (cases x) auto
  then have c: "c \<noteq> DQ" "c \<noteq> CHR ''(''" "c \<noteq> CHR ''[''" "c \<noteq> CHR ''!''" "\<not> is_ascii_digit c" "c \<noteq> CHR ''-''"
    using not_var_starts by auto
  have q: "cs @ rest = [] \<or> hd (cs @ rest) \<noteq> SQ"
    using f(3) rest by (cases cs; cases rest) (auto simp: var_char_def)
  from n f(1) obtain m where m: "n = Suc m" by (cases n) auto
  have "parse_primary n (x @ rest) =
      (let y = takeWhile var_char (x @ rest); r = dropWhile var_char (x @ rest) in
         if r \<noteq> [] \<and> hd r = CHR ''('' then
           map_option (apfst (\<lambda>as. ECall y (map fst as) (map snd as)))
             (parse_args (parse_primary m) m CHR '')'' (tl r))
         else Some (EName y, r))"
    using c q f(2) by (auto simp add: f(1) m(1) parse_primary.simps(3))
  then show "parse_primary n (x @ rest) = Some (EName x, rest)"
    unfolding s Let_def using r by auto
qed

lemma reads_regex:
  assumes "SQ \<notin> set re"
  shows "reads_as ([CHR ''r'', SQ] @ re @ [SQ]) (ERegex re)"
  unfolding reads_as_def
proof (intro allI impI conjI)
  let ?t = "[CHR ''r'', SQ] @ re @ [SQ]"
  fix n rest assume n: "length ?t \<le> n"
  then obtain m where m: "n = Suc m" by (cases n) auto
  have "\<forall>x \<in> set re. x \<noteq> SQ" using assms by auto
  then have s: "takeWhile (\<lambda>x. x \<noteq> SQ) (re @ SQ # rest) = re" "dropWhile (\<lambda>x. x \<noteq> SQ) (re @ SQ # rest) = SQ # rest"
    by (simp_all add: takeWhile_append2 dropWhile_append2)
  have r: "CHR ''r'' \<noteq> DQ" "\<not> is_ascii_digit CHR ''r''" by (simp_all add: is_ascii_digit_def)
  then show "parse_primary n (?t @ rest) = Some (ERegex re, rest)"
    by (simp add: m parse_primary.simps(3) s)
  have "var_char CHR ''r''" "\<not> var_char SQ" by (simp_all add: var_char_def)
  then show "unlabelled (?t @ rest)" by (simp add: unlabelled_def)
qed

lemma reads_number:
  assumes "list_all number_char t" "t \<noteq> []" "hd t \<noteq> CHR ''.''"
  shows "reads_as t (number_expr_of t)"
  unfolding reads_as_def
proof (intro allI impI conjI)
  fix n rest assume n: "length t \<le> n" and rest: "ends_operand rest"
  then have r: "rest = [] \<or> \<not> number_char (hd rest)"
    using ends_operand_chars by blast
  have x: "\<And>c. c \<in> set t \<Longrightarrow> number_char c" using assms(1) by (simp add: list_all_iff)
  have s: "takeWhile number_char (t @ rest) = t" "dropWhile number_char (t @ rest) = rest"
    using r x by (cases rest; simp add: takeWhile_append2 dropWhile_append2)+
  obtain c cs where f: "t = c # cs" "is_ascii_digit c \<or> c = CHR ''-''"
    using assms by (cases t) (auto simp: number_char_def)
  then have c: "c \<noteq> DQ" "c \<noteq> CHR ''(''" "c \<noteq> CHR ''[''" "c \<noteq> CHR ''!''" "c \<noteq> CHR ''r''" "\<not> var_char c" "c \<noteq> CHR '':''"
    using not_var_starts by (auto simp: is_ascii_digit_def)
  from n f(1) obtain m where m: "n = Suc m" by (cases n) auto
  have "parse_primary n (t @ rest) = Some (number_expr_of (takeWhile number_char (t @ rest)), dropWhile number_char (t @ rest))"
    using c f(2) by (simp add: f(1) m parse_primary.simps(3))
  then show "parse_primary n (t @ rest) = Some (number_expr_of t, rest)" by (simp add: s)
  show "unlabelled (t @ rest)" using c by (simp add: f(1) unlabelled_start)
qed

section \<open>The expression of a condition\<close>

fun pyfloat_value :: "pyfloat \<Rightarrow> rat" where
  "pyfloat_value (Finite neg coef e) =
     (if neg then -1 else 1) * (of_nat coef * 10 ^ nat e / 10 ^ nat (- e))"
| "pyfloat_value _ = 0"

fun lit :: "pyval \<Rightarrow> vexpr" where
  "lit PNone = EName ''null''"
| "lit (PStr s) = EStr s"
| "lit (PBool b) = EName (bool_text b)"
| "lit (PInt i) = EInt i"
| "lit (PFloat f) = EFlt (pyfloat_value f)"
| "lit (PList vs) = EList (map lit vs)"

definition value_ex :: "string \<Rightarrow> vexpr" where
  "value_ex field = EGroup (EOp ''??''
     (ECall ''get'' [[], []] [EName ''ev'', EList (map EStr (py_split CHR ''.'' field))]) (EName ''null''))"

definition text_ex :: "string \<Rightarrow> vexpr" where
  "text_ex field = EGroup (EOp ''??'' (ECall ''to_string'' [[]] [value_ex field]) (EStr []))"

definition number_ex :: "string \<Rightarrow> vexpr" where
  "number_ex field = EGroup (EOp ''??'' (ECall ''to_float'' [[]] [value_ex field]) (EName ''null''))"

definition operand_ex :: "string \<Rightarrow> bool \<Rightarrow> vexpr" where
  "operand_ex field cs = (if \<not> cs then ECall ''downcase'' [[]] [text_ex field] else text_ex field)"

text \<open>The equality and membership operands: text when the value is, the field's own value otherwise.\<close>

definition equality_ex :: "condition \<Rightarrow> vexpr" where
  "equality_ex c = EGroup (EOp (if cond_op c = EQ then ''=='' else ''!='')
     (if is_str (cond_value c) then operand_ex (cond_field c) (case_sensitive c) else value_ex (cond_field c))
     (lit (folded (case_sensitive c) (cond_value c))))"

definition includes_ex :: "condition \<Rightarrow> vexpr" where
  "includes_ex c = (let vs = the_list (cond_value c) in
     ECall ''includes'' [[], []]
       (if list_all is_str vs
        then [EList (map (\<lambda>v. lit (folded (case_sensitive c) v)) vs), operand_ex (cond_field c) (case_sensitive c)]
        else [lit (PList vs), value_ex (cond_field c)]))"

fun condition_ex :: "condition \<Rightarrow> vexpr" where
  "condition_ex c =
     (case cond_op c of
        EXISTS \<Rightarrow> EGroup (EOp ''!='' (value_ex (cond_field c)) (EName ''null''))
      | NOT_EXISTS \<Rightarrow> EGroup (EOp ''=='' (value_ex (cond_field c)) (EName ''null''))
      | EQ \<Rightarrow> equality_ex c
      | NE \<Rightarrow> equality_ex c
      | IN \<Rightarrow> EGroup (includes_ex c)
      | NOT_IN \<Rightarrow> EGroup (ENot (includes_ex c))
      | GLOB \<Rightarrow> (case glob_to_regex (the_str (cond_value c)) (\<not> case_sensitive c) of
           Inr re \<Rightarrow> EGroup (ECall ''match'' [[], []] [text_ex (cond_field c), ERegex re])
         | Inl _ \<Rightarrow> EName ''null'')
      | CIDR \<Rightarrow> EGroup (EOp ''??'' (ECall ''ip_cidr_contains'' [[], []]
           [EStr (the_str (cond_value c)), text_ex (cond_field c)]) (EName ''false''))
      | op \<Rightarrow>
          if op \<in> NUMERIC_OPERATORS
          then EGroup (EOp ''??'' (EGroup (EOp (comparison_sign op) (number_ex (cond_field c))
                 (EFlt (pyfloat_value (the_float (cond_value c)))))) (EName ''false''))
          else EGroup (ECall (substring_fn op) [[], [], ''case_sensitive'']
                 [text_ex (cond_field c), EStr (the_str (cond_value c)), EName (bool_text (case_sensitive c))]))"

declare condition_ex.simps [simp del]

section \<open>A compiled condition reads as its expression\<close>

lemma reads_int: "reads_as (int_str i) (EInt i)"
proof -
  have ne: "int_str i \<noteq> []" by (simp add: int_str_def)
  have d: "CHR ''.'' \<notin> set (int_str i)"
    using int_str_chars [of "CHR ''.''" i] by (auto simp: is_ascii_digit_def)
  then have "hd (int_str i) \<noteq> CHR ''.''" using ne by (metis list.set_sel(1))
  then show ?thesis
    using reads_number [OF int_str_number ne] d by (simp add: number_expr_of_def)
qed

lemma reads_float:
  assumes "encode_number (PFloat (Finite neg coef e)) = Inr t"
  shows "reads_as t (EFlt (pyfloat_value (Finite neg coef e)))"
proof -
  obtain ip fp where t: "t = (if neg then ''-'' else []) @ ip @ CHR ''.'' # fp" "ip \<noteq> []" "fp \<noteq> []"
    "plain_digits ip" "plain_digits fp" "read_nat (ip @ fp) * 10 ^ nat (- e) = coef * 10 ^ (nat e + length fp)"
    by (rule encode_float_shape [OF assms]) blast
  have rd: "read_decimal t = (neg, read_nat (ip @ fp), length fp)"
    unfolding t(1) by (rule read_decimal_shape(1) [OF t(4,5,2)])
  have "rat_of_nat (read_nat (ip @ fp)) * 10 ^ nat (- e) = of_nat coef * 10 ^ nat e * 10 ^ length fp"
    using arg_cong [OF t(6), of rat_of_nat] by (simp add: power_add)
  then have v: "decimal_value (read_decimal t) = pyfloat_value (Finite neg coef e)"
    by (simp add: rd decimal_value_def field_simps)
  have n: "list_all number_char t"
    using t(4,5) by (simp add: t(1) plain_digits_number number_char_def)
  have "hd ip \<noteq> CHR ''.''" using plain_digits_no_dot [OF t(4)] t(2) by (metis list.set_sel(1))
  then have h: "t \<noteq> []" "hd t \<noteq> CHR ''.''" using t(2) by (simp_all add: t(1))
  have "CHR ''.'' \<in> set t" by (simp add: t(1))
  then show ?thesis
    using reads_number [OF n h] v by (simp add: number_expr_of_def)
qed

lemma bool_text_var: "bool_text b \<noteq> []" "list_all var_char (bool_text b)"
  by (simp_all add: bool_text_def var_char_def)

lemma reads_plain_names: "reads_as ''null'' (EName ''null'')" "reads_as ''ev'' (EName ''ev'')"
  "reads_as ''false'' (EName ''false'')"
  by (rule reads_name; simp add: var_char_def)+

lemma reads_literal: "encode v = Inr t \<Longrightarrow> reads_as t (lit v)"
proof (induction v arbitrary: t)
  case (PFloat f)
  then show ?case
  proof (cases f)
    case (Finite n k e)
    with PFloat have "encode_number (PFloat (Finite n k e)) = Inr t" by simp
    then show ?thesis unfolding Finite lit.simps by (rule reads_float)
  qed simp_all
next
  case (PList vs)
  then obtain items where i: "mapR encode vs = Inr items" "t = bracketed items"
    by (auto simp: bindR_Inr_iff split: if_splits)
  have "list_all2 (\<lambda>v t. encode v = Inr t) vs items" using i(1) by (simp add: mapR_Inr_iff)
  then have "list_all2 reads_as items (map lit vs)"
    using PList.IH by (auto simp: list_all2_conv_all_nth)
  then show ?case unfolding i(2) lit.simps by (rule reads_list)
qed (use bool_text_var in \<open>auto simp: reads_string reads_int reads_name bool_text_def split: if_splits\<close>)

lemma arg_plain [simp]: "arg_reads t ([], e) \<longleftrightarrow> reads_as t e"
  by (simp add: arg_reads_def)

lemma reads_call1:
  "reads_as t a \<Longrightarrow> is_var f \<Longrightarrow> reads_as (f @ ''('' @ t @ '')'') (ECall f [[]] [a])"
  using reads_call [of "[t]" "[([], a)]" f] by simp

lemma reads_call2:
  "reads_as t a \<Longrightarrow> reads_as u b \<Longrightarrow> is_var f \<Longrightarrow>
     reads_as (f @ ''('' @ t @ '', '' @ u @ '')'') (ECall f [[], []] [a, b])"
  using reads_call [of "[t, u]" "[([], a), ([], b)]" f] by simp

lemma reads_value:
  assumes "value_expr f = Inr t"
  shows "reads_as t (value_ex f)"
proof -
  obtain path where p: "encode_path f = Inr path" "t = ''(get(ev, '' @ path @ '') ?? null)''"
    using assms by (auto simp: value_expr_def bindR_Inr_iff)
  then obtain items where i: "mapR encode_string (py_split CHR ''.'' f) = Inr items" "path = bracketed items"
    by (elim encode_path_Inr) blast
  have "list_all2 (\<lambda>s t. encode_string s = Inr t) (py_split CHR ''.'' f) items"
    using i(1) by (simp add: mapR_Inr_iff)
  then have "list_all2 reads_as items (map EStr (py_split CHR ''.'' f))"
    by (auto simp: list_all2_conv_all_nth reads_string)
  then have path: "reads_as path (EList (map EStr (py_split CHR ''.'' f)))"
    unfolding i(2) by (rule reads_list)
  have "is_var ''get''" by code_simp
  from reads_call2 [OF reads_plain_names(2) path this]
  have "reads_as (''get(ev, '' @ path @ '')'') (ECall ''get'' [[], []] [EName ''ev'', EList (map EStr (py_split CHR ''.'' f))])"
    by simp
  from reads_op [OF this reads_plain_names(1), of "''??''"] show ?thesis
    by (simp add: p(2) value_ex_def)
qed

lemma reads_empty_text: "reads_as [DQ, DQ] (EStr [])"
  by (rule reads_string) (simp add: encode_string_def MAX_STRING_LEN_def)

lemma reads_text:
  assumes "text_expr f = Inr t"
  shows "reads_as t (text_ex f)"
proof -
  obtain v where v: "value_expr f = Inr v" \<open>t = ''(to_string('' @ v @ '') ?? "")''\<close>
    using assms by (auto simp: text_expr_def bindR_Inr_iff)
  have "is_var ''to_string''" by code_simp
  from reads_call1 [OF reads_value [OF v(1)] this]
  have "reads_as (''to_string('' @ v @ '')'') (ECall ''to_string'' [[]] [value_ex f])" by simp
  from reads_op [OF this reads_empty_text, of "''??''"] show ?thesis
    by (simp add: v(2) text_ex_def)
qed

lemma reads_number_ex:
  assumes "number_expr f = Inr t"
  shows "reads_as t (number_ex f)"
proof -
  obtain v where v: "value_expr f = Inr v" "t = ''(to_float('' @ v @ '') ?? null)''"
    using assms by (auto simp: number_expr_def bindR_Inr_iff)
  have "is_var ''to_float''" by code_simp
  from reads_call1 [OF reads_value [OF v(1)] this]
  have "reads_as (''to_float('' @ v @ '')'') (ECall ''to_float'' [[]] [value_ex f])" by simp
  from reads_op [OF this reads_plain_names(1), of "''??''"] show ?thesis
    by (simp add: v(2) number_ex_def)
qed

lemma reads_operand:
  assumes "string_operand f cs = Inr t"
  shows "reads_as t (operand_ex f cs)"
proof -
  obtain u where u: "text_expr f = Inr u" "t = (if \<not> cs then ''downcase('' @ u @ '')'' else u)"
    using assms by (auto simp: string_operand_def bindR_Inr_iff split: if_splits)
  have "is_var ''downcase''" by code_simp
  from reads_call1 [OF reads_text [OF u(1)] this] show ?thesis
    using reads_text [OF u(1)] by (auto simp: u(2) operand_ex_def)
qed

lemma reads_literal_operand: "literal_operand v cs = Inr t \<Longrightarrow> reads_as t (lit (folded cs v))"
  by (cases v) (auto simp: literal_operand_def simp del: encode.simps lit.simps
      intro: reads_literal split: if_splits)

lemma reads_equality:
  assumes "compile_equality c = Inr t"
  shows "reads_as t (equality_ex c)"
proof -
  let ?l = "if is_str (cond_value c) then operand_ex (cond_field c) (case_sensitive c) else value_ex (cond_field c)"
  let ?op = "if cond_op c = EQ then ''=='' else ''!=''"
  obtain l r where t: "t = ''('' @ l @ '' '' @ ?op @ '' '' @ r @ '')''"
    and lr: "reads_as l ?l" "reads_as r (lit (folded (case_sensitive c) (cond_value c)))"
  proof (cases "is_str (cond_value c)")
    case True
    with assms that show thesis
      by (auto simp: compile_equality_def bindR_Inr_iff reads_operand reads_literal_operand)
  next
    case False
    then have "folded (case_sensitive c) (cond_value c) = cond_value c" by (cases "cond_value c") simp_all
    with False assms that show thesis
      by (auto simp: compile_equality_def bindR_Inr_iff reads_value reads_literal)
  qed
  show ?thesis
    using reads_op [OF lr, of ?op] by (simp add: t equality_ex_def split del: if_split) (simp split: if_splits)
qed

lemma reads_membership:
  assumes "compile_membership c = Inr t"
  shows "reads_as t (EGroup (if cond_op c = IN then includes_ex c else ENot (includes_ex c)))"
proof -
  obtain vs where vs: "cond_value c = PList vs"
    using assms by (cases "cond_value c") (simp_all add: compile_membership_def)
  obtain r l where t: "t = (if cond_op c = IN then ''('' @ ''includes('' @ r @ '', '' @ l @ '')'' @ '')''
        else ''(!'' @ ''includes('' @ r @ '', '' @ l @ '')'' @ '')'')"
    and rl: "reads_as (''includes('' @ r @ '', '' @ l @ '')'') (includes_ex c)"
  proof (cases "list_all is_str vs")
    case True
    with assms vs obtain l items where i: "string_operand (cond_field c) (case_sensitive c) = Inr l"
      "mapR (\<lambda>v. literal_operand v (case_sensitive c)) vs = Inr items"
      and t: "t = (let expr = ''includes('' @ bracketed items @ '', '' @ l @ '')''
              in if cond_op c = IN then ''('' @ expr @ '')'' else ''(!'' @ expr @ '')'')"
      by (auto simp: compile_membership_def bindR_Inr_iff Let_def)
    have "list_all2 reads_as items (map (\<lambda>v. lit (folded (case_sensitive c) v)) vs)"
      using i(2) by (auto simp: mapR_Inr_iff list_all2_conv_all_nth reads_literal_operand)
    from reads_call2 [OF reads_list [OF this] reads_operand [OF i(1)], of "''includes''"] True t vs
    show thesis
      by (intro that [of "bracketed items" l]) (simp_all add: includes_ex_def is_var_def var_char_def Let_def)
  next
    case False
    with assms vs obtain l r where i: "value_expr (cond_field c) = Inr l" "encode (PList vs) = Inr r"
      and t: "t = (let expr = ''includes('' @ r @ '', '' @ l @ '')''
              in if cond_op c = IN then ''('' @ expr @ '')'' else ''(!'' @ expr @ '')'')"
      by (auto simp: compile_membership_def bindR_Inr_iff Let_def simp del: encode.simps)
    from reads_call2 [OF reads_literal [OF i(2)] reads_value [OF i(1)], of "''includes''"] False t vs
    show thesis
      by (intro that [of r l]) (simp_all add: includes_ex_def is_var_def var_char_def Let_def)
  qed
  show ?thesis
    using reads_group [OF rl] reads_group [OF reads_not [OF rl]] by (auto simp: t)
qed

lemma reads_substring:
  assumes "compile_substring c = Inr t"
  shows "reads_as t (EGroup (ECall (substring_fn (cond_op c)) [[], [], ''case_sensitive'']
    [text_ex (cond_field c), EStr (the_str (cond_value c)), EName (bool_text (case_sensitive c))]))"
proof -
  let ?b = "bool_text (case_sensitive c)"
  obtain s where s: "cond_value c = PStr s"
    using assms by (cases "cond_value c") (simp_all add: compile_substring_def)
  with assms obtain l n where ln: "text_expr (cond_field c) = Inr l" "encode_string s = Inr n"
    and t: "t = ''('' @ (substring_fn (cond_op c) @ ''('' @ l @ '', '' @ n @ '', case_sensitive: '' @ ?b @ '')'') @ '')''"
    by (auto simp: compile_substring_def bindR_Inr_iff bool_text_def)
  have b: "arg_reads (''case_sensitive: '' @ ?b) (''case_sensitive'', EName ?b)"
    unfolding arg_reads_def using reads_name [OF bool_text_var] by (simp add: var_char_def)
  have "is_var (substring_fn op)" for op by (cases op) (simp_all add: is_var_def var_char_def)
  from reads_call [of "[l, n, ''case_sensitive: '' @ ?b]"
      "[([], text_ex (cond_field c)), ([], EStr s), (''case_sensitive'', EName ?b)]", OF _ _ this]
  have "reads_as (substring_fn (cond_op c) @ ''('' @ l @ '', '' @ n @ '', case_sensitive: '' @ ?b @ '')'')
      (ECall (substring_fn (cond_op c)) [[], [], ''case_sensitive''] [text_ex (cond_field c), EStr s, EName ?b])"
    using b reads_text [OF ln(1)] reads_string [OF ln(2)] by simp
  from reads_group [OF this] show ?thesis by (simp add: t s)
qed

lemma reads_glob:
  assumes "compile_glob c = Inr t"
  shows "\<exists>re. glob_to_regex (the_str (cond_value c)) (\<not> case_sensitive c) = Inr re \<and>
    reads_as t (EGroup (ECall ''match'' [[], []] [text_ex (cond_field c), ERegex re]))"
proof -
  obtain s where s: "cond_value c = PStr s"
    using assms by (cases "cond_value c") (simp_all add: compile_glob_def)
  with assms obtain re l where r: "glob_to_regex s (\<not> case_sensitive c) = Inr re"
    "text_expr (cond_field c) = Inr l" "t = ''('' @ (''match('' @ l @ '', '' @ ([CHR ''r'', SQ] @ re @ [SQ]) @ '')'') @ '')''"
    by (auto simp: compile_glob_def bindR_Inr_iff encode_regex_literal_glob)
  have "is_var ''match''" by code_simp
  from reads_call2 [OF reads_text [OF r(2)] reads_regex [OF glob_regex_safe(1) [OF r(1)]] this]
  have "reads_as (''match('' @ l @ '', '' @ ([CHR ''r'', SQ] @ re @ [SQ]) @ '')'')
      (ECall ''match'' [[], []] [text_ex (cond_field c), ERegex re])" by simp
  from reads_group [OF this] show ?thesis using r(1) by (simp add: r(3) s)
qed

lemma reads_cidr:
  assumes "compile_cidr c = Inr t"
  shows "reads_as t (EGroup (EOp ''??'' (ECall ''ip_cidr_contains'' [[], []]
    [EStr (the_str (cond_value c)), text_ex (cond_field c)]) (EName ''false'')))"
proof -
  obtain s where s: "cond_value c = PStr s"
    using assms by (cases "cond_value c") (simp_all add: compile_cidr_def)
  with assms obtain l n where r: "text_expr (cond_field c) = Inr l" "encode_string s = Inr n"
    "t = ''('' @ (''ip_cidr_contains('' @ n @ '', '' @ l @ '')'') @ '' '' @ ''??'' @ '' '' @ ''false'' @ '')''"
    by (auto simp: compile_cidr_def bindR_Inr_iff)
  have "is_var ''ip_cidr_contains''" by code_simp
  from reads_call2 [OF reads_string [OF r(2)] reads_text [OF r(1)] this]
  have "reads_as (''ip_cidr_contains('' @ n @ '', '' @ l @ '')'')
      (ECall ''ip_cidr_contains'' [[], []] [EStr s, text_ex (cond_field c)])" by simp
  from reads_op [OF this reads_plain_names(3), of "''??''"] show ?thesis by (simp add: r(3) s)
qed

lemma reads_comparison:
  assumes "compile_comparison c = Inr t"
  shows "reads_as t (EGroup (EOp ''??'' (EGroup (EOp (comparison_sign (cond_op c)) (number_ex (cond_field c))
    (EFlt (pyfloat_value (the_float (cond_value c)))))) (EName ''false'')))"
proof -
  obtain l f r where r: "number_expr (cond_field c) = Inr l" "to_pyfloat (cond_value c) = Inr f"
    "encode (PFloat f) = Inr r"
    and t: "t = ''('' @ (''('' @ l @ '' '' @ comparison_sign (cond_op c) @ '' '' @ r @ '')'') @
      '' '' @ ''??'' @ '' '' @ ''false'' @ '')''"
    using assms by (auto simp: compile_comparison_def bindR_Inr_iff simp del: encode.simps split: if_splits)
  have f: "f = the_float (cond_value c)" by (rule to_pyfloat_the [OF r(2)])
  have op: "CHR '' '' \<notin> set (comparison_sign op)" for op by (cases op) simp_all
  have "reads_as r (EFlt (pyfloat_value f))" using reads_literal [OF r(3)] by simp
  from reads_op [OF reads_op [OF reads_number_ex [OF r(1)] this op] reads_plain_names(3), of "''??''"]
  show ?thesis by (simp add: t f)
qed

lemma reads_condition:
  assumes "compile_condition c = Inr t"
  shows "reads_as t (condition_ex c)"
proof -
  have ex: "reads_as t (EGroup (EOp s (value_ex (cond_field c)) (EName ''null'')))"
    if "value_expr (cond_field c) = Inr v" "t = ''('' @ v @ '' '' @ s @ '' null)''" "CHR '' '' \<notin> set s" for v s
    using reads_op [OF reads_value [OF that(1)] reads_plain_names(1) that(3)] by (simp add: that(2))
  have classes: "LT \<in> NUMERIC_OPERATORS" "LTE \<in> NUMERIC_OPERATORS" "GT \<in> NUMERIC_OPERATORS"
    "GTE \<in> NUMERIC_OPERATORS" "CONTAINS \<notin> NUMERIC_OPERATORS" "STARTS_WITH \<notin> NUMERIC_OPERATORS"
    "ENDS_WITH \<notin> NUMERIC_OPERATORS"
    by (simp_all add: NUMERIC_OPERATORS_def)
  show ?thesis
  proof (cases "cond_op c")
    case EXISTS
    with assms obtain v where "value_expr (cond_field c) = Inr v" "t = ''('' @ v @ '' '' @ ''!='' @ '' null)''"
      by (auto simp: compile_condition_def bindR_Inr_iff)
    from ex [OF this] show ?thesis by (simp add: condition_ex.simps EXISTS)
  next
    case NOT_EXISTS
    with assms obtain v where "value_expr (cond_field c) = Inr v" "t = ''('' @ v @ '' '' @ ''=='' @ '' null)''"
      by (auto simp: compile_condition_def bindR_Inr_iff)
    from ex [OF this] show ?thesis by (simp add: condition_ex.simps NOT_EXISTS)
  next
    case GLOB
    with assms reads_glob [of c t] show ?thesis
      by (auto simp: compile_condition_def condition_ex.simps)
  qed (use assms reads_equality [of c t] reads_membership [of c t] reads_substring [of c t]
      reads_cidr [of c t] reads_comparison [of c t] in
      \<open>simp_all add: compile_condition_def condition_ex.simps classes\<close>)
qed

lemma condition_ex_group: "compile_condition c = Inr t \<Longrightarrow> is_group (condition_ex c)"
  by (auto simp: condition_ex.simps compile_condition_def compile_glob_def bindR_Inr_iff equality_ex_def
      split: operator.splits pyval.splits)

section \<open>A compiled rule reads as the conjunction of its conditions\<close>

lemma parse_conjuncts_reads:
  assumes "list_all2 reads_as ts es" "ts \<noteq> []" "list_all is_group es" "length (py_join '' && '' ts) \<le> n"
  shows "parse_conjuncts n (py_join '' && '' ts) = Some es"
  using assms
proof (induction ts arbitrary: es n)
  case Nil
  then show ?case by simp
next
  case (Cons t ts)
  then obtain e fs where e: "es = e # fs" "reads_as t e" "list_all2 reads_as ts fs" "is_group e"
    by (auto simp: list_all2_Cons1)
  have "t \<noteq> []" by (rule reads_as_nonempty [OF e(2)])
  then obtain m where n: "n = Suc m" using Cons.prems(4) by (cases n; cases ts) auto
  show ?case
  proof (cases "ts = []")
    case True
    have "parse_primary n t = Some (e, [])" using reads_asD(1) [OF e(2), of n "[]"] True Cons.prems(4) by simp
    with e n True show ?thesis by simp
  next
    case False
    then have l: "length (py_join '' && '' ts) \<le> m" "length t \<le> n"
      using Cons.prems(4) by (simp_all add: py_join_Cons n)
    have "parse_primary n (t @ '' && '' @ py_join '' && '' ts) = Some (e, '' && '' @ py_join '' && '' ts)"
      by (rule reads_asD(1) [OF e(2) l(2)]) simp
    then show ?thesis
      using e n Cons.IH [OF e(3) False _ l(1)] False Cons.prems(3) by (simp add: py_join_Cons)
  qed
qed

lemma rule_predicate_reads:
  assumes "compile_rule_predicate r = Inr t"
  shows "parse_predicate t = Some (map condition_ex (rule_conditions r)) \<and> rule_conditions r \<noteq> []"
proof -
  obtain ts where ts: "rule_conditions r \<noteq> []" "mapR compile_condition (rule_conditions r) = Inr ts"
    "t = py_join '' && '' ts"
    using assms by (auto simp: compile_rule_predicate_def bindR_Inr_iff split: if_splits)
  then have l: "list_all2 (\<lambda>c t. compile_condition c = Inr t) (rule_conditions r) ts"
    by (simp add: mapR_Inr_iff)
  have "list_all2 reads_as ts (map condition_ex (rule_conditions r))"
    using l by (auto simp: list_all2_conv_all_nth reads_condition)
  moreover have "list_all is_group (map condition_ex (rule_conditions r))"
    using l by (auto simp: list_all_length list_all2_conv_all_nth intro: condition_ex_group)
  moreover have "ts \<noteq> []" using ts mapR_length by fastforce
  ultimately show ?thesis
    using ts parse_conjuncts_reads by (simp add: parse_predicate_def)
qed

end
