(* ===== verification/Condition_Meaning.thy ===== *)
theory Condition_Meaning
  imports Complex_Main Prelude Rule_Model Encoder Py_Float Compiler Lexical Injection Decision Predicate_Syntax
    "HOL-Library.Sublist"
begin

text \<open>
  The meaning of the predicates that \<open>Predicate_Syntax\<close> reads, and of the rule model's operators. VRL's
  standard library is not part of the repository: a call is a parameter, and the locale
  \<open>vrl_library\<close> states what is documented of the functions the compiler uses. The specification
  \<open>matches_event\<close> says what each operator asks of an event without mentioning any generated
  text; every compiled condition evaluates to it, and a compiled chain decides with it.
\<close>

section \<open>Evaluation\<close>

type_synonym vrl_call = "string \<Rightarrow> (string \<times> vrl_value) list \<Rightarrow> vrl_value option"

text \<open>
  \<open>None\<close> is a runtime error, which \<open>??\<close> replaces by its right operand. A decimal literal is
  rounded to a double by \<open>rnd\<close>.
\<close>

fun vsem :: "vrl_call \<Rightarrow> (rat \<Rightarrow> rat) \<Rightarrow> venv \<Rightarrow> vexpr \<Rightarrow> vrl_value option" where
  "vsem call rnd env (EStr s) = Some (VStr s)"
| "vsem call rnd env (EInt i) = Some (VInt i)"
| "vsem call rnd env (EFlt q) = Some (VFloat (rnd q))"
| "vsem call rnd env (ERegex re) = Some (VRegex re)"
| "vsem call rnd env (EName x) =
     Some (if x = ''true'' then VBool True else if x = ''false'' then VBool False
           else if x = ''null'' then VNull else env x)"
| "vsem call rnd env (EList es) = map_option VList (those (map (vsem call rnd env) es))"
| "vsem call rnd env (ENot e) =
     (case vsem call rnd env e of Some (VBool b) \<Rightarrow> Some (VBool (\<not> b)) | _ \<Rightarrow> None)"
| "vsem call rnd env (ECall f labels es) =
     Option.bind (those (map (vsem call rnd env) es)) (\<lambda>vs. call f (zip labels vs))"
| "vsem call rnd env (EGroup e) = vsem call rnd env e"
| "vsem call rnd env (EOp op a b) =
     (if op = ''??'' then
        (case vsem call rnd env a of None \<Rightarrow> vsem call rnd env b | Some v \<Rightarrow> Some v)
      else Option.bind (vsem call rnd env a) (\<lambda>v.
             Option.bind (vsem call rnd env b) (\<lambda>w. call op [([], v), ([], w)])))"

section \<open>What the standard library promises\<close>

text \<open>The value at a path of an object, null when some segment is absent.\<close>

fun walk :: "vrl_value \<Rightarrow> string list \<Rightarrow> vrl_value" where
  "walk v [] = v"
| "walk (VObj kv) (s # ss) = (case map_of kv s of None \<Rightarrow> VNull | Some w \<Rightarrow> walk w ss)"
| "walk _ (s # ss) = VNull"

text \<open>An anchored glob against a text: a wildcard does not match a line break.\<close>

fun glob_match :: "bool \<Rightarrow> glob_token list \<Rightarrow> string \<Rightarrow> bool" where
  "glob_match ci [] s \<longleftrightarrow> s = []"
| "glob_match ci (AnySequence # ts) [] \<longleftrightarrow> glob_match ci ts []"
| "glob_match ci (AnySequence # ts) (x # xs) \<longleftrightarrow>
     glob_match ci ts (x # xs) \<or> (x \<noteq> NL \<and> glob_match ci (AnySequence # ts) xs)"
| "glob_match ci (AnyChar # ts) [] \<longleftrightarrow> False"
| "glob_match ci (AnyChar # ts) (x # xs) \<longleftrightarrow> x \<noteq> NL \<and> glob_match ci ts xs"
| "glob_match ci (Literal c # ts) [] \<longleftrightarrow> False"
| "glob_match ci (Literal c # ts) (x # xs) \<longleftrightarrow>
     (x = c \<or> ci \<and> lower_char x = lower_char c) \<and> glob_match ci ts xs"

definition fold_case :: "bool \<Rightarrow> string \<Rightarrow> string" where
  "fold_case cs s = (if cs then s else py_lower s)"

fun substring_test :: "operator \<Rightarrow> string \<Rightarrow> string \<Rightarrow> bool" where
  "substring_test CONTAINS s needle = sublist needle s"
| "substring_test STARTS_WITH s needle = prefix needle s"
| "substring_test _ s needle = suffix needle s"

fun compare_numbers :: "operator \<Rightarrow> rat \<Rightarrow> rat \<Rightarrow> bool" where
  "compare_numbers LT x y = (x < y)"
| "compare_numbers LTE x y = (x \<le> y)"
| "compare_numbers GT x y = (x > y)"
| "compare_numbers _ x y = (x \<ge> y)"

text \<open>The conversions and tests that stay parameters.\<close>

record vrl_std =
  std_text :: "vrl_value \<Rightarrow> string option"
  std_number :: "vrl_value \<Rightarrow> rat option"
  std_equal :: "vrl_value \<Rightarrow> vrl_value \<Rightarrow> bool"
  std_member :: "vrl_value \<Rightarrow> vrl_value list \<Rightarrow> bool"
  std_cidr :: "string \<Rightarrow> string \<Rightarrow> bool option"
  std_round :: "rat \<Rightarrow> rat"

abbreviation positional :: "vrl_value list \<Rightarrow> (string \<times> vrl_value) list" where
  "positional \<equiv> map (Pair [])"

locale vrl_library =
  fixes call :: vrl_call and S :: vrl_std
  assumes call_get: "call ''get'' (positional [VObj kv, VList (map VStr path)]) = Some (walk (VObj kv) path)"
    and call_to_string: "call ''to_string'' (positional [v]) = map_option VStr (std_text S v)"
    and call_to_float: "call ''to_float'' (positional [v]) = map_option VFloat (std_number S v)"
    and call_downcase: "call ''downcase'' (positional [VStr s]) = Some (VStr (py_lower s))"
    and call_equal: "call ''=='' (positional [v, w]) = Some (VBool (std_equal S v w))"
    and call_not_equal: "call ''!='' (positional [v, w]) = Some (VBool (\<not> std_equal S v w))"
    and call_includes: "call ''includes'' (positional [VList vs, v]) = Some (VBool (std_member S v vs))"
    and call_substring: "op \<in> {CONTAINS, STARTS_WITH, ENDS_WITH} \<Longrightarrow>
      call (substring_fn op) [([], VStr s), ([], VStr n), (''case_sensitive'', VBool cs)] =
        Some (VBool (substring_test op (fold_case cs s) (fold_case cs n)))"
    and call_match: "read_regex re = Some (ci, ts) \<Longrightarrow>
      call ''match'' (positional [VStr s, VRegex re]) = Some (VBool (glob_match ci ts s))"
    and call_cidr: "call ''ip_cidr_contains'' (positional [VStr net, VStr s]) = map_option VBool (std_cidr S net s)"
    and call_compare: "op \<in> NUMERIC_OPERATORS \<Longrightarrow>
      call (comparison_sign op) (positional [VFloat x, VFloat y]) = Some (VBool (compare_numbers op x y))"
    and call_compare_null: "op \<in> NUMERIC_OPERATORS \<Longrightarrow>
      call (comparison_sign op) (positional [VNull, VFloat y]) = None"
    and equal_strings: "std_equal S (VStr a) (VStr b) \<longleftrightarrow> a = b"
    and equal_null: "std_equal S v VNull \<longleftrightarrow> v = VNull"
    and member_strings: "std_member S (VStr a) (map VStr bs) \<longleftrightarrow> a \<in> set bs"

section \<open>What a condition asks of an event\<close>

fun pyval_value :: "(rat \<Rightarrow> rat) \<Rightarrow> pyval \<Rightarrow> vrl_value" where
  "pyval_value rnd PNone = VNull"
| "pyval_value rnd (PStr s) = VStr s"
| "pyval_value rnd (PBool b) = VBool b"
| "pyval_value rnd (PInt i) = VInt i"
| "pyval_value rnd (PFloat f) = VFloat (rnd (pyfloat_value f))"
| "pyval_value rnd (PList vs) = VList (map (pyval_value rnd) vs)"

definition field_of :: "(string \<times> vrl_value) list \<Rightarrow> condition \<Rightarrow> vrl_value" where
  "field_of kv c = walk (VObj kv) (py_split CHR ''.'' (cond_field c))"

definition text_of :: "vrl_std \<Rightarrow> vrl_value \<Rightarrow> string" where
  "text_of S v = (case std_text S v of Some s \<Rightarrow> s | None \<Rightarrow> [])"

definition equal_to :: "vrl_std \<Rightarrow> vrl_value \<Rightarrow> condition \<Rightarrow> bool" where
  "equal_to S v c =
     (case cond_value c of
        PStr s \<Rightarrow> fold_case (case_sensitive c) (text_of S v) = fold_case (case_sensitive c) s
      | w \<Rightarrow> std_equal S v (pyval_value (std_round S) w))"

definition one_of :: "vrl_std \<Rightarrow> vrl_value \<Rightarrow> condition \<Rightarrow> bool" where
  "one_of S v c =
     (let vs = the_list (cond_value c); cs = case_sensitive c in
      if list_all is_str vs
      then list_ex (\<lambda>w. fold_case cs (text_of S v) = fold_case cs (the_str w)) vs
      else std_member S v (map (pyval_value (std_round S)) vs))"

definition threshold :: "vrl_std \<Rightarrow> condition \<Rightarrow> rat" where
  "threshold S c = std_round S (pyfloat_value (the_float (cond_value c)))"

definition matches_event :: "vrl_std \<Rightarrow> (string \<times> vrl_value) list \<Rightarrow> condition \<Rightarrow> bool" where
  "matches_event S kv c =
     (let v = field_of kv c; cs = case_sensitive c; s = the_str (cond_value c) in
      case cond_op c of
        EXISTS \<Rightarrow> v \<noteq> VNull
      | NOT_EXISTS \<Rightarrow> v = VNull
      | EQ \<Rightarrow> equal_to S v c
      | NE \<Rightarrow> \<not> equal_to S v c
      | IN \<Rightarrow> one_of S v c
      | NOT_IN \<Rightarrow> \<not> one_of S v c
      | GLOB \<Rightarrow> glob_match (\<not> cs) (map glob_token s) (text_of S v)
      | CIDR \<Rightarrow> std_cidr S s (text_of S v) = Some True
      | op \<Rightarrow>
          if op \<in> NUMERIC_OPERATORS
          then (case std_number S v of None \<Rightarrow> False | Some x \<Rightarrow> compare_numbers op x (threshold S c))
          else substring_test op (fold_case cs (text_of S v)) (fold_case cs s))"

section \<open>A compiled condition means what it asks\<close>

lemma those_map_Some [simp]: "those (map (\<lambda>x. Some (f x)) xs) = Some (map f xs)"
  by (induction xs) simp_all

lemma those_eq_Some:
  "(\<And>x. x \<in> set xs \<Longrightarrow> f x = Some (g x)) \<Longrightarrow> those (map f xs) = Some (map g xs)"
  by (induction xs) simp_all

context vrl_library
begin

lemma vsem_lit: "vsem call (std_round S) env (lit v) = Some (pyval_value (std_round S) v)"
proof (induction v)
  case (PList vs)
  then have "those (map (vsem call (std_round S) env) (map lit vs)) = Some (map (pyval_value (std_round S)) vs)"
    using those_eq_Some [of vs "\<lambda>v. vsem call (std_round S) env (lit v)"] by (simp add: comp_def)
  then show ?case by simp
qed (simp_all add: bool_text_def)

lemma vsem_value:
  "env ''ev'' = VObj kv \<Longrightarrow>
     vsem call (std_round S) env (value_ex f) = Some (walk (VObj kv) (py_split CHR ''.'' f))"
  using call_get [of kv "py_split CHR ''.'' f"]
  by (simp add: value_ex_def comp_def)

lemma vsem_text:
  "env ''ev'' = VObj kv \<Longrightarrow>
     vsem call (std_round S) env (text_ex f) = Some (VStr (text_of S (walk (VObj kv) (py_split CHR ''.'' f))))"
  using call_to_string [of "walk (VObj kv) (py_split CHR ''.'' f)"]
  by (simp add: text_ex_def vsem_value text_of_def split: option.splits)

lemma vsem_operand:
  "env ''ev'' = VObj kv \<Longrightarrow>
     vsem call (std_round S) env (operand_ex f cs) =
       Some (VStr (fold_case cs (text_of S (walk (VObj kv) (py_split CHR ''.'' f)))))"
  using call_downcase by (simp add: operand_ex_def vsem_text fold_case_def)

lemma vsem_number:
  "env ''ev'' = VObj kv \<Longrightarrow>
     vsem call (std_round S) env (number_ex f) =
       Some (case std_number S (walk (VObj kv) (py_split CHR ''.'' f)) of None \<Rightarrow> VNull | Some x \<Rightarrow> VFloat x)"
  using call_to_float [of "walk (VObj kv) (py_split CHR ''.'' f)"]
  by (simp add: number_ex_def vsem_value split: option.splits)

lemma vsem_equality:
  assumes "env ''ev'' = VObj kv"
  shows "vsem call (std_round S) env (equality_ex c) =
    Some (VBool (if cond_op c = EQ then equal_to S (field_of kv c) c else \<not> equal_to S (field_of kv c) c))"
proof (cases "is_str (cond_value c)")
  case True
  then obtain s where "cond_value c = PStr s" by (auto simp: is_str_iff)
  with assms show ?thesis
    using call_equal call_not_equal equal_strings
    by (simp add: equality_ex_def equal_to_def vsem_operand field_of_def fold_case_def)
next
  case False
  then have "folded (case_sensitive c) (cond_value c) = cond_value c"
    "equal_to S v c \<longleftrightarrow> std_equal S v (pyval_value (std_round S) (cond_value c))" for v
    by (cases "cond_value c"; simp add: equal_to_def)+
  with False assms show ?thesis
    using call_equal call_not_equal
    by (simp add: equality_ex_def vsem_value vsem_lit field_of_def)
qed

lemma vsem_includes:
  assumes "env ''ev'' = VObj kv"
  shows "vsem call (std_round S) env (includes_ex c) = Some (VBool (one_of S (field_of kv c) c))"
proof (cases "list_all is_str (the_list (cond_value c))")
  case True
  let ?vs = "the_list (cond_value c)"
  have v: "vsem call (std_round S) env (lit (folded (case_sensitive c) v)) =
      Some (VStr (fold_case (case_sensitive c) (the_str v)))" if "v \<in> set ?vs" for v
    using that True by (auto simp: list_all_iff is_str_iff fold_case_def)
  have "those (map (\<lambda>v. vsem call (std_round S) env (lit (folded (case_sensitive c) v))) ?vs) =
      Some (map VStr (map (\<lambda>v. fold_case (case_sensitive c) (the_str v)) ?vs))"
    using those_eq_Some [OF v] by (simp add: comp_def)
  with True assms show ?thesis
    using call_includes [of "map VStr (map (\<lambda>v. fold_case (case_sensitive c) (the_str v)) ?vs)"]
      member_strings [of _ "map (\<lambda>v. fold_case (case_sensitive c) (the_str v)) ?vs"]
    by (simp add: includes_ex_def Let_def vsem_operand comp_def one_of_def field_of_def list_ex_iff image_iff)
next
  case False
  let ?vs = "the_list (cond_value c)"
  have "vsem call (std_round S) env (lit (PList ?vs)) = Some (VList (map (pyval_value (std_round S)) ?vs))"
    using vsem_lit [of env "PList ?vs"] by simp
  with False assms show ?thesis
    using call_includes by (simp add: includes_ex_def Let_def vsem_value one_of_def field_of_def del: lit.simps)
qed

lemma vsem_substring:
  assumes "env ''ev'' = VObj kv" "op \<in> {CONTAINS, STARTS_WITH, ENDS_WITH}"
  shows "vsem call (std_round S) env (EGroup (ECall (substring_fn op) [[], [], ''case_sensitive'']
      [text_ex (cond_field c), EStr n, EName (bool_text cs)])) =
    Some (VBool (substring_test op (fold_case cs (text_of S (field_of kv c))) (fold_case cs n)))"
  using assms call_substring [OF assms(2)] by (simp add: vsem_text bool_text_def field_of_def)

lemma vsem_glob:
  assumes "env ''ev'' = VObj kv" "glob_to_regex p ci = Inr re"
  shows "vsem call (std_round S) env (EGroup (ECall ''match'' [[], []] [text_ex (cond_field c), ERegex re])) =
    Some (VBool (glob_match ci (map glob_token p) (text_of S (field_of kv c))))"
  using assms(1) call_match [OF read_glob_to_regex [OF assms(2)]] by (simp add: vsem_text field_of_def)

lemma vsem_cidr:
  assumes "env ''ev'' = VObj kv"
  shows "vsem call (std_round S) env (EGroup (EOp ''??'' (ECall ''ip_cidr_contains'' [[], []]
      [EStr net, text_ex (cond_field c)]) (EName ''false''))) =
    Some (VBool (std_cidr S net (text_of S (field_of kv c)) = Some True))"
  using assms call_cidr by (auto simp add: vsem_text field_of_def split: option.splits)

lemma vsem_comparison:
  assumes "env ''ev'' = VObj kv" "op \<in> NUMERIC_OPERATORS"
  shows "vsem call (std_round S) env (EGroup (EOp ''??'' (EGroup (EOp (comparison_sign op) (number_ex (cond_field c))
      (EFlt q))) (EName ''false''))) =
    Some (VBool (case std_number S (field_of kv c) of None \<Rightarrow> False | Some x \<Rightarrow> compare_numbers op x (std_round S q)))"
proof -
  have "comparison_sign op \<noteq> ''??''" by (cases op) simp_all
  then show ?thesis
    using assms call_compare [OF assms(2)] call_compare_null [OF assms(2)]
    by (simp add: vsem_number field_of_def split: option.splits)
qed

lemma condition_ex_means:
  assumes "compile_condition c = Inr t" "env ''ev'' = VObj kv"
  shows "vsem call (std_round S) env (condition_ex c) = Some (VBool (matches_event S kv c))"
proof -
  have numeric: ?thesis if "cond_op c \<in> NUMERIC_OPERATORS"
    using vsem_comparison [OF _ that, where env = env and kv = kv and c = c, OF assms(2)] that
    by (cases "cond_op c")
      (simp_all add: condition_ex.simps matches_event_def Let_def NUMERIC_OPERATORS_def threshold_def
        del: vsem.simps cong: option.case_cong)
  have substring: ?thesis if "cond_op c \<in> {CONTAINS, STARTS_WITH, ENDS_WITH}"
    using vsem_substring [OF _ that, where env = env and kv = kv and c = c, OF assms(2)] that
    by (cases "cond_op c")
      (simp_all add: condition_ex.simps matches_event_def Let_def NUMERIC_OPERATORS_def del: vsem.simps)
  show ?thesis
  proof (cases "cond_op c")
    case GLOB
    with assms(1) obtain re where "glob_to_regex (the_str (cond_value c)) (\<not> case_sensitive c) = Inr re"
      using reads_glob [of c t] by (auto simp: compile_condition_def)
    with GLOB show ?thesis
      using vsem_glob [where env = env and kv = kv, OF assms(2)]
      by (simp add: condition_ex.simps matches_event_def Let_def del: vsem.simps)
  next
    case CIDR
    then show ?thesis
      using vsem_cidr [where env = env and kv = kv, OF assms(2)]
      by (simp add: condition_ex.simps matches_event_def Let_def del: vsem.simps)
  qed (use assms(2) call_equal [of _ VNull] call_not_equal [of _ VNull] equal_null numeric substring in
      \<open>simp_all add: condition_ex.simps matches_event_def Let_def vsem_equality vsem_includes vsem_value
         field_of_def NUMERIC_OPERATORS_def\<close>)
qed

end

section \<open>A rule, and the decision of a chain\<close>

definition rule_matches :: "vrl_std \<Rightarrow> (string \<times> vrl_value) list \<Rightarrow> rule \<Rightarrow> bool" where
  "rule_matches S kv r \<longleftrightarrow> list_all (matches_event S kv) (rule_conditions r)"

text \<open>The conjunction of groups that all evaluate to booleans.\<close>

lemma emit_branches_compiled:
  "emit_branches rs first = Inr bs \<Longrightarrow> r \<in> set rs \<Longrightarrow> \<exists>t. compile_rule_predicate r = Inr t"
proof (induction rs arbitrary: first bs)
  case (Cons q rs)
  then show ?case by (fastforce simp: bindR_Inr_iff emit_rule_branch_def Let_def)
qed simp

locale vrl_predicates = vrl_statements + vrl_library +
  assumes eval_predicate: "parse_predicate t = Some es \<Longrightarrow>
    those (map (vsem call (std_round S) env) es) = Some (map VBool bs) \<Longrightarrow>
    eval env t = VBool (list_all (\<lambda>b. b) bs)"
begin

lemma rule_holds_matches:
  assumes "compile_rule_predicate r = Inr t" "env ''ev'' = VObj kv"
  shows "rule_holds eval env r \<longleftrightarrow> rule_matches S kv r"
proof -
  have p: "parse_predicate t = Some (map condition_ex (rule_conditions r))"
    using rule_predicate_reads [OF assms(1)] by blast
  obtain ts where ts: "mapR compile_condition (rule_conditions r) = Inr ts"
    using assms(1) by (auto simp: compile_rule_predicate_def bindR_Inr_iff split: if_splits)
  have c: "\<exists>u. compile_condition c = Inr u" if "c \<in> set (rule_conditions r)" for c
    using ts that by (auto simp: mapR_Inr_iff list_all2_conv_all_nth in_set_conv_nth)
  have "those (map (\<lambda>c. vsem call (std_round S) env (condition_ex c)) (rule_conditions r)) =
      Some (map (\<lambda>c. VBool (matches_event S kv c)) (rule_conditions r))"
    by (rule those_eq_Some) (use c condition_ex_means [where env = env and kv = kv, OF _ assms(2)] in blast)
  then have "those (map (vsem call (std_round S) env) (map condition_ex (rule_conditions r))) =
      Some (map VBool (map (matches_event S kv) (rule_conditions r)))"
    by (simp add: comp_def)
  from eval_predicate [OF p this] show ?thesis
    by (simp add: rule_holds_compiled [OF assms(1)] rule_matches_def list.pred_map comp_def)
qed

lemma find_matches:
  assumes "emit_branches (active ch) True = Inr bs" "env ''ev'' = VObj kv"
  shows "find (rule_holds eval env) (active ch) = find (rule_matches S kv) (active ch)"
  using emit_branches_compiled [OF assms(1)] rule_holds_matches [where env = env and kv = kv, OF _ assms(2)]
  by (intro find_cong) auto

lemma chain_decides:
  assumes "chain_lines ch v = Inr ls" "env ''parse_ok'' = VBool ok" "env ''ev'' = VObj kv"
  shows "\<exists>sec tail. ls = sec @ METADATA @ tail \<and>
    outcome (run (reset_lines @ sec) env) = verdict_values (decide ch ok (rule_matches S kv))"
proof -
  obtain bs where bs: "emit_branches (active ch) True = Inr bs"
    using assms(1) by (auto simp: chain_lines_def Let_def bindR_Inr_iff)
  have "find (rule_holds eval (reset_env env)) (active ch) = find (rule_matches S kv) (active ch)"
    by (rule find_matches [OF bs]) (simp add: reset_env_def assms(3))
  then have "decide ch ok (rule_holds eval (reset_env env)) = decide ch ok (rule_matches S kv)"
    by (simp add: decide_def)
  with section_decides [where env = env and ok = ok, OF vrl_statements_axioms assms(1,2)] show ?thesis by simp
qed

end

section \<open>A library and a semantics that keep the promises\<close>

definition plain_strings :: "vrl_value list \<Rightarrow> string list option" where
  "plain_strings vs = those (map (\<lambda>v. case v of VStr s \<Rightarrow> Some s | _ \<Rightarrow> None) vs)"

definition std_compare :: "operator \<Rightarrow> vrl_value list \<Rightarrow> vrl_value option" where
  "std_compare op vs =
     (case vs of [VFloat x, VFloat y] \<Rightarrow> Some (VBool (compare_numbers op x y)) | _ \<Rightarrow> None)"

definition std_substring :: "operator \<Rightarrow> vrl_value list \<Rightarrow> vrl_value option" where
  "std_substring op vs =
     (case vs of [VStr s, VStr n, VBool cs] \<Rightarrow> Some (VBool (substring_test op (fold_case cs s) (fold_case cs n)))
      | _ \<Rightarrow> None)"

definition std_call :: "vrl_std \<Rightarrow> vrl_call" where
  "std_call S f args =
     (let vs = map snd args in
      if f = ''get'' then
        (case vs of [VObj kv, VList ps] \<Rightarrow> map_option (walk (VObj kv)) (plain_strings ps) | _ \<Rightarrow> None)
      else if f = ''to_string'' then (case vs of [v] \<Rightarrow> map_option VStr (std_text S v) | _ \<Rightarrow> None)
      else if f = ''to_float'' then (case vs of [v] \<Rightarrow> map_option VFloat (std_number S v) | _ \<Rightarrow> None)
      else if f = ''downcase'' then (case vs of [VStr s] \<Rightarrow> Some (VStr (py_lower s)) | _ \<Rightarrow> None)
      else if f = ''=='' then (case vs of [v, w] \<Rightarrow> Some (VBool (std_equal S v w)) | _ \<Rightarrow> None)
      else if f = ''!='' then (case vs of [v, w] \<Rightarrow> Some (VBool (\<not> std_equal S v w)) | _ \<Rightarrow> None)
      else if f = ''includes'' then (case vs of [VList ws, v] \<Rightarrow> Some (VBool (std_member S v ws)) | _ \<Rightarrow> None)
      else if f = ''contains'' then std_substring CONTAINS vs
      else if f = ''starts_with'' then std_substring STARTS_WITH vs
      else if f = ''ends_with'' then std_substring ENDS_WITH vs
      else if f = ''match'' then
        (case vs of [VStr s, VRegex re] \<Rightarrow> map_option (\<lambda>(ci, ts). VBool (glob_match ci ts s)) (read_regex re) | _ \<Rightarrow> None)
      else if f = ''ip_cidr_contains'' then
        (case vs of [VStr net, VStr s] \<Rightarrow> map_option VBool (std_cidr S net s) | _ \<Rightarrow> None)
      else if f = ''<'' then std_compare LT vs
      else if f = ''<='' then std_compare LTE vs
      else if f = ''>'' then std_compare GT vs
      else if f = ''>='' then std_compare GTE vs
      else None)"

text \<open>Conversions as documented for the values a parsed event holds.\<close>

definition plain_std :: "(rat \<Rightarrow> string) \<Rightarrow> (string \<Rightarrow> string \<Rightarrow> bool option) \<Rightarrow> vrl_std" where
  "plain_std ftext cidr =
     \<lparr>std_text = (\<lambda>v. case v of VStr s \<Rightarrow> Some s | VInt i \<Rightarrow> Some (int_str i) | VBool b \<Rightarrow> Some (bool_text b)
          | VNull \<Rightarrow> Some [] | VFloat q \<Rightarrow> Some (ftext q) | _ \<Rightarrow> None),
      std_number = (\<lambda>v. case v of VFloat q \<Rightarrow> Some q | VInt i \<Rightarrow> Some (of_int i)
          | VBool b \<Rightarrow> Some (if b then 1 else 0) | VNull \<Rightarrow> Some 0
          | VStr s \<Rightarrow> if s \<noteq> [] \<and> list_all number_char s then Some (decimal_value (read_decimal s)) else None
          | _ \<Rightarrow> None),
      std_equal = (\<lambda>v w. case (v, w) of (VInt i, VFloat q) \<Rightarrow> of_int i = q | (VFloat q, VInt i) \<Rightarrow> q = of_int i
          | _ \<Rightarrow> v = w),
      std_member = (\<lambda>v vs. v \<in> set vs), std_cidr = cidr, std_round = (\<lambda>q. q)\<rparr>"

lemma plain_strings_VStr [simp]: "plain_strings (map VStr ss) = Some ss"
  by (induction ss) (simp_all add: plain_strings_def)

interpretation plain_lib: vrl_library "std_call (plain_std ft cd)" "plain_std ft cd" for ft cd
proof unfold_locales
  fix op s n cs assume "op \<in> {CONTAINS, STARTS_WITH, ENDS_WITH}"
  then show "std_call (plain_std ft cd) (substring_fn op) [([], VStr s), ([], VStr n), (''case_sensitive'', VBool cs)] =
      Some (VBool (substring_test op (fold_case cs s) (fold_case cs n)))"
    by (auto simp: std_call_def std_substring_def)
next
  fix op x y assume "op \<in> NUMERIC_OPERATORS"
  then show "std_call (plain_std ft cd) (comparison_sign op) (positional [VFloat x, VFloat y]) =
      Some (VBool (compare_numbers op x y))"
    by (auto simp: std_call_def std_compare_def NUMERIC_OPERATORS_def)
next
  fix op y assume "op \<in> NUMERIC_OPERATORS"
  then show "std_call (plain_std ft cd) (comparison_sign op) (positional [VNull, VFloat y]) = None"
    by (auto simp: std_call_def std_compare_def NUMERIC_OPERATORS_def)
next
  show "std_equal (plain_std ft cd) v VNull \<longleftrightarrow> v = VNull" for v
    by (cases v) (simp_all add: plain_std_def)
qed (auto simp: std_call_def plain_std_def)

text \<open>Conjunctions by the parser, in the line semantics.\<close>

definition predicate_eval :: "vrl_call \<Rightarrow> vrl_std \<Rightarrow> venv \<Rightarrow> string \<Rightarrow> vrl_value" where
  "predicate_eval call S env t =
     (case Option.bind (parse_predicate t) (\<lambda>es. those (map (vsem call (std_round S) env) es)) of
        Some vs \<Rightarrow> VBool (list_all (\<lambda>v. v = VBool True) vs)
      | None \<Rightarrow> VNull)"

lemma parse_primary_group:
  assumes "parse_primary (Suc n) (c # cs) = Some (e, r)" "is_group e"
  shows "c = CHR ''(''"
proof (rule ccontr)
  assume no: "c \<noteq> CHR ''(''"
  consider "c = DQ" | "c = CHR ''[''" | "c = CHR ''!''" | "c = CHR ''r''" "cs \<noteq> []" "hd cs = SQ"
    | "c \<notin> {DQ, CHR ''['', CHR ''!''}" "\<not> (c = CHR ''r'' \<and> cs \<noteq> [] \<and> hd cs = SQ)"
        "is_ascii_digit c \<or> c = CHR ''-''"
    | "c \<notin> {DQ, CHR ''['', CHR ''!''}" "\<not> (c = CHR ''r'' \<and> cs \<noteq> [] \<and> hd cs = SQ)"
        "\<not> (is_ascii_digit c \<or> c = CHR ''-'')"
    by blast
  then show False
  proof cases
    case 5
    with no have "parse_primary (Suc n) (c # cs) =
        Some (number_expr_of (takeWhile number_char (c # cs)), dropWhile number_char (c # cs))"
      by (simp only: parse_primary.simps(3) insert_iff empty_iff de_Morgan_disj simp_thms if_False if_True)
    with assms have "is_group (number_expr_of (takeWhile number_char (c # cs)))" by auto
    then show False by (simp only: number_expr_of_def is_group.simps split: if_splits)
  next
    case 6
    with no have "parse_primary (Suc n) (c # cs) =
      (if var_char c then
        (let x = takeWhile var_char (c # cs); r = dropWhile var_char (c # cs) in
         if r \<noteq> [] \<and> hd r = CHR ''('' then
           map_option (apfst (\<lambda>as. ECall x (map fst as) (map snd as)))
             (parse_args (parse_primary n) n CHR '')'' (tl r))
         else Some (EName x, r))
      else None)"
      by (simp only: parse_primary.simps(3) insert_iff empty_iff de_Morgan_disj simp_thms if_False)
    with assms show False by (auto simp: Let_def split: if_splits)
  qed (use assms in \<open>auto simp: parse_primary.simps(3) Let_def split: if_splits\<close>)
qed

lemma parse_predicate_start:
  assumes "parse_predicate t = Some es"
  obtains u where "t = CHR ''('' # u"
proof -
  obtain n where n: "length t = Suc n" "t \<noteq> []"
    using assms by (cases t) (auto simp: parse_predicate_def)
  then obtain e r where e: "parse_primary (Suc n) t = Some (e, r)" "is_group e"
    using assms by (auto simp: parse_predicate_def bind_eq_Some_conv split: if_splits)
  obtain c cs where t: "t = c # cs" using n by (cases t) auto
  with parse_primary_group e have "c = CHR ''(''" by blast
  with t that show thesis by blast
qed

lemma line_eval_group:
  assumes "t = CHR ''('' # u"
  shows "line_eval other env t = other env t"
proof -
  have "\<not> is_var t" "takeWhile var_char t = []" "\<not> is_var []"
    by (simp_all add: assms is_var_def var_char_def)
  then show ?thesis
    by (simp add: line_eval_def Let_def assms read_string_def is_ascii_digit_def)
qed

interpretation plain_vrl: vrl_predicates "line_eval (predicate_eval (std_call (plain_std ft cd)) (plain_std ft cd))"
  "line_run (line_eval (predicate_eval (std_call (plain_std ft cd)) (plain_std ft cd)))"
  "std_call (plain_std ft cd)" "plain_std ft cd" for ft cd
proof unfold_locales
  fix t es env bs
  let ?ev = "predicate_eval (std_call (plain_std ft cd)) (plain_std ft cd)"
  assume p: "parse_predicate t = Some es"
    "those (map (vsem (std_call (plain_std ft cd)) (std_round (plain_std ft cd)) env) es) = Some (map VBool bs)"
  obtain u where "t = CHR ''('' # u" by (rule parse_predicate_start [OF p(1)])
  then have "line_eval ?ev env t = ?ev env t" by (rule line_eval_group)
  also have "\<dots> = VBool (list_all (\<lambda>b. b) bs)"
    using p by (simp add: predicate_eval_def list.pred_map comp_def)
  finally show "line_eval ?ev env t = VBool (list_all (\<lambda>b. b) bs)" .
qed

section \<open>Properties\<close>

lemma condition_parses:
  assumes "compile_condition c = Inr t"
  shows "parse_predicate t = Some [condition_ex c]"
  using parse_conjuncts_reads [of "[t]" "[condition_ex c]" "length t"] reads_condition [OF assms]
    condition_ex_group [OF assms]
  by (simp add: parse_predicate_def)

lemma condition_evaluates:
  assumes "vrl_library call S" "compile_condition c = Inr t" "env ''ev'' = VObj kv"
  shows "\<exists>e. parse_predicate t = Some [e] \<and>
    vsem call (std_round S) env e = Some (VBool (matches_event S kv c))"
  using condition_parses [OF assms(2)]
    vrl_library.condition_ex_means [where env = env and kv = kv, OF assms] by blast

text \<open>An event and conditions for the concrete instances.\<close>

definition sample_event :: "(string \<times> vrl_value) list" where
  "sample_event = [(''filterhostname'', VStr ''fw-01''), (''severity'', VStr ''9''),
     (''syslog'', VObj [(''appname'', VStr ''sshd'')])]"

definition event_env :: venv where
  "event_env = (\<lambda>x. VNull)(''parse_ok'' := VBool True, ''ev'' := VObj sample_event)"

definition sample_std :: vrl_std where
  "sample_std = plain_std (\<lambda>q. []) (\<lambda>net s. None)"

definition sample_condition :: "string \<Rightarrow> operator \<Rightarrow> pyval \<Rightarrow> condition" where
  "sample_condition f op v = \<lparr>cond_field = f, cond_op = op, cond_value = v, case_sensitive = False\<rparr>"

lemma sample_library: "vrl_library (std_call sample_std) sample_std"
  unfolding sample_std_def by (rule plain_lib.vrl_library_axioms)

lemma event_env_ev: "event_env ''ev'' = VObj sample_event" "event_env ''parse_ok'' = VBool True"
  by (simp_all add: event_env_def)



text \<open>In every semantics of VRL that keeps the documented meaning of statements, of the library
  functions and of conjunction, a compiled chain leaves the verdict of the specification read on
  the event itself: a parse failure is forwarded, otherwise the first active rule all of whose
  conditions match the event decides. No generated text is left in the statement.\<close>

theorem chain_decides_on_event:
  assumes "vrl_predicates eval run call S" "chain_lines ch v = Inr ls"
    and "env ''parse_ok'' = VBool ok" "env ''ev'' = VObj kv"
  shows "\<exists>sec tail. ls = sec @ METADATA @ tail \<and>
    outcome (run (reset_lines @ sec) env) = verdict_values (decide ch ok (rule_matches S kv))"
  by (rule vrl_predicates.chain_decides [where env = env, OF assms])

theorem chain_decides_on_event_witness:
  "\<exists>ls sec tail. chain_lines sample_chain 7 = Inr ls \<and> ls = sec @ METADATA @ tail \<and>
     outcome (line_run (line_eval (predicate_eval (std_call sample_std) sample_std))
         (reset_lines @ sec) event_env) =
       [VStr ''drop'', VStr ''rule'', VStr ''noisy-a'', VInt 3, VBool False]"
proof -
  obtain ls where ls: "chain_lines sample_chain 7 = Inr ls" using sample_chain_lines by blast
  have p: "vrl_predicates (line_eval (predicate_eval (std_call sample_std) sample_std))
      (line_run (line_eval (predicate_eval (std_call sample_std) sample_std))) (std_call sample_std) sample_std"
    unfolding sample_std_def by (rule plain_vrl.vrl_predicates_axioms)
  have "verdict_values (decide sample_chain True (rule_matches sample_std sample_event)) =
      [VStr ''drop'', VStr ''rule'', VStr ''noisy-a'', VInt 3, VBool False]"
    by code_simp
  then show ?thesis
    using chain_decides_on_event [where env = event_env, OF p ls event_env_ev(2,1)] ls by auto
qed





end
