(* ===== verification/Program_Run.thy ===== *)
theory Program_Run
  imports Complex_Main Prelude Rule_Model Encoder Compiler Lexical Injection Decision Predicate_Syntax Condition_Meaning
begin

text \<open>
  The whole generated program on a message: the constant prelude that parses it, the rule branches,
  the enforcement section, the metadata and the record under \<open>.ss\<close>. The two parsers and the key
  folding of VRL stay parameters; the locale states the documented meaning of the statement and
  expression forms of the prelude. The specification \<open>read_event\<close> says which fields a rule sees.
\<close>

section \<open>What a rule sees of a message\<close>

fun find_text :: "string \<Rightarrow> string \<Rightarrow> nat option" where
  "find_text needle [] = (if needle = [] then Some 0 else None)"
| "find_text needle (c # cs) =
     (if py_startswith needle (c # cs) then Some 0 else map_option Suc (find_text needle cs))"

type_synonym vobj = "(string \<times> vrl_value) list"

record parsers =
  ps_syslog :: "string \<Rightarrow> vobj option"
  ps_cef :: "string \<Rightarrow> vobj option"
  ps_lower :: "vobj \<Rightarrow> vobj"
  ps_now :: string

record read_result =
  re_fields :: vobj
  re_syslog :: bool
  re_cef :: bool

text \<open>
  The message of a syslog frame is read as CEF first; the raw text from the CEF marker on is the
  fallback. CEF fields stay at the top, syslog fields go under one key, both with folded names.
\<close>

definition cef_body :: "vrl_std \<Rightarrow> parsers \<Rightarrow> string \<Rightarrow> string" where
  "cef_body S P raw =
     (case ps_syslog P raw of
        None \<Rightarrow> raw
      | Some kv \<Rightarrow> (case std_text S (walk (VObj kv) [''message'']) of Some t \<Rightarrow> t | None \<Rightarrow> raw))"

definition cef_fields_of :: "vrl_std \<Rightarrow> parsers \<Rightarrow> string \<Rightarrow> vobj option" where
  "cef_fields_of S P raw =
     (case ps_cef P (cef_body S P raw) of
        Some kv \<Rightarrow> Some kv
      | None \<Rightarrow> (case find_text ''CEF:'' raw of None \<Rightarrow> None | Some i \<Rightarrow> ps_cef P (drop i raw)))"

definition set_key :: "string \<Rightarrow> vrl_value \<Rightarrow> vobj \<Rightarrow> vobj" where
  "set_key k v kv = (k, v) # filter (\<lambda>(k', _). k' \<noteq> k) kv"

definition read_event :: "vrl_std \<Rightarrow> parsers \<Rightarrow> string \<Rightarrow> read_result" where
  "read_event S P raw =
     (let cef = cef_fields_of S P raw;
          fields = ps_lower P (case cef of None \<Rightarrow> [] | Some kv \<Rightarrow> kv)
      in \<lparr>re_fields = (case ps_syslog P raw of
             None \<Rightarrow> fields
           | Some kv \<Rightarrow> set_key ''syslog'' (VObj (ps_lower P kv)) fields),
          re_syslog = (ps_syslog P raw \<noteq> None), re_cef = (cef \<noteq> None)\<rparr>)"

definition readable :: "read_result \<Rightarrow> bool" where
  "readable e \<longleftrightarrow> re_syslog e \<or> re_cef e"

section \<open>The decision record\<close>

text \<open>A summary column: the CEF field, or its syslog counterpart when that is empty.\<close>

definition summary_text :: "vrl_std \<Rightarrow> vobj \<Rightarrow> string \<Rightarrow> string \<Rightarrow> string" where
  "summary_text S kv cef_path syslog_path =
     (let t = text_of S (walk (VObj kv) (py_split CHR ''.'' cef_path)) in
      if t = [] then text_of S (walk (VObj kv) (py_split CHR ''.'' syslog_path)) else t)"

definition ss_record :: "vrl_std \<Rightarrow> parsers \<Rightarrow> int \<Rightarrow> read_result \<Rightarrow> verdict \<Rightarrow> vobj" where
  "ss_record S P version e v =
     [(''chain_version'', VInt version),
      (''decision'', VStr (decision_value (v_decision v))),
      (''reason'', VStr (reason_value (v_reason v))),
      (''rule_id'', case v_rule v of None \<Rightarrow> VNull | Some r \<Rightarrow> VStr (rule_id r)),
      (''rule_version'', case v_rule v of None \<Rightarrow> VNull | Some r \<Rightarrow> VInt (rule_version r)),
      (''retain'', VBool (case v_rule v of None \<Rightarrow> False | Some r \<Rightarrow> rule_retain r)),
      (''parse_ok'', VBool (readable e)),
      (''cef_ok'', VBool (re_cef e)),
      (''syslog_ok'', VBool (re_syslog e)),
      (''ts'', VStr (ps_now P)),
      (''event_id'', VStr (summary_text S (re_fields e) ''eventid'' ''syslog.msgid'')),
      (''severity'', VStr (summary_text S (re_fields e) ''severity'' ''syslog.severity'')),
      (''host'', VStr (summary_text S (re_fields e) ''filterhostname'' ''syslog.hostname'')),
      (''name'', VStr (summary_text S (re_fields e) ''name'' ''syslog.appname''))]"

section \<open>The language, as far as the rest of the program relies on it\<close>

definition indented :: "string \<Rightarrow> bool" where
  "indented l \<longleftrightarrow> take 4 l = INDENT"

text \<open>A line of an object: a quoted key and an expression.\<close>

definition entry_line :: "string \<times> string \<Rightarrow> string" where
  "entry_line e = INDENT @ [DQ] @ fst e @ [DQ] @ '': '' @ snd e @ '',''"

definition summary_expr :: "string \<Rightarrow> string" where
  \<open>summary_expr path = ''to_string(get(ev, '' @ path @ '') ?? "") ?? ""''\<close>

locale vrl_program = vrl_predicates +
  fixes attempt :: "venv \<Rightarrow> string \<Rightarrow> vrl_value option" and message_of :: "venv \<Rightarrow> string \<Rightarrow> string"
    and P :: parsers
  assumes run_block: "list_all indented body \<Longrightarrow> eval env p = VBool True \<Longrightarrow>
      run (if_line p # body @ ''}'' # rest) env = run rest (run (map dedent body) env)"
    and run_skip: "list_all indented body \<Longrightarrow> eval env p \<noteq> VBool True \<Longrightarrow>
      run (if_line p # body @ ''}'' # rest) env = run rest env"
    and run_attempt: "is_var x \<Longrightarrow> is_var y \<Longrightarrow> run ((x @ '', '' @ y @ '' = '' @ e) # ls) env =
      run ls (case attempt env e of
          Some v \<Rightarrow> env(x := v, y := VNull) | None \<Rightarrow> env(x := VObj [], y := VStr (message_of env e)))"
    and run_one_line: "is_var x \<Longrightarrow>
      run ((''if '' @ x @ '' == '' @ [DQ, DQ] @ '' { '' @ x @ '' = '' @ e @ '' }'') # ls) env =
        run ls (if env x = VStr [] then env(x := eval env e) else env)"
    and run_record: "\<forall>e \<in> set entries. DQ \<notin> set (fst e) \<Longrightarrow>
      run (''.ss = {'' # map entry_line entries @ [''}'']) env =
        env(''.ss'' := VObj (map (\<lambda>e. (fst e, eval env (snd e))) entries))"
    and attempt_syslog: "env ''raw'' = VStr s \<Longrightarrow> attempt env ''parse_syslog(raw)'' = map_option VObj (ps_syslog P s)"
    and attempt_cef: "env ''body'' = VStr s \<Longrightarrow> attempt env ''parse_cef(body)'' = map_option VObj (ps_cef P s)"
    and attempt_slice: "env ''raw'' = VStr s \<Longrightarrow> env ''marker'' = VInt (int i) \<Longrightarrow> i \<le> length s \<Longrightarrow>
      attempt env ''parse_cef(slice!(raw, marker))'' = map_option VObj (ps_cef P (drop i s))"
    and eval_message: "env ''.message'' = VStr s \<Longrightarrow> eval env (''to_string(.message) ?? '' @ [DQ, DQ]) = VStr s"
    and eval_empty_object: "eval env ''{}'' = VObj []"
    and eval_not_null: "is_var x \<Longrightarrow> eval env (x @ '' != null'') = VBool (env x \<noteq> VNull)"
    and eval_body: "env ''raw'' = VStr s \<Longrightarrow> env ''parsed'' = VObj kv \<Longrightarrow>
      eval env (''to_string(get(parsed, ['' @ [DQ] @ ''message'' @ [DQ] @ '']) ?? raw) ?? raw'') =
        VStr (case std_text S (walk (VObj kv) [''message'']) of Some t \<Rightarrow> t | None \<Rightarrow> s)"
    and eval_find: "env ''raw'' = VStr s \<Longrightarrow> eval env (''find(raw, '' @ [DQ] @ ''CEF:'' @ [DQ] @ '')'') =
      (case find_text ''CEF:'' s of None \<Rightarrow> VNull | Some i \<Rightarrow> VInt (int i))"
    and eval_marker_null: "env ''marker'' = VNull \<Longrightarrow> eval env ''marker != null && marker >= 0'' = VBool False"
    and eval_marker_int: "env ''marker'' = VInt i \<Longrightarrow> eval env ''marker != null && marker >= 0'' = VBool (0 \<le> i)"
    and eval_map_keys: "env ''ev'' = VObj kv \<Longrightarrow>
      eval env ''map_keys(ev) -> |k| { downcase(k) }'' = VObj (ps_lower P kv)"
    and eval_set_syslog: "env ''ev'' = VObj kv \<Longrightarrow> env ''parsed'' = VObj ps \<Longrightarrow>
      eval env (''set!(ev, ['' @ [DQ] @ ''syslog'' @ [DQ] @ ''], map_keys(parsed) -> |k| { downcase(k) })'') =
        VObj (set_key ''syslog'' (VObj (ps_lower P ps)) kv)"
    and eval_summary: "env ''ev'' = VObj kv \<Longrightarrow> encode_path f = Inr path \<Longrightarrow>
      eval env (summary_expr path) = VStr (text_of S (walk (VObj kv) (py_split CHR ''.'' f)))"
    and eval_now: "eval env ''to_string(now())'' = VStr (ps_now P)"

section \<open>The prelude\<close>

definition parse_lines :: "string list" where
  "parse_lines = take (length PRELUDE_LINES - 5) PRELUDE_LINES"

lemma prelude_split: "PRELUDE_LINES = parse_lines @ reset_lines"
  by (simp add: parse_lines_def reset_lines_def)

definition init_lines :: "string list" where
  \<open>init_lines =
    [''# Generated by sixthsense. Do not edit by hand.'',
     ''# Any change here is overwritten on the next bundle publish.'',
     '''',
     ''raw = to_string(.message) ?? ""'',
     '''',
     ''# Every variable is initialized before the branches below. VRL scopes assignments to the'',
     ''# block they appear in, so a variable first assigned inside an if is undefined afterwards.'',
     ''ev = {}'',
     ''parse_ok = false'',
     ''syslog_ok = false'',
     ''cef_ok = false'',
     ''body = raw'',
     ''decision = "forward"'',
     ''reason = "default"'',
     '''']\<close>

definition syslog_block :: "string list" where
  \<open>syslog_block = [''    syslog_ok = true'', ''    body = to_string(get(parsed, ["message"]) ?? raw) ?? raw'']\<close>

definition marker_block :: "string list" where
  \<open>marker_block =
    [''    marker = find(raw, "CEF:")'',
     ''    # The `marker != null` guard is load-bearing. `find` is typed as returning an integer but'',
     ''    # returns null at runtime when the needle is absent, so `marker >= 0` compiles as an'',
     ''    # infallible integer comparison and then fails at runtime on every non-CEF event. The'',
     ''    # program aborts here, before any rule branch, and `.ss` is never assigned.'',
     ''    #'',
     ''    # `(marker >= 0) ?? false` does not work: VRL rejects it with E651, because the type'',
     ''    # checker believes the comparison cannot fail. Short-circuiting is the only form that'',
     ''    # both compiles and guards, so do not simplify this back.'',
     ''    if marker != null && marker >= 0 {'',
     ''        cef, cerr = parse_cef(slice!(raw, marker))'',
     ''    }'']\<close>

definition cef_lines :: "string list" where
  "cef_lines =
    [''cef, cerr = parse_cef(body)'',
     '''',
     ''# Fall back to locating the CEF marker in the raw datagram.'',
     ''#'',
     ''# This is not defensive coding, it is the common case. `parse_syslog` treats '' @ [DQ] @ ''CEF:'' @ [DQ] @ '' as the'',
     ''# syslog tag and strips it, so the message body it hands back starts at '' @ [DQ] @ ''0|Vendor|...'' @ [DQ] @ '' and'',
     ''# is no longer valid CEF. Parsing from the marker in the original bytes recovers it.'']"

definition found_block :: "string list" where
  "found_block = [''    ev = cef'', ''    cef_ok = true'']"

definition fold_lines :: "string list" where
  \<open>fold_lines =
    ['''',
     ''# D-07: field names match case-insensitively, so normalize once here rather than at every'',
     ''# comparison site.'',
     ''ev = map_keys(ev) -> |k| { downcase(k) }'',
     '''',
     ''# Syslog fields live in their own namespace rather than merged flat (D-14).'',
     ''#'',
     ''# Merging them would put two different things under one name. `severity` is a CEF header'',
     ''# integer from 0 to 10 where higher is worse, and a syslog severity word like "info" or'',
     ''# "err". One rule cannot mean both, and a flat merge silently picks whichever parser ran'',
     ''# last. Nesting makes `severity` and `syslog.severity` two fields an analyst can tell apart.'',
     ''#'',
     ''# CEF fields deliberately stay at the top level. All ten of the known field names are CEF'',
     ''# extension keys, so moving them would break every existing rule.'',
     ''#'',
     ''# map_keys is not recursive, so this subtree is downcased on the way in.'']\<close>

definition merge_block :: "string list" where
  \<open>merge_block = [''    ev = set!(ev, ["syslog"], map_keys(parsed) -> |k| { downcase(k) })'']\<close>

definition ok_lines :: "string list" where
  \<open>ok_lines =
    ['''',
     ''# D-18 means "neither parser could read it", not "it was not CEF". A plain syslog line is'',
     ''# parsed input and its rules must be enforced.'',
     ''parse_ok = syslog_ok || cef_ok'',
     '''']\<close>

lemmas segment_defs = init_lines_def syslog_block_def marker_block_def cef_lines_def found_block_def
  fold_lines_def merge_block_def ok_lines_def

lemma parse_lines_eq:
  "parse_lines = init_lines @ [''parsed, perr = parse_syslog(raw)''] @
     if_line ''perr == null'' # syslog_block @ ''}'' # [] # cef_lines @
     if_line ''cerr != null'' # marker_block @ ''}'' # [] #
     if_line ''cerr == null'' # found_block @ ''}'' # fold_lines @
     if_line ''syslog_ok'' # merge_block @ ''}'' # ok_lines"
  by (simp add: parse_lines_def PRELUDE_LINES_def segment_defs if_line_def)

lemma blocks_indented:
  "list_all indented syslog_block" "list_all indented marker_block" "list_all indented found_block"
  "list_all indented merge_block"
  by (simp_all add: segment_defs indented_def INDENT_def)

lemma program_vars:
  "is_var ''raw''" "is_var ''ev''" "is_var ''syslog_ok''" "is_var ''cef_ok''" "is_var ''body''"
  "is_var ''parsed''" "is_var ''perr''" "is_var ''cef''" "is_var ''cerr''" "is_var ''marker''"
  "is_var ''ss_event_id''" "is_var ''ss_severity''" "is_var ''ss_host''" "is_var ''ss_name''"
  by code_simp+

definition init_env :: "string \<Rightarrow> venv \<Rightarrow> venv" where
  "init_env s env = env(''raw'' := VStr s, ''ev'' := VObj [], ''parse_ok'' := VBool False,
     ''syslog_ok'' := VBool False, ''cef_ok'' := VBool False, ''body'' := VStr s,
     ''decision'' := VStr ''forward'', ''reason'' := VStr ''default'')"

text \<open>The environment after each section.\<close>

definition syslog_env :: "vrl_std \<Rightarrow> parsers \<Rightarrow> string \<Rightarrow> (string \<Rightarrow> string) \<Rightarrow> venv \<Rightarrow> venv" where
  "syslog_env S P s msg env =
     (case ps_syslog P s of
        None \<Rightarrow> env(''parsed'' := VObj [], ''perr'' := VStr (msg ''parse_syslog(raw)''))
      | Some kv \<Rightarrow> env(''parsed'' := VObj kv, ''perr'' := VNull, ''syslog_ok'' := VBool True,
          ''body'' := VStr (cef_body S P s)))"

text \<open>What the CEF section leaves: the fields and no error, or an error; nothing else it assigns is read later.\<close>

definition cef_result :: "vobj option \<Rightarrow> venv \<Rightarrow> venv \<Rightarrow> bool" where
  "cef_result r env env' \<longleftrightarrow>
     (case r of Some kv \<Rightarrow> env' ''cef'' = VObj kv \<and> env' ''cerr'' = VNull | None \<Rightarrow> env' ''cerr'' \<noteq> VNull) \<and>
     (\<forall>x. x \<notin> {''cef'', ''cerr'', ''marker''} \<longrightarrow> env' x = env x)"

lemma chain_lines_parts:
  assumes "chain_lines ch v = Inr ls"
  obtains bs d where "emit_branches (active ch) True = Inr bs"
    "encode_string (action_value (default_action ch)) = Inr d"
    "ls = decision_section ch bs d @ METADATA @ [] # result_lines (int_str v)"
  using assms that
  by (auto simp: chain_lines_def Let_def bindR_Inr_iff decision_section_def split: if_splits)

text \<open>The metadata section: a column from its CEF field, then from syslog when that left it empty.\<close>

definition column_lines :: "string \<Rightarrow> string \<Rightarrow> string \<Rightarrow> string list" where
  "column_lines x cef_path syslog_path =
     [x @ '' = '' @ summary_expr cef_path,
      ''if '' @ x @ '' == '' @ [DQ, DQ] @ '' { '' @ x @ '' = '' @ summary_expr syslog_path @ '' }'']"

definition summary_env :: "vrl_std \<Rightarrow> vobj \<Rightarrow> venv \<Rightarrow> venv" where
  "summary_env S kv env = env(
     ''ss_event_id'' := VStr (summary_text S kv ''eventid'' ''syslog.msgid''),
     ''ss_severity'' := VStr (summary_text S kv ''severity'' ''syslog.severity''),
     ''ss_host'' := VStr (summary_text S kv ''filterhostname'' ''syslog.hostname''),
     ''ss_name'' := VStr (summary_text S kv ''name'' ''syslog.appname''))"

lemma column_paths:
  \<open>encode_path ''eventid'' = Inr ''["eventid"]''\<close> \<open>encode_path ''severity'' = Inr ''["severity"]''\<close>
  \<open>encode_path ''filterhostname'' = Inr ''["filterhostname"]''\<close> \<open>encode_path ''name'' = Inr ''["name"]''\<close>
  \<open>encode_path ''syslog.msgid'' = Inr ''["syslog", "msgid"]''\<close>
  \<open>encode_path ''syslog.severity'' = Inr ''["syslog", "severity"]''\<close>
  \<open>encode_path ''syslog.hostname'' = Inr ''["syslog", "hostname"]''\<close>
  \<open>encode_path ''syslog.appname'' = Inr ''["syslog", "appname"]''\<close>
  by code_simp+

lemma metadata_columns:
  \<open>METADATA = column_lines ''ss_event_id'' ''["eventid"]'' ''["syslog", "msgid"]'' @
     column_lines ''ss_severity'' ''["severity"]'' ''["syslog", "severity"]'' @
     column_lines ''ss_host'' ''["filterhostname"]'' ''["syslog", "hostname"]'' @
     column_lines ''ss_name'' ''["name"]'' ''["syslog", "appname"]''\<close>
  by (simp add: METADATA_def column_lines_def summary_expr_def)

text \<open>The entries of the record, a key and the expression under it.\<close>

definition ss_entries :: "int \<Rightarrow> (string \<times> string) list" where
  "ss_entries version =
     [(''chain_version'', int_str version), (''decision'', ''decision''), (''reason'', ''reason''),
      (''rule_id'', ''matched_id''), (''rule_version'', ''matched_version''), (''retain'', ''matched_retain''),
      (''parse_ok'', ''parse_ok''), (''cef_ok'', ''cef_ok''), (''syslog_ok'', ''syslog_ok''),
      (''ts'', ''to_string(now())''), (''event_id'', ''ss_event_id''), (''severity'', ''ss_severity''),
      (''host'', ''ss_host''), (''name'', ''ss_name'')]"

lemma result_entries:
  "result_lines (int_str version) = ''.ss = {'' # map entry_line (ss_entries version) @ [''}'']"
  by (simp add: result_lines_def ss_entries_def entry_line_def)

lemma ss_entries_keys: "\<forall>e \<in> set (ss_entries version). DQ \<notin> set (fst e)"
  by (simp add: ss_entries_def)

lemma find_text_bound: "find_text needle s = Some i \<Longrightarrow> i \<le> length s"
  by (induction s arbitrary: i) (auto split: if_splits)

context vrl_program
begin

lemmas run_program_assigns = program_vars [THEN run_assign, simplified] run_assigns

lemmas eval_quoted = eval_plain_literals eval_message [simplified] eval_empty_object eval_bool_texts

lemma run_init:
  assumes "env ''.message'' = VStr s"
  shows "run (init_lines @ rest) env = run rest (init_env s env)"
  using assms
  by (simp add: init_lines_def run_blank run_comment run_program_assigns eval_quoted eval_var program_vars init_env_def)

lemmas run_attempts =
  run_attempt [OF program_vars(6,7), simplified] run_attempt [OF program_vars(8,9), simplified]

lemmas eval_var_tests =
  program_vars [THEN eval_is_null, simplified] program_vars [THEN eval_not_null, simplified]

lemma run_syslog:
  assumes "env ''raw'' = VStr s" "env ''body'' = VStr s"
  shows "run (''parsed, perr = parse_syslog(raw)'' # if_line ''perr == null'' # syslog_block @ ''}'' # rest) env =
    run rest (syslog_env S P s (message_of env) env)"
proof (cases "ps_syslog P s")
  case None
  then have a: "attempt env ''parse_syslog(raw)'' = None" using attempt_syslog [of env s, OF assms(1)] by simp
  let ?env = "env(''parsed'' := VObj [], ''perr'' := VStr (message_of env ''parse_syslog(raw)''))"
  have "eval ?env ''perr == null'' \<noteq> VBool True" by (simp add: eval_var_tests)
  from run_skip [OF blocks_indented(1) this, of rest] show ?thesis
    by (simp add: run_attempts a syslog_env_def None)
next
  case (Some kv)
  then have a: "attempt env ''parse_syslog(raw)'' = Some (VObj kv)" using attempt_syslog [of env s, OF assms(1)] by simp
  let ?env = "env(''parsed'' := VObj kv, ''perr'' := VNull)"
  have "eval ?env ''perr == null'' = VBool True" by (simp add: eval_var_tests)
  from run_block [OF blocks_indented(1) this, of rest]
  have "run (''parsed, perr = parse_syslog(raw)'' # if_line ''perr == null'' # syslog_block @ ''}'' # rest) env =
      run rest (run (map dedent syslog_block) ?env)"
    by (simp add: run_attempts a)
  also have "run (map dedent syslog_block) ?env =
      ?env(''syslog_ok'' := VBool True, ''body'' := VStr (cef_body S P s))"
    using eval_body [of "?env(''syslog_ok'' := VBool True)" s kv] assms(1)
    by (simp add: syslog_block_def dedent_def INDENT_def run_program_assigns run_Nil eval_bool_texts cef_body_def Some)
  finally show ?thesis by (simp add: syslog_env_def Some fun_upd_def)
qed

lemma run_marker_block:
  assumes "env ''raw'' = VStr s"
  shows "\<exists>env'. run (map dedent marker_block) env = env' \<and>
    (case find_text ''CEF:'' s of
       None \<Rightarrow> env' ''cerr'' = env ''cerr''
     | Some i \<Rightarrow> (case ps_cef P (drop i s) of
           Some kv \<Rightarrow> env' ''cef'' = VObj kv \<and> env' ''cerr'' = VNull | None \<Rightarrow> env' ''cerr'' \<noteq> VNull)) \<and>
    (\<forall>x. x \<notin> {''cef'', ''cerr'', ''marker''} \<longrightarrow> env' x = env x)"
proof -
  let ?if = "if_line ''marker != null && marker >= 0'' # [''    cef, cerr = parse_cef(slice!(raw, marker))''] @ [''}'']"
  let ?v = "case find_text ''CEF:'' s of None \<Rightarrow> VNull | Some i \<Rightarrow> VInt (int i)"
  let ?env = "env(''marker'' := ?v)"
  have start: "run (map dedent marker_block) env = run ?if ?env"
    using eval_find [of env s, OF assms]
    by (simp add: marker_block_def dedent_def INDENT_def run_program_assigns run_comment if_line_def)
  have b: "list_all indented [''    cef, cerr = parse_cef(slice!(raw, marker))'']"
    by (simp add: indented_def INDENT_def)
  show ?thesis
  proof (cases "find_text ''CEF:'' s")
    case None
    then have "eval ?env ''marker != null && marker >= 0'' \<noteq> VBool True" by (simp add: eval_marker_null eval_marker_int)
    from run_skip [OF b this, of "[]"] have "run (map dedent marker_block) env = ?env"
      by (simp add: start run_Nil)
    with None show ?thesis by simp
  next
    case (Some i)
    then have m: "eval ?env ''marker != null && marker >= 0'' = VBool True" by (simp add: eval_marker_null eval_marker_int)
    have "attempt ?env ''parse_cef(slice!(raw, marker))'' = map_option VObj (ps_cef P (drop i s))"
      using attempt_slice [of ?env s i] assms Some find_text_bound [OF Some] by simp
    with run_block [OF b m, of "[]"] Some show ?thesis
      by (simp add: start run_Nil dedent_def INDENT_def run_attempts split: option.splits)
  qed
qed

lemma run_cef:
  assumes "env ''raw'' = VStr s" "env ''body'' = VStr (cef_body S P s)"
  shows "\<exists>env'. (\<forall>rest. run (cef_lines @ if_line ''cerr != null'' # marker_block @ ''}'' # rest) env = run rest env') \<and>
    cef_result (cef_fields_of S P s) env env'"
proof (cases "ps_cef P (cef_body S P s)")
  case (Some kv)
  then have a: "attempt env ''parse_cef(body)'' = Some (VObj kv)"
    using attempt_cef [of env "cef_body S P s", OF assms(2)] by simp
  let ?env = "env(''cef'' := VObj kv, ''cerr'' := VNull)"
  have "eval ?env ''cerr != null'' \<noteq> VBool True" by (simp add: eval_var_tests)
  from run_skip [OF blocks_indented(2) this]
  have "run (cef_lines @ if_line ''cerr != null'' # marker_block @ ''}'' # rest) env = run rest ?env" for rest
    by (simp add: cef_lines_def run_attempts a run_blank run_comment)
  then show ?thesis
    by (intro exI [of _ ?env]) (simp add: cef_result_def cef_fields_of_def Some)
next
  case None
  then have a: "attempt env ''parse_cef(body)'' = None"
    using attempt_cef [of env "cef_body S P s", OF assms(2)] by simp
  let ?env = "env(''cef'' := VObj [], ''cerr'' := VStr (message_of env ''parse_cef(body)''))"
  have t: "eval ?env ''cerr != null'' = VBool True" by (simp add: eval_var_tests)
  have raw: "?env ''raw'' = VStr s" using assms(1) by simp
  from run_block [OF blocks_indented(2) t]
  have r: "run (cef_lines @ if_line ''cerr != null'' # marker_block @ ''}'' # rest) env =
      run rest (run (map dedent marker_block) ?env)" for rest
    by (simp add: cef_lines_def run_attempts a run_blank run_comment)
  show ?thesis
    using r run_marker_block [of ?env s, OF raw]
    by (intro exI [of _ "run (map dedent marker_block) ?env"])
      (auto simp: cef_result_def cef_fields_of_def None split: option.splits)
qed

lemma run_found:
  assumes "cef_result r env env'" "env ''ev'' = VObj []" "env ''cef_ok'' = VBool False"
  shows "run (if_line ''cerr == null'' # found_block @ ''}'' # rest) env' =
    run rest (env'(''ev'' := VObj (case r of None \<Rightarrow> [] | Some kv \<Rightarrow> kv), ''cef_ok'' := VBool (r \<noteq> None)))"
proof (cases r)
  case None
  then have "eval env' ''cerr == null'' \<noteq> VBool True" using assms(1) by (simp add: eval_var_tests cef_result_def)
  from run_skip [OF blocks_indented(3) this]
  have "run (if_line ''cerr == null'' # found_block @ ''}'' # rest) env' = run rest env'" .
  moreover have "env'(''ev'' := VObj [], ''cef_ok'' := VBool False) = env'"
    using assms None by (auto simp: cef_result_def fun_eq_iff)
  ultimately show ?thesis by (simp add: None)
next
  case (Some kv)
  then have "eval env' ''cerr == null'' = VBool True" using assms(1) by (simp add: eval_var_tests cef_result_def)
  from run_block [OF blocks_indented(3) this]
  show ?thesis
    using assms(1)
    by (simp add: found_block_def dedent_def INDENT_def run_program_assigns run_Nil eval_var program_vars
        eval_bool_texts cef_result_def Some)
qed

lemma run_merge:
  assumes "env ''ev'' = VObj kv" "env ''syslog_ok'' = VBool (r \<noteq> None)" "env ''cef_ok'' = VBool c"
    and "\<And>ps. r = Some ps \<Longrightarrow> env ''parsed'' = VObj ps"
  shows "run (fold_lines @ if_line ''syslog_ok'' # merge_block @ ''}'' # ok_lines @ rest) env =
    run rest (env(''ev'' := VObj (case r of None \<Rightarrow> ps_lower P kv
        | Some ps \<Rightarrow> set_key ''syslog'' (VObj (ps_lower P ps)) (ps_lower P kv)),
      ''parse_ok'' := VBool (r \<noteq> None \<or> c)))"
proof -
  let ?env = "env(''ev'' := VObj (ps_lower P kv))"
  have s: "run (fold_lines @ more) env = run more ?env" for more
    using eval_map_keys [of env kv, OF assms(1)]
    by (simp add: fold_lines_def run_blank run_comment run_program_assigns)
  have o: "run (ok_lines @ rest) e = run rest (e(''parse_ok'' := VBool (a \<or> c)))"
    if "e ''syslog_ok'' = VBool a" "e ''cef_ok'' = VBool c" for e a
    using eval_or [OF program_vars(3,4) that]
    by (simp add: ok_lines_def run_blank run_comment run_program_assigns)
  have v: "eval ?env ''syslog_ok'' = VBool (r \<noteq> None)" using assms(2) by (simp add: eval_var program_vars)
  show ?thesis
  proof (cases r)
    case None
    then have "eval ?env ''syslog_ok'' \<noteq> VBool True" using v by simp
    from run_skip [OF blocks_indented(4) this] show ?thesis
      using o [of ?env False] assms(2,3) None by (simp add: s)
  next
    case (Some ps)
    then have "eval ?env ''syslog_ok'' = VBool True" using v by simp
    note b = run_block [OF blocks_indented(4) this]
    have "run (map dedent merge_block) ?env = ?env(''ev'' := VObj (set_key ''syslog'' (VObj (ps_lower P ps)) (ps_lower P kv)))"
      using eval_set_syslog [of ?env "ps_lower P kv" ps] assms(4) [OF Some]
      by (simp add: merge_block_def dedent_def INDENT_def run_program_assigns run_Nil)
    then show ?thesis
      using b o [of "?env(''ev'' := VObj (set_key ''syslog'' (VObj (ps_lower P ps)) (ps_lower P kv)))" True] assms(2,3) Some
      by (simp add: s)
  qed
qed

text \<open>The frame: the program assigns to its own variables and to \<open>.ss\<close>, no other field of the event.\<close>

lemma run_parse:
  assumes "env ''.message'' = VStr raw"
  shows "\<exists>env'. (\<forall>rest. run (parse_lines @ rest) env = run rest env') \<and>
    env' ''ev'' = VObj (re_fields (read_event S P raw)) \<and>
    env' ''parse_ok'' = VBool (readable (read_event S P raw)) \<and>
    env' ''syslog_ok'' = VBool (re_syslog (read_event S P raw)) \<and>
    env' ''cef_ok'' = VBool (re_cef (read_event S P raw)) \<and>
    (\<forall>k. env' (CHR ''.'' # k) = env (CHR ''.'' # k))"
proof -
  let ?r = "ps_syslog P raw" and ?c = "cef_fields_of S P raw"
  let ?e1 = "init_env raw env"
  let ?e2 = "syslog_env S P raw (message_of ?e1) ?e1"
  have e1: "?e1 ''raw'' = VStr raw" "?e1 ''body'' = VStr raw" by (simp_all add: init_env_def)
  have e2: "?e2 ''raw'' = VStr raw" "?e2 ''body'' = VStr (cef_body S P raw)" "?e2 ''ev'' = VObj []"
    "?e2 ''cef_ok'' = VBool False" "?e2 ''syslog_ok'' = VBool (?r \<noteq> None)"
    "?r = Some ps \<Longrightarrow> ?e2 ''parsed'' = VObj ps" "?e2 (CHR ''.'' # k) = env (CHR ''.'' # k)" for k ps
    by (simp_all add: syslog_env_def init_env_def cef_body_def split: option.split)
  obtain e3 where run3: "\<And>rest. run (cef_lines @ if_line ''cerr != null'' # marker_block @ ''}'' # rest) ?e2 = run rest e3"
    and r3: "cef_result ?c ?e2 e3"
    using run_cef [of ?e2 raw, OF e2(1,2)] by blast
  let ?e4 = "e3(''ev'' := VObj (case ?c of None \<Rightarrow> [] | Some kv \<Rightarrow> kv), ''cef_ok'' := VBool (?c \<noteq> None))"
  have e3: "e3 x = ?e2 x" if "x \<notin> {''cef'', ''cerr'', ''marker''}" for x
    using r3 that unfolding cef_result_def by blast
  have s4: "?e4 ''syslog_ok'' = VBool (?r \<noteq> None)" "?r = Some ps \<Longrightarrow> ?e4 ''parsed'' = VObj ps"
    "?e4 ''ev'' = VObj (case ?c of None \<Rightarrow> [] | Some kv \<Rightarrow> kv)" "?e4 ''cef_ok'' = VBool (?c \<noteq> None)"
    "?e4 (CHR ''.'' # k) = env (CHR ''.'' # k)" for ps k
    using e2 e3 by simp_all
  let ?f = "ps_lower P (case ?c of None \<Rightarrow> [] | Some kv \<Rightarrow> kv)"
  let ?e5 = "?e4(''ev'' := VObj (case ?r of None \<Rightarrow> ?f | Some ps \<Rightarrow> set_key ''syslog'' (VObj (ps_lower P ps)) ?f),
      ''parse_ok'' := VBool (?r \<noteq> None \<or> ?c \<noteq> None))"
  have "run (parse_lines @ rest) env = run rest ?e5" for rest
  proof -
    have "run (parse_lines @ rest) env = run (''parsed, perr = parse_syslog(raw)'' # if_line ''perr == null'' # syslog_block @ ''}'' #
        [] # cef_lines @ if_line ''cerr != null'' # marker_block @ ''}'' # [] #
        if_line ''cerr == null'' # found_block @ ''}'' # fold_lines @
        if_line ''syslog_ok'' # merge_block @ ''}'' # ok_lines @ rest) ?e1"
      by (simp only: parse_lines_eq append.assoc append_Cons append_Nil run_init [of env raw, OF assms])
    also have "\<dots> = run (cef_lines @ if_line ''cerr != null'' # marker_block @ ''}'' # [] #
        if_line ''cerr == null'' # found_block @ ''}'' # fold_lines @
        if_line ''syslog_ok'' # merge_block @ ''}'' # ok_lines @ rest) ?e2"
      by (simp only: run_syslog [of ?e1 raw, OF e1] run_blank)
    also have "\<dots> = run (fold_lines @ if_line ''syslog_ok'' # merge_block @ ''}'' # ok_lines @ rest) ?e4"
      by (simp only: run3 run_blank run_found [OF r3 e2(3,4)])
    also have "\<dots> = run rest ?e5"
      using run_merge [OF s4(3,1,4), of rest] s4(2) by blast
    finally show ?thesis .
  qed
  moreover have "re_fields (read_event S P raw) = (case ?r of None \<Rightarrow> ?f | Some ps \<Rightarrow> set_key ''syslog'' (VObj (ps_lower P ps)) ?f)"
    by (simp add: read_event_def Let_def)
  ultimately show ?thesis
    using s4 by (intro exI [of _ ?e5]) (simp add: read_event_def readable_def Let_def)
qed

lemma run_column:
  assumes "is_var x" "x \<noteq> ''ev''" "env ''ev'' = VObj kv" "encode_path f = Inr p" "encode_path g = Inr q"
  shows "run (column_lines x p q @ rest) env = run rest (env(x := VStr (summary_text S kv f g)))"
proof -
  let ?env = "env(x := VStr (text_of S (walk (VObj kv) (py_split CHR ''.'' f))))"
  have "eval env (summary_expr p) = VStr (text_of S (walk (VObj kv) (py_split CHR ''.'' f)))"
    by (rule eval_summary [where env = env and kv = kv and f = f, OF assms(3,4)])
  moreover have "eval ?env (summary_expr q) = VStr (text_of S (walk (VObj kv) (py_split CHR ''.'' g)))"
    by (rule eval_summary [where kv = kv and f = g, OF _ assms(5)]) (use assms(2,3) in simp)
  moreover have "run (column_lines x p q @ rest) env = run ((x @ '' = '' @ summary_expr p) #
      (''if '' @ x @ '' == '' @ [DQ, DQ] @ '' { '' @ x @ '' = '' @ summary_expr q @ '' }'') # rest) env"
    by (simp add: column_lines_def)
  ultimately show ?thesis
    unfolding run_assign [OF assms(1)] run_one_line [OF assms(1)]
    by (cases "text_of S (walk (VObj kv) (py_split CHR ''.'' f)) = []") (simp_all add: summary_text_def Let_def)
qed

lemma run_metadata:
  assumes "env ''ev'' = VObj kv"
  shows "run (METADATA @ rest) env = run rest (summary_env S kv env)"
  by (simp add: metadata_columns run_column [OF program_vars(11) _ _ column_paths(1,5), where kv = kv]
      run_column [OF program_vars(12) _ _ column_paths(2,6), where kv = kv]
      run_column [OF program_vars(13) _ _ column_paths(3,7), where kv = kv]
      run_column [OF program_vars(14) _ _ column_paths(4,8), where kv = kv] assms summary_env_def)

text \<open>From the end of the parsing section to the end of the program.\<close>

lemma run_rest:
  assumes ls: "chain_lines ch v = Inr ls" and ok: "env ''parse_ok'' = VBool (readable e)"
    and ev: "env ''ev'' = VObj (re_fields e)"
    and oks: "env ''syslog_ok'' = VBool (re_syslog e)" "env ''cef_ok'' = VBool (re_cef e)"
  shows "\<exists>env'. run (reset_lines @ [] # ls) env = env' \<and>
    env' ''.ss'' = VObj (ss_record S P v e (decide ch (readable e) (rule_matches S (re_fields e)))) \<and>
    (\<forall>k. k \<noteq> ''ss'' \<longrightarrow> env' (CHR ''.'' # k) = env (CHR ''.'' # k))"
proof -
  obtain bs d where bs: "emit_branches (active ch) True = Inr bs"
    and d: "encode_string (action_value (default_action ch)) = Inr d"
    and ls': "ls = decision_section ch bs d @ METADATA @ [] # result_lines (int_str v)"
    by (rule chain_lines_parts [OF ls])
  let ?m = "find (rule_matches S (re_fields e)) (active ch)"
  let ?v = "decide ch (readable e) (rule_matches S (re_fields e))"
  let ?e1 = "case ?m of None \<Rightarrow> reset_env env | Some r \<Rightarrow> match_env r (reset_env env)"
  have m: "find (rule_holds eval (reset_env env)) (active ch) = ?m"
    by (rule find_matches [OF bs]) (simp add: reset_env_def ev)
  have e1: "?e1 x = env x" if "x \<notin> {''matched_id'', ''matched_version'', ''matched_action'', ''matched_shadow'', ''matched_retain''}" for x
    using that by (simp add: match_env_def reset_env_def split: option.split)
  let ?e2 = "?e1(''shadow_chain'' := VBool (shadow_mode ch),
      ''decision'' := VStr (decision_value (v_decision ?v)), ''reason'' := VStr (reason_value (v_reason ?v)))"
  have enforced: "run (enforcement_lines d (bool_text (shadow_mode ch)) @ rest) ?e1 = run rest ?e2" for rest
    by (subst run_enforcement [OF d, where m = ?m and ok = "readable e"])
      (auto simp: match_env_def reset_env_def ok decide_def Let_def split: option.splits)
  let ?e3 = "summary_env S (re_fields e) ?e2"
  have "run (reset_lines @ [] # ls) env = run (result_lines (int_str v)) ?e3"
    using run_branches [OF bs, of _ "reset_env env"]
    by (simp add: ls' decision_section_def run_reset run_blank m enforced
        run_metadata [of ?e2 "re_fields e"] e1 ev)
  also have "\<dots> = ?e3(''.ss'' := VObj (map (\<lambda>e. (fst e, eval ?e3 (snd e))) (ss_entries v)))"
    unfolding result_entries by (rule run_record [OF ss_entries_keys])
  also have "map (\<lambda>e. (fst e, eval ?e3 (snd e))) (ss_entries v) = ss_record S P v e ?v"
    by (simp add: ss_entries_def ss_record_def eval_int eval_var program_vars var_names eval_now summary_env_def
        e1 ok oks) (simp add: match_env_def reset_env_def decide_def Let_def split: option.split)
  finally show ?thesis by (simp add: summary_env_def e1)
qed

theorem runs_on_message:
  assumes "chain_lines ch v = Inr ls" "env ''.message'' = VStr raw" "read_event S P raw = e"
  shows "run (PRELUDE_LINES @ [] # ls) env ''.ss'' =
      VObj (ss_record S P v e (decide ch (readable e) (rule_matches S (re_fields e)))) \<and>
    (\<forall>k. k \<noteq> ''ss'' \<longrightarrow> run (PRELUDE_LINES @ [] # ls) env (CHR ''.'' # k) = env (CHR ''.'' # k))"
proof -
  obtain env' where "\<And>rest. run (parse_lines @ rest) env = run rest env'"
    and "env' ''ev'' = VObj (re_fields e)" "env' ''parse_ok'' = VBool (readable e)"
      "env' ''syslog_ok'' = VBool (re_syslog e)" "env' ''cef_ok'' = VBool (re_cef e)"
    and "\<And>k. env' (CHR ''.'' # k) = env (CHR ''.'' # k)"
    using run_parse [of env raw, OF assms(2)] assms(3) by blast
  then show ?thesis
    using run_rest [where env = env' and e = e, OF assms(1)] by (auto simp: prelude_split)
qed

end

end
