(* ===== verification/Program_Message.thy ===== *)
theory Program_Message
  imports Complex_Main Prelude Rule_Model Encoder Compiler Lexical Injection Program_Text Decision Predicate_Syntax
    Condition_Meaning Program_Run
begin

text \<open>
  An executable semantics of the whole generated program, with nested blocks, fallible
  assignments and the record, that keeps every law of \<open>vrl_program\<close> for any two parsers; and the
  property of the program on a raw message.
\<close>

section \<open>Expressions\<close>

definition MESSAGE_TEXT :: string where
  \<open>MESSAGE_TEXT = ''to_string(.message) ?? ""''\<close>

definition BODY_TEXT :: string where
  \<open>BODY_TEXT = ''to_string(get(parsed, ["message"]) ?? raw) ?? raw''\<close>

definition FIND_TEXT :: string where
  \<open>FIND_TEXT = ''find(raw, "CEF:")''\<close>

definition SYSLOG_TEXT :: string where
  \<open>SYSLOG_TEXT = ''set!(ev, ["syslog"], map_keys(parsed) -> |k| { downcase(k) })''\<close>

definition text_value :: "vrl_value \<Rightarrow> string" where
  "text_value v = (case v of VStr s \<Rightarrow> s | _ \<Rightarrow> [])"

definition object_value :: "vrl_value \<Rightarrow> vobj" where
  "object_value v = (case v of VObj kv \<Rightarrow> kv | _ \<Rightarrow> [])"

definition message_eval :: "vrl_call \<Rightarrow> vrl_std \<Rightarrow> parsers \<Rightarrow> venv \<Rightarrow> string \<Rightarrow> vrl_value" where
  "message_eval call S P env t =
     (if t = MESSAGE_TEXT then VStr (text_value (env ''.message''))
      else if t = ''{}'' then VObj []
      else if dropWhile var_char t = '' != null'' then VBool (env (takeWhile var_char t) \<noteq> VNull)
      else if t = BODY_TEXT then
        VStr (case std_text S (walk (env ''parsed'') [''message'']) of Some s \<Rightarrow> s | None \<Rightarrow> text_value (env ''raw''))
      else if t = FIND_TEXT then
        (case find_text ''CEF:'' (text_value (env ''raw'')) of None \<Rightarrow> VNull | Some i \<Rightarrow> VInt (int i))
      else if t = ''marker != null && marker >= 0'' then
        VBool (case env ''marker'' of VInt i \<Rightarrow> 0 \<le> i | _ \<Rightarrow> False)
      else if t = ''map_keys(ev) -> |k| { downcase(k) }'' then VObj (ps_lower P (object_value (env ''ev'')))
      else if t = SYSLOG_TEXT then
        VObj (set_key ''syslog'' (VObj (ps_lower P (object_value (env ''parsed'')))) (object_value (env ''ev'')))
      else if t = ''to_string(now())'' then VStr (ps_now P)
      else if take 18 t = ''to_string(get(ev, '' then
        (case read_path (drop 18 t) of
           Some (ss, rest) \<Rightarrow> VStr (text_of S (walk (env ''ev'') ss))
         | None \<Rightarrow> VNull)
      else predicate_eval call S env t)"

definition message_attempt :: "parsers \<Rightarrow> venv \<Rightarrow> string \<Rightarrow> vrl_value option" where
  "message_attempt P env t =
     (if t = ''parse_syslog(raw)'' then map_option VObj (ps_syslog P (text_value (env ''raw'')))
      else if t = ''parse_cef(body)'' then map_option VObj (ps_cef P (text_value (env ''body'')))
      else if t = ''parse_cef(slice!(raw, marker))'' then
        (case env ''marker'' of
           VInt i \<Rightarrow> map_option VObj (ps_cef P (drop (nat i) (text_value (env ''raw''))))
         | _ \<Rightarrow> None)
      else None)"

section \<open>Statements\<close>

definition in_body :: "string \<Rightarrow> bool" where
  "in_body l \<longleftrightarrow> indented l \<or> (l \<noteq> [] \<and> hd l = CHR ''#'')"

definition opens_block :: "string \<Rightarrow> bool" where
  "opens_block l \<longleftrightarrow> take 3 l = ''if '' \<and> drop (length l - 2) l = '' {''"

text \<open>A line that is no block: a block on one line, an assignment, a fallible assignment, or none of these.\<close>

definition one_line :: "(venv \<Rightarrow> string \<Rightarrow> vrl_value) \<Rightarrow> string \<Rightarrow> venv \<Rightarrow> venv" where
  "one_line ev r env =
     (let x = takeWhile var_char r; lead = '' == '' @ [DQ, DQ] @ '' { '' @ x @ '' = '';
          e = drop (length x + length lead) r
      in if is_var x \<and> env x = VStr [] then env(x := ev env (take (length e - 2) e)) else env)"

definition simple_line :: "(venv \<Rightarrow> string \<Rightarrow> vrl_value) \<Rightarrow> (venv \<Rightarrow> string \<Rightarrow> vrl_value option) \<Rightarrow>
    string \<Rightarrow> venv \<Rightarrow> venv" where
  "simple_line ev att l env =
     (let x = takeWhile var_char l; after = dropWhile var_char l;
          y = takeWhile var_char (drop 2 after); after' = dropWhile var_char (drop 2 after)
      in if take 3 l = ''if '' then one_line ev (drop 3 l) env
         else if is_var x \<and> take 3 after = '' = '' then env(x := ev env (drop 3 after))
         else if is_var x \<and> take 2 after = '', '' \<and> is_var y \<and> take 3 after' = '' = '' then
           (case att env (drop 3 after') of
              Some v \<Rightarrow> env(x := v, y := VNull)
            | None \<Rightarrow> env(x := VObj [], y := VStr (drop 3 after')))
         else env)"

definition record_entry :: "(venv \<Rightarrow> string \<Rightarrow> vrl_value) \<Rightarrow> venv \<Rightarrow> string \<Rightarrow> string \<times> vrl_value" where
  "record_entry ev env l =
     (let t = drop 5 l; k = takeWhile (\<lambda>c. c \<noteq> DQ) t
      in (k, ev env (butlast (drop (length k + 3) t))))"

lemma length_after_chain: "length (after_chain ls) \<le> length ls"
  by (simp add: after_chain_def) (meson diff_le_self length_dropWhile_le order_trans)

lemma part_lengths:
  "length (takeWhile p ls) < Suc (length ls)" "length (after_chain (dropWhile p ls)) < Suc (length ls)"
  "dropWhile p ls = r # rs \<Longrightarrow> length rs < length ls"
  using length_takeWhile_le [of p ls] length_after_chain [of "dropWhile p ls"] length_dropWhile_le [of p ls]
  by (simp_all add: le_imp_less_Suc)

function block_run :: "(venv \<Rightarrow> string \<Rightarrow> vrl_value) \<Rightarrow> (venv \<Rightarrow> string \<Rightarrow> vrl_value option) \<Rightarrow>
    string list \<Rightarrow> venv \<Rightarrow> venv" where
  "block_run ev att [] env = env"
| "block_run ev att (l # ls) env =
     (if opens_block l then
        (if ev env (condition_text 3 l) = VBool True
         then block_run ev att (after_chain (dropWhile in_body ls)) (block_run ev att (map dedent (takeWhile in_body ls)) env)
         else case dropWhile in_body ls of
           [] \<Rightarrow> env
         | r # rs \<Rightarrow>
             if r = ''}'' then block_run ev att rs env
             else if r = ''} else {'' then
               block_run ev att (after_chain (dropWhile in_body rs)) (block_run ev att (map dedent (takeWhile in_body rs)) env)
             else if take 10 r = ''} else if '' then block_run ev att (if_line (condition_text 10 r) # rs) env
             else env)
      else if l = ''.ss = {'' then
        env(''.ss'' := VObj (map (record_entry ev env) (takeWhile (\<lambda>l. l \<noteq> ''}'') ls)))
      else block_run ev att ls (simple_line ev att l env))"
  by pat_completeness auto

termination
  by (relation "measure (\<lambda>(ev, att, ls, env). length ls)")
    (auto simp: part_lengths dest!: part_lengths(3)
      intro: less_trans [OF part_lengths(1)] less_trans [OF part_lengths(2)] less_SucI)

declare block_run.simps(2) [simp del]

section \<open>It keeps the laws\<close>

lemma line_eval_other:
  assumes "t \<noteq> []" "hd t \<notin> {DQ, CHR ''!'', CHR ''-''}" "\<not> is_ascii_digit (hd t)"
    and "\<not> list_all var_char t" "dropWhile var_char t \<noteq> '' == null''"
    and "take 4 (dropWhile var_char t) \<noteq> '' || ''"
  shows "line_eval other env t = other env t"
proof -
  have v: "\<not> is_var t" using assms(4) by (simp add: is_var_def)
  have "list_all var_char ''true''" "list_all var_char ''false''" "list_all var_char ''null''" by code_simp+
  then have "t \<notin> {''true'', ''false'', ''null''}" using assms(4) by auto
  moreover have "\<not> list_all (\<lambda>c. is_ascii_digit c \<or> c = CHR ''-'') t" using assms(1-3) by (cases t) auto
  ultimately show ?thesis
    using assms v by (simp add: line_eval_def Let_def read_string_not_quote)
qed

lemmas text_defs = MESSAGE_TEXT_def BODY_TEXT_def FIND_TEXT_def SYSLOG_TEXT_def

lemma not_null_text:
  assumes "is_var x"
  shows "line_eval (message_eval call S P) env (x @ '' != null'') = VBool (env x \<noteq> VNull)"
proof -
  let ?t = "x @ '' != null''"
  have s: "takeWhile var_char ?t = x" "dropWhile var_char ?t = '' != null''"
    using var_span [OF assms, of "'' != null''"] by (simp_all add: var_char_def)
  have h: "var_char (hd ?t)" "x \<noteq> []" using is_var_hd [OF assms] by (cases x; simp)+
  have "line_eval (message_eval call S P) env ?t = message_eval call S P env ?t"
    using h var_char_not [OF h(1)] s by (intro line_eval_other) (auto simp: var_char_def)
  moreover have "?t \<noteq> MESSAGE_TEXT" "?t \<noteq> ''{}''"
    using s by (auto simp: text_defs var_char_def)
  ultimately show ?thesis using s by (simp add: message_eval_def)
qed

lemma summary_text_value:
  assumes "encode_path f = Inr path"
  shows "line_eval (message_eval call S P) env (summary_expr path) =
    VStr (text_of S (walk (env ''ev'') (py_split CHR ''.'' f)))"
proof -
  have "line_eval (message_eval call S P) env (summary_expr path) = message_eval call S P env (summary_expr path)"
    by (rule line_eval_other) (simp_all add: summary_expr_def var_char_def is_ascii_digit_def)
  also have "\<dots> = VStr (text_of S (walk (env ''ev'') (py_split CHR ''.'' f)))"
    using read_encode_path [OF assms, of \<open>'') ?? "") ?? ""''\<close>]
    by (simp add: message_eval_def summary_expr_def text_defs var_char_def)
  finally show ?thesis .
qed

lemma special_values:
  fixes call :: vrl_call and S :: vrl_std and P :: parsers and env :: venv
  defines "ev \<equiv> line_eval (message_eval call S P) env"
  shows "ev (''to_string(.message) ?? '' @ [DQ, DQ]) = VStr (text_value (env ''.message''))"
    "ev ''{}'' = VObj []"
    "ev (''to_string(get(parsed, ['' @ [DQ] @ ''message'' @ [DQ] @ '']) ?? raw) ?? raw'') =
       VStr (case std_text S (walk (env ''parsed'') [''message'']) of Some s \<Rightarrow> s | None \<Rightarrow> text_value (env ''raw''))"
    "ev (''find(raw, '' @ [DQ] @ ''CEF:'' @ [DQ] @ '')'') =
       (case find_text ''CEF:'' (text_value (env ''raw'')) of None \<Rightarrow> VNull | Some i \<Rightarrow> VInt (int i))"
    "ev ''marker != null && marker >= 0'' = VBool (case env ''marker'' of VInt i \<Rightarrow> 0 \<le> i | _ \<Rightarrow> False)"
    "ev ''map_keys(ev) -> |k| { downcase(k) }'' = VObj (ps_lower P (object_value (env ''ev'')))"
    "ev (''set!(ev, ['' @ [DQ] @ ''syslog'' @ [DQ] @ ''], map_keys(parsed) -> |k| { downcase(k) })'') =
       VObj (set_key ''syslog'' (VObj (ps_lower P (object_value (env ''parsed'')))) (object_value (env ''ev'')))"
    "ev ''to_string(now())'' = VStr (ps_now P)"
  unfolding ev_def
  by (subst line_eval_other; simp add: message_eval_def text_defs var_char_def is_ascii_digit_def)+

lemma predicate_text:
  assumes "parse_predicate t = Some es"
  shows "line_eval (message_eval call S P) env t = predicate_eval call S env t"
proof -
  obtain u where t: "t = CHR ''('' # u" by (rule parse_predicate_start [OF assms])
  show ?thesis
    unfolding line_eval_group [OF t] by (simp add: message_eval_def t text_defs var_char_def)
qed

lemma var_not_if:
  assumes "is_var x" "after \<noteq> []" "\<not> var_char (hd after)"
  shows "take 3 (x @ after) \<noteq> ''if ''" "x @ after \<noteq> ''.ss = {''"
proof -
  have s: "takeWhile var_char (x @ after) = x" using var_span [OF assms(1), of after] assms(3) by simp
  show "take 3 (x @ after) \<noteq> ''if ''"
  proof
    assume "take 3 (x @ after) = ''if ''"
    then have "x @ after = ''if '' @ drop 3 (x @ after)" by (metis append_take_drop_id)
    then have "takeWhile var_char (x @ after) = takeWhile var_char (''if '' @ drop 3 (x @ after))"
      by (rule arg_cong)
    then have "takeWhile var_char (x @ after) = ''if''" by (simp add: var_char_def)
    with s assms(1) show False by (simp add: is_var_def)
  qed
  show "x @ after \<noteq> ''.ss = {''" using is_var_hd [OF assms(1)] by (cases x) (auto simp: var_char_def)
qed

lemma block_run_simple:
  "\<not> opens_block l \<Longrightarrow> l \<noteq> ''.ss = {'' \<Longrightarrow> block_run ev att (l # ls) env = block_run ev att ls (simple_line ev att l env)"
  by (simp add: block_run.simps(2))

lemma simple_assign:
  assumes "is_var x"
  shows "block_run ev att ((x @ '' = '' @ e) # ls) env = block_run ev att ls (env(x := ev env e))"
proof -
  have n: "take 3 (x @ '' = '' @ e) \<noteq> ''if ''" "x @ '' = '' @ e \<noteq> ''.ss = {''"
    using var_not_if [OF assms, of "'' = '' @ e"] by (simp_all add: var_char_def)
  have s: "takeWhile var_char (x @ '' = '' @ e) = x" "dropWhile var_char (x @ '' = '' @ e) = '' = '' @ e"
    using var_span [OF assms, of "'' = '' @ e"] by (simp_all add: var_char_def)
  have "simple_line ev att (x @ '' = '' @ e) env = env(x := ev env e)"
    unfolding simple_line_def Let_def if_not_P [OF n(1)] s using assms by simp
  then show ?thesis
    using n by (subst block_run_simple) (auto simp: opens_block_def)
qed

lemma simple_attempt:
  assumes "is_var x" "is_var y"
  shows "block_run ev att ((x @ '', '' @ y @ '' = '' @ e) # ls) env = block_run ev att ls (case att env e of
      Some v \<Rightarrow> env(x := v, y := VNull) | None \<Rightarrow> env(x := VObj [], y := VStr e))"
proof -
  let ?l = "x @ '', '' @ y @ '' = '' @ e"
  have n: "take 3 ?l \<noteq> ''if ''" "?l \<noteq> ''.ss = {''"
    using var_not_if [OF assms(1), of "'', '' @ y @ '' = '' @ e"] by (simp_all add: var_char_def)
  have s: "takeWhile var_char ?l = x" "dropWhile var_char ?l = '', '' @ y @ '' = '' @ e"
    using var_span [OF assms(1), of "'', '' @ y @ '' = '' @ e"] by (simp_all add: var_char_def)
  have s': "takeWhile var_char (y @ '' = '' @ e) = y" "dropWhile var_char (y @ '' = '' @ e) = '' = '' @ e"
    using var_span [OF assms(2), of "'' = '' @ e"] by (simp_all add: var_char_def)
  have d: "drop 2 ('', '' @ y @ '' = '' @ e) = y @ '' = '' @ e" "drop 3 ('' = '' @ e) = e" by simp_all
  have "simple_line ev att ?l env = (case att env e of
      Some v \<Rightarrow> env(x := v, y := VNull) | None \<Rightarrow> env(x := VObj [], y := VStr e))"
    unfolding simple_line_def Let_def if_not_P [OF n(1)] s d s' using assms by simp
  then show ?thesis
    using n by (subst block_run_simple) (auto simp: opens_block_def)
qed

lemma simple_one_line:
  assumes "is_var x"
  shows "block_run ev att ((''if '' @ x @ '' == '' @ [DQ, DQ] @ '' { '' @ x @ '' = '' @ e @ '' }'') # ls) env =
    block_run ev att ls (if env x = VStr [] then env(x := ev env e) else env)"
proof -
  let ?r = "x @ '' == '' @ [DQ, DQ] @ '' { '' @ x @ '' = '' @ e @ '' }''"
  have s: "takeWhile var_char ?r = x"
    using var_span [OF assms, of "'' == '' @ [DQ, DQ] @ '' { '' @ x @ '' = '' @ e @ '' }''"]
    by (simp add: var_char_def)
  have "\<exists>z. ''if '' @ ?r = z @ '' }''" by (rule exI [of _ "''if '' @ x @ '' == '' @ [DQ, DQ] @ '' { '' @ x @ '' = '' @ e"]) simp
  then obtain z where z: "''if '' @ ?r = z @ '' }''" by blast
  have "\<not> opens_block (''if '' @ ?r)" unfolding z opens_block_def by simp
  moreover have "simple_line ev att (''if '' @ ?r) env = one_line ev ?r env"
    unfolding simple_line_def Let_def by simp
  moreover have "one_line ev ?r env = (if env x = VStr [] then env(x := ev env e) else env)"
  proof -
    define lead where "lead = '' == '' @ [DQ, DQ] @ '' { '' @ x @ '' = ''"
    have "?r = (x @ lead) @ e @ '' }''" by (simp add: lead_def)
    then have d: "drop (length x + length lead) ?r = e @ '' }''" by (metis append_eq_conv_conj length_append)
    show ?thesis unfolding one_line_def Let_def s lead_def [symmetric] d using assms by simp
  qed
  ultimately show ?thesis by (subst block_run_simple) simp_all
qed

lemma body_span:
  assumes "list_all in_body body" "rest \<noteq> []" "\<not> in_body (hd rest)"
  shows "takeWhile in_body (body @ rest) = body" "dropWhile in_body (body @ rest) = rest"
  using assms by (cases rest; auto simp: list_all_iff takeWhile_append2 dropWhile_append2)+

lemma body_lines:
  "list_all block_line body \<Longrightarrow> list_all in_body body" "list_all indented body \<Longrightarrow> list_all in_body body"
  by (auto simp: list_all_iff block_line_def in_body_def indented_def)

lemma if_line_opens: "opens_block (if_line p)"
  by (simp add: opens_block_def if_line_def)

lemma not_in_body: "\<not> in_body ''}''" "\<not> in_body ''} else {''" "\<not> in_body (elif_line q)"
  by (simp_all add: in_body_def indented_def INDENT_def elif_line_def)

lemmas block_if = block_run.simps(2) [of ev att "if_line p" for ev att p, unfolded if_P [OF if_line_opens] if_line_parts]

lemma run_taken_block:
  assumes "list_all in_body body" "rest \<noteq> []" "\<not> in_body (hd rest)" "ev env p = VBool True"
  shows "block_run ev att (if_line p # body @ rest) env =
    block_run ev att (after_chain rest) (block_run ev att (map dedent body) env)"
  by (subst block_if) (simp add: body_span [OF assms(1-3)] assms(4))

lemma run_other_block:
  assumes "list_all in_body body" "ev env p \<noteq> VBool True"
  shows "block_run ev att (if_line p # body @ ''}'' # rest) env = block_run ev att rest env"
    "block_run ev att (if_line p # body @ elif_line q # rest) env = block_run ev att (if_line q # rest) env"
    "list_all in_body body' \<Longrightarrow> block_run ev att (if_line p # body @ ''} else {'' # body' @ ''}'' # rest) env =
      block_run ev att rest (block_run ev att (map dedent body') env)"
  by (subst block_if, use assms(2) in
      \<open>simp add: body_span [OF assms(1)] body_span [of body' "''}'' # rest"] not_in_body after_chain_def\<close>)+

lemma record_entry_line:
  assumes "DQ \<notin> set (fst e)"
  shows "record_entry ev env (entry_line e) = (fst e, ev env (snd e))"
proof -
  have "takeWhile (\<lambda>c. c \<noteq> DQ) (fst e @ [DQ] @ '': '' @ snd e @ '','') = fst e"
    using assms by (subst takeWhile_append2) auto
  then show ?thesis
    by (simp add: record_entry_def entry_line_def INDENT_def Let_def butlast_append)
qed

lemma run_record_lines:
  assumes "\<forall>e \<in> set entries. DQ \<notin> set (fst e)"
  shows "block_run ev att (''.ss = {'' # map entry_line entries @ [''}'']) env =
    env(''.ss'' := VObj (map (\<lambda>e. (fst e, ev env (snd e))) entries))"
proof -
  have "takeWhile (\<lambda>l. l \<noteq> ''}'') (map entry_line entries @ [''}'']) = map entry_line entries"
    by (subst takeWhile_append2) (auto simp: entry_line_def INDENT_def)
  moreover have "map (record_entry ev env \<circ> entry_line) entries = map (\<lambda>e. (fst e, ev env (snd e))) entries"
    using assms by (simp add: record_entry_line)
  ultimately show ?thesis by (simp add: block_run.simps(2) opens_block_def del: map_eq_conv)
qed

interpretation message_vrl: vrl_program "line_eval (message_eval (std_call (plain_std ft cd)) (plain_std ft cd) P)"
  "block_run (line_eval (message_eval (std_call (plain_std ft cd)) (plain_std ft cd) P)) (message_attempt P)"
  "std_call (plain_std ft cd)" "plain_std ft cd" "message_attempt P" "\<lambda>env e. e" P for ft cd P
proof -
  let ?S = "plain_std ft cd"
  let ?ev = "line_eval (message_eval (std_call ?S) ?S P)" and ?at = "message_attempt P"
  show "vrl_program ?ev (block_run ?ev ?at) (std_call ?S) ?S ?at (\<lambda>env e. e) P"
  proof unfold_locales
    fix ls :: "string list" and env :: venv
    show "block_run ?ev ?at [] env = env" by simp
    show "block_run ?ev ?at ([] # ls) env = block_run ?ev ?at ls env"
      by (subst block_run_simple) (simp_all add: opens_block_def simple_line_def is_var_def Let_def)
    show "block_run ?ev ?at ((CHR ''#'' # t) # ls) env = block_run ?ev ?at ls env" for t
      by (subst block_run_simple) (simp_all add: opens_block_def simple_line_def is_var_def Let_def var_char_def)
    show "is_var x \<Longrightarrow> block_run ?ev ?at ((x @ '' = '' @ e) # ls) env = block_run ?ev ?at ls (env(x := ?ev env e))" for x e
      by (rule simple_assign)
    show "is_var x \<Longrightarrow> is_var y \<Longrightarrow> block_run ?ev ?at ((x @ '', '' @ y @ '' = '' @ e) # ls) env =
      block_run ?ev ?at ls (case ?at env e of
        Some v \<Rightarrow> env(x := v, y := VNull) | None \<Rightarrow> env(x := VObj [], y := VStr e))" for x y e
      by (rule simple_attempt)
    show "is_var x \<Longrightarrow>
      block_run ?ev ?at ((''if '' @ x @ '' == '' @ [DQ, DQ] @ '' { '' @ x @ '' = '' @ e @ '' }'') # ls) env =
        block_run ?ev ?at ls (if env x = VStr [] then env(x := ?ev env e) else env)" for x e
      by (rule simple_one_line)
    show "\<forall>e \<in> set entries. DQ \<notin> set (fst e) \<Longrightarrow>
      block_run ?ev ?at (''.ss = {'' # map entry_line entries @ [''}'']) env =
        env(''.ss'' := VObj (map (\<lambda>e. (fst e, ?ev env (snd e))) entries))" for entries
      by (rule run_record_lines)
  next
    fix body rest :: "string list" and env :: venv and p :: string
    assume "list_all block_line body" "?ev env p = VBool True"
      "hd rest \<in> insert ''}'' (insert ''} else {'' (range elif_line))" "rest \<noteq> []"
    then show "block_run ?ev ?at (if_line p # body @ rest) env =
        block_run ?ev ?at (after_chain rest) (block_run ?ev ?at (map dedent body) env)"
      using not_in_body by (intro run_taken_block) (auto dest: body_lines)
  next
    fix body rest :: "string list" and env :: venv and p :: string
    assume "list_all indented body" "?ev env p = VBool True"
    then show "block_run ?ev ?at (if_line p # body @ ''}'' # rest) env =
        block_run ?ev ?at rest (block_run ?ev ?at (map dedent body) env)"
      using run_taken_block [of body "''}'' # rest" ?ev env p ?at]
      by (auto simp: not_in_body after_chain_def dest: body_lines)
  next
    fix t es env bs
    assume p: "parse_predicate t = Some es"
      "those (map (vsem (std_call ?S) (std_round ?S) env) es) = Some (map VBool bs)"
    show "?ev env t = VBool (list_all (\<lambda>b. b) bs)"
      unfolding predicate_text [OF p(1)] using p by (simp add: predicate_eval_def list.pred_map comp_def)
  next
    fix body rest :: "string list" and env :: venv and p q :: string
    assume b: "list_all block_line body" and p: "?ev env p \<noteq> VBool True"
    show "block_run ?ev ?at (if_line p # body @ elif_line q # rest) env = block_run ?ev ?at (if_line q # rest) env"
      "block_run ?ev ?at (if_line p # body @ ''}'' # rest) env = block_run ?ev ?at rest env"
      using body_lines(1) [OF b] p by (auto intro: run_other_block)
    show "list_all block_line body' \<Longrightarrow>
      block_run ?ev ?at (if_line p # body @ ''} else {'' # body' @ ''}'' # rest) env =
        block_run ?ev ?at rest (block_run ?ev ?at (map dedent body') env)" for body'
      using body_lines(1) [OF b] body_lines(1) [of body'] p by (auto intro: run_other_block)
  next
    fix body rest :: "string list" and env :: venv and p :: string
    assume "list_all indented body" "?ev env p \<noteq> VBool True"
    then show "block_run ?ev ?at (if_line p # body @ ''}'' # rest) env = block_run ?ev ?at rest env"
      using body_lines(2) [of body] by (auto intro: run_other_block)
  next
    fix env :: venv
    show "encode_path f = Inr path \<Longrightarrow> env ''ev'' = VObj kv \<Longrightarrow> ?ev env (summary_expr path) =
      VStr (text_of ?S (walk (VObj kv) (py_split CHR ''.'' f)))" for f path kv
      by (simp add: summary_text_value)
    show "is_var x \<Longrightarrow> ?ev env (x @ '' != null'') = VBool (env x \<noteq> VNull)" for x
      by (rule not_null_text)
  qed (simp_all only: special_values,
      simp_all add: text_value_def object_value_def message_attempt_def cong: option.case_cong)
qed

section \<open>Properties\<close>

lemma compile_chain_lines:
  assumes "compile_chain ch v = Inr t"
  obtains ls where "chain_lines ch v = Inr ls" "t = lines_text (PRELUDE_LINES @ [] # ls)"
proof -
  obtain ls where "chain_lines ch v = Inr ls" "t = lines_text (PRELUDE # ls)"
    using assms join_lines [of "PRELUDE # _"] by (auto simp: compile_chain_def bindR_Inr_iff)
  with that show thesis by (simp add: PRELUDE_lines)
qed

lemma compiled_program_runs:
  assumes "vrl_program eval run call S attempt message_of P" "compile_chain ch v = Inr t"
    and "env ''.message'' = VStr raw" "read_event S P raw = e"
  obtains ls where "t = lines_text ls"
    "run ls env ''.ss'' = VObj (ss_record S P v e (decide ch (readable e) (rule_matches S (re_fields e))))"
    "\<And>k. k \<noteq> ''ss'' \<Longrightarrow> run ls env (CHR ''.'' # k) = env (CHR ''.'' # k)"
proof (rule compile_chain_lines [OF assms(2)])
  fix ls assume ls: "chain_lines ch v = Inr ls" "t = lines_text (PRELUDE_LINES @ [] # ls)"
  show thesis
    using that [OF ls(2)] vrl_program.runs_on_message [where env = env and raw = raw, OF assms(1) ls(1) assms(3,4)]
    by blast
qed

text \<open>
  A syslog frame whose parser gives no message: the fallback to the raw text after \<open>get\<close> is for
  errors, and a missing key is null, which converts to the empty text.
\<close>

lemma missing_message_reads_empty:
  assumes "ps_syslog P raw = Some kv" "map_of kv ''message'' = None" "std_text S VNull = Some []"
  shows "cef_body S P raw = []"
  using assms by (simp add: cef_body_def)

text \<open>The CEF marker: a body that is no CEF because the frame's tag was stripped is read from the marker on.\<close>

lemma stripped_tag_recovered:
  assumes "ps_cef P (cef_body S P raw) = None" "find_text ''CEF:'' raw = Some i" "ps_cef P (drop i raw) = Some kv"
  shows "re_cef (read_event S P raw)" "cef_fields_of S P raw = Some kv"
  using assms by (simp_all add: read_event_def cef_fields_of_def Let_def)

text \<open>Parsers, a message whose syslog parser strips the CEF tag, and the message alone, for the instances.\<close>

definition sample_parsers :: parsers where
  "sample_parsers =
     \<lparr>ps_syslog = (\<lambda>s. if py_startswith ''<134>'' s
        then Some [(''Hostname'', VStr ''fw-01''), (''appname'', VStr ''CEF''), (''message'', VStr (drop 16 s))] else None),
      ps_cef = (\<lambda>s. if py_startswith ''CEF:'' s
        then Some [(''FilterHostName'', VStr (drop 7 s)), (''severity'', VStr ''9'')] else None),
      ps_lower = map (\<lambda>(k, v). (py_lower k, v)), ps_now = ''2026-01-01T00:00:00Z''\<rparr>"

definition sample_message :: string where
  "sample_message = ''<134>fw-01 CEF: 0|FW-01''"

definition message_env :: "string \<Rightarrow> venv" where
  "message_env s = (\<lambda>x. VNull)(''.message'' := VStr s)"

definition demo_eval :: "venv \<Rightarrow> string \<Rightarrow> vrl_value" where
  "demo_eval = line_eval (message_eval (std_call sample_std) sample_std sample_parsers)"

definition demo_run :: "string list \<Rightarrow> venv \<Rightarrow> venv" where
  "demo_run = block_run demo_eval (message_attempt sample_parsers)"

lemma sample_program: "vrl_program demo_eval demo_run (std_call sample_std) sample_std
    (message_attempt sample_parsers) (\<lambda>env e. e) sample_parsers"
  unfolding demo_run_def demo_eval_def sample_std_def by (rule message_vrl.vrl_program_axioms)

lemma sample_compiled: "\<exists>t. compile_chain sample_chain 7 = Inr t"
  using sample_chain_lines by (auto simp: compile_chain_def)





end
