(* ===== verification/Json.thy ===== *)
theory Json
  imports Prelude Rule_Model
begin

text \<open>
  JSON documents as Python holds them: the configuration dictionary, audit snapshots, the output
  of \<open>json.loads\<close>. An object is an association list in insertion order.
\<close>

datatype json =
    JNull
  | JBool bool
  | JInt int
  | JFloat pyfloat
  | JStr string
  | JList "json list"
  | JObj "(string \<times> json) list"

text \<open>\<open>d.get(key)\<close> and \<open>key in d\<close> on a dictionary; absent on anything else.\<close>

fun jget :: "string \<Rightarrow> json \<Rightarrow> json option" where
  "jget k (JObj kvs) = map_of kvs k"
| "jget k j = None"

text \<open>A chain of subscripts.\<close>

fun jpath :: "string list \<Rightarrow> json \<Rightarrow> json option" where
  "jpath [] j = Some j"
| "jpath (k # ks) j = (case jget k j of None \<Rightarrow> None | Some j' \<Rightarrow> jpath ks j')"

fun jkeys :: "json \<Rightarrow> string list" where
  "jkeys (JObj kvs) = map fst kvs"
| "jkeys j = []"

fun jstrings :: "json \<Rightarrow> string list" where
  "jstrings (JList js) = concat (map (\<lambda>j. case j of JStr s \<Rightarrow> [s] | _ \<Rightarrow> []) js)"
| "jstrings j = []"

text \<open>The truth value of a document.\<close>

fun truthy :: "json \<Rightarrow> bool" where
  "truthy JNull = False"
| "truthy (JBool b) = b"
| "truthy (JInt i) = (i \<noteq> 0)"
| "truthy (JFloat f) = (case f of Finite n k e \<Rightarrow> k \<noteq> 0 | _ \<Rightarrow> True)"
| "truthy (JStr s) = (s \<noteq> [])"
| "truthy (JList js) = (js \<noteq> [])"
| "truthy (JObj kvs) = (kvs \<noteq> [])"

lemma jget_JObj_Some: "jget k (JObj kvs) = Some j \<Longrightarrow> (k, j) \<in> set kvs"
  by (simp add: map_of_SomeD)

lemma jget_keys: "jget k j \<noteq> None \<longleftrightarrow> k \<in> set (jkeys j)"
  by (cases j) (auto simp: map_of_eq_None_iff)

end
