(* ===== verification/Vector_Config.thy ===== *)
theory Vector_Config
  imports Prelude Json Rule_Model Encoder Compiler Lexical Program_Text
begin

text \<open>
  The Vector configuration around the compiled program, \<open>compiler/vector_config.py\<close>: the
  settings, the two auxiliary programs with the node name inserted as an encoded literal,
  the topology as a JSON document, and its rendering by the TOML writer, a parameter.
\<close>

definition MIN_VECTOR_VERSION :: string where
  "MIN_VECTOR_VERSION = ''0.51.0''"

record vector_settings =
  listen_address :: string
  elk_address :: string
  drop_audit_address :: string
  control_plane_url :: string
  receive_buffer_bytes :: int
  max_length :: int
  sample_rate :: int
  node_id :: string

text \<open>The defaults of the constructor.\<close>

definition default_vector_settings :: vector_settings where
  "default_vector_settings =
     \<lparr>listen_address = ''0.0.0.0:5514'', elk_address = ''127.0.0.1:5140'',
      drop_audit_address = ''127.0.0.1:5141'', control_plane_url = ''http://127.0.0.1:8000'',
      receive_buffer_bytes = 26214400, max_length = 65536, sample_rate = 100, node_id = ''node-1''\<rparr>"

section \<open>The auxiliary programs\<close>

text \<open>\<open>_AUDIT_VRL\<close> and \<open>_SAMPLE_VRL\<close>, split where \<open>%(node_id)s\<close> stands.\<close>

definition AUDIT_HEAD :: "string list" where
  \<open>AUDIT_HEAD = [
     ''# Build the drop audit record (D-02). Metadata always; the full event only when the rule'',
     ''# that matched opted in with retain_payload.'',
     ''retain = .ss.retain == true'',
     ''original = to_string(.message) ?? ""'',
     '''',
     ''. = {'',
     ''    "@timestamp": .ss.ts,'',
     ''    "decision": .ss.decision,'',
     ''    "reason": .ss.reason,'',
     ''    "rule_id": .ss.rule_id,'',
     ''    "rule_version": .ss.rule_version,'',
     ''    "chain_version": .ss.chain_version,'',
     ''    "event_id": .ss.event_id,'',
     ''    "severity": .ss.severity,'',
     ''    "host": .ss.host,'',
     ''    "name": .ss.name,'']\<close>

definition AUDIT_TAIL :: "string list" where
  \<open>AUDIT_TAIL = [
     ''}'',
     '''',
     ''if retain {'',
     ''    .raw = original'',
     ''}'']\<close>

definition SAMPLE_HEAD :: "string list" where
  \<open>SAMPLE_HEAD = [
     ''# Compact record for the live view. Vector samples before this runs, so the control plane'',
     ''# never sees event-rate traffic (D-37).'',
     ''. = {'',
     ''    "ts": .ss.ts,'',
     ''    "decision": .ss.decision,'',
     ''    "reason": .ss.reason,'',
     ''    "rule_id": .ss.rule_id,'',
     ''    "rule_version": .ss.rule_version,'',
     ''    "event_id": .ss.event_id,'']\<close>

definition SAMPLE_TAIL :: "string list" where
  \<open>SAMPLE_TAIL = [
     ''    # Which parser produced the fields. Without this the live view cannot explain why a rule'',
     ''    # did not match: a CEF rule against a plain syslog event looks identical to a bad rule.'',
     ''    "cef_ok": .ss.cef_ok,'',
     ''    "syslog_ok": .ss.syslog_ok,'',
     ''    "fields": {'',
     ''        "severity": .ss.severity,'',
     ''        "filterhostname": .ss.host,'',
     ''        "name": .ss.name,'',
     ''    },'',
     ''    "raw": to_string(.message) ?? "",'',
     ''}'']\<close>

text \<open>The line that holds the node name.\<close>

definition node_line :: "string \<Rightarrow> string" where
  \<open>node_line node_lit = ''    "node": '' @ node_lit @ '',''\<close>

definition AUDIT_VRL :: "string \<Rightarrow> string" where
  "AUDIT_VRL node_lit = lines_text (AUDIT_HEAD @ [node_line node_lit] @ AUDIT_TAIL)"

definition SAMPLE_VRL :: "string \<Rightarrow> string" where
  "SAMPLE_VRL node_lit = lines_text (SAMPLE_HEAD @ [node_line node_lit] @ SAMPLE_TAIL)"

section \<open>The topology\<close>

text \<open>\<open>s.rpartition(c)\<close>, the part before the last separator and the part after it.\<close>

definition rpartition :: "char \<Rightarrow> string \<Rightarrow> string \<times> string" where
  "rpartition c s =
     (if c \<in> set s
      then (let after = rev (takeWhile (\<lambda>x. x \<noteq> c) (rev s))
            in (take (length s - length after - 1) s, after))
      else ([], s))"

datatype config_error =
    CompileFailed compile_exn
  | NodeIdEncode encode_error
  | NoHost string
  | BadPort string

definition remap :: "string \<Rightarrow> (string \<times> json) list \<Rightarrow> string \<Rightarrow> json" where
  "remap input extra source =
     JObj ([(''type'', JStr ''remap''), (''inputs'', JList [JStr input]),
       (''drop_on_error'', JBool False)] @ extra @ [(''source'', JStr source)])"

definition sources :: "vector_settings \<Rightarrow> json" where
  "sources st = JObj [
     (''ingest'', JObj [
        (''type'', JStr ''socket''), (''mode'', JStr ''udp''), (''address'', JStr (listen_address st)),
        (''max_length'', JInt (max_length st)),
        (''receive_buffer_bytes'', JInt (receive_buffer_bytes st)),
        (''decoding'', JObj [(''codec'', JStr ''bytes'')])])]"

definition transforms :: "vector_settings \<Rightarrow> string \<Rightarrow> string \<Rightarrow> json" where
  \<open>transforms st decide_vrl node_lit = JObj [
     (''decide'', remap ''ingest'' [(''drop_on_abort'', JBool False)] decide_vrl),
     (''split'', JObj [
        (''type'', JStr ''route''), (''inputs'', JList [JStr ''decide'']),
        (''route'', JObj [
           (''forward'', JStr ''.ss.decision != "drop"''),
           (''dropped'', JStr ''.ss.decision == "drop"'')])]),
     (''audit'', remap ''split.dropped'' [] (AUDIT_VRL node_lit)),
     (''tail_sample'', JObj [
        (''type'', JStr ''sample''), (''inputs'', JList [JStr ''decide'']),
        (''rate'', JInt (sample_rate st)),
        (''exclude'', JStr ''.ss.decision == "drop"'')]),
     (''tail'', remap ''tail_sample'' [] (SAMPLE_VRL node_lit))]\<close>

definition sinks :: "vector_settings \<Rightarrow> json" where
  "sinks st = JObj [
     (''elk'', JObj [
        (''type'', JStr ''socket''), (''mode'', JStr ''udp''),
        (''inputs'', JList [JStr ''split.forward'', JStr ''split._unmatched'']),
        (''address'', JStr (elk_address st)), (''encoding'', JObj [(''codec'', JStr ''text'')])]),
     (''drop_audit'', JObj [
        (''type'', JStr ''socket''), (''mode'', JStr ''udp''), (''inputs'', JList [JStr ''audit'']),
        (''address'', JStr (drop_audit_address st)), (''encoding'', JObj [(''codec'', JStr ''json'')])]),
     (''control_plane_tail'', JObj [
        (''type'', JStr ''http''), (''inputs'', JList [JStr ''tail'']),
        (''uri'', JStr (control_plane_url st @ ''/api/decisions/intake'')), (''method'', JStr ''post''),
        (''encoding'', JObj [(''codec'', JStr ''json'')]),
        (''batch'', JObj [(''max_events'', JInt 50), (''timeout_secs'', JInt 2)]),
        (''request'', JObj [(''retry_attempts'', JInt 1), (''timeout_secs'', JInt 5)]),
        (''buffer'', JObj [(''type'', JStr ''memory''), (''max_events'', JInt 500),
           (''when_full'', JStr ''drop_newest'')])]),
     (''metrics'', JObj [
        (''type'', JStr ''prometheus_exporter''), (''inputs'', JList [JStr ''decide'']),
        (''address'', JStr ''0.0.0.0:9598'')])]"

definition build_config ::
    "rule_chain \<Rightarrow> vector_settings \<Rightarrow> int \<Rightarrow> (config_error, json) result" where
  "build_config ch st v =
     (let (host, port) = rpartition CHR '':'' (listen_address st) in
      bindR (mapError CompileFailed (compile_or_raise ch v)) (\<lambda>decide_vrl.
        bindR (mapError NodeIdEncode (encode_string (node_id st))) (\<lambda>node_lit.
          if host = [] then Inl (NoHost (listen_address st))
          else if \<not> py_isdigit port then Inl (BadPort (listen_address st))
          else Inr (JObj [(''sources'', sources st), (''transforms'', transforms st decide_vrl node_lit),
                          (''sinks'', sinks st)]))))"

text \<open>\<open>tomli_w.dumps\<close> is a parameter.\<close>

definition render_toml ::
    "(json \<Rightarrow> string) \<Rightarrow> rule_chain \<Rightarrow> vector_settings \<Rightarrow> int \<Rightarrow> (config_error, string) result" where
  "render_toml dumps ch st v = bindR (build_config ch st v) (\<lambda>config. Inr (dumps config))"

section \<open>The graph of the topology\<close>

text \<open>The components other components can read from: sources, transforms, and for a \<open>route\<close>
  its routes and the implicit one for events that match none.\<close>

definition transform_outputs :: "string \<times> json \<Rightarrow> string list" where
  "transform_outputs = (\<lambda>(name, t).
     if jget ''type'' t = Some (JStr ''route'')
     then map (\<lambda>r. name @ ''.'' @ r) (''_unmatched'' # (case jget ''route'' t of Some r \<Rightarrow> jkeys r | None \<Rightarrow> []))
     else [name])"

fun members :: "json option \<Rightarrow> (string \<times> json) list" where
  "members (Some (JObj kvs)) = kvs"
| "members j = []"

definition outputs :: "json \<Rightarrow> string list" where
  "outputs config = map fst (members (jget ''sources'' config)) @
     concat (map transform_outputs (members (jget ''transforms'' config)))"

definition inputs_of :: "json \<Rightarrow> string list" where
  "inputs_of t = (case jget ''inputs'' t of Some js \<Rightarrow> jstrings js | None \<Rightarrow> [])"

definition readers :: "json \<Rightarrow> (string \<times> json) list" where
  "readers config = members (jget ''transforms'' config) @ members (jget ''sinks'' config)"

text \<open>Every input names an output, and every output but the sampled one is read.\<close>

definition wired :: "json \<Rightarrow> bool" where
  "wired config \<longleftrightarrow>
     list_all (\<lambda>(name, t). inputs_of t \<noteq> [] \<and> list_all (\<lambda>i. i \<in> set (outputs config)) (inputs_of t)) (readers config)"

definition unread :: "json \<Rightarrow> string list" where
  "unread config = filter (\<lambda>out. \<not> list_ex (\<lambda>(name, t). out \<in> set (inputs_of t)) (readers config)) (outputs config)"

text \<open>No remap transform drops an event on a runtime error.\<close>

definition keeps_on_error :: "json \<Rightarrow> bool" where
  "keeps_on_error config \<longleftrightarrow>
     list_all (\<lambda>(name, t). jget ''type'' t = Some (JStr ''remap'') \<longrightarrow> jget ''drop_on_error'' t = Some (JBool False))
       (members (jget ''transforms'' config))"

lemma remap_get [simp]:
  "jget ''type'' (remap i x s) = Some (JStr ''remap'')"
  "jget ''inputs'' (remap i x s) = Some (JList [JStr i])"
  "jget ''drop_on_error'' (remap i x s) = Some (JBool False)"
  by (simp_all add: remap_def)

lemma build_config_Inr_iff:
  "build_config ch st v = Inr c \<longleftrightarrow>
     (\<exists>decide_vrl node_lit. compile_or_raise ch v = Inr decide_vrl \<and> encode_string (node_id st) = Inr node_lit \<and>
        fst (rpartition CHR '':'' (listen_address st)) \<noteq> [] \<and>
        py_isdigit (snd (rpartition CHR '':'' (listen_address st))) \<and>
        c = JObj [(''sources'', sources st), (''transforms'', transforms st decide_vrl node_lit), (''sinks'', sinks st)])"
  by (auto simp: build_config_def Let_def split_def bindR_Inr_iff mapError_Inr_iff)

lemma topology_wired:
  "wired (JObj [(''sources'', sources st), (''transforms'', transforms st d n), (''sinks'', sinks st)])"
  by (simp add: wired_def readers_def outputs_def inputs_of_def transform_outputs_def sources_def
      transforms_def sinks_def)

lemma topology_unread:
  "unread (JObj [(''sources'', sources st), (''transforms'', transforms st d n), (''sinks'', sinks st)]) = []"
  by (simp add: unread_def readers_def outputs_def inputs_of_def transform_outputs_def sources_def
      transforms_def sinks_def)

lemma topology_keeps:
  "keeps_on_error (JObj [(''sources'', sources st), (''transforms'', transforms st d n), (''sinks'', sinks st)])"
  by (simp add: keeps_on_error_def transforms_def)

section \<open>Addresses and node names\<close>

lemma rpartition_last:
  assumes "c \<notin> set p"
  shows "rpartition c (h @ c # p) = (h, p)"
proof -
  have "takeWhile (\<lambda>x. x \<noteq> c) (rev p @ c # rev h) = rev p"
    by (subst takeWhile_append2) (use assms in auto)
  then show ?thesis by (simp add: rpartition_def Let_def)
qed

lemma rpartition_iff:
  "(fst (rpartition c s) \<noteq> [] \<and> py_isdigit (snd (rpartition c s))) \<longleftrightarrow>
     (\<exists>h p. s = h @ c # p \<and> c \<notin> set p \<and> h \<noteq> [] \<and> py_isdigit p)"
proof
  assume a: "fst (rpartition c s) \<noteq> [] \<and> py_isdigit (snd (rpartition c s))"
  then have "c \<in> set s" by (simp add: rpartition_def split: if_splits)
  then obtain h p where "s = h @ c # p" "c \<notin> set p"
    using split_list_last by metis
  with a rpartition_last [of c p h] show "\<exists>h p. s = h @ c # p \<and> c \<notin> set p \<and> h \<noteq> [] \<and> py_isdigit p"
    by auto
qed (auto simp: rpartition_last)

lemma lexed_templates:
  "list_all (\<lambda>l. lexed (l @ [NL])) AUDIT_HEAD" "list_all (\<lambda>l. lexed (l @ [NL])) AUDIT_TAIL"
  "list_all (\<lambda>l. lexed (l @ [NL])) SAMPLE_HEAD" "list_all (\<lambda>l. lexed (l @ [NL])) SAMPLE_TAIL"
  by code_simp+

lemmas lexed_template_lines = lexed_templates [THEN lexed_lines]

definition node_frags :: "string list \<Rightarrow> string \<Rightarrow> string list \<Rightarrow> frag list" where
  "node_frags head n tail =
     lex_lines head @ [Txt ''    '', Lit ''node'', Txt '': '', Lit n, Txt ('','' @ [NL])] @ lex_lines tail"

lemma node_render:
  assumes "list_all (\<lambda>l. lexed (l @ [NL])) head" "list_all (\<lambda>l. lexed (l @ [NL])) tail"
    and "encode_string n = Inr t"
  shows "lines_text (head @ [node_line t] @ tail) = render (node_frags head n tail)"
proof -
  have "render_frag (Lit ''node'') = DQ # ''node'' @ [DQ]" by code_simp
  then show ?thesis
    using lexed_lines [OF assms(1)] lexed_lines [OF assms(2)] encode_string_frag [OF assms(3)]
    by (simp add: node_frags_def node_line_def del: render_frag.simps(2))
qed

lemma node_skeleton:
  assumes "list_all (\<lambda>l. lexed (l @ [NL])) head" "list_all (\<lambda>l. lexed (l @ [NL])) tail"
  shows "foldl skel_step (K_Code, []) (render (node_frags head n tail)) =
    foldl skel_step (K_Code, []) (render (node_frags head m tail))"
  by (rule skel.scan_program_same_shape)
    (use lexed_lines [OF assms(1)] lexed_lines [OF assms(2)] in \<open>simp_all add: node_frags_def skel_in_code_def\<close>)

lemma node_balanced:
  assumes "list_all (\<lambda>l. lexed (l @ [NL])) head" "list_all (\<lambda>l. lexed (l @ [NL])) tail"
    and "balanced (render (node_frags head [] tail))"
  shows "balanced (render (node_frags head n tail))"
proof -
  have "foldl bal_step bal_init (render (node_frags head n tail)) =
    foldl bal_step bal_init (render (node_frags head [] tail))"
    by (rule bal.scan_program_same_shape)
      (use lexed_lines [OF assms(1)] lexed_lines [OF assms(2)] in
        \<open>simp_all add: node_frags_def bal_in_code_def bal_init_def\<close>)
  with assms(3) show ?thesis by (simp add: balanced_def)
qed

lemma templates_balanced:
  "balanced (render (node_frags AUDIT_HEAD [] AUDIT_TAIL))" "balanced (render (node_frags SAMPLE_HEAD [] SAMPLE_TAIL))"
  by code_simp+

section \<open>Properties\<close>

text \<open>Building a configuration succeeds exactly when the chain compiles, the node name fits a
  literal, and the listen address is a nonempty host and a digit port around its last colon.\<close>

theorem build_config_succeeds_iff:
  "(\<exists>c. build_config ch st v = Inr c) \<longleftrightarrow>
     (\<exists>p. compile_or_raise ch v = Inr p) \<and> length (node_id st) \<le> MAX_STRING_LEN \<and>
     (\<exists>h p. listen_address st = h @ CHR '':'' # p \<and> CHR '':'' \<notin> set p \<and> h \<noteq> [] \<and> py_isdigit p)"
  unfolding rpartition_iff [symmetric]
  by (auto simp: build_config_Inr_iff encode_string_Inr_iff MAX_STRING_LEN_def)

text \<open>A chain without rules, for the concrete instances.\<close>

definition empty_chain :: rule_chain where
  "empty_chain = \<lparr>chain_rules = [], default_action = FORWARD, shadow_mode = False\<rparr>"

lemma empty_chain_compiles: "\<exists>p. compile_or_raise empty_chain 1 = Inr p"
proof -
  have "succeeds (chain_lines empty_chain 1)" by code_simp
  then show ?thesis by (auto simp: succeeds_iff compile_or_raise_def compile_chain_def)
qed

text \<open>In every configuration that is built, each transform and sink reads only from declared
  components or routes, no output is left unread (the implicit route for events that match neither
  route included), no remap drops an event on a runtime error, and the deciding transform
  runs exactly the compiled program.\<close>

theorem topology_fail_open:
  assumes "build_config ch st v = Inr c"
  shows "wired c \<and> unread c = [] \<and> keeps_on_error c \<and>
    jpath [''sinks'', ''elk'', ''inputs''] c = Some (JList [JStr ''split.forward'', JStr ''split._unmatched'']) \<and>
    jpath [''transforms'', ''decide'', ''drop_on_abort''] c = Some (JBool False) \<and>
    (case compile_or_raise ch v of
       Inr p \<Rightarrow> jpath [''transforms'', ''decide'', ''source''] c = Some (JStr p) | Inl e \<Rightarrow> False)"
proof -
  obtain d n where d: "compile_or_raise ch v = Inr d"
    and c: "c = JObj [(''sources'', sources st), (''transforms'', transforms st d n), (''sinks'', sinks st)]"
    using assms by (auto simp: build_config_Inr_iff)
  have "jpath [''transforms'', ''decide'', ''source''] c = Some (JStr d)"
    "jpath [''transforms'', ''decide'', ''drop_on_abort''] c = Some (JBool False)"
    by (simp_all add: c transforms_def remap_def)
  moreover have "jpath [''sinks'', ''elk'', ''inputs''] c = Some (JList [JStr ''split.forward'', JStr ''split._unmatched''])"
    by (simp add: c sinks_def)
  ultimately show ?thesis
    using topology_wired [of st d n] topology_unread [of st d n] topology_keeps [of st d n] d
    by (simp add: c del: jpath.simps)
qed

theorem topology_fail_open_witness:
  "\<exists>c. build_config empty_chain default_vector_settings 1 = Inr c \<and> wired c \<and> unread c = []"
proof -
  have "succeeds (encode_string (node_id default_vector_settings)) \<and>
    fst (rpartition CHR '':'' (listen_address default_vector_settings)) \<noteq> [] \<and>
    py_isdigit (snd (rpartition CHR '':'' (listen_address default_vector_settings)))"
    by code_simp
  then obtain c where c: "build_config empty_chain default_vector_settings 1 = Inr c"
    using empty_chain_compiles by (auto simp: build_config_Inr_iff succeeds_iff)
  show ?thesis using topology_fail_open [OF c] c by blast
qed

text \<open>The node name reaches the audit and sample programs as one encoded literal: both programs
  have balanced brackets whatever the name is, and the text outside their literals and comments does not
  depend on it.\<close>

theorem node_name_stays_literal:
  assumes "encode_string n = Inr a" "encode_string m = Inr b"
  shows "skeleton (AUDIT_VRL a) = skeleton (AUDIT_VRL b) \<and> skeleton (SAMPLE_VRL a) = skeleton (SAMPLE_VRL b) \<and>
    balanced (AUDIT_VRL a) \<and> balanced (SAMPLE_VRL a)"
proof -
  note audit = node_render [OF lexed_templates(1,2)] and sample = node_render [OF lexed_templates(3,4)]
  note skel = node_skeleton [OF lexed_templates(1,2), of n m] node_skeleton [OF lexed_templates(3,4), of n m]
  note bal = node_balanced [OF lexed_templates(1,2) templates_balanced(1), of n]
    node_balanced [OF lexed_templates(3,4) templates_balanced(2), of n]
  show ?thesis
    unfolding skeleton_def AUDIT_VRL_def SAMPLE_VRL_def audit [OF assms(1)] audit [OF assms(2)]
      sample [OF assms(1)] sample [OF assms(2)] using skel bal by simp
qed

theorem node_name_stays_literal_witness:
  "\<exists>a b. encode_string ([DQ, NL] @ ''}'') = Inr a \<and> encode_string ''node-1'' = Inr b \<and>
     skeleton (AUDIT_VRL a) = skeleton (AUDIT_VRL b)"
proof -
  have "succeeds (encode_string ([DQ, NL] @ ''}''))" "succeeds (encode_string ''node-1'')" by code_simp+
  then obtain a b where ab: "encode_string ([DQ, NL] @ ''}'') = Inr a" "encode_string ''node-1'' = Inr b"
    by (auto simp: succeeds_iff)
  show ?thesis using node_name_stays_literal [OF ab] ab by blast
qed

end
