(* ===== verification/Validate.thy ===== *)
theory Validate
  imports Prelude Json
begin

text \<open>
  The gate in front of every bundle, \<open>compiler/validate.py\<close>. The \<open>vector\<close> binary and
  \<open>json.loads\<close> are parameters: whether the binary is on the path, what a run of \<open>vector validate\<close>
  on a configuration and of \<open>vector vrl\<close> on a program and an input file returns, and what a line
  parses to. Messages are kept as their parts.
\<close>

section \<open>The probe corpus\<close>

definition PROBE_CORPUS :: "string list" where
  "PROBE_CORPUS = [
     ''<134>Jul 30 12:00:00 host CEF:0|v|p|1|1|Name|5|eventid=1'',
     ''CEF:0|v|p|1|1|Name|5|eventid=1 filterhostname=web-01'',
     ''<134>Jul 30 12:00:00 web-01 sshd[1234]: Failed password for bob'',
     ''<165>1 2026-07-30T12:00:00Z web-01 myapp 8710 ID47 - a message'',
     ''this is not syslog and definitely not CEF'']"

text \<open>The events file: \<open>json.dumps\<close> of one object per probe; the probes need no escapes.\<close>

definition probe_input :: string where
  \<open>probe_input = concat (map (\<lambda>m. ''{"message": "'' @ m @ ''"}'' @ [NL]) PROBE_CORPUS)\<close>

section \<open>Results\<close>

datatype validation_output =
    BinaryNotFound
  | WrongCount nat nat string
  | Aborted string string
  | NoDecision string string
  | RanToCompletion nat
  | TimedOutIn string
  | ProcessOutput string

record validation_result =
  vr_ok :: bool
  vr_output :: validation_output
  vr_skipped :: bool
  vr_stage :: string

definition passed :: "validation_output \<Rightarrow> validation_result" where
  "passed out = \<lparr>vr_ok = True, vr_output = out, vr_skipped = False, vr_stage = []\<rparr>"

definition failed :: "string \<Rightarrow> validation_output \<Rightarrow> validation_result" where
  "failed stage out = \<lparr>vr_ok = False, vr_output = out, vr_skipped = False, vr_stage = stage\<rparr>"

definition skipped_result :: validation_result where
  "skipped_result = \<lparr>vr_ok = True, vr_output = BinaryNotFound, vr_skipped = True, vr_stage = []\<rparr>"

text \<open>A finished process: exit code, standard output, standard error; or a timeout.\<close>

datatype process = Exited int string string | TimedOut

record toolchain =
  vector_on_path :: bool
  vector_validate :: "string \<Rightarrow> process"
  vector_vrl :: "string \<Rightarrow> string \<Rightarrow> process"
  json_loads :: "string \<Rightarrow> json option"

text \<open>\<open>_run\<close> strips both streams.\<close>

fun run_process :: "process \<Rightarrow> process" where
  "run_process (Exited code out err) = Exited code (py_strip out) (py_strip err)"
| "run_process TimedOut = TimedOut"

section \<open>Lines\<close>

text \<open>\<open>str.splitlines\<close>: the line boundaries below U+0100, with CR LF as one boundary.\<close>

definition is_line_break :: "char \<Rightarrow> bool" where
  "is_line_break c \<longleftrightarrow> ord c \<in> {10, 11, 12, 13, 28, 29, 30, 133}"

fun split_lines :: "string \<Rightarrow> string \<Rightarrow> string list" where
  "split_lines acc [] = (if acc = [] then [] else [rev acc])"
| "split_lines acc (c # cs) =
     (if c = CR then
        rev acc # (case cs of [] \<Rightarrow> [] | d # ds \<Rightarrow> if d = NL then split_lines [] ds else split_lines [] (d # ds))
      else if is_line_break c then rev acc # split_lines [] cs
      else split_lines (c # acc) cs)"

definition py_splitlines :: "string \<Rightarrow> string list" where
  "py_splitlines s = split_lines [] s"

lemma split_line:
  "list_all (\<lambda>c. \<not> is_line_break c) l \<Longrightarrow> split_lines acc (l @ NL # rest) = (rev acc @ l) # split_lines [] rest"
  by (induction l arbitrary: acc) (auto simp: is_line_break_def)

lemma splitlines_text:
  "\<forall>l \<in> set ls. list_all (\<lambda>c. \<not> is_line_break c) l \<Longrightarrow>
     py_splitlines (lines_text ls @ rest) = ls @ py_splitlines rest"
  by (induction ls) (auto simp: lines_text_def py_splitlines_def split_line)

section \<open>The runtime check\<close>

fun is_decision :: "json \<Rightarrow> bool" where
  "is_decision (JObj kvs) = (''decision'' \<in> set (map fst kvs))"
| "is_decision j = False"

text \<open>The loop over the zipped corpus and lines, which raises when the lengths differ (\<open>strict\<close>).\<close>

fun check_events ::
    "(string \<Rightarrow> json option) \<Rightarrow> string list \<Rightarrow> string list \<Rightarrow> (unit, validation_result option) result" where
  "check_events loads [] [] = Inr None"
| "check_events loads (p # ps) (l # ls) =
     (case loads l of
        None \<Rightarrow> Inr (Some (failed ''runtime'' (Aborted p l)))
      | Some event \<Rightarrow>
          if \<not> is_decision event then Inr (Some (failed ''runtime'' (NoDecision p l)))
          else check_events loads ps ls)"
| "check_events loads ps ls = Inl ()"

definition output_lines :: "string \<Rightarrow> string list" where
  "output_lines stdout = filter (\<lambda>l. py_strip l \<noteq> []) (py_splitlines stdout)"

definition check_runtime_output ::
    "(string \<Rightarrow> json option) \<Rightarrow> string \<Rightarrow> nat \<Rightarrow> (unit, validation_result) result" where
  "check_runtime_output loads stdout expected =
     (let lines = output_lines stdout
      in if length lines \<noteq> expected then Inr (failed ''runtime'' (WrongCount expected (length lines) stdout))
         else bindR (check_events loads PROBE_CORPUS lines) (\<lambda>found.
           Inr (case found of Some r \<Rightarrow> r | None \<Rightarrow> passed (RanToCompletion expected))))"

definition validate_vrl :: "toolchain \<Rightarrow> string \<Rightarrow> (unit, validation_result) result" where
  "validate_vrl tc program =
     (if \<not> vector_on_path tc then Inr skipped_result
      else case run_process (vector_vrl tc program probe_input) of
        TimedOut \<Rightarrow> Inr (failed ''vrl'' (TimedOutIn ''vector vrl''))
      | Exited code out err \<Rightarrow>
          if code \<noteq> 0 then Inr (failed ''vrl'' (ProcessOutput (py_strip (out @ [NL] @ err))))
          else check_runtime_output (json_loads tc) out (length PROBE_CORPUS))"

definition validate_config ::
    "toolchain \<Rightarrow> string \<Rightarrow> string option \<Rightarrow> (unit, validation_result) result" where
  "validate_config tc toml_text vrl_program =
     (if \<not> vector_on_path tc then Inr skipped_result
      else case run_process (vector_validate tc toml_text) of
        TimedOut \<Rightarrow> Inr (failed ''config'' (TimedOutIn ''vector validate''))
      | Exited code out err \<Rightarrow>
          (let output = py_strip (out @ [NL] @ err)
           in if code \<noteq> 0 then Inr (failed ''config'' (ProcessOutput output))
              else case vrl_program of
                     Some program \<Rightarrow> validate_vrl tc program
                   | None \<Rightarrow> Inr (passed (ProcessOutput output))))"

section \<open>What passing means\<close>

text \<open>A line on which the program finished with a decision.\<close>

definition decided_line :: "(string \<Rightarrow> json option) \<Rightarrow> string \<Rightarrow> bool" where
  "decided_line loads l = (case loads l of None \<Rightarrow> False | Some event \<Rightarrow> is_decision event)"

lemma check_events_total: "length ps = length ls \<Longrightarrow> \<exists>r. check_events loads ps ls = Inr r"
  by (induction loads ps ls rule: check_events.induct) (auto split: option.splits)

lemma check_events_None_iff:
  "length ps = length ls \<Longrightarrow> check_events loads ps ls = Inr None \<longleftrightarrow> list_all (decided_line loads) ls"
  by (induction loads ps ls rule: check_events.induct) (auto simp: decided_line_def split: option.splits)

lemma check_events_Some:
  "check_events loads ps ls = Inr (Some r) \<Longrightarrow> \<not> vr_ok r \<and> \<not> vr_skipped r \<and> vr_stage r = ''runtime''"
  by (induction loads ps ls rule: check_events.induct) (auto simp: failed_def split: option.splits if_splits)

lemma check_runtime_total: "\<exists>r. check_runtime_output loads out (length PROBE_CORPUS) = Inr r"
  using check_events_total [of PROBE_CORPUS "output_lines out" loads]
  by (auto simp: check_runtime_output_def Let_def)

lemma check_runtime_ok_iff:
  "(\<exists>r. check_runtime_output loads out (length PROBE_CORPUS) = Inr r \<and> vr_ok r \<and> \<not> vr_skipped r) \<longleftrightarrow>
     length (output_lines out) = length PROBE_CORPUS \<and> list_all (decided_line loads) (output_lines out)"
proof (cases "length (output_lines out) = length PROBE_CORPUS")
  case True
  then obtain f where f: "check_events loads PROBE_CORPUS (output_lines out) = Inr f"
    using check_events_total by metis
  then show ?thesis
    using True check_events_None_iff [of PROBE_CORPUS "output_lines out" loads] check_events_Some [of loads]
    by (cases f) (auto simp: check_runtime_output_def Let_def passed_def)
qed (simp add: check_runtime_output_def Let_def failed_def)

section \<open>Properties\<close>

text \<open>The gate passes a configuration and its program without skipping exactly when the binary is
  there, \<open>vector validate\<close> exits with zero, \<open>vector vrl\<close> exits with zero, and its output has one
  line per probe event, each a JSON object with a decision. The exit codes alone are not enough.\<close>

theorem validate_config_ok_iff:
  "(\<exists>r. validate_config tc toml (Some program) = Inr r \<and> vr_ok r \<and> \<not> vr_skipped r) \<longleftrightarrow>
     vector_on_path tc \<and>
     (\<exists>o1 e1 o2 e2. vector_validate tc toml = Exited 0 o1 e1 \<and>
        vector_vrl tc program probe_input = Exited 0 o2 e2 \<and>
        length (output_lines (py_strip o2)) = length PROBE_CORPUS \<and>
        list_all (decided_line (json_loads tc)) (output_lines (py_strip o2)))"
proof (cases "vector_on_path tc")
  case True
  show ?thesis
    using True check_runtime_ok_iff
    by (cases "vector_validate tc toml"; cases "vector_vrl tc program probe_input")
      (auto simp: validate_config_def validate_vrl_def failed_def Let_def)
qed (simp add: validate_config_def skipped_result_def)

text \<open>The gate always returns a verdict: the strict zip of probes and lines never raises, because
  the number of lines is compared first; and a failed verdict names the stage that failed.\<close>

theorem validate_config_total:
  "\<exists>r. validate_config tc toml program = Inr r \<and>
     (vr_ok r \<or> vr_stage r \<in> {''config'', ''vrl'', ''runtime''}) \<and> (vr_skipped r \<longleftrightarrow> \<not> vector_on_path tc)"
proof -
  have run: "\<exists>r. check_runtime_output (json_loads tc) out (length PROBE_CORPUS) = Inr r \<and>
      (vr_ok r \<or> vr_stage r \<in> {''config'', ''vrl'', ''runtime''}) \<and> \<not> vr_skipped r" for out
  proof -
    obtain r where r: "check_runtime_output (json_loads tc) out (length PROBE_CORPUS) = Inr r"
      using check_runtime_total by blast
    then have "(vr_ok r \<or> vr_stage r = ''runtime'') \<and> \<not> vr_skipped r"
      using check_events_Some
      by (fastforce simp: check_runtime_output_def Let_def passed_def failed_def bindR_Inr_iff split: if_splits option.splits)
    with r show ?thesis by auto
  qed
  then show ?thesis
    by (auto simp: validate_config_def validate_vrl_def failed_def passed_def skipped_result_def Let_def
        split: process.splits option.splits)
qed

end
