(* ===== verification/Settings.thy ===== *)
theory Settings
  imports Prelude Ip_Address
begin

text \<open>
  Runtime settings of the control plane, \<open>config.py\<close>: the settings record with its defaults, the
  two guards that refuse development conveniences on a public interface, and the process-wide
  cache. Reading environment variables is a parameter of \<open>get_settings\<close>.
\<close>

definition DEV_JWT_SECRET :: string where
  "DEV_JWT_SECRET = ''dev-secret-change-me-please-32b+''"

datatype auth_mode = Local | Oidc

record settings =
  bind_host :: string
  bind_port :: int
  database_url :: string
  jwt_secret :: string
  jwt_ttl_seconds :: int
  auth_mode :: auth_mode
  dev_auth_bypass :: bool
  vector_listen_address :: string
  vector_elk_address :: string
  vector_drop_audit_address :: string
  vector_receive_buffer_bytes :: int
  vector_sample_rate :: int
  cfg_control_plane_url :: string
  require_vector_on_publish :: bool
  tail_buffer_size :: int
  sample_store_max_events :: int
  sample_store_retain_raw :: bool

definition default_settings :: settings where
  "default_settings =
     \<lparr>bind_host = ''127.0.0.1'', bind_port = 8000, database_url = ''sqlite+pysqlite:///./sixthsense.db'',
      jwt_secret = DEV_JWT_SECRET, jwt_ttl_seconds = 8 * 3600, auth_mode = Local, dev_auth_bypass = False,
      vector_listen_address = ''0.0.0.0:5514'', vector_elk_address = ''127.0.0.1:5140'',
      vector_drop_audit_address = ''127.0.0.1:5141'', vector_receive_buffer_bytes = 26214400,
      vector_sample_rate = 100, cfg_control_plane_url = ''http://127.0.0.1:8000'',
      require_vector_on_publish = True, tail_buffer_size = 500, sample_store_max_events = 20000,
      sample_store_retain_raw = True\<rparr>"

datatype settings_error = SecretTooShort nat | DevBypassExposed string | DefaultSecretExposed string

definition binds_loopback_only :: "settings \<Rightarrow> bool" where
  "binds_loopback_only s =
     (if bind_host s \<in> {''localhost'', ''''} then True
      else case ip_address (bind_host s) of Some a \<Rightarrow> is_loopback a | None \<Rightarrow> False)"

definition guard_dev_bypass :: "settings \<Rightarrow> (settings_error, settings) result" where
  "guard_dev_bypass s =
     (if dev_auth_bypass s \<and> \<not> binds_loopback_only s then Inl (DevBypassExposed (bind_host s)) else Inr s)"

definition guard_default_secret :: "settings \<Rightarrow> (settings_error, settings) result" where
  "guard_default_secret s =
     (if jwt_secret s = DEV_JWT_SECRET \<and> \<not> binds_loopback_only s
      then Inl (DefaultSecretExposed (bind_host s)) else Inr s)"

text \<open>Constructing \<open>Settings\<close>: the length constraint of the secret, then the validators in order.\<close>

definition make_settings :: "settings \<Rightarrow> (settings_error, settings) result" where
  "make_settings s =
     (if length (jwt_secret s) < 32 then Inl (SecretTooShort (length (jwt_secret s)))
      else bindR (guard_dev_bypass s) guard_default_secret)"

text \<open>The cache: the first successful construction is kept until the test hook clears it.\<close>

definition get_settings ::
    "(settings_error, settings) result \<Rightarrow> settings option \<Rightarrow> (settings_error, settings) result \<times> settings option" where
  "get_settings construct cache =
     (case cache of
        Some s \<Rightarrow> (Inr s, cache)
      | None \<Rightarrow> (case construct of Inl e \<Rightarrow> (Inl e, None) | Inr s \<Rightarrow> (Inr s, Some s)))"

definition reset_settings_cache :: "settings option \<Rightarrow> settings option" where
  "reset_settings_cache cache = None"

section \<open>Properties\<close>

lemma binds_loopback_iff:
  "binds_loopback_only s \<longleftrightarrow>
     bind_host s \<in> {''localhost'', ''''} \<or> (\<exists>a. ip_address (bind_host s) = Some a \<and> is_loopback a)"
  by (simp add: binds_loopback_only_def split: option.splits)

lemma make_settings_Inr_iff:
  "make_settings s = Inr t \<longleftrightarrow>
     t = s \<and> 32 \<le> length (jwt_secret s) \<and>
     (binds_loopback_only s \<or> (\<not> dev_auth_bypass s \<and> jwt_secret s \<noteq> DEV_JWT_SECRET))"
  by (auto simp: make_settings_def guard_dev_bypass_def guard_default_secret_def)



text \<open>The empty host counts as loopback, although a server bound to it listens on every interface.\<close>

lemma empty_host_passes_guards:
  "make_settings (default_settings\<lparr>bind_host := '''', dev_auth_bypass := True\<rparr>) =
     Inr (default_settings\<lparr>bind_host := '''', dev_auth_bypass := True\<rparr>)"
  by code_simp

end
