(* ===== verification/Database.thy ===== *)
theory Database
  imports Prelude Rule_Model
begin

text \<open>
  The tables of \<open>db/models.py\<close>, the manifest of \<open>models/bundle.py\<close>, and the session of
  \<open>db/session.py\<close>: the committed database and the database as the open transaction sees it.
  A table is a list of rows in insertion order. Time stamps are integers the caller supplies.
\<close>

section \<open>Rows\<close>

record rule_row =
  row_id :: string
  row_name :: string
  row_description :: string
  row_enabled :: bool
  row_order :: int
  row_action :: string
  row_conditions :: "condition list"
  row_output :: string
  row_retain :: bool
  row_shadow :: bool
  row_version :: int
  row_updated :: int

record chain_settings_row =
  cs_default_action :: string
  cs_shadow_mode :: bool

record bundle_manifest =
  bm_version :: int
  bm_checksum :: string
  bm_created_at :: int
  bm_created_by :: string
  bm_rule_ids :: "string list"
  bm_default_action :: string
  bm_shadow_mode :: bool
  bm_vector_min_version :: string
  bm_note :: string

record bundle_row =
  br_version :: int
  br_checksum :: string
  br_config_toml :: string
  br_manifest :: bundle_manifest
  br_created_at :: int
  br_created_by :: string
  br_active :: bool
  br_note :: string

text \<open>What an audit row records before and after the change.\<close>

datatype snapshot =
    No_Snapshot
  | Rule_Snapshot rule
  | Settings_Snapshot string bool
  | Manifest_Snapshot bundle_manifest
  | Version_Snapshot int

record audit_row =
  au_ts :: int
  au_actor :: string
  au_action :: string
  au_target_type :: string
  au_target_id :: string
  au_before :: snapshot
  au_after :: snapshot
  au_note :: string

record user_row =
  us_username :: string
  us_password_hash :: string
  us_role :: string
  us_disabled :: bool

record sample_row =
  sa_id :: nat
  sa_ts :: int
  sa_decision :: string
  sa_rule_id :: "string option"
  sa_node :: "string option"
  sa_fields :: "(string \<times> string) list"
  sa_raw :: "string option"

section \<open>The database and the session\<close>

record database =
  db_rules :: "rule_row list"
  db_settings :: "chain_settings_row option"
  db_bundles :: "bundle_row list"
  db_audit :: "audit_row list"
  db_users :: "user_row list"
  db_samples :: "sample_row list"

definition empty_db :: database where
  "empty_db = \<lparr>db_rules = [], db_settings = None, db_bundles = [], db_audit = [], db_users = [], db_samples = []\<rparr>"

record session =
  committed :: database
  current :: database

definition commit :: "session \<Rightarrow> session" where
  "commit s = s\<lparr>committed := current s\<rparr>"

definition rollback_session :: "session \<Rightarrow> session" where
  "rollback_session s = s\<lparr>current := committed s\<rparr>"

text \<open>\<open>session_scope\<close>: commit after the body, roll back and raise again on an exception.\<close>

definition session_scope :: "(session \<Rightarrow> ('e, 'a) result \<times> session) \<Rightarrow> database \<Rightarrow> ('e, 'a) result \<times> database" where
  "session_scope body db =
     (case body \<lparr>committed = db, current = db\<rparr> of
        (Inr x, s) \<Rightarrow> (Inr x, committed (commit s))
      | (Inl e, s) \<Rightarrow> (Inl e, committed (rollback_session s)))"

definition on_db :: "(database \<Rightarrow> database) \<Rightarrow> session \<Rightarrow> session" where
  "on_db f s = s\<lparr>current := f (current s)\<rparr>"

lemma on_db_simps [simp]:
  "current (on_db f s) = f (current s)" "committed (on_db f s) = committed s"
  by (simp_all add: on_db_def)

lemma session_scope_cases:
  "fst (session_scope body db) = fst (body \<lparr>committed = db, current = db\<rparr>)"
  "snd (session_scope body db) =
     (if succeeds (fst (body \<lparr>committed = db, current = db\<rparr>))
      then current (snd (body \<lparr>committed = db, current = db\<rparr>))
      else committed (snd (body \<lparr>committed = db, current = db\<rparr>)))"
  by (simp_all add: session_scope_def commit_def rollback_session_def split: prod.splits sum.splits)

end
