(* ===== verification/Change_Log.thy ===== *)
theory Change_Log
  imports Prelude
begin

text \<open>
  The contract the services share: an operation either fails and leaves the store alone, or
  succeeds and appends exactly one entry to the log. The extended contract adds rows that are
  never removed and change only along an order. Both are proved once for sequences of operations
  and interpreted on the rule service and on the bundle service.
\<close>

fun run_ops :: "('op \<Rightarrow> 'db \<Rightarrow> ('e, 'r) result \<times> 'db) \<Rightarrow> 'op list \<Rightarrow> 'db \<Rightarrow> 'db" where
  "run_ops step [] db = db"
| "run_ops step (op # ops) db = run_ops step ops (snd (step op db))"

fun successes :: "('op \<Rightarrow> 'db \<Rightarrow> ('e, 'r) result \<times> 'db) \<Rightarrow> 'op list \<Rightarrow> 'db \<Rightarrow> nat" where
  "successes step [] db = 0"
| "successes step (op # ops) db =
     (if succeeds (fst (step op db)) then 1 else 0) + successes step ops (snd (step op db))"

lemma run_ops_append: "run_ops step (xs @ ys) db = run_ops step ys (run_ops step xs db)"
  by (induction xs arbitrary: db) simp_all

locale change_log =
  fixes step :: "'op \<Rightarrow> 'db \<Rightarrow> ('e, 'r) result \<times> 'db"
    and log :: "'db \<Rightarrow> 'a list"
  assumes fail_unchanged: "step op db = (Inl e, db') \<Longrightarrow> db' = db"
    and success_logged: "step op db = (Inr r, db') \<Longrightarrow> \<exists>a. log db' = log db @ [a]"
begin

lemma step_log:
  "\<exists>es. log (snd (step op db)) = log db @ es \<and> length es = (if succeeds (fst (step op db)) then 1 else 0)"
proof (cases "step op db")
  case (Pair res db')
  then show ?thesis
    using fail_unchanged [of op db] success_logged [of op db] by (cases res) fastforce+
qed

text \<open>The log only grows, by one entry for each operation that succeeds.\<close>

lemma run_log: "\<exists>es. log (run_ops step ops db) = log db @ es \<and> length es = successes step ops db"
proof (induction ops arbitrary: db)
  case (Cons op ops)
  obtain es where "log (snd (step op db)) = log db @ es"
    "length es = (if succeeds (fst (step op db)) then 1 else 0)"
    using step_log by blast
  with Cons [of "snd (step op db)"] show ?case by auto
qed simp

lemma log_prefix: "length (log db) \<le> length (log (run_ops step ops db)) \<and>
    take (length (log db)) (log (run_ops step ops db)) = log db"
  using run_log [of ops db] by auto

end

text \<open>Rows found by key that are never removed and change only along an order; an invariant of the
  store may be needed.\<close>

locale persistent_log = change_log +
  fixes row_of :: "'db \<Rightarrow> 'k \<Rightarrow> 'v option"
    and evolves :: "'v \<Rightarrow> 'v \<Rightarrow> bool"
    and inv :: "'db \<Rightarrow> bool"
  assumes evolves_refl: "evolves v v"
    and evolves_trans: "evolves u v \<Longrightarrow> evolves v w \<Longrightarrow> evolves u w"
    and inv_step: "inv db \<Longrightarrow> inv (snd (step op db))"
    and row_step: "inv db \<Longrightarrow> row_of db k = Some v \<Longrightarrow>
      \<exists>w. row_of (snd (step op db)) k = Some w \<and> evolves v w"
begin

lemma run_inv: "inv db \<Longrightarrow> inv (run_ops step ops db)"
  by (induction ops arbitrary: db) (simp_all add: inv_step)

lemma run_row:
  "inv db \<Longrightarrow> row_of db k = Some v \<Longrightarrow> \<exists>w. row_of (run_ops step ops db) k = Some w \<and> evolves v w"
proof (induction ops arbitrary: db v)
  case Nil
  then show ?case by (simp add: evolves_refl)
next
  case (Cons op ops)
  then obtain w where w: "row_of (snd (step op db)) k = Some w" "evolves v w"
    using row_step by blast
  then obtain u where "row_of (run_ops step ops (snd (step op db))) k = Some u" "evolves w u"
    using Cons.IH [of "snd (step op db)" w] inv_step [OF Cons.prems(1)] by blast
  with w show ?case using evolves_trans by auto
qed

end

end
