(* ===== verification/Rules_Service.thy ===== *)
theory Rules_Service
  imports Prelude Rule_Model Database Change_Log
begin

text \<open>
  Rule storage and the audit trail, \<open>services/rules.py\<close>. An operation takes the session and
  returns its result, or the exception it raises, with the session it leaves.
\<close>

datatype service_error =
    RuleNotFound string
  | InvalidRule validation_error
  | StoredRuleInvalid validation_error
  | StoredActionInvalid string
  | NoFreeId

type_synonym 'a service = "session \<Rightarrow> (service_error, 'a) result \<times> session"

section \<open>Slugs\<close>

definition slug_char :: "char \<Rightarrow> bool" where
  "slug_char c \<longleftrightarrow> is_id_start c"

text \<open>\<open>_SLUG_STRIP.sub("-", s)\<close>: each maximal run of other characters becomes one hyphen.\<close>

fun collapse :: "bool \<Rightarrow> string \<Rightarrow> string" where
  "collapse in_run [] = []"
| "collapse in_run (c # cs) =
     (if slug_char c then c # collapse False cs
      else if in_run then collapse True cs
      else CHR ''-'' # collapse True cs)"

definition slugify :: "string \<Rightarrow> string" where
  "slugify name =
     (let slug = take 48 (strip_by (\<lambda>c. c = CHR ''-'') (collapse False (py_lower name)))
      in if slug = [] then ''rule'' else slug)"

section \<open>Rows and rules\<close>

text \<open>\<open>_row_to_rule\<close>: the row as a validated \<open>Rule\<close>.\<close>

definition row_to_rule :: "rule_row \<Rightarrow> (validation_error, rule) result" where
  "row_to_rule r =
     (case action_of (row_action r) of
        None \<Rightarrow> Inl (BadAction (row_action r))
      | Some act \<Rightarrow> validate_rule
          \<lparr>rule_id = row_id r, rule_name = row_name r, rule_description = row_description r,
           rule_enabled = row_enabled r, rule_order = row_order r, rule_action = act,
           rule_conditions = row_conditions r, rule_output = row_output r, rule_retain = row_retain r,
           rule_shadow = row_shadow r, rule_version = row_version r, rule_updated = row_updated r\<rparr>)"

definition find_rule :: "database \<Rightarrow> string \<Rightarrow> rule_row option" where
  "find_rule db i = find (\<lambda>r. row_id r = i) (db_rules db)"

definition store_row :: "rule_row \<Rightarrow> database \<Rightarrow> database" where
  "store_row r db = db\<lparr>db_rules := map (\<lambda>x. if row_id x = row_id r then r else x) (db_rules db)\<rparr>"

definition add_row :: "rule_row \<Rightarrow> database \<Rightarrow> database" where
  "add_row r db = db\<lparr>db_rules := db_rules db @ [r]\<rparr>"

definition write_audit ::
    "int \<Rightarrow> string \<Rightarrow> string \<Rightarrow> string \<Rightarrow> string \<Rightarrow> snapshot \<Rightarrow> snapshot \<Rightarrow> string \<Rightarrow> database \<Rightarrow> database" where
  "write_audit ts actor act target_type target_id before after note db =
     db\<lparr>db_audit := db_audit db @ [\<lparr>au_ts = ts, au_actor = actor, au_action = act,
        au_target_type = target_type, au_target_id = target_id, au_before = before, au_after = after,
        au_note = note\<rparr>]\<rparr>"

section \<open>Reading\<close>

definition row_key :: "rule_row \<Rightarrow> int \<times> string" where
  "row_key r = (row_order r, row_id r)"

definition list_rules :: "rule list service" where
  "list_rules s =
     (mapError StoredRuleInvalid (mapR row_to_rule (sort_key row_key (db_rules (current s)))), s)"

definition get_rule :: "string \<Rightarrow> rule service" where
  "get_rule i s =
     (case find_rule (current s) i of
        None \<Rightarrow> (Inl (RuleNotFound i), s)
      | Some r \<Rightarrow> (mapError StoredRuleInvalid (row_to_rule r), s))"

definition default_chain_settings :: chain_settings_row where
  "default_chain_settings = \<lparr>cs_default_action = action_value FORWARD, cs_shadow_mode = False\<rparr>"

definition get_chain_settings :: "session \<Rightarrow> chain_settings_row \<times> session" where
  "get_chain_settings s =
     (case db_settings (current s) of
        Some cs \<Rightarrow> (cs, s)
      | None \<Rightarrow> (default_chain_settings, on_db (\<lambda>db. db\<lparr>db_settings := Some default_chain_settings\<rparr>) s))"

definition load_chain :: "rule_chain service" where
  "load_chain s =
     (let (cs, s1) = get_chain_settings s; (rules, s2) = list_rules s1 in
      (bindR rules (\<lambda>rs.
         case action_of (cs_default_action cs) of
           None \<Rightarrow> Inl (StoredActionInvalid (cs_default_action cs))
         | Some act \<Rightarrow> mapError StoredRuleInvalid
             (validate_chain \<lparr>chain_rules = rs, default_action = act, shadow_mode = cs_shadow_mode cs\<rparr>)), s2))"

section \<open>Creating\<close>

text \<open>The loop of \<open>_unique_id\<close>.\<close>

definition candidate :: "string \<Rightarrow> nat \<Rightarrow> string" where
  "candidate base n = (if n < 2 then base else take 63 (base @ ''-'' @ nat_str n))"

partial_function (option) search_id :: "(string \<Rightarrow> bool) \<Rightarrow> string \<Rightarrow> nat \<Rightarrow> string option" where
  "search_id taken base n =
     (if taken (candidate base n) then search_id taken base (Suc n) else Some (candidate base n))"

declare search_id.simps [code]

definition unique_id :: "database \<Rightarrow> string \<Rightarrow> string option" where
  "unique_id db name = search_id (\<lambda>i. find_rule db i \<noteq> None) (slugify name) 1"

definition new_row :: "string \<Rightarrow> rule_create \<Rightarrow> int \<Rightarrow> rule_row" where
  "new_row i p now =
     \<lparr>row_id = i, row_name = new_name p, row_description = new_description p, row_enabled = new_enabled p,
      row_order = new_order p, row_action = action_value (new_action p), row_conditions = new_conditions p,
      row_output = new_output p, row_retain = new_retain p, row_shadow = new_shadow p, row_version = 1,
      row_updated = now\<rparr>"

definition create_rule :: "rule_create \<Rightarrow> string \<Rightarrow> int \<Rightarrow> rule service" where
  "create_rule p actor now s =
     (case unique_id (current s) (new_name p) of
        None \<Rightarrow> (Inl NoFreeId, s)
      | Some i \<Rightarrow>
          let s1 = on_db (add_row (new_row i p now)) s in
          case row_to_rule (new_row i p now) of
            Inl e \<Rightarrow> (Inl (StoredRuleInvalid e), s1)
          | Inr r \<Rightarrow> (Inr r, on_db (write_audit now actor ''rule.create'' ''rule'' i No_Snapshot (Rule_Snapshot r) []) s1))"

section \<open>Updating\<close>

text \<open>The loop over the set fields, which skips the ones that are null.\<close>

definition set_opt :: "('a \<Rightarrow> 'b \<Rightarrow> 'b) \<Rightarrow> 'a option \<Rightarrow> 'b \<Rightarrow> 'b" where
  "set_opt f v r = (case v of None \<Rightarrow> r | Some x \<Rightarrow> f x r)"

definition apply_update :: "rule_update \<Rightarrow> rule_row \<Rightarrow> rule_row" where
  "apply_update p r =
     set_opt (\<lambda>x r. r\<lparr>row_shadow := x\<rparr>) (upd_shadow p)
     (set_opt (\<lambda>x r. r\<lparr>row_retain := x\<rparr>) (upd_retain p)
     (set_opt (\<lambda>x r. r\<lparr>row_output := x\<rparr>) (upd_output p)
     (set_opt (\<lambda>x r. r\<lparr>row_conditions := x\<rparr>) (upd_conditions p)
     (set_opt (\<lambda>x r. r\<lparr>row_action := action_value x\<rparr>) (upd_action p)
     (set_opt (\<lambda>x r. r\<lparr>row_order := x\<rparr>) (upd_order p)
     (set_opt (\<lambda>x r. r\<lparr>row_enabled := x\<rparr>) (upd_enabled p)
     (set_opt (\<lambda>x r. r\<lparr>row_description := x\<rparr>) (upd_description p)
     (set_opt (\<lambda>x r. r\<lparr>row_name := x\<rparr>) (upd_name p) r))))))))"

definition bump :: "int \<Rightarrow> rule_row \<Rightarrow> rule_row" where
  "bump now r = r\<lparr>row_version := row_version r + 1, row_updated := now\<rparr>"

definition update_rule :: "string \<Rightarrow> rule_update \<Rightarrow> string \<Rightarrow> int \<Rightarrow> rule service" where
  "update_rule i p actor now s =
     (case find_rule (current s) i of
        None \<Rightarrow> (Inl (RuleNotFound i), s)
      | Some row \<Rightarrow>
          case row_to_rule row of
            Inl e \<Rightarrow> (Inl (StoredRuleInvalid e), s)
          | Inr before \<Rightarrow>
              let row' = bump now (apply_update p row) in
              case row_to_rule row' of
                Inl e \<Rightarrow> (Inl (InvalidRule e), rollback_session s)
              | Inr r \<Rightarrow>
                  (Inr r, on_db (write_audit now actor ''rule.update'' ''rule'' i (Rule_Snapshot before) (Rule_Snapshot r) []
                            \<circ> store_row row') s))"

definition disable_rule :: "string \<Rightarrow> string \<Rightarrow> int \<Rightarrow> rule service" where
  "disable_rule i actor now s =
     (case find_rule (current s) i of
        None \<Rightarrow> (Inl (RuleNotFound i), s)
      | Some row \<Rightarrow>
          case row_to_rule row of
            Inl e \<Rightarrow> (Inl (StoredRuleInvalid e), s)
          | Inr before \<Rightarrow>
              let row' = bump now (row\<lparr>row_enabled := False\<rparr>); s1 = on_db (store_row row') s in
              case row_to_rule row' of
                Inl e \<Rightarrow> (Inl (StoredRuleInvalid e), s1)
              | Inr r \<Rightarrow>
                  (Inr r, on_db (write_audit now actor ''rule.disable'' ''rule'' i (Rule_Snapshot before) (Rule_Snapshot r)
                            ''rules are disabled, never deleted'') s1))"

definition set_chain_settings :: "action option \<Rightarrow> bool option \<Rightarrow> string \<Rightarrow> int \<Rightarrow> rule_chain service" where
  "set_chain_settings act sh actor now s =
     (let (cs, s1) = get_chain_settings s;
          cs' = set_opt (\<lambda>x c. c\<lparr>cs_shadow_mode := x\<rparr>) sh
                  (set_opt (\<lambda>x c. c\<lparr>cs_default_action := action_value x\<rparr>) act cs);
          s2 = on_db (\<lambda>db. db\<lparr>db_settings := Some cs'\<rparr>) s1;
          s3 = on_db (write_audit now actor ''chain.settings'' ''chain'' ''1''
                 (Settings_Snapshot (cs_default_action cs) (cs_shadow_mode cs))
                 (Settings_Snapshot (cs_default_action cs') (cs_shadow_mode cs')) []) s2
      in load_chain s3)"

text \<open>\<open>list_audit\<close>: newest first; SQLite reads a negative limit as none.\<close>

definition list_audit :: "int \<Rightarrow> session \<Rightarrow> audit_row list" where
  "list_audit limit s =
     (let rows = rev (db_audit (current s)) in if limit < 0 then rows else take (nat limit) rows)"

section \<open>Identifiers\<close>

lemma collapse_chars: "c \<in> set (collapse b s) \<Longrightarrow> slug_char c \<or> c = CHR ''-''"
  by (induction b s rule: collapse.induct) (auto split: if_splits)

lemma slugify_pattern: "id_pattern (slugify name) \<and> length (slugify name) \<le> 48"
proof -
  let ?p = "\<lambda>c. c = CHR ''-''"
  define t where "t = strip_by ?p (collapse False (py_lower name))"
  have chars: "c \<in> set t \<Longrightarrow> slug_char c \<or> c = CHR ''-''" for c
    using strip_by_set [of ?p] collapse_chars unfolding t_def by blast
  have hd: "t \<noteq> [] \<Longrightarrow> hd t \<noteq> CHR ''-''"
    using strip_by_id_iff [of ?p t] strip_by_idem [of ?p "collapse False (py_lower name)"]
    unfolding t_def by blast
  show ?thesis
  proof (cases t)
    case Nil
    then have "slugify name = ''rule''" by (simp add: slugify_def Let_def t_def [symmetric])
    then show ?thesis by (simp add: is_id_start_def is_id_char_def)
  next
    case (Cons c cs)
    then have e: "slugify name = c # take 47 cs"
      by (simp add: slugify_def Let_def t_def [symmetric])
    have "is_id_start c" using chars [of c] hd Cons by (simp add: slug_char_def)
    moreover have "list_all is_id_char (take 47 cs)"
      using chars Cons by (auto simp: list_all_iff is_id_char_def slug_char_def dest!: in_set_takeD)
    ultimately show ?thesis unfolding e by simp
  qed
qed

lemma candidate_numbered:
  assumes "length base \<le> 48" "2 \<le> n" "n < 10 ^ 14"
  shows "candidate base n = base @ ''-'' @ nat_str n"
  using assms base_digits_length [of 14 n] by (simp add: candidate_def nat_str_def)

lemma candidate_inj:
  assumes "length base \<le> 48" "1 \<le> m" "1 \<le> n" "m < 10 ^ 14" "n < 10 ^ 14" "candidate base m = candidate base n"
  shows "m = n"
proof -
  have one: "candidate base 1 = base" by (simp add: candidate_def)
  consider "m = 1" "n = 1" | "m = 1" "2 \<le> n" | "2 \<le> m" "n = 1" | "2 \<le> m" "2 \<le> n"
    using assms(2,3) by linarith
  then show ?thesis
    using assms candidate_numbered [of base m] candidate_numbered [of base n] one by cases auto
qed

lemma candidate_pattern:
  assumes "id_pattern base" "length base \<le> 48"
  shows "id_pattern (candidate base n)"
proof -
  obtain c cs where b: "base = c # cs" "is_id_start c" "list_all is_id_char cs"
    using assms(1) by (cases base) auto
  have d: "list_all is_id_char (nat_str n)"
    using nat_str_digits by (auto simp: list_all_iff is_id_char_def is_id_start_def)
  show ?thesis
  proof (cases "n < 2")
    case True
    with assms show ?thesis by (simp add: candidate_def)
  next
    case False
    have "list_all is_id_char (take 62 (cs @ ''-'' @ nat_str n))"
      using b d by (auto simp: list_all_iff is_id_char_def dest!: in_set_takeD)
    with False b show ?thesis by (simp add: candidate_def)
  qed
qed

lemma search_id_finds:
  assumes "\<not> taken (candidate base m)" "n \<le> m"
  shows "\<exists>k. n \<le> k \<and> k \<le> m \<and> search_id taken base n = Some (candidate base k) \<and> \<not> taken (candidate base k)"
  using assms(2)
proof (induction "m - n" arbitrary: n)
  case 0
  then show ?case using assms(1) by (subst search_id.simps) auto
next
  case (Suc d)
  show ?case
  proof (cases "taken (candidate base n)")
    case True
    then have "\<exists>k. Suc n \<le> k \<and> k \<le> m \<and> search_id taken base (Suc n) = Some (candidate base k) \<and> \<not> taken (candidate base k)"
      using Suc by (intro Suc.hyps(1)) linarith+
    with True show ?thesis by (subst search_id.simps) (auto intro: Suc_leD)
  next
    case False
    then show ?thesis using Suc.prems by (subst search_id.simps) auto
  qed
qed

lemma find_rule_None_iff: "find_rule db i = None \<longleftrightarrow> i \<notin> set (map row_id (db_rules db))"
  by (auto simp: find_rule_def find_None_iff)

lemma find_rule_Some: "find_rule db i = Some r \<Longrightarrow> r \<in> set (db_rules db) \<and> row_id r = i"
  by (auto simp: find_rule_def find_Some_iff)

text \<open>The first free candidate is among as many candidates as there are rows, plus one.\<close>

lemma unique_id_exists:
  assumes "length (db_rules db) < 10 ^ 13"
  shows "\<exists>i. unique_id db name = Some i \<and> find_rule db i = None \<and> id_pattern i"
proof -
  let ?base = "slugify name" and ?n = "Suc (length (db_rules db))"
  note base = slugify_pattern [of name, THEN conjunct1] slugify_pattern [of name, THEN conjunct2]
  have "inj_on (candidate ?base) {1..?n}"
    using candidate_inj [OF base(2)] assms by (intro inj_onI) auto
  then have "card (candidate ?base ` {1..?n}) = ?n" by (simp add: card_image)
  moreover have "card (set (map row_id (db_rules db))) < ?n"
    using card_length [of "map row_id (db_rules db)"] by simp
  ultimately have "\<not> candidate ?base ` {1..?n} \<subseteq> set (map row_id (db_rules db))"
    using card_mono [of "set (map row_id (db_rules db))" "candidate ?base ` {1..?n}"] by auto
  then obtain m where "m \<in> {1..?n}" "candidate ?base m \<notin> set (map row_id (db_rules db))" by blast
  then have m: "1 \<le> m" "find_rule db (candidate ?base m) = None"
    by (simp_all add: find_rule_None_iff)
  then obtain k where k: "search_id (\<lambda>i. find_rule db i \<noteq> None) ?base 1 = Some (candidate ?base k)"
    "find_rule db (candidate ?base k) = None"
    using search_id_finds [of "\<lambda>i. find_rule db i \<noteq> None" ?base m 1] by auto
  then show ?thesis
    using candidate_pattern [OF base] by (auto simp: unique_id_def)
qed

section \<open>What the operations do to the tables\<close>

lemma write_audit_simps [simp]:
  "db_audit (write_audit ts ac act tt ti b a n db) =
     db_audit db @ [\<lparr>au_ts = ts, au_actor = ac, au_action = act, au_target_type = tt, au_target_id = ti,
       au_before = b, au_after = a, au_note = n\<rparr>]"
  "db_rules (write_audit ts ac act tt ti b a n db) = db_rules db"
  "db_settings (write_audit ts ac act tt ti b a n db) = db_settings db"
  "db_bundles (write_audit ts ac act tt ti b a n db) = db_bundles db"
  "db_users (write_audit ts ac act tt ti b a n db) = db_users db"
  "db_samples (write_audit ts ac act tt ti b a n db) = db_samples db"
  by (simp_all add: write_audit_def)

lemma add_row_simps [simp]:
  "db_rules (add_row r db) = db_rules db @ [r]" "db_audit (add_row r db) = db_audit db"
  "db_settings (add_row r db) = db_settings db" "db_bundles (add_row r db) = db_bundles db"
  by (simp_all add: add_row_def)

lemma store_row_simps [simp]:
  "db_rules (store_row r db) = map (\<lambda>x. if row_id x = row_id r then r else x) (db_rules db)"
  "db_audit (store_row r db) = db_audit db"
  "db_settings (store_row r db) = db_settings db" "db_bundles (store_row r db) = db_bundles db"
  by (simp_all add: store_row_def)

lemma apply_update_id [simp]: "row_id (apply_update p r) = row_id r" "row_version (apply_update p r) = row_version r"
  by (simp_all add: apply_update_def set_opt_def split: option.splits)

lemma bump_simps [simp]: "row_id (bump now r) = row_id r" "row_version (bump now r) = row_version r + 1"
  by (simp_all add: bump_def)

lemma load_chain_tables:
  "load_chain s = (res, s') \<Longrightarrow> committed s' = committed s \<and> db_rules (current s') = db_rules (current s) \<and>
     db_audit (current s') = db_audit (current s) \<and> db_bundles (current s') = db_bundles (current s)"
  by (auto simp: load_chain_def get_chain_settings_def list_rules_def Let_def split: option.splits)

text \<open>A row with a valid payload reads back as the rule the payload describes.\<close>

definition rule_of_create :: "string \<Rightarrow> rule_create \<Rightarrow> int \<Rightarrow> rule" where
  "rule_of_create i p now =
     \<lparr>rule_id = i, rule_name = new_name p, rule_description = new_description p, rule_enabled = new_enabled p,
      rule_order = new_order p, rule_action = new_action p, rule_conditions = new_conditions p,
      rule_output = new_output p, rule_retain = new_retain p, rule_shadow = new_shadow p, rule_version = 1,
      rule_updated = now\<rparr>"

lemma validate_create_Inr_iff:
  "validate_create p = Inr q \<longleftrightarrow>
     1 \<le> length (new_name p) \<and> length (new_name p) \<le> 200 \<and> 0 \<le> new_order p \<and>
     (new_retain p \<longrightarrow> new_action p = DROP) \<and>
     (\<exists>cs. check_conditions (new_conditions p) = Inr cs \<and> q = p\<lparr>new_conditions := cs\<rparr>)"
  by (auto simp: validate_create_def bindR_Inr_iff)

lemma new_row_rule:
  assumes "validate_create p = Inr q" "id_pattern i"
  shows "row_to_rule (new_row i q now) = Inr (rule_of_create i q now)"
proof -
  obtain cs where "check_conditions (new_conditions p) = Inr cs" "q = p\<lparr>new_conditions := cs\<rparr>"
    using assms(1) by (auto simp: validate_create_Inr_iff)
  moreover from this have "check_conditions cs = Inr cs" by (auto intro: check_conditions_idem)
  ultimately show ?thesis
    using assms by (auto simp: row_to_rule_def new_row_def rule_of_create_def validate_rule_Inr_iff validate_create_Inr_iff)
qed

section \<open>Operations as transactions\<close>

datatype rule_op =
    Create rule_create
  | Update string rule_update
  | Disable string
  | Set_Chain "action option" "bool option"

datatype op_result = Rule_Result rule | Chain_Result rule_chain

definition returning :: "('a \<Rightarrow> 'b) \<Rightarrow> 'a service \<Rightarrow> 'b service" where
  "returning f m s = (case m s of (res, s') \<Rightarrow> (bindR res (\<lambda>x. Inr (f x)), s'))"

fun rule_service :: "string \<Rightarrow> int \<Rightarrow> rule_op \<Rightarrow> op_result service" where
  "rule_service actor now (Create p) = returning Rule_Result (create_rule p actor now)"
| "rule_service actor now (Update i p) = returning Rule_Result (update_rule i p actor now)"
| "rule_service actor now (Disable i) = returning Rule_Result (disable_rule i actor now)"
| "rule_service actor now (Set_Chain a sh) = returning Chain_Result (set_chain_settings a sh actor now)"

text \<open>An operation with its actor and time, in a transaction of its own.\<close>

definition rule_step :: "(string \<times> int \<times> rule_op) \<Rightarrow> database \<Rightarrow> (service_error, op_result) result \<times> database" where
  "rule_step = (\<lambda>(actor, now, op) db. session_scope (rule_service actor now op) db)"

lemma returning_simps:
  "fst (returning f m s) = bindR (fst (m s)) (\<lambda>x. Inr (f x))" "snd (returning f m s) = snd (m s)"
  by (simp_all add: returning_def split: prod.splits)


section \<open>The contract of the rule service\<close>

lemma create_rule_cases:
  assumes "create_rule p actor now s = (res, s')"
  shows "committed s' = committed s"
    and "res = Inr r \<Longrightarrow> \<exists>i. unique_id (current s) (new_name p) = Some i \<and> row_to_rule (new_row i p now) = Inr r \<and>
      current s' = write_audit now actor ''rule.create'' ''rule'' i No_Snapshot (Rule_Snapshot r) []
        (add_row (new_row i p now) (current s))"
  using assms by (auto simp: create_rule_def Let_def split: option.splits sum.splits)

lemma update_rule_cases:
  assumes "update_rule i p actor now s = (res, s')"
  shows "committed s' = committed s"
    and "res = Inr r \<Longrightarrow> \<exists>row before. find_rule (current s) i = Some row \<and> row_to_rule row = Inr before \<and>
      row_to_rule (bump now (apply_update p row)) = Inr r \<and>
      current s' = write_audit now actor ''rule.update'' ''rule'' i (Rule_Snapshot before) (Rule_Snapshot r) []
        (store_row (bump now (apply_update p row)) (current s))"
  using assms
  by (auto simp: update_rule_def Let_def rollback_session_def split: option.splits sum.splits)

lemma disable_rule_cases:
  assumes "disable_rule i actor now s = (res, s')"
  shows "committed s' = committed s"
    and "res = Inr r \<Longrightarrow> \<exists>row before. find_rule (current s) i = Some row \<and> row_to_rule row = Inr before \<and>
      row_to_rule (bump now (row\<lparr>row_enabled := False\<rparr>)) = Inr r \<and>
      current s' = write_audit now actor ''rule.disable'' ''rule'' i (Rule_Snapshot before) (Rule_Snapshot r)
        ''rules are disabled, never deleted'' (store_row (bump now (row\<lparr>row_enabled := False\<rparr>)) (current s))"
  using assms by (auto simp: disable_rule_def Let_def split: option.splits sum.splits)

lemma set_chain_settings_cases:
  assumes "set_chain_settings a sh actor now s = (res, s')"
  shows "committed s' = committed s" "db_rules (current s') = db_rules (current s)"
    "db_bundles (current s') = db_bundles (current s)"
    "\<exists>entry. db_audit (current s') = db_audit (current s) @ [entry] \<and> au_action entry = ''chain.settings''"
proof -
  obtain s3 where s3: "load_chain s3 = (res, s')" "committed s3 = committed s"
    "db_rules (current s3) = db_rules (current s)" "db_bundles (current s3) = db_bundles (current s)"
    "\<exists>entry. db_audit (current s3) = db_audit (current s) @ [entry] \<and> au_action entry = ''chain.settings''"
    using assms by (auto simp: set_chain_settings_def get_chain_settings_def Let_def split: option.splits)
  show "committed s' = committed s" "db_rules (current s') = db_rules (current s)"
    "db_bundles (current s') = db_bundles (current s)"
    "\<exists>entry. db_audit (current s') = db_audit (current s) @ [entry] \<and> au_action entry = ''chain.settings''"
    using load_chain_tables [OF s3(1)] s3 by auto
qed

lemma rule_service_committed: "committed (snd (rule_service actor now op s)) = committed s"
proof (cases op)
  case (Create p)
  then show ?thesis using create_rule_cases(1) [of p actor now s] by (simp add: returning_simps) (metis prod.collapse)
next
  case (Update i p)
  then show ?thesis using update_rule_cases(1) [of i p actor now s] by (simp add: returning_simps) (metis prod.collapse)
next
  case (Disable i)
  then show ?thesis using disable_rule_cases(1) [of i actor now s] by (simp add: returning_simps) (metis prod.collapse)
next
  case (Set_Chain a sh)
  then show ?thesis using set_chain_settings_cases(1) [of a sh actor now s] by (simp add: returning_simps) (metis prod.collapse)
qed

text \<open>What a transaction leaves: nothing on failure; on success the operation's tables.\<close>

lemma rule_step_cases:
  "rule_step (actor, now, op) db =
     (let (res, s') = rule_service actor now op \<lparr>committed = db, current = db\<rparr>
      in (res, if succeeds res then current s' else db))"
  using rule_service_committed [of actor now op "\<lparr>committed = db, current = db\<rparr>"]
  by (auto simp: rule_step_def session_scope_def commit_def rollback_session_def split: prod.splits sum.splits)

definition rule_version_of :: "database \<Rightarrow> string \<Rightarrow> int option" where
  "rule_version_of db i = map_option row_version (find_rule db i)"

definition distinct_ids :: "database \<Rightarrow> bool" where
  "distinct_ids db \<longleftrightarrow> distinct (map row_id (db_rules db))"

lemma find_rule_cong: "db_rules d = db_rules d' \<Longrightarrow> find_rule d i = find_rule d' i"
  by (simp add: find_rule_def)

lemma find_rule_store:
  "find_rule (store_row r db) i =
     (if i = row_id r \<and> find_rule db i \<noteq> None then Some r else find_rule db i)"
proof -
  have "find (\<lambda>x. row_id x = i) (map (\<lambda>x. if row_id x = row_id r then r else x) xs) =
      (if i = row_id r \<and> find (\<lambda>x. row_id x = i) xs \<noteq> None then Some r else find (\<lambda>x. row_id x = i) xs)" for xs
    by (induction xs) auto
  from this [of "db_rules db"] show ?thesis unfolding find_rule_def store_row_simps .
qed

lemma find_rule_add:
  "find_rule (add_row r db) i = (case find_rule db i of Some x \<Rightarrow> Some x | None \<Rightarrow> if row_id r = i then Some r else None)"
proof -
  have "find P (xs @ [r]) = (case find P xs of Some x \<Rightarrow> Some x | None \<Rightarrow> if P r then Some r else None)" for P and xs :: "rule_row list"
    by (induction xs) auto
  then show ?thesis by (simp add: find_rule_def)
qed

lemma store_row_ids: "map row_id (db_rules (store_row r db)) = map row_id (db_rules db)"
  by simp

lemma search_id_free: "search_id taken base n = Some i \<Longrightarrow> \<not> taken i"
  by (rule search_id.raw_induct [where P = "\<lambda>taken base n i. \<not> taken i"]) (auto split: if_splits)

lemma unique_id_free: "unique_id db name = Some i \<Longrightarrow> find_rule db i = None"
  using search_id_free by (force simp: unique_id_def)

text \<open>The session a successful operation leaves, by the operation.\<close>

lemma rule_step_service:
  assumes "rule_step (actor, now, op) db = (Inr x, db')"
  obtains (created) p r s' where "op = Create p" "create_rule p actor now \<lparr>committed = db, current = db\<rparr> = (Inr r, s')" "db' = current s'"
  | (updated) i p r s' where "op = Update i p" "update_rule i p actor now \<lparr>committed = db, current = db\<rparr> = (Inr r, s')" "db' = current s'"
  | (disabled) i r s' where "op = Disable i" "disable_rule i actor now \<lparr>committed = db, current = db\<rparr> = (Inr r, s')" "db' = current s'"
  | (settings) a sh r s' where "op = Set_Chain a sh" "set_chain_settings a sh actor now \<lparr>committed = db, current = db\<rparr> = (Inr r, s')" "db' = current s'"
proof -
  obtain s' where s': "rule_service actor now op \<lparr>committed = db, current = db\<rparr> = (Inr x, s')" "db' = current s'"
    using assms by (auto simp: rule_step_cases Let_def split: prod.splits if_splits)
  show ?thesis
    by (cases op) (use s' that in \<open>auto simp: returning_def bindR_Inr_iff split: prod.splits\<close>)
qed

text \<open>A successful transaction leaves the bundles alone, adds one audit row, and adds a fresh rule
  row, replaces a row by one with the next version, or leaves the rules alone.\<close>

lemma rule_step_effect:
  assumes "rule_step (actor, now, op) db = (Inr x, db')"
  shows "db_bundles db' = db_bundles db \<and> (\<exists>entry. db_audit db' = db_audit db @ [entry]) \<and>
    ((\<exists>r. find_rule db (row_id r) = None \<and> db_rules db' = db_rules (add_row r db)) \<or>
     (\<exists>r row. find_rule db (row_id r) = Some row \<and> row_version r = row_version row + 1 \<and>
        db_rules db' = db_rules (store_row r db)) \<or>
     db_rules db' = db_rules db)"
  using assms
proof (cases rule: rule_step_service)
  case (created p r s')
  obtain i where "unique_id db (new_name p) = Some i" and c: "current s' = write_audit now actor ''rule.create'' ''rule'' i
      No_Snapshot (Rule_Snapshot r) [] (add_row (new_row i p now) db)"
    using create_rule_cases(2) [OF created(2) refl] by auto
  then have "find_rule db (row_id (new_row i p now)) = None" using unique_id_free by (simp add: new_row_def)
  then show ?thesis using c created(3) by auto
next
  case (updated i p r s')
  obtain row before where row: "find_rule db i = Some row" and c: "current s' = write_audit now actor ''rule.update'' ''rule'' i
      (Rule_Snapshot before) (Rule_Snapshot r) [] (store_row (bump now (apply_update p row)) db)"
    using update_rule_cases(2) [OF updated(2) refl] by auto
  have "find_rule db (row_id (bump now (apply_update p row))) = Some row" using row find_rule_Some [OF row] by simp
  then show ?thesis
    using c updated(3) by (intro conjI disjI2 disjI1 exI [of _ "bump now (apply_update p row)"] exI [of _ row]) simp_all
next
  case (disabled i r s')
  obtain row before where row: "find_rule db i = Some row" and c: "current s' = write_audit now actor ''rule.disable'' ''rule'' i
      (Rule_Snapshot before) (Rule_Snapshot r) ''rules are disabled, never deleted''
      (store_row (bump now (row\<lparr>row_enabled := False\<rparr>)) db)"
    using disable_rule_cases(2) [OF disabled(2) refl] by auto
  have "find_rule db (row_id (bump now (row\<lparr>row_enabled := False\<rparr>))) = Some row"
    using row find_rule_Some [OF row] by simp
  then show ?thesis
    using c disabled(3)
    by (intro conjI disjI2 disjI1 exI [of _ "bump now (row\<lparr>row_enabled := False\<rparr>)"] exI [of _ row]) simp_all
next
  case (settings a sh r s')
  then show ?thesis using set_chain_settings_cases(2-4) [OF settings(2)] by auto
qed

lemmas rule_step_rules = rule_step_effect [THEN conjunct2, THEN conjunct2]
lemmas rule_step_logged = rule_step_effect [THEN conjunct2, THEN conjunct1]
lemmas rule_step_bundles = rule_step_effect [THEN conjunct1]

interpretation rule_log: persistent_log rule_step db_audit rule_version_of "(\<le>)" distinct_ids
proof unfold_locales
  fix op :: "string \<times> int \<times> rule_op" and db db' :: database and e :: service_error
  assume "rule_step op db = (Inl e, db')"
  then show "db' = db"
    by (cases op) (auto simp: rule_step_cases Let_def split: prod.splits if_splits)
next
  fix op :: "string \<times> int \<times> rule_op" and db db' :: database and r :: op_result
  assume "rule_step op db = (Inr r, db')"
  then show "\<exists>a. db_audit db' = db_audit db @ [a]"
    by (cases op) (auto dest: rule_step_logged)
next
  show "v \<le> v" for v :: int by simp
  show "u \<le> v \<Longrightarrow> v \<le> w \<Longrightarrow> u \<le> w" for u v w :: int by simp
next
  fix op :: "string \<times> int \<times> rule_op" and db :: database
  assume inv: "distinct_ids db"
  obtain actor now o' where op: "op = (actor, now, o')" by (cases op)
  show "distinct_ids (snd (rule_step op db))"
  proof (cases "rule_step op db")
    case (Pair res db')
    show ?thesis
    proof (cases res)
      case (Inl e)
      then show ?thesis
        using Pair inv by (auto simp: op rule_step_cases Let_def split: prod.splits if_splits)
    next
      case (Inr x)
      have "rule_step (actor, now, o') db = (Inr x, db')" using Pair Inr op by simp
      from rule_step_rules [OF this] show ?thesis
        using inv Pair store_row_ids
        by (auto simp: distinct_ids_def find_rule_None_iff simp del: store_row_simps)
    qed
  qed
next
  fix op :: "string \<times> int \<times> rule_op" and db :: database and k v
  assume v: "rule_version_of db k = Some v"
  obtain actor now o' where op: "op = (actor, now, o')" by (cases op)
  show "\<exists>w. rule_version_of (snd (rule_step op db)) k = Some w \<and> v \<le> w"
  proof (cases "rule_step op db")
    case (Pair res db')
    show ?thesis
    proof (cases res)
      case (Inl e)
      then show ?thesis
        using Pair v by (auto simp: op rule_step_cases Let_def split: prod.splits if_splits)
    next
      case (Inr x)
      have "rule_step (actor, now, o') db = (Inr x, db')" using Pair Inr op by simp
      from rule_step_rules [OF this]
      have "\<exists>w. rule_version_of db' k = Some w \<and> v \<le> w"
      proof (elim disjE exE conjE)
        fix r assume "db_rules db' = db_rules (add_row r db)"
        then have "find_rule db' k = find_rule (add_row r db) k" by (rule find_rule_cong)
        then show ?thesis using v by (auto simp: rule_version_of_def find_rule_add)
      next
        fix r row assume r: "find_rule db (row_id r) = Some row" "row_version r = row_version row + 1"
          "db_rules db' = db_rules (store_row r db)"
        then have "find_rule db' k = find_rule (store_row r db) k" by (intro find_rule_cong)
        then show ?thesis using v r by (auto simp: rule_version_of_def find_rule_store split: if_splits)
      next
        assume "db_rules db' = db_rules db"
        then have "find_rule db' k = find_rule db k" by (rule find_rule_cong)
        then show ?thesis using v by (auto simp: rule_version_of_def)
      qed
      then show ?thesis by (simp add: Pair)
    qed
  qed
qed

section \<open>Loading the chain\<close>

lemma row_to_rule_valid: "row_to_rule row = Inr r \<Longrightarrow>
    valid_rule r \<and> rule_id r = row_id row \<and> rule_order r = row_order row \<and>
    rule_version r = row_version row \<and> rule_enabled r = row_enabled row"
  by (auto simp: row_to_rule_def valid_rule_def validate_rule_Inr_iff dest: check_conditions_idem split: option.splits)

lemma load_chain_rules:
  assumes "load_chain s = (Inr ch, s')"
  shows "mapR row_to_rule (sort_key row_key (db_rules (current s))) = Inr (chain_rules ch)"
  using assms
  by (auto simp: load_chain_def get_chain_settings_def list_rules_def Let_def bindR_Inr_iff mapError_Inr_iff
      validate_chain_iff split: option.splits)

lemma mapR_rows:
  "mapR row_to_rule rows = Inr rs \<Longrightarrow> map order_key rs = map row_key rows \<and> list_all valid_rule rs"
  by (induction rows arbitrary: rs) (auto simp: bindR_Inr_iff order_key_def row_key_def dest!: row_to_rule_valid)

section \<open>Properties\<close>

text \<open>C29: Every rule gets an id: for any name and any table of fewer than ten trillion rows the
  search for a free id ends, with an id that matches the id pattern and that no row has.\<close>

theorem unique_id_terminates:
  assumes "length (db_rules db) < 10 ^ 13"
  shows "\<exists>i. unique_id db name = Some i \<and> find_rule db i = None \<and> id_pattern i"
  by (rule unique_id_exists [OF assms])

theorem unique_id_terminates_witness:
  "\<exists>i. unique_id (add_row \<lparr>row_id = ''noisy'', row_name = ''Noisy'', row_description = [], row_enabled = True,
       row_order = 1, row_action = ''drop'', row_conditions = [], row_output = [], row_retain = False,
       row_shadow = False, row_version = 1, row_updated = 0\<rparr> empty_db) ''Noisy!'' = Some i \<and>
     i \<noteq> ''noisy'' \<and> id_pattern i"
proof -
  let ?r = "\<lparr>row_id = ''noisy'', row_name = ''Noisy'', row_description = [], row_enabled = True,
       row_order = 1, row_action = ''drop'', row_conditions = [], row_output = [], row_retain = False,
       row_shadow = False, row_version = 1, row_updated = 0\<rparr>"
  have "length (db_rules (add_row ?r empty_db)) < 10 ^ 13" by (simp add: empty_db_def)
  from unique_id_terminates [OF this, of "''Noisy!''"] show ?thesis
    by (auto simp: find_rule_None_iff)
qed

text \<open>Creating a rule from a validated payload succeeds: it adds one row under a fresh id that
  reads back as exactly the payload with version 1, adds one audit row with that snapshot, and changes
  nothing else.\<close>

theorem create_rule_correct:
  assumes "validate_create q = Inr p" "length (db_rules (current s)) < 10 ^ 13"
  shows "\<exists>i. id_pattern i \<and> find_rule (current s) i = None \<and>
    create_rule p actor now s =
      (Inr (rule_of_create i p now),
       on_db (write_audit now actor ''rule.create'' ''rule'' i No_Snapshot (Rule_Snapshot (rule_of_create i p now)) []
         \<circ> add_row (new_row i p now)) s) \<and>
    fst (get_rule i (snd (create_rule p actor now s))) = Inr (rule_of_create i p now)"
proof -
  obtain i where i: "unique_id (current s) (new_name q) = Some i" "find_rule (current s) i = None" "id_pattern i"
    using unique_id_exists [OF assms(2)] by blast
  have n: "new_name p = new_name q" using assms(1) by (auto simp: validate_create_Inr_iff)
  note row = new_row_rule [OF assms(1) i(3)]
  have f: "find_rule (write_audit now actor ''rule.create'' ''rule'' i No_Snapshot (Rule_Snapshot (rule_of_create i p now)) []
      (add_row (new_row i p now) (current s))) i = Some (new_row i p now)"
    using i(2) find_rule_add [of "new_row i p now" "current s" i]
      find_rule_cong [of "write_audit now actor ''rule.create'' ''rule'' i No_Snapshot (Rule_Snapshot (rule_of_create i p now)) []
        (add_row (new_row i p now) (current s))" "add_row (new_row i p now) (current s)" i]
    by (simp add: new_row_def)
  show ?thesis
    using i n row f by (intro exI [of _ i]) (simp add: create_rule_def Let_def get_rule_def on_db_def)
qed

definition sample_create :: rule_create where
  "sample_create = \<lparr>new_name = ''Noisy firewall'', new_description = [], new_enabled = True, new_order = 10,
     new_action = DROP, new_conditions = [\<lparr>cond_field = ''name'', cond_op = EXISTS, cond_value = PNone,
       case_sensitive = False\<rparr>], new_output = ''default'', new_retain = True, new_shadow = False\<rparr>"

definition empty_session :: session where
  "empty_session = \<lparr>committed = empty_db, current = empty_db\<rparr>"

lemma sample_create_valid: "validate_create sample_create = Inr sample_create"
  by code_simp

theorem create_rule_correct_witness:
  "\<exists>r. fst (create_rule sample_create ''ann'' 5 empty_session) = Inr r \<and> rule_version r = 1 \<and> rule_retain r"
proof -
  have l: "length (db_rules (current empty_session)) < 10 ^ 13" by (simp add: empty_session_def empty_db_def)
  obtain i where "create_rule sample_create ''ann'' 5 empty_session =
      (Inr (rule_of_create i sample_create 5),
       on_db (write_audit 5 ''ann'' ''rule.create'' ''rule'' i No_Snapshot (Rule_Snapshot (rule_of_create i sample_create 5)) []
         \<circ> add_row (new_row i sample_create 5)) empty_session)"
    using create_rule_correct [OF sample_create_valid l, of "''ann''" 5] by blast
  then show ?thesis by (simp add: rule_of_create_def sample_create_def)
qed


text \<open>Rules are never deleted: over any sequence of rule operations a rule keeps its row and its
  version never decreases, and ids stay unique.\<close>

theorem rules_never_deleted:
  assumes "distinct_ids db" "rule_version_of db i = Some v"
  shows "distinct_ids (run_ops rule_step ops db) \<and> (\<exists>w. rule_version_of (run_ops rule_step ops db) i = Some w \<and> v \<le> w)"
  using rule_log.run_inv [OF assms(1)] rule_log.run_row [OF assms] by blast

theorem rules_never_deleted_witness:
  "let db = add_row (new_row ''noisy'' sample_create 1) empty_db in
     \<exists>w. rule_version_of (run_ops rule_step [(''ann'', 2, Disable ''noisy''), (''bob'', 3, Create sample_create)] db) ''noisy'' = Some w \<and> 1 \<le> w"
proof -
  let ?db = "add_row (new_row ''noisy'' sample_create 1) empty_db"
  have "distinct_ids ?db" by (simp add: distinct_ids_def empty_db_def)
  moreover have "rule_version_of ?db ''noisy'' = Some 1"
    by (simp add: rule_version_of_def find_rule_def empty_db_def new_row_def)
  ultimately show ?thesis unfolding Let_def using rules_never_deleted by blast
qed

text \<open>C30: A chain loaded from the store holds valid rules with distinct ids, already in evaluation
  order: the active rules are just the enabled ones, in the order in which they are listed.\<close>

theorem load_chain_ordered:
  assumes "load_chain s = (Inr ch, s')"
  shows "active ch = filter rule_enabled (chain_rules ch) \<and> list_all valid_rule (chain_rules ch) \<and>
    distinct (map rule_id (chain_rules ch)) \<and> db_rules (current s') = db_rules (current s)"
proof -
  note m = load_chain_rules [OF assms]
  have k: "map order_key (chain_rules ch) = map row_key (sort_key row_key (db_rules (current s)))"
    and v: "list_all valid_rule (chain_rules ch)"
    using mapR_rows [OF m] by blast+
  have "sorted (map order_key (chain_rules ch))" unfolding k by simp
  then have "sorted (map order_key (filter rule_enabled (chain_rules ch)))" by (rule sorted_filter)
  then have "active ch = filter rule_enabled (chain_rules ch)"
    by (simp add: active_def sort_key_id_if_sorted)
  moreover have "distinct (map rule_id (chain_rules ch))"
    using assms by (auto simp: load_chain_def Let_def split_def bindR_Inr_iff mapError_Inr_iff validate_chain_iff
        split: option.splits)
  ultimately show ?thesis using v load_chain_tables [OF assms] by blast
qed

theorem load_chain_ordered_witness:
  "\<exists>ch s'. load_chain \<lparr>committed = empty_db, current = add_row (new_row ''noisy'' sample_create 1) empty_db\<rparr> = (Inr ch, s') \<and>
     map rule_id (active ch) = [''noisy'']"
proof -
  let ?s = "\<lparr>committed = empty_db, current = add_row (new_row ''noisy'' sample_create 1) empty_db\<rparr>"
  have r: "row_to_rule (new_row ''noisy'' sample_create 1) = Inr (rule_of_create ''noisy'' sample_create 1)"
    by (rule new_row_rule [OF sample_create_valid]) code_simp
  obtain ch s' where l: "load_chain ?s = (Inr ch, s')" "chain_rules ch = [rule_of_create ''noisy'' sample_create 1]"
    using r by (simp add: load_chain_def get_chain_settings_def list_rules_def empty_db_def Let_def
        default_chain_settings_def validate_chain_def action_of_def)
  show ?thesis
    using load_chain_ordered [OF l(1)] l by (simp add: rule_of_create_def sample_create_def)
qed

end
