(* ===== verification/Bundles.thy ===== *)
theory Bundles
  imports Prelude Rule_Model Compiler Json Vector_Config Validate Settings Database Change_Log Rules_Service
begin

text \<open>
  Publishing and rolling back configuration bundles, \<open>services/bundles.py\<close>, with the bundle model
  of \<open>models/bundle.py\<close>. The TOML writer, SHA-256 and the \<open>vector\<close> toolchain are
  parameters, collected in a record with the settings.
\<close>

record bundle_env =
  toml_dumps :: "json \<Rightarrow> string"
  sha256_hex :: "string \<Rightarrow> string"
  tools :: toolchain
  env_settings :: settings

datatype bundle_error =
    RuleServiceFailed service_error
  | ConfigFailed config_error
  | CompileError compile_exn
  | VectorMissing
  | CheckFailed string validation_output
  | ZipMismatch
  | NoSuchBundle int

record config_bundle =
  bundle_manifest :: bundle_manifest
  bundle_config :: string

text \<open>\<open>checksum\<close> and \<open>Bundle.verify\<close>.\<close>

definition checksum :: "bundle_env \<Rightarrow> string \<Rightarrow> string" where
  "checksum env text = sha256_hex env text"

definition verify :: "bundle_env \<Rightarrow> config_bundle \<Rightarrow> bool" where
  "verify env b \<longleftrightarrow> checksum env (bundle_config b) = bm_checksum (bundle_manifest b)"

record bundle_summary =
  sum_version :: int
  sum_checksum :: string
  sum_created_at :: int
  sum_created_by :: string
  sum_rule_count :: nat
  sum_active :: bool
  sum_note :: string

section \<open>Building\<close>

definition vector_settings_from_config :: "settings \<Rightarrow> vector_settings" where
  "vector_settings_from_config cfg = default_vector_settings
     \<lparr>listen_address := vector_listen_address cfg, elk_address := vector_elk_address cfg,
      drop_audit_address := vector_drop_audit_address cfg, control_plane_url := cfg_control_plane_url cfg,
      receive_buffer_bytes := vector_receive_buffer_bytes cfg, sample_rate := vector_sample_rate cfg\<rparr>"

text \<open>The largest version comes first in descending order; none counts as zero.\<close>

definition next_version :: "database \<Rightarrow> int" where
  "next_version db =
     (case rev (sort (map br_version (db_bundles db))) of [] \<Rightarrow> 0 | v # vs \<Rightarrow> v) + 1"

definition build_bundle ::
    "bundle_env \<Rightarrow> rule_chain \<Rightarrow> int \<Rightarrow> string \<Rightarrow> string \<Rightarrow> int \<Rightarrow> (bundle_error, config_bundle) result" where
  "build_bundle env ch version created_by note now =
     bindR (mapError ConfigFailed
             (render_toml (toml_dumps env) ch (vector_settings_from_config (env_settings env)) version)) (\<lambda>toml_text.
       Inr \<lparr>bundle_manifest =
              \<lparr>bm_version = version, bm_checksum = checksum env toml_text, bm_created_at = now,
               bm_created_by = created_by, bm_rule_ids = map rule_id (active ch),
               bm_default_action = action_value (default_action ch), bm_shadow_mode = shadow_mode ch,
               bm_vector_min_version = MIN_VECTOR_VERSION, bm_note = note\<rparr>,
            bundle_config = toml_text\<rparr>)"

definition summary :: "bundle_row \<Rightarrow> bundle_summary" where
  "summary row =
     \<lparr>sum_version = br_version row, sum_checksum = br_checksum row, sum_created_at = br_created_at row,
      sum_created_by = br_created_by row, sum_rule_count = length (bm_rule_ids (br_manifest row)),
      sum_active = br_active row, sum_note = br_note row\<rparr>"

section \<open>Publishing\<close>

definition deactivate_all :: "database \<Rightarrow> database" where
  "deactivate_all db = db\<lparr>db_bundles := map (\<lambda>b. if br_active b then b\<lparr>br_active := False\<rparr> else b) (db_bundles db)\<rparr>"

definition add_bundle :: "bundle_row \<Rightarrow> database \<Rightarrow> database" where
  "add_bundle row db = db\<lparr>db_bundles := db_bundles db @ [row]\<rparr>"

text \<open>The gate between validation and storage.\<close>

definition check_gate :: "validation_result \<Rightarrow> bool \<Rightarrow> (bundle_error, unit) result" where
  "check_gate r require_vector =
     (if vr_skipped r \<and> require_vector then Inl VectorMissing
      else if \<not> vr_ok r then Inl (CheckFailed (vr_stage r) (vr_output r))
      else Inr ())"

definition bundle_row_of :: "config_bundle \<Rightarrow> int \<Rightarrow> string \<Rightarrow> string \<Rightarrow> int \<Rightarrow> bundle_row" where
  "bundle_row_of b version actor note now =
     \<lparr>br_version = version, br_checksum = bm_checksum (bundle_manifest b), br_config_toml = bundle_config b,
      br_manifest = bundle_manifest b, br_created_at = now, br_created_by = actor, br_active = True, br_note = note\<rparr>"

text \<open>Everything \<open>publish\<close> does before it writes: the row to store and whether validation was skipped.\<close>

definition prepare ::
    "bundle_env \<Rightarrow> rule_chain \<Rightarrow> int \<Rightarrow> string \<Rightarrow> string \<Rightarrow> bool option \<Rightarrow> int \<Rightarrow> (bundle_error, bundle_row \<times> bool) result" where
  "prepare env ch version actor note require now =
     (let require_vector = (case require of None \<Rightarrow> require_vector_on_publish (env_settings env) | Some b \<Rightarrow> b) in
      bindR (build_bundle env ch version actor note now) (\<lambda>b.
        bindR (mapError CompileError (compile_or_raise ch version)) (\<lambda>program.
          bindR (mapError (\<lambda>_. ZipMismatch) (validate_config (tools env) (bundle_config b) (Some program))) (\<lambda>r.
            bindR (check_gate r require_vector) (\<lambda>_.
              Inr (bundle_row_of b version actor note now, vr_skipped r))))))"

definition publish ::
    "bundle_env \<Rightarrow> string \<Rightarrow> string \<Rightarrow> bool option \<Rightarrow> int \<Rightarrow> session \<Rightarrow> (bundle_error, bundle_summary) result \<times> session" where
  "publish env actor note require now s =
     (let (chain, s1) = load_chain s; version = next_version (current s1) in
      case bindR (mapError RuleServiceFailed chain) (\<lambda>ch. prepare env ch version actor note require now) of
        Inl e \<Rightarrow> (Inl e, s1)
      | Inr (row, skipped) \<Rightarrow>
          (Inr (summary row),
           on_db (write_audit now actor ''bundle.publish'' ''bundle'' (int_str version) No_Snapshot
                    (Manifest_Snapshot (br_manifest row))
                    (if skipped then ''validate skipped (no vector binary)'' else [])
                  \<circ> add_bundle row \<circ> deactivate_all) s1))"

section \<open>Rolling back and reading\<close>

definition find_bundle :: "database \<Rightarrow> int \<Rightarrow> bundle_row option" where
  "find_bundle db v = find (\<lambda>b. br_version b = v) (db_bundles db)"

definition active_bundle_row :: "database \<Rightarrow> bundle_row option" where
  "active_bundle_row db = find br_active (db_bundles db)"

definition activate :: "int \<Rightarrow> database \<Rightarrow> database" where
  "activate v db = db\<lparr>db_bundles := map (\<lambda>b. if br_version b = v then b\<lparr>br_active := True\<rparr> else b) (db_bundles db)\<rparr>"

definition rollback ::
    "int \<Rightarrow> string \<Rightarrow> int \<Rightarrow> session \<Rightarrow> (bundle_error, bundle_summary) result \<times> session" where
  "rollback target actor now s =
     (case find_bundle (current s) target of
        None \<Rightarrow> (Inl (NoSuchBundle target), s)
      | Some row \<Rightarrow>
          let previous = active_bundle_row (current s) in
          (Inr (summary (row\<lparr>br_active := True\<rparr>)),
           on_db (write_audit now actor ''bundle.rollback'' ''bundle'' (int_str target)
                    (case previous of None \<Rightarrow> No_Snapshot | Some p \<Rightarrow> Version_Snapshot (br_version p))
                    (Version_Snapshot target) []
                  \<circ> activate target \<circ> deactivate_all) s))"

definition get_active_bundle :: "database \<Rightarrow> config_bundle option" where
  "get_active_bundle db = map_option
     (\<lambda>row. \<lparr>bundle_manifest = br_manifest row, bundle_config = br_config_toml row\<rparr>) (active_bundle_row db)"

definition list_bundles :: "int \<Rightarrow> database \<Rightarrow> bundle_summary list" where
  "list_bundles limit db =
     (let rows = rev (sort_key br_version (db_bundles db))
      in map summary (if limit < 0 then rows else take (nat limit) rows))"

section \<open>The service as a state machine\<close>

datatype service_op = Rule_Op rule_op | Publish string "bool option" | Rollback int

datatype service_result = Op_Result op_result | Bundle_Result bundle_summary

text \<open>One request: an operation with its actor and time, in a transaction of its own.\<close>

fun service_step ::
    "bundle_env \<Rightarrow> string \<times> int \<times> service_op \<Rightarrow> database \<Rightarrow> (bundle_error, service_result) result \<times> database" where
  "service_step env (actor, now, Rule_Op op) db =
     (case rule_step (actor, now, op) db of
        (res, db') \<Rightarrow> (bindR (mapError RuleServiceFailed res) (\<lambda>x. Inr (Op_Result x)), db'))"
| "service_step env (actor, now, Publish note require) db =
     (case session_scope (publish env actor note require now) db of
        (res, db') \<Rightarrow> (bindR res (\<lambda>x. Inr (Bundle_Result x)), db'))"
| "service_step env (actor, now, Rollback v) db =
     (case session_scope (rollback v actor now) db of
        (res, db') \<Rightarrow> (bindR res (\<lambda>x. Inr (Bundle_Result x)), db'))"

inductive reachable :: "bundle_env \<Rightarrow> database \<Rightarrow> bool" for env where
  start: "reachable env empty_db"
| step: "reachable env db \<Longrightarrow> reachable env (snd (service_step env op db))"

inductive_cases reachableE: "reachable env db"

section \<open>The bundle table\<close>

definition bundle_ok :: "bundle_env \<Rightarrow> bundle_row \<Rightarrow> bool" where
  "bundle_ok env b \<longleftrightarrow> 1 \<le> br_version b \<and> br_checksum b = checksum env (br_config_toml b) \<and>
     bm_checksum (br_manifest b) = br_checksum b \<and> bm_version (br_manifest b) = br_version b"

definition bundles_ok :: "bundle_env \<Rightarrow> database \<Rightarrow> bool" where
  "bundles_ok env db \<longleftrightarrow> distinct (map br_version (db_bundles db)) \<and> list_all (bundle_ok env) (db_bundles db) \<and>
     length (filter br_active (db_bundles db)) \<le> 1"

lemma bundles_ok_cong: "db_bundles d = db_bundles d' \<Longrightarrow> bundles_ok env d = bundles_ok env d'"
  by (simp add: bundles_ok_def)

text \<open>A bundle without its activation flag.\<close>

definition content_of :: "database \<Rightarrow> int \<Rightarrow> bundle_row option" where
  "content_of db v = map_option (\<lambda>b. b\<lparr>br_active := False\<rparr>) (find_bundle db v)"

lemma deactivate_all_bundles:
  "db_bundles (deactivate_all db) = map (\<lambda>b. b\<lparr>br_active := False\<rparr>) (db_bundles db)"
  by (auto simp: deactivate_all_def)

lemma table_simps [simp]:
  "db_audit (deactivate_all db) = db_audit db" "db_rules (deactivate_all db) = db_rules db"
  "db_audit (activate v db) = db_audit db" "db_rules (activate v db) = db_rules db"
  "db_audit (add_bundle b db) = db_audit db" "db_rules (add_bundle b db) = db_rules db"
  "db_bundles (add_bundle b db) = db_bundles db @ [b]"
  by (simp_all add: deactivate_all_def activate_def add_bundle_def)

lemma next_version_greater:
  assumes "b \<in> set (db_bundles db)"
  shows "br_version b < next_version db"
proof -
  let ?vs = "map br_version (db_bundles db)"
  obtain v vs where r: "rev (sort ?vs) = v # vs"
    using assms by (cases "rev (sort ?vs)") (auto dest!: arg_cong [where f = set])
  then have "sort ?vs = rev vs @ [v]" by (metis rev.simps(2) rev_rev_ident)
  then have "sorted (rev vs @ [v])" "set (rev vs @ [v]) = set ?vs"
    by (metis sorted_sort, metis set_sort)
  moreover have "br_version b \<in> set ?vs" using assms by simp
  ultimately have "br_version b \<le> v" by (auto simp: sorted_append)
  then show ?thesis by (simp add: next_version_def r)
qed

lemma next_version_pos:
  assumes "list_all (bundle_ok env) (db_bundles db)"
  shows "1 \<le> next_version db"
proof (cases "db_bundles db")
  case Nil
  then show ?thesis by (simp add: next_version_def)
next
  case (Cons b bs)
  then have "br_version b < next_version db" by (intro next_version_greater) simp
  then show ?thesis using assms Cons by (simp add: bundle_ok_def)
qed

lemma find_bundle_Some: "find_bundle db v = Some b \<Longrightarrow> b \<in> set (db_bundles db) \<and> br_version b = v"
  by (auto simp: find_bundle_def find_Some_iff)

lemma find_mapped:
  "(\<And>x. P (f x) = P x) \<Longrightarrow> find P (map f xs) = map_option f (find P xs)"
  by (induction xs) auto

lemma find_append: "find P (xs @ ys) = (case find P xs of Some x \<Rightarrow> Some x | None \<Rightarrow> find P ys)"
  by (induction xs) auto

lemma content_deactivate: "content_of (deactivate_all db) v = content_of db v"
  by (simp add: content_of_def find_bundle_def deactivate_all_bundles find_mapped option.map_comp o_def)

lemma content_activate: "content_of (activate v' db) v = content_of db v"
  by (simp add: content_of_def find_bundle_def activate_def find_mapped option.map_comp o_def)
    (simp add: if_distrib cong: if_cong)

lemma content_add: "content_of db v = Some c \<Longrightarrow> content_of (add_bundle b db) v = Some c"
  by (auto simp: content_of_def find_bundle_def find_append)

lemma content_cong: "db_bundles d = db_bundles d' \<Longrightarrow> content_of d v = content_of d' v"
  by (simp add: content_of_def find_bundle_def)

section \<open>What a successful operation does\<close>

lemma prepare_row:
  assumes "prepare env ch version actor note require now = Inr (row, skipped)"
  obtains toml program r where
    "render_toml (toml_dumps env) ch (vector_settings_from_config (env_settings env)) version = Inr toml"
    "compile_or_raise ch version = Inr program"
    "validate_config (tools env) toml (Some program) = Inr r" "vr_ok r" "vr_skipped r = skipped"
    "skipped \<longrightarrow> \<not> (case require of None \<Rightarrow> require_vector_on_publish (env_settings env) | Some b \<Rightarrow> b)"
    "br_version row = version" "br_config_toml row = toml" "br_checksum row = checksum env toml"
    "bm_checksum (br_manifest row) = checksum env toml" "bm_version (br_manifest row) = version"
    "br_active row" "bm_rule_ids (br_manifest row) = map rule_id (active ch)"
  using assms
  by (auto simp: prepare_def build_bundle_def bundle_row_of_def check_gate_def Let_def bindR_Inr_iff
      mapError_Inr_iff split: if_splits)

lemma publish_cases:
  assumes "publish env actor note require now s = (res, s')"
  shows "committed s' = committed s"
    and "res = Inr x \<Longrightarrow> \<exists>ch s1 row skipped. load_chain s = (Inr ch, s1) \<and>
      prepare env ch (next_version (current s)) actor note require now = Inr (row, skipped) \<and> x = summary row \<and>
      db_bundles (current s') = db_bundles (add_bundle row (deactivate_all (current s))) \<and>
      db_rules (current s') = db_rules (current s) \<and>
      (\<exists>entry. db_audit (current s') = db_audit (current s) @ [entry] \<and> au_action entry = ''bundle.publish'')"
proof -
  obtain chain s1 where l: "load_chain s = (chain, s1)" by (cases "load_chain s")
  note t = load_chain_tables [OF l]
  then have v: "next_version (current s1) = next_version (current s)" by (simp add: next_version_def)
  show "committed s' = committed s"
    using assms t by (auto simp: publish_def l Let_def split: sum.splits)
  assume "res = Inr x"
  then obtain ch row skipped where c: "chain = Inr ch"
    "prepare env ch (next_version (current s)) actor note require now = Inr (row, skipped)" "x = summary row"
    "current s' = write_audit now actor ''bundle.publish'' ''bundle'' (int_str (next_version (current s))) No_Snapshot
       (Manifest_Snapshot (br_manifest row)) (if skipped then ''validate skipped (no vector binary)'' else [])
       (add_bundle row (deactivate_all (current s1)))"
    using assms v
    by (auto simp: publish_def l Let_def bindR_Inr_iff mapError_Inr_iff split: sum.splits)
  then show "\<exists>ch s1 row skipped. load_chain s = (Inr ch, s1) \<and>
      prepare env ch (next_version (current s)) actor note require now = Inr (row, skipped) \<and> x = summary row \<and>
      db_bundles (current s') = db_bundles (add_bundle row (deactivate_all (current s))) \<and>
      db_rules (current s') = db_rules (current s) \<and>
      (\<exists>entry. db_audit (current s') = db_audit (current s) @ [entry] \<and> au_action entry = ''bundle.publish'')"
    using t l by (intro exI [of _ ch] exI [of _ s1] exI [of _ row] exI [of _ skipped])
      (simp add: deactivate_all_bundles)
qed

lemma rollback_cases:
  assumes "rollback v actor now s = (res, s')"
  shows "committed s' = committed s"
    and "res = Inr x \<Longrightarrow> \<exists>row. find_bundle (current s) v = Some row \<and>
      db_bundles (current s') = db_bundles (activate v (deactivate_all (current s))) \<and>
      db_rules (current s') = db_rules (current s) \<and>
      (\<exists>entry. db_audit (current s') = db_audit (current s) @ [entry] \<and> au_action entry = ''bundle.rollback'')"
  using assms by (auto simp: rollback_def Let_def split: option.splits)

text \<open>The three ways a successful request changes the bundle table.\<close>

definition bundle_change :: "bundle_env \<Rightarrow> database \<Rightarrow> database \<Rightarrow> bool" where
  "bundle_change env db db' \<longleftrightarrow>
     db_bundles db' = db_bundles db \<or>
     (\<exists>row. br_version row = next_version db \<and> br_active row \<and>
        br_checksum row = checksum env (br_config_toml row) \<and> bm_checksum (br_manifest row) = br_checksum row \<and>
        bm_version (br_manifest row) = br_version row \<and>
        db_bundles db' = db_bundles (add_bundle row (deactivate_all db))) \<or>
     (\<exists>v row. find_bundle db v = Some row \<and> db_bundles db' = db_bundles (activate v (deactivate_all db)))"

lemma scope_failed:
  assumes "session_scope m db = (Inl e, db')"
    and "\<And>res s'. m \<lparr>committed = db, current = db\<rparr> = (res, s') \<Longrightarrow> committed s' = db"
  shows "db' = db"
  using assms by (auto simp: session_scope_def rollback_session_def commit_def split: prod.splits sum.splits)

lemma scope_succeeded:
  assumes "session_scope m db = (Inr x, db')"
  obtains s' where "m \<lparr>committed = db, current = db\<rparr> = (Inr x, s')" "db' = current s'"
  using assms by (auto simp: session_scope_def rollback_session_def commit_def split: prod.splits sum.splits)

lemma service_step_failed: "service_step env (actor, now, op) db = (Inl e, db') \<Longrightarrow> db' = db"
proof (cases op)
  case (Rule_Op rop)
  assume "service_step env (actor, now, op) db = (Inl e, db')"
  then obtain e' where "rule_step (actor, now, rop) db = (Inl e', db')"
    by (auto simp: Rule_Op bindR_Inl_iff mapError_def split: prod.splits sum.splits)
  then show ?thesis by (rule rule_log.fail_unchanged)
next
  case (Publish msg require)
  assume "service_step env (actor, now, op) db = (Inl e, db')"
  then obtain e' where "session_scope (publish env actor msg require now) db = (Inl e', db')"
    by (auto simp: Publish bindR_Inl_iff split: prod.splits)
  then show ?thesis by (rule scope_failed) (use publish_cases(1) in fastforce)
next
  case (Rollback v)
  assume "service_step env (actor, now, op) db = (Inl e, db')"
  then obtain e' where "session_scope (rollback v actor now) db = (Inl e', db')"
    by (auto simp: Rollback bindR_Inl_iff split: prod.splits)
  then show ?thesis by (rule scope_failed) (use rollback_cases(1) in fastforce)
qed

lemma service_step_effect:
  assumes "service_step env (actor, now, op) db = (Inr x, db')"
  shows "bundle_change env db db' \<and> (\<exists>entry. db_audit db' = db_audit db @ [entry])"
proof (cases op)
  case (Rule_Op rop)
  then obtain y where "rule_step (actor, now, rop) db = (Inr y, db')"
    using assms by (auto simp: bindR_Inr_iff mapError_Inr_iff split: prod.splits)
  then show ?thesis using rule_step_effect by (auto simp: bundle_change_def)
next
  case (Publish msg require)
  then obtain y where "session_scope (publish env actor msg require now) db = (Inr y, db')"
    using assms by (auto simp: bindR_Inr_iff split: prod.splits)
  then obtain s' where p: "publish env actor msg require now \<lparr>committed = db, current = db\<rparr> = (Inr y, s')" "db' = current s'"
    by (rule scope_succeeded)
  obtain ch row skipped where r: "prepare env ch (next_version db) actor msg require now = Inr (row, skipped)"
    "db_bundles (current s') = db_bundles (add_bundle row (deactivate_all db))"
    "\<exists>entry. db_audit (current s') = db_audit db @ [entry]"
    using publish_cases(2) [OF p(1) refl] by auto
  show ?thesis
    by (rule prepare_row [OF r(1)]) (use r p(2) in \<open>auto simp: bundle_change_def\<close>)
next
  case (Rollback v)
  then obtain y where "session_scope (rollback v actor now) db = (Inr y, db')"
    using assms by (auto simp: bindR_Inr_iff split: prod.splits)
  then obtain s' where p: "rollback v actor now \<lparr>committed = db, current = db\<rparr> = (Inr y, s')" "db' = current s'"
    by (rule scope_succeeded)
  then show ?thesis using rollback_cases(2) [OF p(1) refl] by (auto simp: bundle_change_def)
qed

section \<open>The invariant\<close>

lemma filter_active_deactivate: "filter br_active (db_bundles (deactivate_all db)) = []"
  by (simp add: deactivate_all_bundles filter_empty_conv)

lemma distinct_filter_version:
  "distinct (map br_version bs) \<Longrightarrow> length (filter (\<lambda>b. br_version b = v) bs) \<le> 1"
proof (induction bs)
  case (Cons b bs)
  show ?case
  proof (cases "br_version b = v")
    case True
    then have "filter (\<lambda>b. br_version b = v) bs = []"
      using Cons.prems by (simp add: filter_empty_conv) (metis image_eqI)
    with True show ?thesis by simp
  next
    case False
    with Cons show ?thesis by simp
  qed
qed simp

lemma activate_deactivated:
  "db_bundles (activate v (deactivate_all db)) = map (\<lambda>b. b\<lparr>br_active := (br_version b = v)\<rparr>) (db_bundles db)"
  by (simp add: activate_def deactivate_all_bundles)

lemma bundle_change_ok:
  assumes "bundle_change env db db'" "bundles_ok env db"
  shows "bundles_ok env db'"
proof -
  have ok: "distinct (map br_version (db_bundles db))" "list_all (bundle_ok env) (db_bundles db)"
    using assms(2) by (simp_all add: bundles_ok_def)
  have deact: "list_all (bundle_ok env) (db_bundles (deactivate_all db))"
    using ok(2) by (simp add: deactivate_all_bundles list_all_iff bundle_ok_def)
  consider "db_bundles db' = db_bundles db"
    | (new) row where "br_version row = next_version db" "bundle_ok env row \<or> br_version row < 1" "br_active row"
      "db_bundles db' = db_bundles (add_bundle row (deactivate_all db))"
    | (undone) v where "db_bundles db' = db_bundles (activate v (deactivate_all db))"
    using assms(1) unfolding bundle_change_def bundle_ok_def by force
  then show ?thesis
  proof cases
    case 1
    with assms(2) show ?thesis by (simp add: bundles_ok_def)
  next
    case new
    have "1 \<le> next_version db" by (rule next_version_pos [OF ok(2)])
    moreover have "next_version db \<notin> set (map br_version (db_bundles db))"
      using next_version_greater [of _ db] by fastforce
    ultimately show ?thesis
      using new ok deact filter_active_deactivate [of db]
      by (auto simp: bundles_ok_def deactivate_all_bundles o_def)
  next
    case undone
    have "list_all (bundle_ok env) (db_bundles db')"
      using ok(2) undone by (simp add: activate_deactivated list_all_iff bundle_ok_def)
    moreover have "length (filter br_active (db_bundles db')) \<le> 1"
      using distinct_filter_version [OF ok(1), of v] undone
      by (simp add: activate_deactivated filter_map o_def)
    ultimately show ?thesis
      using ok(1) undone by (simp add: bundles_ok_def activate_deactivated o_def)
  qed
qed

lemma bundle_change_content:
  assumes "bundle_change env db db'" "content_of db v = Some c"
  shows "content_of db' v = Some c"
proof -
  consider "db_bundles db' = db_bundles db"
    | row where "db_bundles db' = db_bundles (add_bundle row (deactivate_all db))"
    | w where "db_bundles db' = db_bundles (activate w (deactivate_all db))"
    using assms(1) unfolding bundle_change_def by blast
  then show ?thesis
  proof cases
    case 1
    with assms(2) show ?thesis using content_cong [OF 1, of v] by simp
  next
    case (2 row)
    then have "content_of db' v = content_of (add_bundle row (deactivate_all db)) v" by (rule content_cong)
    with assms(2) show ?thesis by (simp add: content_add content_deactivate)
  next
    case (3 w)
    then have "content_of db' v = content_of (activate w (deactivate_all db)) v" by (rule content_cong)
    with assms(2) show ?thesis by (simp add: content_activate content_deactivate)
  qed
qed

interpretation service_log: persistent_log "service_step env" db_audit content_of "(=)" "bundles_ok env" for env
proof unfold_locales
  fix op :: "string \<times> int \<times> service_op" and db db' :: database and e :: bundle_error
  assume "service_step env op db = (Inl e, db')"
  then show "db' = db" by (cases op) (use service_step_failed in blast)
next
  fix op :: "string \<times> int \<times> service_op" and db db' :: database and r :: service_result
  assume "service_step env op db = (Inr r, db')"
  then show "\<exists>a. db_audit db' = db_audit db @ [a]" by (cases op) (use service_step_effect in blast)
next
  fix op :: "string \<times> int \<times> service_op" and db :: database
  assume inv: "bundles_ok env db"
  obtain actor now o' where op: "op = (actor, now, o')" by (cases op)
  obtain res db' where r: "service_step env op db = (res, db')" by (cases "service_step env op db")
  have "bundles_ok env db'"
    using r inv service_step_failed service_step_effect bundle_change_ok unfolding op by (cases res) blast+
  then show "bundles_ok env (snd (service_step env op db))" by (simp add: r)
next
  fix op :: "string \<times> int \<times> service_op" and db :: database and k v
  assume v: "content_of db k = Some v"
  obtain actor now o' where op: "op = (actor, now, o')" by (cases op)
  obtain res db' where r: "service_step env op db = (res, db')" by (cases "service_step env op db")
  have "content_of db' k = Some v"
    using r v service_step_failed service_step_effect bundle_change_content unfolding op by (cases res) blast+
  then show "\<exists>w. content_of (snd (service_step env op db)) k = Some w \<and> v = w" by (simp add: r)
qed simp_all

lemma reachable_bundles_ok: "reachable env db \<Longrightarrow> bundles_ok env db"
proof (induction rule: reachable.induct)
  case start
  show ?case by (simp add: bundles_ok_def empty_db_def)
next
  case (step db op)
  then show ?case by (intro service_log.inv_step)
qed

section \<open>What the properties rest on\<close>

lemma find_active_restored:
  assumes "distinct (map br_version bs)" "row \<in> set bs" "br_version row = v"
  shows "find br_active (map (\<lambda>b. b\<lparr>br_active := (br_version b = v)\<rparr>) bs) = Some (row\<lparr>br_active := True\<rparr>)"
  using assms
proof (induction bs)
  case (Cons b bs)
  show ?case
  proof (cases "br_version b = v")
    case True
    with Cons.prems have "row = b" by (auto dest: image_eqI [of _ br_version])
    with True show ?thesis by simp
  next
    case False
    with Cons have "row \<in> set bs" by auto
    with False Cons show ?thesis by simp
  qed
qed simp

lemma rollback_effect:
  assumes "bundles_ok env db" "content_of db v = Some c"
  shows "\<exists>x db'. service_step env (actor, now, Rollback v) db = (Inr x, db') \<and>
    get_active_bundle db' = Some \<lparr>bundle_manifest = br_manifest c, bundle_config = br_config_toml c\<rparr>"
proof -
  obtain row where row: "find_bundle db v = Some row" "c = row\<lparr>br_active := False\<rparr>"
    using assms(2) by (auto simp: content_of_def)
  obtain y s' where p: "rollback v actor now \<lparr>committed = db, current = db\<rparr> = (Inr y, s')"
    using row(1) by (auto simp: rollback_def Let_def)
  have b: "db_bundles (current s') = map (\<lambda>b. b\<lparr>br_active := (br_version b = v)\<rparr>) (db_bundles db)"
    using rollback_cases(2) [OF p refl] by (auto simp: activate_deactivated)
  have "get_active_bundle (current s') = Some \<lparr>bundle_manifest = br_manifest row, bundle_config = br_config_toml row\<rparr>"
    using find_active_restored [of "db_bundles db" row v] assms(1) find_bundle_Some [OF row(1)]
    by (simp add: get_active_bundle_def active_bundle_row_def b bundles_ok_def)
  then show ?thesis using p row(2) by (simp add: session_scope_def commit_def)
qed

text \<open>An environment for the concrete instances: no binary, publishing without it allowed.\<close>

definition sample_env :: bundle_env where
  "sample_env = \<lparr>toml_dumps = (\<lambda>j. ''# config''), sha256_hex = (\<lambda>t. ''sha256:'' @ t),
     tools = \<lparr>vector_on_path = False, vector_validate = (\<lambda>t. TimedOut), vector_vrl = (\<lambda>p i. TimedOut),
       json_loads = (\<lambda>l. None)\<rparr>,
     env_settings = default_settings\<lparr>require_vector_on_publish := False\<rparr>\<rparr>"

lemma sample_env_builds: "\<exists>c. build_config empty_chain (vector_settings_from_config (env_settings sample_env)) 1 = Inr c"
proof -
  have "succeeds (encode_string (node_id (vector_settings_from_config (env_settings sample_env)))) \<and>
    fst (rpartition CHR '':'' (listen_address (vector_settings_from_config (env_settings sample_env)))) \<noteq> [] \<and>
    py_isdigit (snd (rpartition CHR '':'' (listen_address (vector_settings_from_config (env_settings sample_env)))))"
    by code_simp
  then show ?thesis using empty_chain_compiles by (auto simp: build_config_Inr_iff succeeds_iff)
qed

lemma sample_validates: "validate_config (tools sample_env) t (Some p) = Inr skipped_result"
  by (simp add: validate_config_def sample_env_def)

lemma publish_empty:
  assumes "db_rules db = []" "db_settings db = None" "db_bundles db = []"
  shows "\<exists>x s'. publish sample_env actor t None now \<lparr>committed = db, current = db\<rparr> = (Inr x, s') \<and>
    map (\<lambda>b. (br_version b, br_config_toml b, br_active b, bm_version (br_manifest b))) (db_bundles (current s')) =
      [(1, ''# config'', True, 1)]"
proof -
  obtain p c where pc: "compile_or_raise empty_chain 1 = Inr p"
    "build_config empty_chain (vector_settings_from_config (env_settings sample_env)) 1 = Inr c"
    using empty_chain_compiles sample_env_builds by blast
  have l: "\<exists>s1. load_chain \<lparr>committed = db, current = db\<rparr> = (Inr empty_chain, s1) \<and> db_bundles (current s1) = []"
    using assms by (simp add: load_chain_def get_chain_settings_def list_rules_def Let_def default_chain_settings_def
      validate_chain_def empty_chain_def action_of_def)
  then obtain s1 where s1: "load_chain \<lparr>committed = db, current = db\<rparr> = (Inr empty_chain, s1)" "db_bundles (current s1) = []"
    by blast
  have d: "toml_dumps sample_env j = ''# config''" for j by (simp add: sample_env_def)
  have r: "require_vector_on_publish (env_settings sample_env) = False" by (simp add: sample_env_def)
  obtain row where row: "prepare sample_env empty_chain 1 actor t None now = Inr (row, True)"
    "br_version row = 1" "br_config_toml row = ''# config''" "br_active row" "bm_version (br_manifest row) = 1"
    by (simp add: prepare_def build_bundle_def render_toml_def pc sample_validates check_gate_def skipped_result_def
      bundle_row_of_def d r)
  show ?thesis
    using row by (simp add: publish_def s1 next_version_def deactivate_all_def)
qed

definition published_db :: database where
  "published_db = snd (service_step sample_env (''ann'', 7, Publish ''first'' None) empty_db)"

lemma published_bundles: "\<exists>row. db_bundles published_db = [row] \<and> br_version row = 1 \<and>
    br_config_toml row = ''# config'' \<and> br_active row"
proof -
  obtain x s' where p: "publish sample_env ''ann'' ''first'' None 7 \<lparr>committed = empty_db, current = empty_db\<rparr> = (Inr x, s')"
    and m: "map (\<lambda>b. (br_version b, br_config_toml b, br_active b, bm_version (br_manifest b))) (db_bundles (current s')) =
      [(1, ''# config'', True, 1)]"
    using publish_empty [of empty_db "''ann''" "''first''" 7] by (auto simp: empty_db_def)
  have "published_db = current s'" by (simp add: published_db_def session_scope_def p commit_def)
  with m show ?thesis by auto
qed

lemma published_content:
  "map_option br_config_toml (content_of published_db 1) = Some ''# config''"
  using published_bundles by (auto simp: content_of_def find_bundle_def)

lemma published_reachable: "reachable sample_env published_db"
  unfolding published_db_def by (rule reachable.step [OF reachable.start])

section \<open>Properties\<close>

text \<open>In every reachable database bundle versions are distinct, at most one bundle is active,
  every bundle's checksums are those of the stored configuration, and the bundle a node fetches verifies.\<close>

theorem reachable_bundles_sound:
  assumes "reachable env db"
  shows "bundles_ok env db \<and> (case get_active_bundle db of None \<Rightarrow> active_bundle_row db = None | Some b \<Rightarrow> verify env b)"
proof -
  have ok: "bundles_ok env db" by (rule reachable_bundles_ok [OF assms])
  have "verify env \<lparr>bundle_manifest = br_manifest row, bundle_config = br_config_toml row\<rparr>"
    if "active_bundle_row db = Some row" for row
    using that ok by (auto simp: active_bundle_row_def find_Some_iff bundles_ok_def list_all_iff bundle_ok_def verify_def)
  with ok show ?thesis by (auto simp: get_active_bundle_def split: option.splits)
qed

theorem reachable_bundles_sound_witness:
  "bundles_ok sample_env published_db \<and> get_active_bundle published_db \<noteq> None"
proof -
  have "get_active_bundle published_db \<noteq> None"
    using published_bundles by (auto simp: get_active_bundle_def active_bundle_row_def)
  then show ?thesis using reachable_bundles_sound [OF published_reachable] by blast
qed

text \<open>C9: A publish that succeeds stored, as the next version, exactly the configuration rendered from the
  chain as loaded, after the compiled program and the configuration passed the gate; the gate was
  skipped only when the binary is absent and not required; and that bundle is now the active one.\<close>

theorem publish_gated:
  assumes "publish env actor msg require now s = (Inr x, s')" "bundles_ok env (current s)"
  shows "\<exists>ch s1 toml program r.
    load_chain s = (Inr ch, s1) \<and> sum_version x = next_version (current s) \<and>
    render_toml (toml_dumps env) ch (vector_settings_from_config (env_settings env)) (next_version (current s)) = Inr toml \<and>
    compile_or_raise ch (next_version (current s)) = Inr program \<and>
    validate_config (tools env) toml (Some program) = Inr r \<and> vr_ok r \<and>
    \<not> (vr_skipped r \<and> (case require of None \<Rightarrow> require_vector_on_publish (env_settings env) | Some b \<Rightarrow> b)) \<and>
    map_option bundle_config (get_active_bundle (current s')) = Some toml"
proof -
  obtain ch s1 row skipped where *: "load_chain s = (Inr ch, s1)"
    "prepare env ch (next_version (current s)) actor msg require now = Inr (row, skipped)" "x = summary row"
    "db_bundles (current s') = db_bundles (add_bundle row (deactivate_all (current s)))"
    using publish_cases(2) [OF assms(1) refl] by blast
  show ?thesis
  proof (rule prepare_row [OF *(2)])
    fix toml program r
    assume r: "render_toml (toml_dumps env) ch (vector_settings_from_config (env_settings env)) (next_version (current s)) = Inr toml"
      "compile_or_raise ch (next_version (current s)) = Inr program"
      "validate_config (tools env) toml (Some program) = Inr r" "vr_ok r" "vr_skipped r = skipped"
      "skipped \<longrightarrow> \<not> (case require of None \<Rightarrow> require_vector_on_publish (env_settings env) | Some b \<Rightarrow> b)"
      "br_version row = next_version (current s)" "br_config_toml row = toml" "br_active row"
    have "find br_active (db_bundles (deactivate_all (current s))) = None"
      by (simp add: deactivate_all_bundles find_None_iff)
    then have "active_bundle_row (current s') = Some row"
      using *(4) r by (simp add: active_bundle_row_def find_append)
    then show ?thesis
      using * r by (intro exI [of _ ch] exI [of _ s1] exI [of _ toml] exI [of _ program] exI [of _ r])
        (simp add: summary_def get_active_bundle_def)
  qed
qed

theorem publish_gated_witness:
  "\<exists>x s' toml. publish sample_env ''ann'' ''first'' None 7 empty_session = (Inr x, s') \<and> sum_version x = 1 \<and>
     map_option bundle_config (get_active_bundle (current s')) = Some toml"
proof -
  obtain x s' where p: "publish sample_env ''ann'' ''first'' None 7 empty_session = (Inr x, s')"
    using publish_empty [of empty_db "''ann''" "''first''" 7] by (auto simp: empty_session_def empty_db_def)
  have "bundles_ok sample_env (current empty_session)" "next_version (current empty_session) = 1"
    by (simp_all add: bundles_ok_def empty_session_def empty_db_def next_version_def)
  then show ?thesis using publish_gated [OF p] p by auto
qed

text \<open>C8: Published bundles are immutable and a rollback restores the exact bytes: whatever requests
  came in between, rolling back to a stored version succeeds and makes its original manifest and
  configuration the active bundle.\<close>

theorem rollback_restores_bytes:
  assumes "bundles_ok env db" "content_of db v = Some c"
  shows "\<exists>x db'. service_step env (actor, now, Rollback v) (run_ops (service_step env) ops db) = (Inr x, db') \<and>
    get_active_bundle db' = Some \<lparr>bundle_manifest = br_manifest c, bundle_config = br_config_toml c\<rparr>"
proof -
  have "bundles_ok env (run_ops (service_step env) ops db)" by (rule service_log.run_inv [OF assms(1)])
  moreover have "content_of (run_ops (service_step env) ops db) v = Some c"
    using service_log.run_row [OF assms] by blast
  ultimately show ?thesis by (rule rollback_effect)
qed

theorem rollback_restores_bytes_witness:
  "\<exists>x db'. service_step sample_env (''bob'', 9, Rollback 1)
      (run_ops (service_step sample_env) [(''ann'', 8, Publish ''second'' None)] published_db) = (Inr x, db') \<and>
    map_option bundle_config (get_active_bundle db') = Some ''# config''"
proof -
  have ok: "bundles_ok sample_env published_db" by (rule reachable_bundles_ok [OF published_reachable])
  obtain c where c: "content_of published_db 1 = Some c" "br_config_toml c = ''# config''"
    using published_content by auto
  show ?thesis
    using rollback_restores_bytes [OF ok c(1), of "''bob''" 9 "[(''ann'', 8, Publish ''second'' None)]"] c(2) by auto
qed

text \<open>Over any sequence of requests to the services, rule edits, settings, publishes and rollbacks,
  the audit log only grows at its end, by exactly one entry for each request that succeeds and none
  for one that fails.\<close>

theorem audit_append_only:
  "\<exists>entries. db_audit (run_ops (service_step env) ops db) = db_audit db @ entries \<and>
     length entries = successes (service_step env) ops db"
  by (rule service_log.run_log)

end
