(* ===== verification/Interleaving.thy ===== *)
theory Interleaving
  imports Prelude Rule_Model Compiler Json Vector_Config Validate Settings Database Change_Log Rules_Service Bundles
begin

text \<open>
  Requests that overlap. A service operation reads rows, computes, and writes at its flush; no lock and no
  version check joins the two, and the driver opens the database transaction at the first write. So an
  operation is two steps here: a read step that gives what it will write, and a write step on whatever
  the tables hold by then, which is atomic because SQLite has one writer. A changed row is written column by
  column, the columns whose values differ from those loaded; unique keys are checked at the write. Chain
  settings exist, as they do after startup.
\<close>

section \<open>What a request has in hand between its two steps\<close>

datatype pending =
    Insert_Rule rule_row audit_row
  | Write_Rule rule_row rule_row audit_row
  | Write_Settings chain_settings_row chain_settings_row audit_row
  | Insert_Bundle bundle_row audit_row
  | Activate_Bundle int audit_row

definition audit_entry ::
    "int \<Rightarrow> string \<Rightarrow> string \<Rightarrow> string \<Rightarrow> string \<Rightarrow> snapshot \<Rightarrow> snapshot \<Rightarrow> string \<Rightarrow> audit_row" where
  "audit_entry ts actor act target_type target_id before after note =
     \<lparr>au_ts = ts, au_actor = actor, au_action = act, au_target_type = target_type, au_target_id = target_id,
      au_before = before, au_after = after, au_note = note\<rparr>"

definition append_audit :: "audit_row \<Rightarrow> database \<Rightarrow> database" where
  "append_audit a db = db\<lparr>db_audit := db_audit db @ [a]\<rparr>"

lemma write_audit_entry: "write_audit ts ac act tt ti b a n = append_audit (audit_entry ts ac act tt ti b a n)"
  by (simp add: fun_eq_iff write_audit_def append_audit_def audit_entry_def)

lemma append_audit_simps [simp]:
  "db_audit (append_audit a db) = db_audit db @ [a]" "db_rules (append_audit a db) = db_rules db"
  "db_bundles (append_audit a db) = db_bundles db" "db_settings (append_audit a db) = db_settings db"
  by (simp_all add: append_audit_def)

section \<open>Reading\<close>

definition read_update :: "string \<Rightarrow> (rule_row \<Rightarrow> rule_row) \<Rightarrow> (validation_error \<Rightarrow> service_error) \<Rightarrow>
    (snapshot \<Rightarrow> snapshot \<Rightarrow> audit_row) \<Rightarrow> database \<Rightarrow> (service_error, pending) result" where
  "read_update i change invalid entry db =
     (case find_rule db i of
        None \<Rightarrow> Inl (RuleNotFound i)
      | Some row \<Rightarrow> bindR (mapError StoredRuleInvalid (row_to_rule row)) (\<lambda>before.
          bindR (mapError invalid (row_to_rule (change row))) (\<lambda>after.
            Inr (Write_Rule row (change row) (entry (Rule_Snapshot before) (Rule_Snapshot after))))))"

definition stored_settings :: "database \<Rightarrow> chain_settings_row" where
  "stored_settings db = (case db_settings db of Some cs \<Rightarrow> cs | None \<Rightarrow> default_chain_settings)"

fun read_rule_op :: "string \<Rightarrow> int \<Rightarrow> rule_op \<Rightarrow> database \<Rightarrow> (service_error, pending) result" where
  "read_rule_op actor now (Create p) db =
     (case unique_id db (new_name p) of
        None \<Rightarrow> Inl NoFreeId
      | Some i \<Rightarrow> bindR (mapError StoredRuleInvalid (row_to_rule (new_row i p now))) (\<lambda>r.
          Inr (Insert_Rule (new_row i p now)
            (audit_entry now actor ''rule.create'' ''rule'' i No_Snapshot (Rule_Snapshot r) []))))"
| "read_rule_op actor now (Update i p) db =
     read_update i (\<lambda>row. bump now (apply_update p row)) InvalidRule
       (\<lambda>b a. audit_entry now actor ''rule.update'' ''rule'' i b a []) db"
| "read_rule_op actor now (Disable i) db =
     read_update i (\<lambda>row. bump now (row\<lparr>row_enabled := False\<rparr>)) StoredRuleInvalid
       (\<lambda>b a. audit_entry now actor ''rule.disable'' ''rule'' i b a ''rules are disabled, never deleted'') db"
| "read_rule_op actor now (Set_Chain act sh) db =
     (let cs = stored_settings db;
          cs' = set_opt (\<lambda>x c. c\<lparr>cs_shadow_mode := x\<rparr>) sh
                  (set_opt (\<lambda>x c. c\<lparr>cs_default_action := action_value x\<rparr>) act cs)
      in Inr (Write_Settings cs cs' (audit_entry now actor ''chain.settings'' ''chain'' ''1''
           (Settings_Snapshot (cs_default_action cs) (cs_shadow_mode cs))
           (Settings_Snapshot (cs_default_action cs') (cs_shadow_mode cs')) [])))"

fun read_step :: "bundle_env \<Rightarrow> string \<times> int \<times> service_op \<Rightarrow> database \<Rightarrow> (bundle_error, pending) result" where
  "read_step env (actor, now, Rule_Op op) db = mapError RuleServiceFailed (read_rule_op actor now op db)"
| "read_step env (actor, now, Publish note require) db =
     bindR (mapError RuleServiceFailed (fst (load_chain \<lparr>committed = db, current = db\<rparr>))) (\<lambda>ch.
       bindR (prepare env ch (next_version db) actor note require now) (\<lambda>(row, skipped).
         Inr (Insert_Bundle row (audit_entry now actor ''bundle.publish'' ''bundle'' (int_str (next_version db))
           No_Snapshot (Manifest_Snapshot (br_manifest row))
           (if skipped then ''validate skipped (no vector binary)'' else [])))))"
| "read_step env (actor, now, Rollback v) db =
     (case find_bundle db v of
        None \<Rightarrow> Inl (NoSuchBundle v)
      | Some row \<Rightarrow> Inr (Activate_Bundle v (audit_entry now actor ''bundle.rollback'' ''bundle'' (int_str v)
          (case active_bundle_row db of None \<Rightarrow> No_Snapshot | Some p \<Rightarrow> Version_Snapshot (br_version p))
          (Version_Snapshot v) [])))"

section \<open>Writing\<close>

definition written :: "('r \<Rightarrow> 'c) \<Rightarrow> 'r \<Rightarrow> 'r \<Rightarrow> 'r \<Rightarrow> 'c" where
  "written col loaded new cur = (if col new \<noteq> col loaded then col new else col cur)"

definition merge_row :: "rule_row \<Rightarrow> rule_row \<Rightarrow> rule_row \<Rightarrow> rule_row" where
  "merge_row loaded new cur =
     \<lparr>row_id = row_id cur, row_name = written row_name loaded new cur,
      row_description = written row_description loaded new cur, row_enabled = written row_enabled loaded new cur,
      row_order = written row_order loaded new cur, row_action = written row_action loaded new cur,
      row_conditions = written row_conditions loaded new cur, row_output = written row_output loaded new cur,
      row_retain = written row_retain loaded new cur, row_shadow = written row_shadow loaded new cur,
      row_version = written row_version loaded new cur, row_updated = written row_updated loaded new cur\<rparr>"

definition merge_settings :: "chain_settings_row \<Rightarrow> chain_settings_row \<Rightarrow> chain_settings_row \<Rightarrow> chain_settings_row" where
  "merge_settings loaded new cur =
     \<lparr>cs_default_action = written cs_default_action loaded new cur,
      cs_shadow_mode = written cs_shadow_mode loaded new cur\<rparr>"

datatype write_error = Integrity_Error | Chain_Unreadable service_error

definition write_step :: "pending \<Rightarrow> database \<Rightarrow> (write_error, unit) result \<times> database" where
  "write_step p db =
     (case p of
        Insert_Rule row a \<Rightarrow>
          (if find_rule db (row_id row) \<noteq> None then (Inl Integrity_Error, db)
           else (Inr (), append_audit a (add_row row db)))
      | Write_Rule loaded new a \<Rightarrow>
          (Inr (), append_audit a
             (db\<lparr>db_rules := map (\<lambda>r. if row_id r = row_id new then merge_row loaded new r else r) (db_rules db)\<rparr>))
      | Write_Settings loaded new a \<Rightarrow>
          (let db' = append_audit a (db\<lparr>db_settings := Some (merge_settings loaded new (stored_settings db))\<rparr>) in
           case fst (load_chain \<lparr>committed = db', current = db'\<rparr>) of
             Inl e \<Rightarrow> (Inl (Chain_Unreadable e), db)
           | Inr ch \<Rightarrow> (Inr (), db'))
      | Insert_Bundle row a \<Rightarrow>
          (if find_bundle db (br_version row) \<noteq> None then (Inl Integrity_Error, db)
           else (Inr (), append_audit a (add_bundle row (deactivate_all db))))
      | Activate_Bundle v a \<Rightarrow> (Inr (), append_audit a (activate v (deactivate_all db))))"

section \<open>Overlapping requests\<close>

text \<open>The tables, and what the requests in flight have in hand, by number.\<close>

inductive overlap :: "bundle_env \<Rightarrow> database \<Rightarrow> database \<Rightarrow> (nat \<Rightarrow> pending option) \<Rightarrow> bool" for env db0 where
  overlap_start: "overlap env db0 db0 (\<lambda>_. None)"
| overlap_read: "overlap env db0 db fl \<Longrightarrow> fl k = None \<Longrightarrow> read_step env req db = Inr p \<Longrightarrow>
    overlap env db0 db (fl(k := Some p))"
| overlap_write: "overlap env db0 db fl \<Longrightarrow> fl k = Some p \<Longrightarrow> overlap env db0 (snd (write_step p db)) (fl(k := None))"

section \<open>One request at a time\<close>

text \<open>Written where it was read, a row is the row computed.\<close>

lemma merge_row_same: "row_id new = row_id loaded \<Longrightarrow> merge_row loaded new loaded = new"
  by (cases new; cases loaded) (simp add: merge_row_def written_def)

lemma merge_settings_same: "merge_settings loaded new loaded = new"
  by (cases new; cases loaded) (simp add: merge_settings_def written_def)

lemma merged_rows:
  assumes "distinct_ids db" "find_rule db i = Some row" "row_id new = row_id row"
  shows "db\<lparr>db_rules := map (\<lambda>r. if row_id r = row_id new then merge_row row new r else r) (db_rules db)\<rparr> = store_row new db"
proof -
  have row: "row \<in> set (db_rules db)" using find_rule_Some [OF assms(2)] by blast
  have "r = row" if "r \<in> set (db_rules db)" "row_id r = row_id new" for r
    using assms(1,3) row that unfolding distinct_ids_def distinct_map inj_on_def by metis
  then have "map (\<lambda>r. if row_id r = row_id new then merge_row row new r else r) (db_rules db) =
      map (\<lambda>r. if row_id r = row_id new then new else r) (db_rules db)"
    using merge_row_same [OF assms(3)] by auto
  then show ?thesis by (simp add: store_row_def)
qed

text \<open>What one request alone does is what its two steps do.\<close>

definition serial :: "('e, 'x) result \<times> database \<Rightarrow> ('f, pending) result \<Rightarrow> database \<Rightarrow> bool" where
  "serial out rd db =
     (case rd of
        Inl e \<Rightarrow> \<not> succeeds (fst out) \<and> snd out = db
      | Inr p \<Rightarrow> succeeds (fst out) = succeeds (fst (write_step p db)) \<and> snd out = snd (write_step p db))"

lemma serial_mapError: "serial out (mapError f rd) db = serial out rd db"
  by (auto simp: serial_def mapError_def split: sum.splits)

lemma serial_outcome: "succeeds (fst out) = succeeds (fst out') \<Longrightarrow> snd out = snd out' \<Longrightarrow> serial out rd db = serial out' rd db"
  by (simp add: serial_def split: sum.splits)

text \<open>With the settings row there, loading the chain only reads the tables as the transaction sees them.\<close>

lemma load_chain_reads:
  "db_settings (current s) = Some cs \<Longrightarrow> load_chain s = (fst (load_chain \<lparr>committed = current s, current = current s\<rparr>), s)"
  by (simp add: load_chain_def get_chain_settings_def list_rules_def)

text \<open>A transaction on one row.\<close>

lemma serial_update:
  assumes "distinct_ids db" "\<And>row. row_id (change row) = row_id row"
    and failed: "find_rule db i = None \<Longrightarrow> out = (Inl a1, db)"
      "\<And>row e. find_rule db i = Some row \<Longrightarrow> row_to_rule row = Inl e \<Longrightarrow> out = (Inl (a2 e), db)"
      "\<And>row b e. find_rule db i = Some row \<Longrightarrow> row_to_rule row = Inr b \<Longrightarrow> row_to_rule (change row) = Inl e \<Longrightarrow> out = (Inl (a3 e), db)"
    and ok: "\<And>row b a. find_rule db i = Some row \<Longrightarrow> row_to_rule row = Inr b \<Longrightarrow> row_to_rule (change row) = Inr a \<Longrightarrow>
      out = (Inr (a4 a), append_audit (entry (Rule_Snapshot b) (Rule_Snapshot a)) (store_row (change row) db))"
  shows "serial out (read_update i change bad_value entry db) db"
proof (cases "find_rule db i")
  case None
  then show ?thesis using failed(1) by (simp add: serial_def read_update_def)
next
  case (Some row)
  note merged = merged_rows [OF assms(1) Some assms(2)]
  show ?thesis
  proof (cases "row_to_rule row")
    case (Inl e)
    then show ?thesis using failed(2) [OF Some] by (simp add: serial_def read_update_def Some mapError_def)
  next
    case b: (Inr b)
    show ?thesis
    proof (cases "row_to_rule (change row)")
      case (Inl e)
      then show ?thesis using failed(3) [OF Some b] by (simp add: serial_def read_update_def Some b mapError_def)
    next
      case (Inr a)
      then show ?thesis
        using ok [OF Some b Inr] merged by (simp add: serial_def read_update_def Some b mapError_def write_step_def)
    qed
  qed
qed

lemma rule_step_simps:
  "rule_step (actor, now, Update i p) db =
     (case find_rule db i of
        None \<Rightarrow> (Inl (RuleNotFound i), db)
      | Some row \<Rightarrow>
          case row_to_rule row of
            Inl e \<Rightarrow> (Inl (StoredRuleInvalid e), db)
          | Inr before \<Rightarrow>
              case row_to_rule (bump now (apply_update p row)) of
                Inl e \<Rightarrow> (Inl (InvalidRule e), db)
              | Inr r \<Rightarrow> (Inr (Rule_Result r), write_audit now actor ''rule.update'' ''rule'' i (Rule_Snapshot before)
                   (Rule_Snapshot r) [] (store_row (bump now (apply_update p row)) db)))"
  "rule_step (actor, now, Disable i) db =
     (case find_rule db i of
        None \<Rightarrow> (Inl (RuleNotFound i), db)
      | Some row \<Rightarrow>
          case row_to_rule row of
            Inl e \<Rightarrow> (Inl (StoredRuleInvalid e), db)
          | Inr before \<Rightarrow>
              case row_to_rule (bump now (row\<lparr>row_enabled := False\<rparr>)) of
                Inl e \<Rightarrow> (Inl (StoredRuleInvalid e), db)
              | Inr r \<Rightarrow> (Inr (Rule_Result r), write_audit now actor ''rule.disable'' ''rule'' i (Rule_Snapshot before)
                   (Rule_Snapshot r) ''rules are disabled, never deleted''
                   (store_row (bump now (row\<lparr>row_enabled := False\<rparr>)) db)))"
  by (simp_all add: rule_step_cases returning_def update_rule_def disable_rule_def Let_def rollback_session_def
      split: option.splits sum.splits)

lemma serial_rule_op:
  assumes "distinct_ids db" "db_settings db \<noteq> None"
  shows "serial (rule_step (actor, now, op) db) (read_rule_op actor now op db) db"
proof (cases op)
  case (Create p)
  then show ?thesis
    by (auto simp: serial_def rule_step_cases returning_def create_rule_def Let_def write_step_def
        write_audit_entry new_row_def mapError_def dest: unique_id_free split: option.splits sum.splits)
next
  case (Update i p)
  show ?thesis
    unfolding Update read_rule_op.simps
    by (rule serial_update [OF assms(1)]) (simp_all add: rule_step_simps write_audit_entry)
next
  case (Disable i)
  show ?thesis
    unfolding Disable read_rule_op.simps
    by (rule serial_update [OF assms(1)]) (simp_all add: rule_step_simps write_audit_entry)
next
  case (Set_Chain act sh)
  obtain cs where cs: "db_settings db = Some cs" using assms(2) by blast
  define cs' where "cs' = set_opt (\<lambda>x c. c\<lparr>cs_shadow_mode := x\<rparr>) sh
    (set_opt (\<lambda>x c. c\<lparr>cs_default_action := action_value x\<rparr>) act cs)"
  define a where "a = audit_entry now actor ''chain.settings'' ''chain'' ''1''
    (Settings_Snapshot (cs_default_action cs) (cs_shadow_mode cs)) (Settings_Snapshot (cs_default_action cs') (cs_shadow_mode cs')) []"
  define db' where "db' = append_audit a (db\<lparr>db_settings := Some cs'\<rparr>)"
  have s: "set_chain_settings act sh actor now \<lparr>committed = db, current = db\<rparr> = load_chain \<lparr>committed = db, current = db'\<rparr>"
    by (simp add: set_chain_settings_def get_chain_settings_def cs Let_def on_db_def write_audit_entry db'_def a_def cs'_def)
  have l: "load_chain \<lparr>committed = db, current = db'\<rparr> =
      (fst (load_chain \<lparr>committed = db', current = db'\<rparr>), \<lparr>committed = db, current = db'\<rparr>)"
    using load_chain_reads [of "\<lparr>committed = db, current = db'\<rparr>" cs'] by (simp add: db'_def)
  have r: "read_rule_op actor now (Set_Chain act sh) db = Inr (Write_Settings cs cs' a)"
    by (simp add: stored_settings_def cs a_def cs'_def Let_def)
  have w: "write_step (Write_Settings cs cs' a) db =
      (case fst (load_chain \<lparr>committed = db', current = db'\<rparr>) of
         Inl e \<Rightarrow> (Inl (Chain_Unreadable e), db) | Inr ch \<Rightarrow> (Inr (), db'))"
    by (simp add: write_step_def stored_settings_def cs merge_settings_same Let_def db'_def [symmetric] split: sum.split)
  show ?thesis
    unfolding Set_Chain r
    by (cases "fst (load_chain \<lparr>committed = db', current = db'\<rparr>)")
      (simp_all add: serial_def w rule_step_cases returning_def s l)
qed

lemma serial_publish:
  assumes "db_settings db \<noteq> None"
  shows "serial (service_step env (actor, now, Publish msg require) db) (read_step env (actor, now, Publish msg require) db) db"
proof -
  obtain cs where cs: "db_settings db = Some cs" using assms by blast
  let ?s = "\<lparr>committed = db, current = db\<rparr>"
  have l: "load_chain ?s = (fst (load_chain ?s), ?s)"
    using load_chain_reads [of ?s cs] cs by simp
  show ?thesis
  proof (cases "bindR (mapError RuleServiceFailed (fst (load_chain ?s))) (\<lambda>ch. prepare env ch (next_version db) actor msg require now)")
    case (Inl e)
    then have p: "publish env actor msg require now ?s = (Inl e, ?s)" by (subst publish_def, subst l) simp
    have "\<exists>e'. read_step env (actor, now, Publish msg require) db = Inl e'"
      using Inl by (auto simp: bindR_Inl_iff)
    then show ?thesis by (auto simp: serial_def session_scope_def p rollback_session_def)
  next
    case (Inr rs)
    obtain row skipped where rs: "rs = (row, skipped)" by (cases rs)
    let ?a = "audit_entry now actor ''bundle.publish'' ''bundle'' (int_str (next_version db)) No_Snapshot
      (Manifest_Snapshot (br_manifest row)) (if skipped then ''validate skipped (no vector binary)'' else [])"
    have p: "publish env actor msg require now ?s =
        (Inr (summary row), \<lparr>committed = db, current = append_audit ?a (add_bundle row (deactivate_all db))\<rparr>)"
      by (subst publish_def, subst l) (simp add: Inr rs on_db_def write_audit_entry)
    have prep: "\<exists>ch. prepare env ch (next_version db) actor msg require now = Inr (row, skipped)"
      using Inr by (auto simp: bindR_Inr_iff rs)
    then have v: "br_version row = next_version db" using prepare_row by metis
    have "find_bundle db (next_version db) = None"
      using next_version_greater [of _ db] by (fastforce simp: find_bundle_def find_None_iff)
    then show ?thesis
      using Inr by (auto simp: serial_def session_scope_def p commit_def bindR_Inr_iff rs write_step_def v)
  qed
qed

lemma serial_service:
  assumes "distinct_ids db" "db_settings db \<noteq> None"
  shows "serial (service_step env req db) (read_step env req db) db"
proof -
  obtain actor now op where req: "req = (actor, now, op)" by (cases req)
  show ?thesis
  proof (cases op)
    case (Rule_Op rop)
    have "serial (service_step env req db) (read_rule_op actor now rop db) db =
        serial (rule_step (actor, now, rop) db) (read_rule_op actor now rop db) db"
      by (rule serial_outcome) (auto simp: req Rule_Op mapError_def split: prod.splits sum.splits)
    then show ?thesis using serial_rule_op [OF assms] by (simp add: req Rule_Op serial_mapError)
  next
    case (Publish msg require)
    then show ?thesis using serial_publish [OF assms(2)] by (simp only: req)
  next
    case (Rollback v)
    then show ?thesis
      by (auto simp: req serial_def session_scope_def rollback_def Let_def commit_def rollback_session_def on_db_def
          write_step_def write_audit_entry split: option.splits)
  qed
qed

section \<open>What every interleaving keeps\<close>

definition grown :: "database \<Rightarrow> database \<Rightarrow> bool" where
  "grown db db' \<longleftrightarrow> (\<exists>ids. map row_id (db_rules db') = map row_id (db_rules db) @ ids) \<and>
     (\<forall>v c. content_of db v = Some c \<longrightarrow> content_of db' v = Some c) \<and>
     (\<exists>es. db_audit db' = db_audit db @ es)"

lemma grown_refl: "grown db db"
  by (simp add: grown_def)

lemma grown_trans: "grown a b \<Longrightarrow> grown b c \<Longrightarrow> grown a c"
  unfolding grown_def by (metis append.assoc)

fun pending_ok :: "bundle_env \<Rightarrow> pending \<Rightarrow> bool" where
  "pending_ok env (Insert_Bundle row a) \<longleftrightarrow> bundle_ok env row \<and> br_active row"
| "pending_ok env p \<longleftrightarrow> True"

lemma merge_row_id [simp]: "row_id (merge_row loaded new cur) = row_id cur"
  by (simp add: merge_row_def)

lemma read_pending_ok:
  assumes "bundles_ok env db" "read_step env req db = Inr p"
  shows "pending_ok env p"
proof (cases p)
  case (Insert_Bundle row a)
  obtain actor now op where req: "req = (actor, now, op)" by (cases req)
  obtain msg require where op: "op = Publish msg require"
  proof (cases op)
    case (Rule_Op rop)
    then have "read_rule_op actor now rop db = Inr (Insert_Bundle row a)"
      using assms(2) by (simp add: req Insert_Bundle mapError_Inr_iff)
    then show ?thesis
      by (cases rop) (auto simp: read_update_def bindR_Inr_iff Let_def split: option.splits)
  next
    case (Publish msg require)
    then show ?thesis using that by blast
  next
    case (Rollback v)
    then show ?thesis using assms(2) by (auto simp: req Insert_Bundle split: option.splits)
  qed
  then obtain ch skipped where "prepare env ch (next_version db) actor msg require now = Inr (row, skipped)"
    using assms(2) by (auto simp: req Insert_Bundle bindR_Inr_iff)
  moreover have "1 \<le> next_version db" using assms(1) next_version_pos unfolding bundles_ok_def by blast
  ultimately show ?thesis
    by (rule_tac prepare_row) (auto simp: Insert_Bundle bundle_ok_def)
qed simp_all

lemma write_bundle_ok:
  assumes "bundles_ok env db" "bundle_ok env row" "br_active row" "find_bundle db (br_version row) = None"
  shows "bundles_ok env (add_bundle row (deactivate_all db))"
proof -
  have "br_version row \<notin> set (map br_version (db_bundles db))"
    using assms(4) by (auto simp: find_bundle_def find_None_iff)
  moreover have "list_all (bundle_ok env) (db_bundles (deactivate_all db))"
    using assms(1) by (simp add: bundles_ok_def deactivate_all_bundles list_all_iff bundle_ok_def)
  ultimately show ?thesis
    using assms filter_active_deactivate [of db] by (auto simp: bundles_ok_def deactivate_all_bundles o_def)
qed

lemma write_activate_ok:
  assumes "bundles_ok env db"
  shows "bundles_ok env (activate v (deactivate_all db))"
  using assms distinct_filter_version [of "db_bundles db" v]
  by (simp add: bundles_ok_def activate_deactivated list_all_iff bundle_ok_def filter_map o_def)

lemma write_step_sound:
  assumes "bundles_ok env db" "distinct_ids db" "pending_ok env p"
  shows "bundles_ok env (snd (write_step p db)) \<and> distinct_ids (snd (write_step p db)) \<and> grown db (snd (write_step p db))"
proof (cases p)
  case (Insert_Rule row a)
  show ?thesis
  proof (cases "find_rule db (row_id row)")
    case None
    let ?db' = "append_audit a (add_row row db)"
    have "bundles_ok env ?db'" using assms(1) bundles_ok_cong [of ?db' db] by simp
    moreover have "content_of ?db' v = content_of db v" for v by (rule content_cong) simp
    moreover have "distinct_ids ?db'" using assms(2) None by (simp add: distinct_ids_def find_rule_None_iff)
    ultimately show ?thesis using None by (simp add: Insert_Rule write_step_def grown_def)
  next
    case (Some r)
    then show ?thesis using assms by (simp add: Insert_Rule write_step_def grown_refl)
  qed
next
  case (Write_Rule loaded new a)
  let ?db' = "append_audit a (db\<lparr>db_rules := map (\<lambda>r. if row_id r = row_id new then merge_row loaded new r else r) (db_rules db)\<rparr>)"
  have ids: "map row_id (db_rules ?db') = map row_id (db_rules db)" by simp
  have "content_of ?db' v = content_of db v" for v by (rule content_cong) simp
  moreover have "bundles_ok env ?db'" using assms(1) bundles_ok_cong [of ?db' db] by simp
  moreover have "distinct_ids ?db'" using assms(2) unfolding distinct_ids_def ids .
  moreover from calculation have "grown db ?db'" unfolding grown_def ids by simp
  ultimately show ?thesis by (simp add: Write_Rule write_step_def)
next
  case (Write_Settings loaded new a)
  let ?db' = "append_audit a (db\<lparr>db_settings := Some (merge_settings loaded new (stored_settings db))\<rparr>)"
  have "content_of ?db' v = content_of db v" for v by (rule content_cong) simp
  moreover have "bundles_ok env ?db'" using assms(1) bundles_ok_cong [of ?db' db] by simp
  moreover have "distinct_ids ?db'" using assms(2) by (simp add: distinct_ids_def)
  ultimately have "bundles_ok env ?db' \<and> distinct_ids ?db' \<and> grown db ?db'" by (simp add: grown_def)
  then show ?thesis using assms by (simp add: Write_Settings write_step_def Let_def grown_refl split: sum.split)
next
  case (Insert_Bundle row a)
  show ?thesis
  proof (cases "find_bundle db (br_version row)")
    case None
    let ?db = "add_bundle row (deactivate_all db)" and ?db' = "append_audit a (add_bundle row (deactivate_all db))"
    have "bundles_ok env ?db" using assms None by (intro write_bundle_ok) (simp_all add: Insert_Bundle)
    then have "bundles_ok env ?db'" using bundles_ok_cong [of ?db' ?db] by simp
    moreover have "content_of ?db' v = Some c" if "content_of db v = Some c" for v c
      using that content_cong [of ?db' ?db v] by (simp add: content_add content_deactivate)
    moreover have "distinct_ids ?db'" using assms(2) by (simp add: distinct_ids_def)
    ultimately show ?thesis using None by (simp add: Insert_Bundle write_step_def grown_def)
  next
    case (Some r)
    then show ?thesis using assms by (simp add: Insert_Bundle write_step_def grown_refl)
  qed
next
  case (Activate_Bundle v a)
  let ?db = "activate v (deactivate_all db)" and ?db' = "append_audit a (activate v (deactivate_all db))"
  have "bundles_ok env ?db'" using write_activate_ok [OF assms(1)] bundles_ok_cong [of ?db' ?db] by simp
  moreover have "content_of ?db' w = content_of db w" for w
    using content_cong [of ?db' ?db w] by (simp add: content_activate content_deactivate)
  moreover have "distinct_ids ?db'" using assms(2) by (simp add: distinct_ids_def)
  ultimately show ?thesis by (simp add: Activate_Bundle write_step_def grown_def)
qed

lemma overlap_sound:
  assumes "overlap env db0 db fl" "bundles_ok env db0" "distinct_ids db0"
  shows "bundles_ok env db \<and> distinct_ids db \<and> grown db0 db \<and> (\<forall>k p. fl k = Some p \<longrightarrow> pending_ok env p)"
  using assms(1)
proof (induction rule: overlap.induct)
  case overlap_start
  then show ?case using assms(2,3) by (simp add: grown_refl)
next
  case (overlap_read db fl k req p)
  then have "pending_ok env p" by (intro read_pending_ok [of env db req p]) blast+
  with overlap_read show ?case by auto
next
  case (overlap_write db fl k p)
  then show ?case using write_step_sound [of env db p] grown_trans by auto
qed

section \<open>An invalid row\<close>

text \<open>A row that does not read back as a rule stays, whatever is requested, and stops every request that
  reads it.\<close>

lemma invalid_row_rule_step:
  assumes "find_rule db i = Some row" "row_to_rule row = Inl e" "rule_step (actor, now, rop) db = (Inr x, db')"
  shows "find_rule db' i = Some row"
  using assms(3)
proof (cases rule: rule_step_service)
  case (created p r s')
  obtain j where c: "unique_id db (new_name p) = Some j" "db_rules db' = db_rules (add_row (new_row j p now) db)"
    using create_rule_cases(2) [OF created(2) refl] created(3) by auto
  then have "find_rule db' i = find_rule (add_row (new_row j p now) db) i" by (intro find_rule_cong)
  then show ?thesis using assms(1) by (simp add: find_rule_add)
next
  case (updated j p r s')
  obtain old before where c: "find_rule db j = Some old" "row_to_rule old = Inr before"
    "db_rules db' = db_rules (store_row (bump now (apply_update p old)) db)"
    using update_rule_cases(2) [OF updated(2) refl] updated(3) by (metis session.select_convs(2) write_audit_simps(2))
  then have "find_rule db' i = find_rule (store_row (bump now (apply_update p old)) db) i" by (intro find_rule_cong)
  then show ?thesis using assms(1,2) c find_rule_Some [OF c(1)] by (auto simp: find_rule_store simp del: store_row_simps)
next
  case (disabled j r s')
  obtain old before where c: "find_rule db j = Some old" "row_to_rule old = Inr before"
    "db_rules db' = db_rules (store_row (bump now (old\<lparr>row_enabled := False\<rparr>)) db)"
    using disable_rule_cases(2) [OF disabled(2) refl] disabled(3) by (metis session.select_convs(2) write_audit_simps(2))
  then have "find_rule db' i = find_rule (store_row (bump now (old\<lparr>row_enabled := False\<rparr>)) db) i" by (intro find_rule_cong)
  then show ?thesis using assms(1,2) c find_rule_Some [OF c(1)] by (auto simp: find_rule_store simp del: store_row_simps)
next
  case (settings a sh r s')
  then have "db_rules db' = db_rules db" using set_chain_settings_cases(2) [OF settings(2)] by simp
  then show ?thesis using assms(1) find_rule_cong [of db' db i] by simp
qed

lemma invalid_row_step:
  assumes "find_rule db i = Some row" "row_to_rule row = Inl e"
  shows "find_rule (snd (service_step env req db)) i = Some row"
proof -
  obtain actor now op where req: "req = (actor, now, op)" by (cases req)
  obtain res db' where s: "service_step env req db = (res, db')" by (cases "service_step env req db")
  have "find_rule db' i = Some row"
  proof (cases res)
    case (Inl e')
    then show ?thesis using s service_step_failed assms(1) unfolding req by metis
  next
    case (Inr x)
    show ?thesis
    proof (cases op)
      case (Rule_Op rop)
      then obtain y where "rule_step (actor, now, rop) db = (Inr y, db')"
        using s Inr by (auto simp: req bindR_Inr_iff mapError_Inr_iff split: prod.splits)
      then show ?thesis by (rule invalid_row_rule_step [OF assms])
    next
      case (Publish msg require)
      then obtain y where "session_scope (publish env actor msg require now) db = (Inr y, db')"
        using s Inr by (auto simp: req bindR_Inr_iff split: prod.splits)
      then obtain s' where "publish env actor msg require now \<lparr>committed = db, current = db\<rparr> = (Inr y, s')" "db' = current s'"
        by (rule scope_succeeded)
      then have "db_rules db' = db_rules db" using publish_cases(2) by fastforce
      then show ?thesis using assms(1) find_rule_cong [of db' db i] by simp
    next
      case (Rollback v)
      then obtain y where "session_scope (rollback v actor now) db = (Inr y, db')"
        using s Inr by (auto simp: req bindR_Inr_iff split: prod.splits)
      then obtain s' where "rollback v actor now \<lparr>committed = db, current = db\<rparr> = (Inr y, s')" "db' = current s'"
        by (rule scope_succeeded)
      then have "db_rules db' = db_rules db" using rollback_cases(2) by fastforce
      then show ?thesis using assms(1) find_rule_cong [of db' db i] by simp
    qed
  qed
  then show ?thesis by (simp add: s)
qed

lemma invalid_row_stays:
  "find_rule db i = Some row \<Longrightarrow> row_to_rule row = Inl e \<Longrightarrow> find_rule (run_ops (service_step env) ops db) i = Some row"
  by (induction ops arbitrary: db) (simp_all add: invalid_row_step)

lemma load_chain_invalid_row:
  assumes "find_rule (current s) i = Some row" "row_to_rule row = Inl e"
  shows "\<not> succeeds (fst (load_chain s))"
proof
  assume "succeeds (fst (load_chain s))"
  then obtain ch s' where "load_chain s = (Inr ch, s')" by (cases "load_chain s") (auto simp: succeeds_iff)
  then have "succeeds (mapR row_to_rule (sort_key row_key (db_rules (current s))))"
    using load_chain_rules by (simp add: succeeds_iff)
  then show False using assms find_rule_Some [OF assms(1)] by (auto simp: mapR_succeeds_iff)
qed

lemma invalid_row_blocks:
  assumes "find_rule db i = Some row" "row_to_rule row = Inl e"
    "op = Publish msg require \<or> op = Rule_Op (Set_Chain act sh) \<or> op = Rule_Op (Update i p) \<or> op = Rule_Op (Disable i)"
  shows "\<not> succeeds (fst (service_step env (actor, now, op) db))"
proof -
  have bad: "\<not> succeeds (fst (load_chain s))" if "db_rules (current s) = db_rules db" for s
    using load_chain_invalid_row [of s i row e] assms find_rule_cong [OF that, of i] by simp
  consider (a) "op = Publish msg require" | (b) "op = Rule_Op (Set_Chain act sh)" | (c) "op = Rule_Op (Update i p)"
    | (d) "op = Rule_Op (Disable i)" using assms(3) by blast
  then show ?thesis
  proof cases
    case a
    obtain res s1 where "load_chain \<lparr>committed = db, current = db\<rparr> = (res, s1)"
      by (cases "load_chain \<lparr>committed = db, current = db\<rparr>")
    then show ?thesis
      using bad [of "\<lparr>committed = db, current = db\<rparr>"]
      by (cases res) (simp_all add: a session_scope_def publish_def split: prod.split sum.split)
  next
    case b
    obtain res s1 where l: "set_chain_settings act sh actor now \<lparr>committed = db, current = db\<rparr> = (res, s1)"
      by (cases "set_chain_settings act sh actor now \<lparr>committed = db, current = db\<rparr>")
    then obtain s3 where "load_chain s3 = (res, s1)" "db_rules (current s3) = db_rules db"
      by (auto simp: set_chain_settings_def get_chain_settings_def Let_def split: option.splits)
    then have "\<not> succeeds res" using bad [of s3] by simp
    then show ?thesis by (cases res) (simp_all add: b rule_step_cases returning_def l)
  qed (simp_all add: rule_step_simps assms(1,2))
qed

section \<open>Properties\<close>

text \<open>C26: However many requests overlap, each reading before others write and writing after, the tables stay
  sound: rule ids and bundle versions are unique, at most one bundle is active, every stored checksum is that
  of its configuration, and nothing is lost: rules are only added, a published bundle keeps its content and
  the audit log only grows at its end.\<close>

theorem overlapping_requests_sound:
  assumes "overlap env db0 db fl" "bundles_ok env db0" "distinct_ids db0" "db_settings db0 \<noteq> None"
  shows "bundles_ok env db \<and> distinct_ids db \<and>
    (\<exists>ids. map row_id (db_rules db) = map row_id (db_rules db0) @ ids) \<and>
    (\<forall>v c. content_of db0 v = Some c \<longrightarrow> content_of db v = Some c) \<and>
    (\<exists>entries. db_audit db = db_audit db0 @ entries)"
  using overlap_sound [OF assms(1-3)] unfolding grown_def by blast

text \<open>A DROP rule, and two partial updates of it.\<close>

definition noisy_db :: database where
  "noisy_db = (add_row (new_row ''noisy'' (sample_create\<lparr>new_retain := False\<rparr>) 1) empty_db)
     \<lparr>db_settings := Some default_chain_settings\<rparr>"

definition no_change :: rule_update where
  "no_change = \<lparr>upd_name = None, upd_description = None, upd_enabled = None, upd_order = None, upd_action = None,
     upd_conditions = None, upd_output = None, upd_retain = None, upd_shadow = None\<rparr>"

definition retain_request :: "string \<times> int \<times> service_op" where
  "retain_request = (''ann'', 5, Rule_Op (Update ''noisy'' (no_change\<lparr>upd_retain := Some True\<rparr>)))"

definition forward_request :: "string \<times> int \<times> service_op" where
  "forward_request = (''bob'', 6, Rule_Op (Update ''noisy'' (no_change\<lparr>upd_action := Some FORWARD\<rparr>)))"

text \<open>The row with both changes.\<close>

definition merged_row :: rule_row where
  "merged_row = (new_row ''noisy'' sample_create 1)\<lparr>row_action := ''forward'', row_version := 2, row_updated := 6\<rparr>"

definition noisy_row :: rule_row where
  "noisy_row = new_row ''noisy'' (sample_create\<lparr>new_retain := False\<rparr>) 1"

lemma noisy_found: "find_rule noisy_db ''noisy'' = Some noisy_row" "db_rules noisy_db = [noisy_row]"
  by (simp_all add: noisy_db_def noisy_row_def find_rule_def empty_db_def new_row_def)

lemma noisy_rules:
  "row_to_rule noisy_row = Inr (rule_of_create ''noisy'' (sample_create\<lparr>new_retain := False\<rparr>) 1)"
  "bump 5 (apply_update (no_change\<lparr>upd_retain := Some True\<rparr>) noisy_row) =
     noisy_row\<lparr>row_retain := True, row_version := 2, row_updated := 5\<rparr>"
  "bump 6 (apply_update (no_change\<lparr>upd_action := Some FORWARD\<rparr>) noisy_row) =
     noisy_row\<lparr>row_action := ''forward'', row_version := 2, row_updated := 6\<rparr>"
  "succeeds (row_to_rule (noisy_row\<lparr>row_retain := True, row_version := 2, row_updated := 5\<rparr>))"
  "succeeds (row_to_rule (noisy_row\<lparr>row_action := ''forward'', row_version := 2, row_updated := 6\<rparr>))"
  "row_to_rule merged_row = Inl RetainNeedsDrop"
  by code_simp+

lemma noisy_reads:
  "\<exists>a. read_step env retain_request noisy_db =
     Inr (Write_Rule noisy_row (noisy_row\<lparr>row_retain := True, row_version := 2, row_updated := 5\<rparr>) a)"
  "\<exists>a. read_step env forward_request noisy_db =
     Inr (Write_Rule noisy_row (noisy_row\<lparr>row_action := ''forward'', row_version := 2, row_updated := 6\<rparr>) a)"
  using noisy_rules(4,5)
  by (auto simp: retain_request_def forward_request_def read_update_def noisy_found noisy_rules(1-3) succeeds_iff mapError_def)

lemma noisy_merged:
  "merge_row noisy_row (noisy_row\<lparr>row_action := ''forward'', row_version := 2, row_updated := 6\<rparr>)
     (merge_row noisy_row (noisy_row\<lparr>row_retain := True, row_version := 2, row_updated := 5\<rparr>) noisy_row) = merged_row"
  by code_simp

lemma noisy_overlap:
  "\<exists>db fl. overlap env noisy_db db fl \<and> fl = (\<lambda>_. None) \<and> db_rules db = [merged_row] \<and>
     length (db_audit db) = 2"
proof -
  obtain p1 p2 a1 a2 where r: "read_step env retain_request noisy_db = Inr p1" "read_step env forward_request noisy_db = Inr p2"
    and p: "p1 = Write_Rule noisy_row (noisy_row\<lparr>row_retain := True, row_version := 2, row_updated := 5\<rparr>) a1"
      "p2 = Write_Rule noisy_row (noisy_row\<lparr>row_action := ''forward'', row_version := 2, row_updated := 6\<rparr>) a2"
    using noisy_reads [of env] by blast
  let ?one = "snd (write_step p1 noisy_db)" and ?two = "snd (write_step p2 (snd (write_step p1 noisy_db)))"
  have "overlap env noisy_db noisy_db (\<lambda>_. None)" by (rule overlap_start)
  then have "overlap env noisy_db noisy_db ((\<lambda>_. None)(0 := Some p1))" by (rule overlap_read [OF _ _ r(1)]) simp_all
  then have "overlap env noisy_db noisy_db ((\<lambda>_. None)(0 := Some p1, 1 := Some p2))" by (rule overlap_read [OF _ _ r(2)]) simp_all
  then have "overlap env noisy_db ?one ((\<lambda>_. None)(0 := Some p1, 1 := Some p2, 0 := None))" by (rule overlap_write) simp
  then have "overlap env noisy_db ?two ((\<lambda>_. None)(0 := Some p1, 1 := Some p2, 0 := None, 1 := None))" by (rule overlap_write) simp
  moreover have "(\<lambda>_. None)(0 := Some p1, 1 := Some p2, 0 := None, 1 := None) = (\<lambda>_::nat. None)" by (simp add: fun_eq_iff)
  moreover have "row_id noisy_row = ''noisy''" by (simp add: noisy_row_def new_row_def)
  then have "db_rules ?two = [merged_row]" "length (db_audit ?two) = 2"
    by (simp_all add: p write_step_def noisy_found noisy_merged) (simp add: noisy_db_def empty_db_def)
  ultimately show ?thesis by metis
qed

theorem overlapping_requests_sound_witness:
  "\<exists>db fl. overlap sample_env noisy_db db fl \<and> db_rules db = [merged_row] \<and> distinct_ids db \<and>
     bundles_ok sample_env db \<and> (\<exists>entries. db_audit db = db_audit noisy_db @ entries \<and> length entries = 2)"
proof -
  obtain db fl where o: "overlap sample_env noisy_db db fl" "db_rules db = [merged_row]" "length (db_audit db) = 2"
    using noisy_overlap by blast
  have start: "bundles_ok sample_env noisy_db" "distinct_ids noisy_db" "db_settings noisy_db \<noteq> None" "db_audit noisy_db = []"
    by (simp_all add: noisy_db_def bundles_ok_def distinct_ids_def empty_db_def)
  from overlapping_requests_sound [OF o(1) start(1-3)] show ?thesis using o start(4) by auto
qed

text \<open>C27: The check of an update is not a check of what is stored. Two updates of one DROP rule, one setting
  payload retention and one the forward action, each succeed alone; overlapping, both are accepted and logged,
  the row ends at version 2 as after one of them, and forwards with retention, which no rule may. From then on,
  whatever is requested, the chain cannot be loaded, and publishing, changing the chain settings and updating
  or disabling the rule all fail.\<close>

theorem overlapping_updates_break_chain:
  "succeeds (fst (service_step env retain_request noisy_db)) \<and> succeeds (fst (service_step env forward_request noisy_db)) \<and>
   (\<exists>db. overlap env noisy_db db (\<lambda>_. None) \<and> rule_version_of db ''noisy'' = Some 2 \<and> length (db_audit db) = 2 \<and>
     (\<forall>ops. let later = run_ops (service_step env) ops db in
        find_rule later ''noisy'' = Some merged_row \<and>
        \<not> succeeds (fst (load_chain \<lparr>committed = later, current = later\<rparr>)) \<and>
        (\<forall>actor now msg require act sh p.
           \<not> succeeds (fst (service_step env (actor, now, Publish msg require) later)) \<and>
           \<not> succeeds (fst (service_step env (actor, now, Rule_Op (Set_Chain act sh)) later)) \<and>
           \<not> succeeds (fst (service_step env (actor, now, Rule_Op (Update ''noisy'' p)) later)) \<and>
           \<not> succeeds (fst (service_step env (actor, now, Rule_Op (Disable ''noisy'')) later)))))"
proof -
  have alone: "succeeds (fst (service_step env req noisy_db))" if "req \<in> {retain_request, forward_request}" for req
  proof -
    have "distinct_ids noisy_db" "db_settings noisy_db \<noteq> None"
      by (simp_all add: noisy_db_def distinct_ids_def empty_db_def)
    from serial_service [OF this, of env req] show ?thesis
      using that noisy_reads [of env] by (auto simp: serial_def write_step_def)
  qed
  obtain db where db: "overlap env noisy_db db (\<lambda>_. None)" "db_rules db = [merged_row]" "length (db_audit db) = 2"
    using noisy_overlap by blast
  have f: "find_rule db ''noisy'' = Some merged_row"
    by (simp add: find_rule_def db(2)) (simp add: merged_row_def new_row_def)
  then have v: "rule_version_of db ''noisy'' = Some 2" by (simp add: rule_version_of_def merged_row_def)
  have later: "find_rule (run_ops (service_step env) ops db) ''noisy'' = Some merged_row" for ops
    by (rule invalid_row_stays [OF f noisy_rules(6)])
  have chain: "\<not> succeeds (fst (load_chain \<lparr>committed = run_ops (service_step env) ops db,
      current = run_ops (service_step env) ops db\<rparr>))" for ops
    by (rule load_chain_invalid_row [OF _ noisy_rules(6), of _ "''noisy''"]) (simp add: later)
  show ?thesis
    unfolding Let_def
    using alone [of retain_request] alone [of forward_request] db(1,3) v later chain invalid_row_blocks [OF later noisy_rules(6)]
    by (intro conjI exI [of _ db] ballI allI) (auto simp del: service_step.simps)
qed

end
