(* ===== verification/Node_Records.thy ===== *)
theory Node_Records
  imports Complex_Main Prelude Json Rule_Model Encoder Compiler Lexical Injection Program_Text Decision Predicate_Syntax
    Condition_Meaning Program_Run Program_Message Vector_Config
begin

text \<open>
  What a node sends on: the audit and sample programs of \<open>compiler/vector_config.py\<close> with the meaning
  VRL documents for their forms, and the topology followed from the listening socket to
  the sinks. The program of the chain is the one of \<open>Program_Run\<close>.
\<close>

section \<open>The lines of a record program\<close>

text \<open>An item of an object: a comment, a key with an expression, a key with an object of such.\<close>

datatype item =
    Remark string
  | Item string string
  | Nested string "(string \<times> string) list"

fun item_lines :: "item \<Rightarrow> string list" where
  "item_lines (Remark t) = [INDENT @ CHR ''#'' # t]"
| "item_lines (Item k e) = [entry_line (k, e)]"
| "item_lines (Nested k es) =
     [INDENT @ [DQ] @ k @ [DQ] @ '': {''] @ map (\<lambda>e. INDENT @ entry_line e) es @ [INDENT @ ''},'']"

fun item_keys :: "item \<Rightarrow> string list" where
  "item_keys (Remark t) = []"
| "item_keys (Item k e) = [k]"
| "item_keys (Nested k es) = [k]"

fun item_ok :: "item \<Rightarrow> bool" where
  "item_ok (Remark t) \<longleftrightarrow> True"
| "item_ok (Item k e) \<longleftrightarrow> DQ \<notin> set k"
| "item_ok (Nested k es) \<longleftrightarrow> DQ \<notin> set k \<and> list_all (\<lambda>e. DQ \<notin> set (fst e)) es \<and> distinct (map fst es)"

fun item_values :: "(string \<Rightarrow> vrl_value) \<Rightarrow> item \<Rightarrow> vobj" where
  "item_values ev (Remark t) = []"
| "item_values ev (Item k e) = [(k, ev e)]"
| "item_values ev (Nested k es) = [(k, VObj (map (\<lambda>e. (fst e, ev (snd e))) es))]"

definition object_lines :: "item list \<Rightarrow> string list" where
  "object_lines items = ''. = {'' # concat (map item_lines items) @ [''}'']"

definition object_ok :: "item list \<Rightarrow> bool" where
  "object_ok items \<longleftrightarrow> list_all item_ok items \<and> distinct (concat (map item_keys items))"

section \<open>The language, as far as these programs rely on it\<close>

text \<open>
  The event is the variable \<open>.\<close>, an object; a path into it that leads nowhere is null. An
  assignment to it replaces the whole event, computed from the event as it was.
\<close>

locale vrl_records = vrl_expressions +
  fixes run :: "string list \<Rightarrow> venv \<Rightarrow> venv"
  assumes run_Nil: "run [] env = env"
    and run_blank: "run ([] # ls) env = run ls env"
    and run_comment: "run ((CHR ''#'' # t) # ls) env = run ls env"
    and run_assign: "is_var x \<Longrightarrow> run ((x @ '' = '' @ e) # ls) env = run ls (env(x := eval env e))"
    and run_object: "object_ok items \<Longrightarrow> run (object_lines items @ ls) env =
      run ls (env(''.'' := VObj (concat (map (item_values (eval env)) items))))"
    and run_field: "is_var k \<Longrightarrow> env ''.'' = VObj kv \<Longrightarrow> run ((CHR ''.'' # k @ '' = '' @ e) # ls) env =
      run ls (env(''.'' := VObj (set_key k (eval env e) kv)))"
    and run_if: "is_var x \<Longrightarrow> list_all indented body \<Longrightarrow> run (if_line x # body @ ''}'' # ls) env =
      run ls (if env x = VBool True then run (map dedent body) env else env)"
    and eval_text: "walk (env ''.'') [''message''] = VStr s \<Longrightarrow> eval env MESSAGE_TEXT = VStr s"
    and eval_ss: "is_var k \<Longrightarrow> eval env (''.ss.'' @ k) = walk (env ''.'') [''ss'', k]"
    and eval_flag: "is_var k \<Longrightarrow>
      eval env (''.ss.'' @ k @ '' == true'') = VBool (walk (env ''.'') [''ss'', k] = VBool True)"
    and eval_eq: "is_var k \<Longrightarrow> encode_string s = Inr t \<Longrightarrow>
      eval env (''.ss.'' @ k @ '' == '' @ t) = VBool (walk (env ''.'') [''ss'', k] = VStr s)"
    and eval_ne: "is_var k \<Longrightarrow> encode_string s = Inr t \<Longrightarrow>
      eval env (''.ss.'' @ k @ '' != '' @ t) = VBool (walk (env ''.'') [''ss'', k] \<noteq> VStr s)"

section \<open>The two programs\<close>

definition audit_lines :: "string \<Rightarrow> string list" where
  "audit_lines node_lit = AUDIT_HEAD @ [node_line node_lit] @ AUDIT_TAIL"

definition sample_lines :: "string \<Rightarrow> string list" where
  "sample_lines node_lit = SAMPLE_HEAD @ [node_line node_lit] @ SAMPLE_TAIL"

definition audit_items :: "string \<Rightarrow> item list" where
  "audit_items node_lit =
     [Item ''@timestamp'' ''.ss.ts'', Item ''decision'' ''.ss.decision'', Item ''reason'' ''.ss.reason'',
      Item ''rule_id'' ''.ss.rule_id'', Item ''rule_version'' ''.ss.rule_version'',
      Item ''chain_version'' ''.ss.chain_version'', Item ''event_id'' ''.ss.event_id'',
      Item ''severity'' ''.ss.severity'', Item ''host'' ''.ss.host'', Item ''name'' ''.ss.name'',
      Item ''node'' node_lit]"

definition sample_items :: "string \<Rightarrow> item list" where
  \<open>sample_items node_lit =
     [Item ''ts'' ''.ss.ts'', Item ''decision'' ''.ss.decision'', Item ''reason'' ''.ss.reason'',
      Item ''rule_id'' ''.ss.rule_id'', Item ''rule_version'' ''.ss.rule_version'',
      Item ''event_id'' ''.ss.event_id'', Item ''node'' node_lit,
      Remark '' Which parser produced the fields. Without this the live view cannot explain why a rule'',
      Remark '' did not match: a CEF rule against a plain syslog event looks identical to a bad rule.'',
      Item ''cef_ok'' ''.ss.cef_ok'', Item ''syslog_ok'' ''.ss.syslog_ok'',
      Nested ''fields'' [(''severity'', ''.ss.severity''), (''filterhostname'', ''.ss.host''), (''name'', ''.ss.name'')],
      Item ''raw'' MESSAGE_TEXT]\<close>

lemma record_program_lines:
  "audit_lines node_lit = take 2 AUDIT_HEAD @ [''retain = .ss.retain == true'', ''original = '' @ MESSAGE_TEXT, []] @
     object_lines (audit_items node_lit) @ [[], if_line ''retain'', INDENT @ ''.raw = original'', ''}'']"
  "sample_lines node_lit = take 2 SAMPLE_HEAD @ object_lines (sample_items node_lit)"
  by (simp_all add: audit_lines_def sample_lines_def AUDIT_HEAD_def AUDIT_TAIL_def SAMPLE_HEAD_def SAMPLE_TAIL_def
      node_line_def object_lines_def audit_items_def sample_items_def entry_line_def INDENT_def MESSAGE_TEXT_def
      if_line_def)

lemma record_items_ok: "object_ok (audit_items node_lit)" "object_ok (sample_items node_lit)"
  by (simp_all add: object_ok_def audit_items_def sample_items_def)

lemma record_var_names:
  "is_var ''retain''" "is_var ''original''" "is_var ''raw''" "is_var ''ts''" "is_var ''rule_id''" "is_var ''rule_version''"
  "is_var ''chain_version''" "is_var ''event_id''" "is_var ''severity''" "is_var ''host''" "is_var ''name''"
  "is_var ''cef_ok''" "is_var ''syslog_ok''" "is_var ''decision''" "is_var ''reason''"
  by code_simp+

text \<open>The columns an event has under \<open>.ss\<close>, null where it has none.\<close>

definition ss_column :: "vobj \<Rightarrow> string \<Rightarrow> vrl_value" where
  "ss_column ev k = walk (VObj ev) [''ss'', k]"

definition event_vars :: "vobj \<Rightarrow> venv" where
  "event_vars ev = (\<lambda>x. VNull)(''.'' := VObj ev)"

definition recorded :: "(string list \<Rightarrow> venv \<Rightarrow> venv) \<Rightarrow> string list \<Rightarrow> vobj \<Rightarrow> vobj" where
  "recorded run ls ev = object_value (run ls (event_vars ev) ''.'')"

text \<open>The records as the decision record of the event and the node name give them.\<close>

definition copied :: "vobj \<Rightarrow> string list \<Rightarrow> vobj" where
  "copied ev ks = map (\<lambda>k. (k, ss_column ev k)) ks"

definition audit_copy :: "vobj \<Rightarrow> string \<Rightarrow> string \<Rightarrow> vobj" where
  "audit_copy ev node raw =
     (if ss_column ev ''retain'' = VBool True then [(''raw'', VStr raw)] else []) @
     (''@timestamp'', ss_column ev ''ts'') # copied ev [''decision'', ''reason'', ''rule_id'', ''rule_version'',
       ''chain_version'', ''event_id'', ''severity'', ''host'', ''name''] @ [(''node'', VStr node)]"

definition sample_copy :: "vobj \<Rightarrow> string \<Rightarrow> string \<Rightarrow> vobj" where
  "sample_copy ev node raw =
     copied ev [''ts'', ''decision'', ''reason'', ''rule_id'', ''rule_version'', ''event_id''] @ (''node'', VStr node) #
     copied ev [''cef_ok'', ''syslog_ok''] @
     [(''fields'', VObj [(''severity'', ss_column ev ''severity''), (''filterhostname'', ss_column ev ''host''),
        (''name'', ss_column ev ''name'')]), (''raw'', VStr raw)]"

context vrl_records
begin

lemmas eval_columns = record_var_names [THEN eval_ss, simplified]

lemma audit_program_writes:
  assumes "encode_string node = Inr node_lit" "map_of ev ''message'' = Some (VStr raw)"
  shows "recorded run (audit_lines node_lit) ev = audit_copy ev node raw"
proof -
  let ?cols = "(''@timestamp'', ss_column ev ''ts'') # copied ev [''decision'', ''reason'', ''rule_id'', ''rule_version'',
    ''chain_version'', ''event_id'', ''severity'', ''host'', ''name''] @ [(''node'', VStr node)]"
  let ?env = "(event_vars ev)(''retain'' := VBool (ss_column ev ''retain'' = VBool True), ''original'' := VStr raw)"
  have keep: "run (map dedent [INDENT @ ''.raw = original'']) env =
      env(''.'' := VObj (set_key ''raw'' (env ''original'') kv))" if "env ''.'' = VObj kv" for env kv
    using run_field [where env = env and ls = "[]" and e = "''original''", OF record_var_names(3) that]
      eval_var [OF record_var_names(2)]
    by (simp add: dedent_def INDENT_def run_Nil)
  have c: "run (take 2 AUDIT_HEAD @ ls) env = run ls env" for ls env
    by (simp add: AUDIT_HEAD_def run_comment)
  have "run (''retain = .ss.retain == true'' # ls) env =
      run ls (env(''retain'' := VBool (walk (env ''.'') [''ss'', ''retain''] = VBool True)))" for ls env
    using run_assign [OF record_var_names(1), of "''.ss.retain == true''"] eval_flag [OF record_var_names(1)] by simp
  moreover have "walk (env ''.'') [''message''] = VStr raw \<Longrightarrow>
      run ((''original = '' @ MESSAGE_TEXT) # ls) env = run ls (env(''original'' := VStr raw))" for ls env
    using run_assign [OF record_var_names(2), of MESSAGE_TEXT] eval_text by simp
  ultimately have "run (audit_lines node_lit) (event_vars ev) =
      run (object_lines (audit_items node_lit) @ [[], if_line ''retain'', INDENT @ ''.raw = original'', ''}'']) ?env"
    using assms(2) by (simp add: record_program_lines c run_blank event_vars_def ss_column_def)
  also have "\<dots> = run [[], if_line ''retain'', INDENT @ ''.raw = original'', ''}'']
      (?env(''.'' := VObj (concat (map (item_values (eval ?env)) (audit_items node_lit)))))"
    by (rule run_object [OF record_items_ok(1)])
  also have "concat (map (item_values (eval ?env)) (audit_items node_lit)) = ?cols"
    by (simp add: audit_items_def eval_columns eval_string [OF assms(1)] copied_def ss_column_def event_vars_def
        del: walk.simps)
  also have "run [[], if_line ''retain'', INDENT @ ''.raw = original'', ''}''] (?env(''.'' := VObj ?cols)) =
      (if ss_column ev ''retain'' = VBool True then (?env(''.'' := VObj (set_key ''raw'' (VStr raw) ?cols)))
       else ?env(''.'' := VObj ?cols))"
    using run_if [OF record_var_names(1), of "[INDENT @ ''.raw = original'']" "[]"] keep [of "?env(''.'' := VObj ?cols)" ?cols]
    by (cases "ss_column ev ''retain'' = VBool True") (simp_all add: run_blank run_Nil indented_def INDENT_def)
  finally show ?thesis
    by (simp add: recorded_def audit_copy_def copied_def set_key_def object_value_def)
qed

lemma sample_program_writes:
  assumes "encode_string node = Inr node_lit" "map_of ev ''message'' = Some (VStr raw)"
  shows "recorded run (sample_lines node_lit) ev = sample_copy ev node raw"
proof -
  have "run (take 2 SAMPLE_HEAD @ ls) env = run ls env" for ls env
    by (simp add: SAMPLE_HEAD_def run_comment)
  moreover have "eval (event_vars ev) MESSAGE_TEXT = VStr raw"
    using assms(2) by (intro eval_text) (simp add: event_vars_def)
  ultimately show ?thesis
    using run_object [OF record_items_ok(2), of node_lit "[]"]
    by (simp add: recorded_def record_program_lines run_Nil sample_items_def eval_columns eval_string [OF assms(1)]
        sample_copy_def copied_def ss_column_def event_vars_def object_value_def)
qed

end

section \<open>An interpreter that keeps the laws\<close>

definition record_eval :: "venv \<Rightarrow> string \<Rightarrow> vrl_value" where
  "record_eval env t =
     (if t = MESSAGE_TEXT then VStr (text_value (walk (env ''.'') [''message'']))
      else if take 4 t = ''.ss.'' then
        (let k = takeWhile var_char (drop 4 t); after = dropWhile var_char (drop 4 t);
             v = walk (env ''.'') [''ss'', k]; same = (read_string (drop 4 after) = Some (text_value v, []))
         in if after = [] then v
            else if after = '' == true'' then VBool (v = VBool True)
            else if take 4 after = '' == '' then VBool (v = VStr (text_value v) \<and> same)
            else if take 4 after = '' != '' then VBool (\<not> (v = VStr (text_value v) \<and> same))
            else VNull)
      else VNull)"

definition text_entry :: "(string \<Rightarrow> vrl_value) \<Rightarrow> string \<Rightarrow> string \<times> vrl_value" where
  "text_entry ev l =
     (let t = drop 5 l; k = takeWhile (\<lambda>c. c \<noteq> DQ) t in (k, ev (butlast (drop (length k + 3) t))))"

lemma tl_dropWhile_length: "length (dropWhile p ls) - Suc 0 < Suc (length ls)"
  using length_dropWhile_le [of p ls] by linarith

function object_items :: "(string \<Rightarrow> vrl_value) \<Rightarrow> string list \<Rightarrow> vobj" where
  "object_items ev [] = []"
| "object_items ev (l # ls) =
     (if take 1 (drop 4 l) = ''#'' then object_items ev ls
      else if last l = CHR ''{'' then
        (takeWhile (\<lambda>c. c \<noteq> DQ) (drop 5 l),
         VObj (map (text_entry ev \<circ> drop 4) (takeWhile (\<lambda>l. l \<noteq> INDENT @ ''},'') ls))) #
        object_items ev (tl (dropWhile (\<lambda>l. l \<noteq> INDENT @ ''},'') ls))
      else text_entry ev l # object_items ev ls)"
  by pat_completeness auto

termination
  by (relation "measure (\<lambda>(ev, ls). length ls)") (auto intro: tl_dropWhile_length)

definition record_line :: "(venv \<Rightarrow> string \<Rightarrow> vrl_value) \<Rightarrow> string \<Rightarrow> venv \<Rightarrow> venv" where
  "record_line ev l env =
     (let k = takeWhile var_char (tl l); after = dropWhile var_char (tl l)
      in if take 1 l = ''.'' \<and> is_var k \<and> take 3 after = '' = ''
         then env(''.'' := VObj (set_key k (ev env (drop 3 after)) (object_value (env ''.''))))
         else assign_line ev l env)"

function record_run :: "(venv \<Rightarrow> string \<Rightarrow> vrl_value) \<Rightarrow> string list \<Rightarrow> venv \<Rightarrow> venv" where
  "record_run ev [] env = env"
| "record_run ev (l # ls) env =
     (if l = ''. = {'' then
        record_run ev (tl (dropWhile (\<lambda>l. l \<noteq> ''}'') ls))
          (env(''.'' := VObj (object_items (ev env) (takeWhile (\<lambda>l. l \<noteq> ''}'') ls))))
      else if take 3 l = ''if '' then
        record_run ev (tl (dropWhile indented ls))
          (if ev env (condition_text 3 l) = VBool True
           then record_run ev (map dedent (takeWhile indented ls)) env else env)
      else record_run ev ls (record_line ev l env))"
  by pat_completeness auto

termination
  by (relation "measure (\<lambda>(ev, ls, env). length ls)") (auto intro: tl_dropWhile_length simp: part_lengths)

declare record_run.simps(2) [simp del] object_items.simps(2) [simp del]

lemma record_run_line:
  "l \<noteq> ''. = {'' \<Longrightarrow> take 3 l \<noteq> ''if '' \<Longrightarrow> record_run ev (l # ls) env = record_run ev ls (record_line ev l env)"
  by (simp add: record_run.simps(2))

lemma text_entry_line:
  assumes "DQ \<notin> set (fst e)"
  shows "text_entry ev (entry_line e) = (fst e, ev (snd e))"
  using record_entry_line [OF assms, of "\<lambda>env. ev" undefined] by (simp add: record_entry_def text_entry_def)

lemma item_starts: "l \<in> set (item_lines it) \<Longrightarrow> l \<noteq> ''}''"
  by (cases it) (auto simp: entry_line_def INDENT_def)

lemma span_until:
  assumes "\<forall>l \<in> set xs. l \<noteq> d"
  shows "takeWhile (\<lambda>l. l \<noteq> d) (xs @ d # ls) = xs" "tl (dropWhile (\<lambda>l. l \<noteq> d) (xs @ d # ls)) = ls"
  using assms by (induction xs) auto

lemma read_item:
  assumes "item_ok it"
  shows "object_items ev (item_lines it @ ls) = item_values ev it @ object_items ev ls"
proof (cases it)
  case (Remark t)
  then show ?thesis by (simp add: object_items.simps(2) INDENT_def)
next
  case (Item k e)
  have "take 1 (drop 4 (entry_line (k, e))) \<noteq> ''#''" "last (entry_line (k, e)) = CHR '',''"
    by (simp_all add: entry_line_def INDENT_def)
  with Item assms show ?thesis
    by (simp add: object_items.simps(2) text_entry_line)
next
  case (Nested k es)
  let ?head = "INDENT @ [DQ] @ k @ [DQ] @ '': {''"
  have h: "take 1 (drop 4 ?head) \<noteq> ''#''" "last ?head = CHR ''{''" "drop 5 ?head = k @ [DQ] @ '': {''"
    by (simp_all add: INDENT_def)
  have k: "takeWhile (\<lambda>c. c \<noteq> DQ) (k @ [DQ] @ '': {'') = k"
    using assms Nested by (subst takeWhile_append2) auto
  have n: "\<forall>l \<in> set (map (\<lambda>e. INDENT @ entry_line e) es). l \<noteq> INDENT @ ''},''"
    by (auto simp: entry_line_def INDENT_def)
  have m: "map (text_entry ev \<circ> drop 4) (map (\<lambda>e. INDENT @ entry_line e) es) = map (\<lambda>e. (fst e, ev (snd e))) es"
    using assms Nested by (auto simp: list_all_iff text_entry_line INDENT_def)
  let ?body = "map (\<lambda>e. INDENT @ entry_line e) es @ (INDENT @ ''},'') # ls"
  have "object_items ev (item_lines it @ ls) = object_items ev (?head # ?body)"
    by (simp add: Nested)
  also have "\<dots> = (k, VObj (map (text_entry ev \<circ> drop 4) (takeWhile (\<lambda>l. l \<noteq> INDENT @ ''},'') ?body))) #
      object_items ev (tl (dropWhile (\<lambda>l. l \<noteq> INDENT @ ''},'') ?body))"
    unfolding object_items.simps(2) if_not_P [OF h(1)] if_P [OF h(2)] h(3) k ..
  also have "\<dots> = item_values ev it @ object_items ev ls"
    unfolding span_until [OF n] m Nested by simp
  finally show ?thesis .
qed

lemma read_object: "object_ok items \<Longrightarrow> object_items ev (concat (map item_lines items)) = concat (map (item_values ev) items)"
  unfolding object_ok_def
  by (induction items) (auto simp: read_item)

lemma run_object_lines:
  assumes "object_ok items"
  shows "record_run ev (object_lines items @ ls) env =
    record_run ev ls (env(''.'' := VObj (concat (map (item_values (ev env)) items))))"
proof -
  have "\<forall>l \<in> set (concat (map item_lines items)). l \<noteq> ''}''" by (auto dest: item_starts)
  note s = span_until [OF this, of ls]
  show ?thesis by (simp add: object_lines_def record_run.simps(2) s read_object [OF assms])
qed

lemma run_if_lines:
  assumes "list_all indented body"
  shows "record_run ev (if_line x # body @ ''}'' # ls) env =
    record_run ev ls (if ev env x = VBool True then record_run ev (map dedent body) env else env)"
proof -
  have "\<not> indented ''}''" by (simp add: indented_def INDENT_def)
  then have "takeWhile indented (body @ ''}'' # ls) = body" "dropWhile indented (body @ ''}'' # ls) = ''}'' # ls"
    using assms by (simp_all add: takeWhile_append2 dropWhile_append2 list_all_iff)
  moreover have "if_line x \<noteq> ''. = {''" by (simp add: if_line_def)
  ultimately show ?thesis by (simp add: record_run.simps(2))
qed

text \<open>Expressions on a column, by what follows its name.\<close>

lemma record_column_text:
  assumes "is_var k" "after = [] \<or> \<not> var_char (hd after)"
  shows "line_eval record_eval env (''.ss.'' @ k @ after) = record_eval env (''.ss.'' @ k @ after)"
    "''.ss.'' @ k @ after \<noteq> MESSAGE_TEXT"
    "takeWhile var_char (drop 4 (''.ss.'' @ k @ after)) = k" "dropWhile var_char (drop 4 (''.ss.'' @ k @ after)) = after"
  using var_span [OF assms]
  by (auto intro!: line_eval_other simp: var_char_def is_ascii_digit_def MESSAGE_TEXT_def)

lemma record_column_value:
  assumes "is_var k" "after = [] \<or> \<not> var_char (hd after)"
  shows "line_eval record_eval env (''.ss.'' @ k @ after) =
    (let v = walk (env ''.'') [''ss'', k]; same = (read_string (drop 4 after) = Some (text_value v, []))
     in if after = [] then v
        else if after = '' == true'' then VBool (v = VBool True)
        else if take 4 after = '' == '' then VBool (v = VStr (text_value v) \<and> same)
        else if take 4 after = '' != '' then VBool (\<not> (v = VStr (text_value v) \<and> same))
        else VNull)"
  unfolding record_column_text(1) [OF assms] record_eval_def if_not_P [OF record_column_text(2) [OF assms]]
    record_column_text(3,4) [OF assms] Let_def by simp

lemma same_text:
  assumes "encode_string s = Inr t"
  shows "(v = VStr (text_value v) \<and> read_string t = Some (text_value v, [])) \<longleftrightarrow> v = VStr s" "t \<noteq> ''true''"
proof -
  have r: "read_string t = Some (s, [])" using read_encode_string [OF assms, of "[]"] by simp
  then show "(v = VStr (text_value v) \<and> read_string t = Some (text_value v, [])) \<longleftrightarrow> v = VStr s"
    by (auto simp: text_value_def)
  have "read_string ''true'' = None" by code_simp
  with r show "t \<noteq> ''true''" by auto
qed

interpretation node_vrl: vrl_records "line_eval record_eval" "record_run (line_eval record_eval)"
proof unfold_locales
  let ?ev = "line_eval record_eval"
  let ?run = "record_run ?ev"
  fix env :: venv and ls :: "string list"
  show "?run [] env = env" by simp
  show "?run ([] # ls) env = ?run ls env"
    by (subst record_run_line) (simp_all add: record_line_def assign_line_def is_var_def Let_def)
  show "?run ((CHR ''#'' # t) # ls) env = ?run ls env" for t
    by (subst record_run_line) (simp_all add: record_line_def assign_line_def is_var_def var_char_def Let_def)
  show "?run ((x @ '' = '' @ e) # ls) env = ?run ls (env(x := ?ev env e))" if x: "is_var x" for x e
  proof -
    have s: "takeWhile var_char (x @ '' = '' @ e) = x" "dropWhile var_char (x @ '' = '' @ e) = '' = '' @ e"
      using var_span [OF x, of "'' = '' @ e"] by (simp_all add: var_char_def)
    have "take 3 (x @ '' = '' @ e) \<noteq> ''if ''"
      using var_not_if [OF x, of "'' = '' @ e"] by (simp add: var_char_def)
    moreover have d: "take 1 (x @ '' = '' @ e) \<noteq> ''.''" "x @ '' = '' @ e \<noteq> ''. = {''"
      using is_var_hd [OF x] by (cases x; auto simp: var_char_def)+
    moreover have "record_line ?ev (x @ '' = '' @ e) env = env(x := ?ev env e)"
      unfolding record_line_def assign_line_def Let_def s using d(1) x by simp
    ultimately show ?thesis by (simp add: record_run_line)
  qed
  show "object_ok items \<Longrightarrow> ?run (object_lines items @ ls) env =
      ?run ls (env(''.'' := VObj (concat (map (item_values (?ev env)) items))))" for items
    by (rule run_object_lines)
  show "?run ((CHR ''.'' # k @ '' = '' @ e) # ls) env = ?run ls (env(''.'' := VObj (set_key k (?ev env e) kv)))"
    if k: "is_var k" and kv: "env ''.'' = VObj kv" for k e kv
  proof -
    let ?l = "CHR ''.'' # k @ '' = '' @ e"
    have s: "takeWhile var_char (tl ?l) = k" "dropWhile var_char (tl ?l) = '' = '' @ e"
      using var_span [OF k, of "'' = '' @ e"] by (simp_all add: var_char_def)
    have "record_line ?ev ?l env = env(''.'' := VObj (set_key k (?ev env e) kv))"
      unfolding record_line_def Let_def s using k kv by (simp add: object_value_def)
    moreover have "?l \<noteq> ''. = {''" "take 3 ?l \<noteq> ''if ''"
      using is_var_hd [OF k] by (cases k; auto simp: var_char_def)+
    ultimately show ?thesis by (simp add: record_run_line)
  qed
  show "?run (if_line x # body @ ''}'' # ls) env =
      ?run ls (if env x = VBool True then ?run (map dedent body) env else env)"
    if "is_var x" "list_all indented body" for x body
    using run_if_lines [OF that(2)] line_exp.eval_var [OF that(1)] by simp
  show "walk (env ''.'') [''message''] = VStr s \<Longrightarrow> ?ev env MESSAGE_TEXT = VStr s" for s
    by (subst line_eval_other) (simp_all add: record_eval_def text_value_def MESSAGE_TEXT_def var_char_def is_ascii_digit_def)
  show "is_var k \<Longrightarrow> ?ev env (''.ss.'' @ k) = walk (env ''.'') [''ss'', k]" for k
    using record_column_value [of k "[]"] by simp
  show "is_var k \<Longrightarrow> ?ev env (''.ss.'' @ k @ '' == true'') = VBool (walk (env ''.'') [''ss'', k] = VBool True)" for k
    using record_column_value [of k "'' == true''"] by (simp add: var_char_def)
  show "is_var k \<Longrightarrow> encode_string s = Inr t \<Longrightarrow>
      ?ev env (''.ss.'' @ k @ '' == '' @ t) = VBool (walk (env ''.'') [''ss'', k] = VStr s)" for k s t
    using record_column_value [of k "'' == '' @ t" env] same_text [of s t]
    by (simp add: var_char_def Let_def)
  show "is_var k \<Longrightarrow> encode_string s = Inr t \<Longrightarrow>
      ?ev env (''.ss.'' @ k @ '' != '' @ t) = VBool (walk (env ''.'') [''ss'', k] \<noteq> VStr s)" for k s t
    using record_column_value [of k "'' != '' @ t" env] same_text(1) [of s t "walk (env ''.'') [''ss'', k]"]
    by (auto simp: var_char_def Let_def simp del: walk.simps)
qed

end
