(* ===== verification/Data_Plane.thy ===== *)
theory Data_Plane
  imports Complex_Main Prelude Json Rule_Model Encoder Compiler Lexical Injection Program_Text Decision Predicate_Syntax
    Condition_Meaning Program_Run Program_Message Vector_Config Node_Records
begin

text \<open>
  An event followed through the topology of \<open>compiler/vector_config.py\<close>, from the listening socket
  to the packets the sinks send. Vector is not part of the repository: \<open>deliver\<close> is the documented
  meaning of the component types the configuration uses, read from the configuration itself,
  with the programs and the sampler left as parameters.
\<close>

section \<open>The components\<close>

definition text_at :: "string \<Rightarrow> json \<Rightarrow> string" where
  "text_at k t = (case jget k t of Some (JStr s) \<Rightarrow> s | _ \<Rightarrow> [])"

text \<open>What a transform passes on, by the output it leaves through; the sampler picks an event when
  \<open>keep\<close> says so, and never drops one its exclusion matches.\<close>

definition transform_step ::
    "(string \<Rightarrow> vobj \<Rightarrow> vobj) \<Rightarrow> (string \<Rightarrow> vobj \<Rightarrow> bool) \<Rightarrow> bool \<Rightarrow> string \<times> json \<Rightarrow> vobj \<Rightarrow> (string \<times> vobj) list" where
  "transform_step prog test keep = (\<lambda>(name, t) ev.
     if text_at ''type'' t = ''remap'' then [(name, prog (text_at ''source'' t) ev)]
     else if text_at ''type'' t = ''route'' then
       (let routes = members (jget ''route'' t);
            hit = filter (\<lambda>r. test (text_at r (JObj routes)) ev) (map fst routes)
        in map (\<lambda>r. (name @ ''.'' @ r, ev)) (if hit = [] then [''_unmatched''] else hit))
     else if text_at ''type'' t = ''sample'' then
       (if test (text_at ''exclude'' t) ev \<or> keep then [(name, ev)] else [])
     else [])"

text \<open>What a sink sends: the message alone, or the event; the metrics exporter sends no events.\<close>

datatype packet =
    Text_Packet string
  | Json_Packet vobj

definition sink_packets :: "string \<times> json \<Rightarrow> vobj \<Rightarrow> (string \<times> packet) list" where
  "sink_packets = (\<lambda>(name, t) ev.
     (case jpath [''encoding'', ''codec''] t of
        Some (JStr codec) \<Rightarrow>
          if codec = ''text'' then [(name, Text_Packet (text_value (walk (VObj ev) [''message''])))]
          else if codec = ''json'' then [(name, Json_Packet ev)] else []
      | _ \<Rightarrow> []))"

definition readers_of :: "json \<Rightarrow> string \<Rightarrow> string \<Rightarrow> (string \<times> json) list" where
  "readers_of c section out = filter (\<lambda>(name, t). out \<in> set (inputs_of t)) (members (jget section c))"

text \<open>The packets an event on an output leads to; the fuel bounds the length of a path.\<close>

fun deliver ::
    "nat \<Rightarrow> (string \<Rightarrow> vobj \<Rightarrow> vobj) \<Rightarrow> (string \<Rightarrow> vobj \<Rightarrow> bool) \<Rightarrow> bool \<Rightarrow> json \<Rightarrow> string \<times> vobj \<Rightarrow> (string \<times> packet) list" where
  "deliver 0 prog test keep c x = []"
| "deliver (Suc n) prog test keep c (out, ev) =
     concat (map (\<lambda>t. concat (map (deliver n prog test keep c) (transform_step prog test keep t ev)))
       (readers_of c ''transforms'' out)) @
     concat (map (\<lambda>s. sink_packets s ev) (readers_of c ''sinks'' out))"

text \<open>The program of the chain on an event, which only adds its record; a record program; a condition.\<close>

definition field_vars :: "vobj \<Rightarrow> venv" where
  "field_vars ev x = (if take 1 x = ''.'' then walk (VObj ev) [tl x] else VNull)"

definition decided :: "(string list \<Rightarrow> venv \<Rightarrow> venv) \<Rightarrow> string list \<Rightarrow> vobj \<Rightarrow> vobj" where
  "decided run ls ev = set_key ''ss'' (run ls (field_vars ev) ''.ss'') ev"

definition holds_on :: "(venv \<Rightarrow> string \<Rightarrow> vrl_value) \<Rightarrow> string \<Rightarrow> vobj \<Rightarrow> bool" where
  "holds_on eval t ev \<longleftrightarrow> eval (event_vars ev) t = VBool True"

section \<open>The paths of the generated topology\<close>

definition DROPPED :: string where
  \<open>DROPPED = ''.ss.decision == "drop"''\<close>

definition FORWARDED :: string where
  \<open>FORWARDED = ''.ss.decision != "drop"''\<close>

definition node_config :: "vector_settings \<Rightarrow> string \<Rightarrow> string \<Rightarrow> json" where
  "node_config st d n = JObj [(''sources'', sources st), (''transforms'', transforms st d n), (''sinks'', sinks st)]"

lemma inputs_of_JObj: "inputs_of (JObj kvs) = (case map_of kvs ''inputs'' of Some js \<Rightarrow> jstrings js | None \<Rightarrow> [])"
  by (simp add: inputs_of_def)

lemma inputs_of_remap: "inputs_of (remap i x s) = [i]"
  by (simp add: inputs_of_def)

lemma remap_step:
  "map_of x ''source'' = None \<Longrightarrow> transform_step prog test keep (name, remap i x s) ev = [(name, prog s ev)]"
  by (simp add: transform_step_def text_at_def remap_def map_add_def)

text \<open>The two transforms that run no program.\<close>

definition split_step :: json where
  "split_step = JObj [(''type'', JStr ''route''), (''inputs'', JList [JStr ''decide'']),
     (''route'', JObj [(''forward'', JStr FORWARDED), (''dropped'', JStr DROPPED)])]"

definition sample_step :: "vector_settings \<Rightarrow> json" where
  "sample_step st = JObj [(''type'', JStr ''sample''), (''inputs'', JList [JStr ''decide'']),
     (''rate'', JInt (sample_rate st)), (''exclude'', JStr DROPPED)]"

lemma split_and_sample:
  "transform_step prog test keep (''split'', split_step) ev =
     (let hit = filter (\<lambda>r. test (if r = ''forward'' then FORWARDED else DROPPED) ev) [''forward'', ''dropped''] in
      map (\<lambda>r. (''split.'' @ r, ev)) (if hit = [] then [''_unmatched''] else hit))"
  "transform_step prog test keep (''tail_sample'', sample_step st) ev =
     (if test DROPPED ev \<or> keep then [(''tail_sample'', ev)] else [])"
  by (simp_all add: transform_step_def text_at_def split_step_def sample_step_def)

lemma node_transforms:
  "members (jget ''transforms'' (node_config st d n)) =
     [(''decide'', remap ''ingest'' [(''drop_on_abort'', JBool False)] d), (''split'', split_step),
      (''audit'', remap ''split.dropped'' [] (AUDIT_VRL n)), (''tail_sample'', sample_step st),
      (''tail'', remap ''tail_sample'' [] (SAMPLE_VRL n))]"
  by (simp add: node_config_def transforms_def split_step_def sample_step_def DROPPED_def FORWARDED_def)

lemma node_sinks:
  "members (jget ''sinks'' (node_config st d n)) = members (Some (sinks st))"
  by (simp add: node_config_def)

lemma node_inputs: "inputs_of split_step = [''decide'']" "inputs_of (sample_step st) = [''decide'']"
  by (simp_all add: split_step_def sample_step_def inputs_of_JObj)

lemma transform_readers:
  "readers_of (node_config st d n) ''transforms'' out =
     (if out = ''ingest'' then [(''decide'', remap ''ingest'' [(''drop_on_abort'', JBool False)] d)]
      else if out = ''decide'' then [(''split'', split_step), (''tail_sample'', sample_step st)]
      else if out = ''split.dropped'' then [(''audit'', remap ''split.dropped'' [] (AUDIT_VRL n))]
      else if out = ''tail_sample'' then [(''tail'', remap ''tail_sample'' [] (SAMPLE_VRL n))] else [])"
  by (simp add: readers_of_def node_transforms node_inputs inputs_of_remap)

text \<open>The packets of the sinks that read an output.\<close>

lemma packets_at:
  "concat (map (\<lambda>s. sink_packets s ev) (readers_of (node_config st d n) ''sinks'' out)) =
     (if out \<in> {''split.forward'', ''split._unmatched''} then [(''elk'', Text_Packet (text_value (walk (VObj ev) [''message''])))]
      else if out = ''audit'' then [(''drop_audit'', Json_Packet ev)]
      else if out = ''tail'' then [(''control_plane_tail'', Json_Packet ev)] else [])"
  by (auto simp: readers_of_def node_sinks sinks_def inputs_of_JObj sink_packets_def simp del: walk.simps)

lemma deliver_at:
  "deliver (Suc k) prog test keep (node_config st d n) (out, ev) =
     concat (map (deliver k prog test keep (node_config st d n))
       (if out = ''ingest'' then [(''decide'', prog d ev)]
        else if out = ''decide'' then
          map (\<lambda>r. (''split.'' @ r, ev))
            (let hit = filter (\<lambda>r. test (if r = ''forward'' then FORWARDED else DROPPED) ev) [''forward'', ''dropped''] in
             if hit = [] then [''_unmatched''] else hit) @
          (if test DROPPED ev \<or> keep then [(''tail_sample'', ev)] else [])
        else if out = ''split.dropped'' then [(''audit'', prog (AUDIT_VRL n) ev)]
        else if out = ''tail_sample'' then [(''tail'', prog (SAMPLE_VRL n) ev)] else [])) @
     (if out \<in> {''split.forward'', ''split._unmatched''} then [(''elk'', Text_Packet (text_value (walk (VObj ev) [''message''])))]
      else if out = ''audit'' then [(''drop_audit'', Json_Packet ev)]
      else if out = ''tail'' then [(''control_plane_tail'', Json_Packet ev)] else [])"
  unfolding deliver.simps(2) packets_at
  by (simp add: transform_readers remap_step split_and_sample Let_def del: walk.simps)

text \<open>Four components are the longest path; more fuel changes nothing.\<close>

lemma deliver_event:
  "deliver (k + 4) prog test keep (node_config st d n) (''ingest'', ev) =
     (let ev' = prog d ev; elk = (''elk'', Text_Packet (text_value (walk (VObj ev') [''message''])));
          audit = (''drop_audit'', Json_Packet (prog (AUDIT_VRL n) ev'));
          tail = (''control_plane_tail'', Json_Packet (prog (SAMPLE_VRL n) ev'))
      in (if test FORWARDED ev' \<or> \<not> test DROPPED ev' then [elk] else []) @
         (if test DROPPED ev' then [audit] else []) @
         (if test DROPPED ev' \<or> keep then [tail] else []))"
proof -
  have "k + 4 = Suc (Suc (Suc (Suc k)))" by simp
  show ?thesis unfolding \<open>k + 4 = Suc (Suc (Suc (Suc k)))\<close> deliver_at
    by (simp add: deliver_at Let_def del: walk.simps deliver.simps)
qed

section \<open>The records of a decision\<close>

text \<open>What the drop log and the control plane are told about a message, in terms of the verdict.\<close>

definition rule_columns :: "verdict \<Rightarrow> vobj" where
  "rule_columns vd =
     [(''rule_id'', case v_rule vd of None \<Rightarrow> VNull | Some r \<Rightarrow> VStr (rule_id r)),
      (''rule_version'', case v_rule vd of None \<Rightarrow> VNull | Some r \<Rightarrow> VInt (rule_version r))]"

definition keeps_payload :: "verdict \<Rightarrow> bool" where
  "keeps_payload vd \<longleftrightarrow> (case v_rule vd of None \<Rightarrow> False | Some r \<Rightarrow> rule_retain r)"

definition audit_record :: "vrl_std \<Rightarrow> parsers \<Rightarrow> int \<Rightarrow> read_result \<Rightarrow> verdict \<Rightarrow> string \<Rightarrow> string \<Rightarrow> vobj" where
  "audit_record S P version e vd node raw =
     (if keeps_payload vd then [(''raw'', VStr raw)] else []) @
     [(''@timestamp'', VStr (ps_now P)), (''decision'', VStr (decision_value (v_decision vd))),
      (''reason'', VStr (reason_value (v_reason vd)))] @ rule_columns vd @
     [(''chain_version'', VInt version),
      (''event_id'', VStr (summary_text S (re_fields e) ''eventid'' ''syslog.msgid'')),
      (''severity'', VStr (summary_text S (re_fields e) ''severity'' ''syslog.severity'')),
      (''host'', VStr (summary_text S (re_fields e) ''filterhostname'' ''syslog.hostname'')),
      (''name'', VStr (summary_text S (re_fields e) ''name'' ''syslog.appname'')), (''node'', VStr node)]"

definition sample_record :: "vrl_std \<Rightarrow> parsers \<Rightarrow> read_result \<Rightarrow> verdict \<Rightarrow> string \<Rightarrow> string \<Rightarrow> vobj" where
  "sample_record S P e vd node raw =
     [(''ts'', VStr (ps_now P)), (''decision'', VStr (decision_value (v_decision vd))),
      (''reason'', VStr (reason_value (v_reason vd)))] @ rule_columns vd @
     [(''event_id'', VStr (summary_text S (re_fields e) ''eventid'' ''syslog.msgid'')), (''node'', VStr node),
      (''cef_ok'', VBool (re_cef e)), (''syslog_ok'', VBool (re_syslog e)),
      (''fields'', VObj
         [(''severity'', VStr (summary_text S (re_fields e) ''severity'' ''syslog.severity'')),
          (''filterhostname'', VStr (summary_text S (re_fields e) ''filterhostname'' ''syslog.hostname'')),
          (''name'', VStr (summary_text S (re_fields e) ''name'' ''syslog.appname''))]),
      (''raw'', VStr raw)]"

lemma decided_columns:
  "ss_column (set_key ''ss'' (VObj kv) ev) k = (case map_of kv k of None \<Rightarrow> VNull | Some w \<Rightarrow> w)"
  by (auto simp: ss_column_def set_key_def split: option.split)

lemma decided_message:
  "map_of ev ''message'' = Some m \<Longrightarrow> map_of (set_key ''ss'' v ev) ''message'' = Some m"
  by (induction ev) (auto simp: set_key_def)

lemma copies_of_decision:
  "audit_copy (set_key ''ss'' (VObj (ss_record S P version e vd)) ev) node raw = audit_record S P version e vd node raw"
  "sample_copy (set_key ''ss'' (VObj (ss_record S P version e vd)) ev) node raw = sample_record S P e vd node raw"
  by (simp_all add: audit_copy_def sample_copy_def copied_def decided_columns ss_record_def audit_record_def
      sample_record_def rule_columns_def keeps_payload_def)

lemma drop_text: \<open>encode_string ''drop'' = Inr ''"drop"''\<close>
  by code_simp

lemma decision_is_drop: "decision_value d = ''drop'' \<longleftrightarrow> d = D_DROP"
  by (cases d) simp_all

lemma routes_of_decision:
  assumes "vrl_records eval run" "ss_column ev ''decision'' = VStr (decision_value d)"
  shows "holds_on eval DROPPED ev \<longleftrightarrow> d = D_DROP" "holds_on eval FORWARDED ev \<longleftrightarrow> d \<noteq> D_DROP"
proof -
  have v: "is_var ''decision''" by (rule record_var_names)
  show "holds_on eval DROPPED ev \<longleftrightarrow> d = D_DROP"
    using vrl_records.eval_eq [OF assms(1) v drop_text, of "event_vars ev"] assms(2)
    by (simp add: holds_on_def DROPPED_def event_vars_def ss_column_def decision_is_drop del: walk.simps)
  show "holds_on eval FORWARDED ev \<longleftrightarrow> d \<noteq> D_DROP"
    using vrl_records.eval_ne [OF assms(1) v drop_text, of "event_vars ev"] assms(2)
    by (simp add: holds_on_def FORWARDED_def event_vars_def ss_column_def decision_is_drop del: walk.simps)
qed

text \<open>
  A node runs a configuration that was built for a chain: the three programs have the documented
  meaning of VRL, whatever it says of other programs, and route conditions that of the records.
\<close>

definition node_runs ::
    "vrl_std \<Rightarrow> parsers \<Rightarrow> rule_chain \<Rightarrow> vector_settings \<Rightarrow> int \<Rightarrow> json \<Rightarrow> (string \<Rightarrow> vobj \<Rightarrow> vobj) \<Rightarrow>
     (string \<Rightarrow> vobj \<Rightarrow> bool) \<Rightarrow> bool" where
  "node_runs S P ch st version c prog test \<longleftrightarrow> build_config ch st version = Inr c \<and>
     (\<exists>eval run call attempt message_of reval rrun ls n.
        vrl_program eval run call S attempt message_of P \<and> vrl_records reval rrun \<and> test = holds_on reval \<and>
        chain_lines ch version = Inr ls \<and> encode_string (node_id st) = Inr n \<and>
        prog (lines_text (PRELUDE_LINES @ [] # ls)) = decided run (PRELUDE_LINES @ [] # ls) \<and>
        prog (AUDIT_VRL n) = recorded rrun (audit_lines n) \<and> prog (SAMPLE_VRL n) = recorded rrun (sample_lines n))"

definition deliveries :: "vrl_std \<Rightarrow> parsers \<Rightarrow> int \<Rightarrow> string \<Rightarrow> bool \<Rightarrow> string \<Rightarrow> read_result \<Rightarrow> verdict \<Rightarrow> (string \<times> packet) list" where
  "deliveries S P version node keep raw e vd =
     (if v_decision vd = D_DROP then [(''drop_audit'', Json_Packet (audit_record S P version e vd node raw))]
      else [(''elk'', Text_Packet raw)]) @
     (if v_decision vd = D_DROP \<or> keep then [(''control_plane_tail'', Json_Packet (sample_record S P e vd node raw))]
      else [])"

lemma node_delivers:
  assumes "node_runs S P ch st version c prog test" "map_of ev ''message'' = Some (VStr raw)"
    and "read_event S P raw = e" "decide ch (readable e) (rule_matches S (re_fields e)) = vd"
  shows "deliver (k + 4) prog test keep c (''ingest'', ev) = deliveries S P version (node_id st) keep raw e vd"
proof -
  obtain eval run call attempt message_of reval rrun ls n where
      vrl: "vrl_program eval run call S attempt message_of P" "vrl_records reval rrun" "test = holds_on reval"
    and built: "build_config ch st version = Inr c" "chain_lines ch version = Inr ls" "encode_string (node_id st) = Inr n"
    and progs: "prog (lines_text (PRELUDE_LINES @ [] # ls)) = decided run (PRELUDE_LINES @ [] # ls)"
      "prog (AUDIT_VRL n) = recorded rrun (audit_lines n)" "prog (SAMPLE_VRL n) = recorded rrun (sample_lines n)"
    using assms(1) unfolding node_runs_def by blast
  let ?ls = "PRELUDE_LINES @ [] # ls" and ?ev = "set_key ''ss'' (VObj (ss_record S P version e vd)) ev"
  have c: "c = node_config st (lines_text ?ls) n"
    using built join_lines [of "PRELUDE # ls"]
    by (auto simp: build_config_Inr_iff node_config_def compile_or_raise_def mapError_Inr_iff compile_chain_def
        bindR_Inr_iff PRELUDE_lines)
  have "field_vars ev ''.message'' = VStr raw" using assms(2) by (simp add: field_vars_def)
  then have d: "prog (lines_text ?ls) ev = ?ev"
    using vrl_program.runs_on_message [where env = "field_vars ev", OF vrl(1) built(2) _ assms(3)] progs(1) assms(4)
    by (simp add: decided_def)
  have m: "map_of ?ev ''message'' = Some (VStr raw)" by (rule decided_message [OF assms(2)])
  then have r: "prog (AUDIT_VRL n) ?ev = audit_record S P version e vd (node_id st) raw"
    "prog (SAMPLE_VRL n) ?ev = sample_record S P e vd (node_id st) raw"
    using vrl_records.audit_program_writes [OF vrl(2) built(3) m] vrl_records.sample_program_writes [OF vrl(2) built(3) m] progs(2,3)
    by (simp_all add: copies_of_decision)
  have "ss_column ?ev ''decision'' = VStr (decision_value (v_decision vd))"
    by (simp add: decided_columns ss_record_def)
  note routes = routes_of_decision [OF vrl(2) this]
  have "text_value (walk (VObj ?ev) [''message'']) = raw" using m by (simp add: text_value_def)
  then show ?thesis
    unfolding c vrl(3) deliver_event d r routes Let_def deliveries_def by simp
qed

text \<open>A runtime for the two record programs and a chain's, told apart by their texts.\<close>

definition demo_prog :: "(string list \<Rightarrow> venv \<Rightarrow> venv) \<Rightarrow> string list \<Rightarrow> string \<Rightarrow> string \<Rightarrow> vobj \<Rightarrow> vobj" where
  "demo_prog run ls n t =
     (if t = AUDIT_VRL n then recorded (record_run (line_eval record_eval)) (audit_lines n)
      else if t = SAMPLE_VRL n then recorded (record_run (line_eval record_eval)) (sample_lines n)
      else decided run (PRELUDE_LINES @ [] # ls))"

lemma starts_differ: "take k s = x \<Longrightarrow> take k t = y \<Longrightarrow> x \<noteq> y \<Longrightarrow> s \<noteq> t"
  by blast

lemma program_starts:
  "take 3 (AUDIT_VRL n) = ''# B''" "take 3 (SAMPLE_VRL n) = ''# C''" "take 3 (lines_text (PRELUDE_LINES @ ls)) = ''# G''"
  by (simp_all add: AUDIT_VRL_def SAMPLE_VRL_def AUDIT_HEAD_def SAMPLE_HEAD_def PRELUDE_LINES_def lines_text_def)

lemma program_texts_differ:
  "AUDIT_VRL n \<noteq> SAMPLE_VRL n" "lines_text (PRELUDE_LINES @ ls) \<noteq> AUDIT_VRL n" "lines_text (PRELUDE_LINES @ ls) \<noteq> SAMPLE_VRL n"
  by (rule starts_differ [OF program_starts(1,2)], simp, rule starts_differ [OF program_starts(3,1)], simp,
      rule starts_differ [OF program_starts(3,2)], simp)

lemma demo_runs_chain:
  assumes "vrl_program eval run call S attempt message_of P" "chain_lines ch version = Inr ls"
  shows "\<exists>c n. build_config ch default_vector_settings version = Inr c \<and>
    node_runs S P ch default_vector_settings version c (demo_prog run ls n) (holds_on (line_eval record_eval))"
proof -
  let ?st = default_vector_settings
  have "succeeds (encode_string (node_id ?st)) \<and> fst (rpartition CHR '':'' (listen_address ?st)) \<noteq> [] \<and>
    py_isdigit (snd (rpartition CHR '':'' (listen_address ?st)))"
    by code_simp
  then obtain c n where c: "build_config ch ?st version = Inr c" "encode_string (node_id ?st) = Inr n"
    using assms(2) by (auto simp: build_config_Inr_iff succeeds_iff compile_or_raise_def compile_chain_def)
  have "demo_prog run ls n (lines_text (PRELUDE_LINES @ [] # ls)) = decided run (PRELUDE_LINES @ [] # ls)"
    "demo_prog run ls n (AUDIT_VRL n) = recorded (record_run (line_eval record_eval)) (audit_lines n)"
    "demo_prog run ls n (SAMPLE_VRL n) = recorded (record_run (line_eval record_eval)) (sample_lines n)"
    using program_texts_differ(1) [of n] program_texts_differ(2,3) [of "[] # ls" n] by (simp_all add: demo_prog_def)
  then show ?thesis
    using c assms node_vrl.vrl_records_axioms unfolding node_runs_def by blast
qed

lemma demo_node_runs:
  "\<exists>c ls n. build_config sample_chain default_vector_settings 7 = Inr c \<and>
     node_runs sample_std sample_parsers sample_chain default_vector_settings 7 c
       (demo_prog demo_run ls n) (holds_on (line_eval record_eval))"
  using sample_chain_lines demo_runs_chain [OF sample_program] by blast

section \<open>Properties\<close>



end
