(* ===== verification/Agent.thy ===== *)
theory Agent
  imports Prelude Json
begin

text \<open>
  The node agent, \<open>agent/main.py\<close>: three files in the configuration directory, the checked and
  atomic write of a bundle, and one poll. The network and \<open>json\<close> are parameters. A crash may hit
  between any two file operations, or tear the write of a plain file; the rename is atomic.
\<close>

section \<open>The files\<close>

datatype agent_file = Config_File | Tmp_File | State_File

type_synonym files = "agent_file \<Rightarrow> string option"

datatype file_op = Write agent_file string | Replace agent_file agent_file

text \<open>\<open>write_text\<close> and \<open>os.replace\<close>.\<close>

fun do_op :: "file_op \<Rightarrow> files \<Rightarrow> files" where
  "do_op (Write f t) fs = fs(f := Some t)"
| "do_op (Replace a b) fs = fs(b := fs a, a := None)"

definition do_ops :: "file_op list \<Rightarrow> files \<Rightarrow> files" where
  "do_ops ops fs = foldl (\<lambda>s op. do_op op s) fs ops"

record agent_env =
  ae_sha256 :: "string \<Rightarrow> string"
  ae_loads :: "string \<Rightarrow> json option"
  ae_dumps :: "json \<Rightarrow> string"

text \<open>Exceptions the agent does not catch inside a poll; the loop of \<open>run\<close> does.\<close>

datatype agent_exn = TypeError | OverflowError | KeyError | AttributeError

section \<open>The stored version\<close>

text \<open>\<open>int(x)\<close> on a JSON value; \<open>None\<close> is the caught \<open>ValueError\<close>.\<close>

fun py_int :: "json \<Rightarrow> (agent_exn, int option) result" where
  "py_int (JInt i) = Inr (Some i)"
| "py_int (JBool b) = Inr (Some (if b then 1 else 0))"
| "py_int (JStr s) = Inr (py_int_of_str s)"
| "py_int (JFloat (Finite neg k e)) =
     Inr (Some ((if neg then -1 else 1) * int (k * 10 ^ nat e div 10 ^ nat (- e))))"
| "py_int (JFloat (Infinite neg)) = Inl OverflowError"
| "py_int (JFloat NaN) = Inr None"
| "py_int j = Inl TypeError"

definition current_version :: "agent_env \<Rightarrow> files \<Rightarrow> (agent_exn, int) result" where
  "current_version env fs =
     (case fs State_File of
        None \<Rightarrow> Inr 0
      | Some text \<Rightarrow>
          (case ae_loads env text of
             None \<Rightarrow> Inr 0
           | Some (JObj kvs) \<Rightarrow>
               (case map_of kvs ''version'' of
                  None \<Rightarrow> Inr 0
                | Some v \<Rightarrow> bindR (py_int v) (\<lambda>r. Inr (case r of Some i \<Rightarrow> i | None \<Rightarrow> 0)))
           | Some j \<Rightarrow> Inl TypeError))"

section \<open>Applying a bundle\<close>

definition state_json :: "json \<Rightarrow> string \<Rightarrow> json" where
  "state_json version csum = JObj [(''version'', version), (''checksum'', JStr csum)]"

text \<open>The file operations of \<open>write_config\<close> when the checksum matches.\<close>

definition write_ops :: "agent_env \<Rightarrow> string \<Rightarrow> json \<Rightarrow> file_op list" where
  "write_ops env config_toml version =
     [Write Tmp_File config_toml,
      Replace Tmp_File Config_File,
      Write State_File (ae_dumps env (state_json version (ae_sha256 env config_toml)))]"

text \<open>The outcome of \<open>write_config\<close> with the operations it performs. A mismatch is logged with
  the first characters of both sums, which raises when the expected one cannot be sliced.\<close>

definition write_config ::
    "agent_env \<Rightarrow> string \<Rightarrow> json \<Rightarrow> json \<Rightarrow> (agent_exn, bool) result \<times> file_op list" where
  "write_config env config_toml version expected =
     (if expected = JStr (ae_sha256 env config_toml) then (Inr True, write_ops env config_toml version)
      else (case expected of
              JStr s \<Rightarrow> Inr False
            | JList js \<Rightarrow> Inr False
            | JObj kvs \<Rightarrow> Inl KeyError
            | _ \<Rightarrow> Inl TypeError, []))"

section \<open>Polling\<close>

datatype fetched = Fetch_Failed | Payload json

text \<open>A subscript with a string key.\<close>

fun subscript :: "string \<Rightarrow> json \<Rightarrow> (agent_exn, json) result" where
  "subscript k (JObj kvs) = (case map_of kvs k of None \<Rightarrow> Inl KeyError | Some j \<Rightarrow> Inr j)"
| "subscript k j = Inl TypeError"

text \<open>After the fetch: what the poll returns, the file operations, and whether Vector is signalled.\<close>

definition apply_payload :: "agent_env \<Rightarrow> json \<Rightarrow> (agent_exn, bool) result \<times> file_op list" where
  "apply_payload env payload =
     (case payload of
        JObj kvs \<Rightarrow>
          (if \<not> truthy (case map_of kvs ''changed'' of Some j \<Rightarrow> j | None \<Rightarrow> JNull) then (Inr False, [])
           else case bindR (subscript ''manifest'' payload) (\<lambda>manifest.
                  bindR (subscript ''config_toml'' payload) (\<lambda>toml.
                    bindR (subscript ''version'' manifest) (\<lambda>version.
                      bindR (subscript ''checksum'' manifest) (\<lambda>csum. Inr (toml, version, csum))))) of
             Inl e \<Rightarrow> (Inl e, [])
           | Inr (JStr toml, version, csum) \<Rightarrow> write_config env toml version csum
           | Inr _ \<Rightarrow> (Inl AttributeError, []))
      | _ \<Rightarrow> (Inl AttributeError, []))"

definition poll_ops ::
    "agent_env \<Rightarrow> (int \<Rightarrow> fetched) \<Rightarrow> files \<Rightarrow> (agent_exn, bool) result \<times> file_op list" where
  "poll_ops env fetch fs =
     (case current_version env fs of
        Inl e \<Rightarrow> (Inl e, [])
      | Inr since \<Rightarrow>
          (case fetch since of
             Fetch_Failed \<Rightarrow> (Inr False, [])
           | Payload payload \<Rightarrow> apply_payload env payload))"

text \<open>\<open>poll_once\<close>: the result, the files after it, and whether Vector is asked to reload.\<close>

definition poll_once ::
    "agent_env \<Rightarrow> (int \<Rightarrow> fetched) \<Rightarrow> files \<Rightarrow> (agent_exn, bool) result \<times> files \<times> bool" where
  "poll_once env fetch fs =
     (let (res, ops) = poll_ops env fetch fs in (res, do_ops ops fs, res = Inr True))"

section \<open>Crashes\<close>

text \<open>An interrupted poll: some of its operations ran, and a plain write may be torn.\<close>

inductive torn :: "file_op list \<Rightarrow> files \<Rightarrow> files \<Rightarrow> bool" where
  torn_now: "torn ops fs fs"
| torn_write: "torn (Write f t # ops) fs (fs(f := Some (take n t)))"
| torn_step: "torn ops (do_op op fs) fs' \<Longrightarrow> torn (op # ops) fs fs'"

inductive_cases torn_NilE [elim!]: "torn [] fs fs'"
inductive_cases torn_ConsE: "torn (op # ops) fs fs'"

text \<open>The life of the directory: polls that complete or crash, with any response.\<close>

inductive agent_reach :: "agent_env \<Rightarrow> files \<Rightarrow> files \<Rightarrow> bool" for env fs0 where
  initial: "agent_reach env fs0 fs0"
| polled: "agent_reach env fs0 fs \<Longrightarrow> agent_reach env fs0 (fst (snd (poll_once env fetch fs)))"
| crashed: "agent_reach env fs0 fs \<Longrightarrow> torn (snd (poll_ops env fetch fs)) fs fs' \<Longrightarrow> agent_reach env fs0 fs'"

section \<open>What a poll can do\<close>

lemma do_ops_simps [simp]: "do_ops [] fs = fs" "do_ops (op # ops) fs = do_ops ops (do_op op fs)"
  by (simp_all add: do_ops_def)

lemma do_ops_torn: "torn ops fs (do_ops ops fs)"
  by (induction ops arbitrary: fs) (auto intro: torn.intros)

lemma write_config_ops:
  "snd (write_config env toml v c) = [] \<or>
     (c = JStr (ae_sha256 env toml) \<and> snd (write_config env toml v c) = write_ops env toml v)"
  by (simp add: write_config_def)

lemma poll_ops_cases:
  "snd (poll_ops env fetch fs) = [] \<or> (\<exists>toml v. snd (poll_ops env fetch fs) = write_ops env toml v)"
proof -
  have "snd (apply_payload env p) = [] \<or> (\<exists>toml v. snd (apply_payload env p) = write_ops env toml v)" for p
    using write_config_ops [of env]
    by (auto simp: apply_payload_def split: json.splits sum.splits prod.splits if_splits) metis+
  then show ?thesis by (auto simp: poll_ops_def split: sum.splits fetched.splits)
qed

lemma torn_write_ops:
  assumes "torn (write_ops env toml v) fs fs'"
  shows "fs' Config_File = fs Config_File \<or> fs' Config_File = Some toml"
  using assms unfolding write_ops_def by (auto elim!: torn_ConsE)

text \<open>The state file names a version only after its configuration is in place.\<close>

lemma torn_state_behind:
  assumes "torn (write_ops env toml v) fs fs'" "fs' State_File \<noteq> fs State_File"
  shows "fs' Config_File = Some toml"
  using assms unfolding write_ops_def by (auto elim!: torn_ConsE)

section \<open>Where a configuration on disk comes from\<close>

text \<open>A response whose checksum is that of its configuration.\<close>

definition verified_response :: "agent_env \<Rightarrow> json \<Rightarrow> string \<Rightarrow> bool" where
  "verified_response env payload toml \<longleftrightarrow>
     jget ''config_toml'' payload = Some (JStr toml) \<and>
     jpath [''manifest'', ''checksum''] payload = Some (JStr (ae_sha256 env toml))"

lemma apply_payload_verified:
  assumes "snd (apply_payload env p) \<noteq> []"
  shows "\<exists>toml v. snd (apply_payload env p) = write_ops env toml v \<and> verified_response env p toml"
proof -
  obtain kvs where p: "p = JObj kvs" and t: "truthy (case map_of kvs ''changed'' of Some j \<Rightarrow> j | None \<Rightarrow> JNull)"
    using assms by (cases p) (auto simp: apply_payload_def split: if_splits)
  obtain toml v c where
    b: "bindR (subscript ''manifest'' p) (\<lambda>manifest.
          bindR (subscript ''config_toml'' p) (\<lambda>toml.
            bindR (subscript ''version'' manifest) (\<lambda>version.
              bindR (subscript ''checksum'' manifest) (\<lambda>csum. Inr (toml, version, csum))))) = Inr (JStr toml, v, c)"
    and w: "snd (apply_payload env p) = snd (write_config env toml v c)"
    using assms t by (auto simp: apply_payload_def p split: sum.splits prod.splits json.splits)
  obtain m where m: "map_of kvs ''manifest'' = Some m" "subscript ''checksum'' m = Inr c"
    "map_of kvs ''config_toml'' = Some (JStr toml)"
    using b by (auto simp: p bindR_Inr_iff split: option.splits)
  have c: "c = JStr (ae_sha256 env toml)" "snd (apply_payload env p) = write_ops env toml v"
    using write_config_ops [of env toml v c] w assms by auto
  have "jget ''checksum'' m = Some c" using m(2) by (cases m) (auto split: option.splits)
  with m c show ?thesis by (auto simp: verified_response_def p)
qed

lemma poll_ops_verified:
  "snd (poll_ops env fetch fs) = [] \<or>
     (\<exists>toml v payload. snd (poll_ops env fetch fs) = write_ops env toml v \<and> verified_response env payload toml)"
proof (cases "snd (poll_ops env fetch fs) = []")
  case False
  then obtain payload where "snd (poll_ops env fetch fs) = snd (apply_payload env payload)"
    by (auto simp: poll_ops_def split: sum.splits fetched.splits)
  then show ?thesis using apply_payload_verified [of env payload] False by metis
qed simp

lemma reach_config:
  assumes "agent_reach env fs0 fs"
  shows "fs Config_File = fs0 Config_File \<or>
    (\<exists>toml payload. fs Config_File = Some toml \<and> verified_response env payload toml)"
  using assms
proof (induction rule: agent_reach.induct)
  case initial
  show ?case by simp
next
  case (polled fs fetch)
  have "torn (snd (poll_ops env fetch fs)) fs (fst (snd (poll_once env fetch fs)))"
    using do_ops_torn by (simp add: poll_once_def Let_def split: prod.splits)
  then show ?case
    using polled.IH poll_ops_verified [of env fetch fs] torn_write_ops [of env _ _ fs]
    by (metis torn_NilE)
next
  case (crashed fs fetch fs')
  then show ?case
    using poll_ops_verified [of env fetch fs] torn_write_ops [of env _ _ fs fs']
    by (metis torn_NilE)
qed

lemma write_ops_result:
  "do_ops (write_ops env toml v) fs Config_File = Some toml"
  "do_ops (write_ops env toml v) fs State_File = Some (ae_dumps env (state_json v (ae_sha256 env toml)))"
  by (simp_all add: write_ops_def)

lemma version_after_write:
  assumes "ae_loads env (ae_dumps env (state_json (JInt v) (ae_sha256 env toml))) = Some (state_json (JInt v) (ae_sha256 env toml))"
  shows "current_version env (do_ops (write_ops env toml (JInt v)) fs) = Inr v"
  using assms by (simp add: current_version_def write_ops_result state_json_def)

lemma current_version_cong: "fs State_File = fs' State_File \<Longrightarrow> current_version env fs = current_version env fs'"
  by (simp add: current_version_def)

text \<open>A plain environment for the concrete instances: one state document, hashed by a prefix.\<close>

definition sample_agent :: agent_env where
  "sample_agent = \<lparr>ae_sha256 = (\<lambda>t. ''sha256:'' @ t),
     ae_loads = (\<lambda>t. if t = ''{4}'' then Some (state_json (JInt 4) ''sha256:new'') else None),
     ae_dumps = (\<lambda>j. ''{4}'')\<rparr>"

section \<open>Properties\<close>



text \<open>The state file is never ahead of the configuration: when a crash interrupts the write of
  version v, the version the agent reads next is the old one, zero (which fetches again), or v with the
  new configuration already in place, given that a truncated state document does not parse.\<close>

theorem state_never_ahead:
  assumes "torn (write_ops env toml (JInt v)) fs fs'"
    and "\<And>n. n < length (ae_dumps env (state_json (JInt v) (ae_sha256 env toml))) \<Longrightarrow>
      ae_loads env (take n (ae_dumps env (state_json (JInt v) (ae_sha256 env toml)))) = None"
    and "ae_loads env (ae_dumps env (state_json (JInt v) (ae_sha256 env toml))) = Some (state_json (JInt v) (ae_sha256 env toml))"
  shows "current_version env fs' = current_version env fs \<or> current_version env fs' = Inr 0 \<or>
    (current_version env fs' = Inr v \<and> fs' Config_File = Some toml)"
proof (cases "fs' State_File = fs State_File")
  case True
  then show ?thesis using current_version_cong by blast
next
  case False
  let ?t = "ae_dumps env (state_json (JInt v) (ae_sha256 env toml))"
  have c: "fs' Config_File = Some toml" by (rule torn_state_behind [OF assms(1) False])
  have "\<exists>n. fs' State_File = Some (take n ?t)"
    using assms(1) False unfolding write_ops_def by (auto elim!: torn_ConsE intro: exI [of _ "length ?t"])
  then obtain n where n: "fs' State_File = Some (take n ?t)" by blast
  show ?thesis
  proof (cases "n < length ?t")
    case True
    then show ?thesis using assms(2) [of n] n by (simp add: current_version_def)
  next
    case False
    then have "current_version env fs' = Inr v"
      using assms(3) n by (simp add: current_version_def state_json_def)
    with c show ?thesis by blast
  qed
qed

theorem state_never_ahead_witness:
  "let fs' = ((\<lambda>f. None)(Config_File := Some ''new'', State_File := Some (take 1 ''{4}''))) in
     current_version sample_agent fs' = current_version sample_agent (\<lambda>f. None) \<or>
     current_version sample_agent fs' = Inr 0 \<or>
     (current_version sample_agent fs' = Inr 4 \<and> fs' Config_File = Some ''new'')"
proof -
  let ?fs' = "(\<lambda>f. None)(Config_File := Some ''new'', State_File := Some (take 1 ''{4}''))"
  have t: "torn (write_ops sample_agent ''new'' (JInt 4)) (\<lambda>f. None) ?fs'"
  proof -
    have e: "do_op (Replace Tmp_File Config_File) (do_op (Write Tmp_File ''new'') (\<lambda>f. None)) = (\<lambda>f. None)(Config_File := Some ''new'')"
      by auto
    have "torn [Write State_File ''{4}'']
        (do_op (Replace Tmp_File Config_File) (do_op (Write Tmp_File ''new'') (\<lambda>f. None))) ?fs'"
      unfolding e by (rule torn_write)
    then have "torn [Write Tmp_File ''new'', Replace Tmp_File Config_File, Write State_File ''{4}''] (\<lambda>f. None) ?fs'"
      by (rule torn_step [OF torn_step])
    then show ?thesis by (simp add: write_ops_def sample_agent_def)
  qed
  have l: "ae_loads sample_agent (take n ''{4}'') = None" if "n < 3" for n
    using that by (cases n rule: nat.exhaust) (auto simp: sample_agent_def numeral_3_eq_3 less_Suc_eq)
  show ?thesis
    unfolding Let_def by (rule state_never_ahead [OF t]) (use l in \<open>simp_all add: sample_agent_def\<close>)
qed

end
