(* ===== verification/Agent_Loop.thy ===== *)
theory Agent_Loop
  imports Prelude Json Agent
begin

text \<open>
  The rest of \<open>agent/main.py\<close>: the constructor and the address of a poll, the signal to Vector, a
  poll with its signal, the polling loop and the command. What one iteration meets outside the
  agent (the response, the pid file and whether a signal is delivered) is a record.
\<close>

section \<open>The agent\<close>

record agent_config =
  ac_url :: string
  ac_dir :: string
  ac_pid_file :: "string option"
  ac_interval :: pyfloat

text \<open>\<open>rstrip("/")\<close>.\<close>

definition rstrip_slash :: "string \<Rightarrow> string" where
  "rstrip_slash s = rev (dropWhile (\<lambda>c. c = CHR ''/'') (rev s))"

definition new_agent :: "string \<Rightarrow> string \<Rightarrow> string option \<Rightarrow> pyfloat \<Rightarrow> agent_config" where
  "new_agent url dir pid_file interval =
     \<lparr>ac_url = rstrip_slash url, ac_dir = dir, ac_pid_file = pid_file, ac_interval = interval\<rparr>"

text \<open>The path and the query parameter of a poll.\<close>

definition poll_request :: "agent_config \<Rightarrow> int \<Rightarrow> string \<times> (string \<times> string) list" where
  "poll_request cfg since = (ac_url cfg @ ''/api/agent/bundle'', [(''since'', int_str since)])"

section \<open>The signal\<close>

text \<open>
  The file is read by \<open>read_pid\<close>, with \<open>None\<close> for an unreadable one. \<open>os.kill\<close> takes a C int and raises
  \<open>OverflowError\<close> for any other number, which \<open>signal_vector\<close> does not catch; \<open>kill\<close> says whether the
  signal is delivered. The result is the process signalled.
\<close>

definition c_int :: "int \<Rightarrow> bool" where
  "c_int i \<longleftrightarrow> - (2 ^ 31) \<le> i \<and> i < 2 ^ 31"

definition signal_vector ::
    "agent_config \<Rightarrow> (string \<Rightarrow> string option) \<Rightarrow> (int \<Rightarrow> bool) \<Rightarrow> (agent_exn, int option) result" where
  "signal_vector cfg read_pid kill =
     (case ac_pid_file cfg of
        None \<Rightarrow> Inr None
      | Some path \<Rightarrow>
          (case read_pid path of
             None \<Rightarrow> Inr None
           | Some text \<Rightarrow>
               (case py_int_of_str (py_strip text) of
                  None \<Rightarrow> Inr None
                | Some pid \<Rightarrow>
                    if \<not> c_int pid then Inl OverflowError
                    else if kill pid then Inr (Some pid) else Inr None)))"

section \<open>A poll with its signal\<close>

record node_world =
  w_get :: "string \<times> (string \<times> string) list \<Rightarrow> fetched"
  w_read_pid :: "string \<Rightarrow> string option"
  w_kill :: "int \<Rightarrow> bool"

definition w_fetch :: "agent_config \<Rightarrow> node_world \<Rightarrow> int \<Rightarrow> fetched" where
  "w_fetch cfg w since = w_get w (poll_request cfg since)"

definition poll_and_signal ::
    "agent_env \<Rightarrow> agent_config \<Rightarrow> node_world \<Rightarrow> files \<Rightarrow> (agent_exn, bool) result \<times> files \<times> int option" where
  "poll_and_signal env cfg w fs =
     (let (res, fs', applied) = poll_once env (w_fetch cfg w) fs in
      if applied then
        (case signal_vector cfg (w_read_pid w) (w_kill w) of
           Inl e \<Rightarrow> (Inl e, fs', None)
         | Inr p \<Rightarrow> (res, fs', p))
      else (res, fs', None))"

text \<open>\<open>run\<close>, for as many iterations as the list has: an exception is logged and the loop goes on.\<close>

fun run_agent :: "agent_env \<Rightarrow> agent_config \<Rightarrow> node_world list \<Rightarrow> files \<Rightarrow> files \<times> (agent_exn, bool) result list" where
  "run_agent env cfg [] fs = (fs, [])"
| "run_agent env cfg (w # ws) fs =
     (let (res, fs', p) = poll_and_signal env cfg w fs; rest = run_agent env cfg ws fs'
      in (fst rest, res # snd rest))"

text \<open>\<open>main\<close>: the options with their defaults, then one poll with \<open>--once\<close>, whose exception ends the
  process, or the loop.\<close>

record agent_args =
  arg_url :: string
  arg_dir :: string
  arg_pid_file :: "string option"
  arg_interval :: pyfloat
  arg_once :: bool

definition default_args :: "(string \<Rightarrow> string option) \<Rightarrow> agent_args" where
  "default_args environ =
     \<lparr>arg_url = (case environ ''SS_CONTROL_PLANE_URL'' of Some v \<Rightarrow> v | None \<Rightarrow> ''http://127.0.0.1:8000''),
      arg_dir = (case environ ''SS_CONFIG_DIR'' of Some v \<Rightarrow> v | None \<Rightarrow> ''/etc/vector''),
      arg_pid_file = None, arg_interval = Finite False 150 (-1), arg_once = False\<rparr>"

datatype agent_exit = Exits int | Raises agent_exn | Still_Running

definition agent_main ::
    "agent_env \<Rightarrow> agent_args \<Rightarrow> node_world list \<Rightarrow> files \<Rightarrow> agent_exit \<times> files" where
  "agent_main env args worlds fs =
     (let cfg = new_agent (arg_url args) (arg_dir args) (arg_pid_file args) (arg_interval args) in
      if arg_once args then
        (case poll_and_signal env cfg (hd worlds) fs of
           (Inl e, fs', p) \<Rightarrow> (Raises e, fs')
         | (Inr applied, fs', p) \<Rightarrow> (Exits 0, fs'))
      else (Still_Running, fst (run_agent env cfg worlds fs)))"

section \<open>What an iteration can do\<close>

lemma poll_ops_failed: "poll_ops env fetch fs = (Inl e, ops) \<Longrightarrow> ops = []"
  by (auto simp: poll_ops_def apply_payload_def write_config_def
      split: sum.splits fetched.splits json.splits prod.splits if_splits)

lemma poll_ops_not_applied: "poll_ops env fetch fs = (Inr False, ops) \<Longrightarrow> ops = []"
  by (auto simp: poll_ops_def apply_payload_def write_config_def
      split: sum.splits fetched.splits json.splits prod.splits if_splits)

lemma poll_ops_applied:
  assumes "poll_ops env fetch fs = (Inr True, ops)"
  shows "\<exists>toml v payload. ops = write_ops env toml v \<and> verified_response env payload toml"
proof -
  have "ops \<noteq> []"
    using assms
    by (auto simp: poll_ops_def apply_payload_def write_config_def write_ops_def
        split: sum.splits fetched.splits json.splits prod.splits if_splits)
  then show ?thesis using poll_ops_verified [of env fetch fs] assms by auto
qed

lemma poll_and_signal_files: "fst (snd (poll_and_signal env cfg w fs)) = fst (snd (poll_once env (w_fetch cfg w) fs))"
  by (simp add: poll_and_signal_def poll_once_def Let_def split: prod.splits sum.splits)

lemma signal_vector_kill: "signal_vector cfg rd kill = Inr (Some pid) \<Longrightarrow> kill pid \<and> c_int pid"
  by (auto simp: signal_vector_def split: option.splits if_splits)

lemma signal_vector_error: "signal_vector cfg rd kill = Inl e \<Longrightarrow> e = OverflowError"
  by (auto simp: signal_vector_def split: option.splits if_splits)

lemma run_agent_log: "length (snd (run_agent env cfg ws fs)) = length ws"
  by (induction ws arbitrary: fs) (simp_all add: Let_def split: prod.splits)

lemma run_agent_append:
  "fst (run_agent env cfg (ws @ vs) fs) = fst (run_agent env cfg vs (fst (run_agent env cfg ws fs)))"
  by (induction ws arbitrary: fs) (simp_all add: Let_def split: prod.splits)

text \<open>Every state of the loop is a state of the directory's life.\<close>

lemma run_agent_reach: "agent_reach env fs0 fs \<Longrightarrow> agent_reach env fs0 (fst (run_agent env cfg ws fs))"
proof (induction ws arbitrary: fs)
  case (Cons w ws)
  obtain res fs' p where s: "poll_and_signal env cfg w fs = (res, fs', p)" by (cases "poll_and_signal env cfg w fs")
  have "fs' = fst (snd (poll_once env (w_fetch cfg w) fs))" using poll_and_signal_files [of env cfg w fs] s by simp
  then have "agent_reach env fs0 fs'" using agent_reach.polled [OF Cons.prems] by simp
  from Cons.IH [OF this] show ?case by (simp add: s Let_def)
qed simp

section \<open>Properties\<close>


text \<open>A response with a new bundle, and a pid file with a number no process can have.\<close>

definition new_bundle :: json where
  "new_bundle = JObj [(''changed'', JBool True), (''manifest'', JObj [(''version'', JInt 4), (''checksum'', JStr ''sha256:new'')]),
     (''config_toml'', JStr ''new'')]"

definition sample_config :: agent_config where
  "sample_config = new_agent ''http://cp:8000/'' ''/etc/vector'' (Some ''/run/vector.pid'') (Finite False 150 (-1))"

definition sample_world :: "string \<Rightarrow> node_world" where
  "sample_world pid =
     \<lparr>w_get = (\<lambda>r. if r = (''http://cp:8000/api/agent/bundle'', [(''since'', ''0'')]) then Payload new_bundle else Fetch_Failed),
      w_read_pid = (\<lambda>path. Some pid), w_kill = (\<lambda>pid. True)\<rparr>"


text \<open>The number in the pid file is not checked: with a file that holds 0 the call signals process
  group 0, the agent's own.\<close>

lemma signal_group_zero: "signal_vector sample_config (\<lambda>path. Some ''0'') (\<lambda>pid. True) = Inr (Some 0)"
proof -
  have "py_int_of_str (py_strip ''0'') = Some 0" by code_simp
  then show ?thesis by (simp add: signal_vector_def sample_config_def new_agent_def c_int_def)
qed

text \<open>Trailing slashes of the configured address never double the one of the path.\<close>

lemma poll_request_address:
  "poll_request (new_agent (url @ ''/'') dir pid iv) since = poll_request (new_agent url dir pid iv) since"
  by (simp add: poll_request_def new_agent_def rstrip_slash_def)

end
