(* ===== verification/Sampling.thy ===== *)
theory Sampling
  imports Prelude Rule_Model Database "HOL-Library.Sublist"
begin

text \<open>
  The two sample stores of \<open>sampling/store.py\<close>: the bounded ring of the live view with its
  subscriber queues, and the persisted sample trimmed to a number of rows. A queue is known by the
  number it got when it was created; the order in which subscribers are served does not matter.
\<close>

section \<open>The live buffer\<close>

record frame_queue =
  q_maxsize :: int
  q_items :: "decision_record list"

record tail_buffer =
  tb_maxlen :: nat
  tb_items :: "decision_record list"
  tb_subscribers :: "(nat \<times> frame_queue) list"

definition new_buffer :: "nat \<Rightarrow> tail_buffer" where
  "new_buffer maxlen = \<lparr>tb_maxlen = maxlen, tb_items = [], tb_subscribers = []\<rparr>"

text \<open>\<open>append\<close> on a deque with a maximal length: the oldest items leave.\<close>

definition deque_append :: "nat \<Rightarrow> 'a list \<Rightarrow> 'a \<Rightarrow> 'a list" where
  "deque_append maxlen xs x = drop (Suc (length xs) - maxlen) (xs @ [x])"

text \<open>\<open>asyncio.Queue.full\<close> and \<open>put_nowait\<close>; a size that is not positive is no limit.\<close>

definition queue_full :: "frame_queue \<Rightarrow> bool" where
  "queue_full q \<longleftrightarrow> 0 < q_maxsize q \<and> q_maxsize q \<le> int (length (q_items q))"

definition put_nowait :: "decision_record \<Rightarrow> frame_queue \<Rightarrow> frame_queue option" where
  "put_nowait r q = (if queue_full q then None else Some (q\<lparr>q_items := q_items q @ [r]\<rparr>))"

definition offer :: "decision_record \<Rightarrow> frame_queue \<Rightarrow> frame_queue" where
  "offer r q = (case put_nowait r q of None \<Rightarrow> q | Some q' \<Rightarrow> q')"

definition publish_record :: "decision_record \<Rightarrow> tail_buffer \<Rightarrow> tail_buffer" where
  "publish_record r b = b\<lparr>tb_items := deque_append (tb_maxlen b) (tb_items b) r,
     tb_subscribers := map (\<lambda>(i, q). (i, offer r q)) (tb_subscribers b)\<rparr>"

text \<open>\<open>items[-limit:][::-1]\<close>.\<close>

definition recent :: "int \<Rightarrow> tail_buffer \<Rightarrow> decision_record list" where
  "recent limit b = rev (py_suffix limit (tb_items b))"

definition subscribe :: "nat \<Rightarrow> int \<Rightarrow> tail_buffer \<Rightarrow> tail_buffer" where
  "subscribe i maxsize b =
     b\<lparr>tb_subscribers := (i, \<lparr>q_maxsize = maxsize, q_items = []\<rparr>) # tb_subscribers b\<rparr>"

definition unsubscribe :: "nat \<Rightarrow> tail_buffer \<Rightarrow> tail_buffer" where
  "unsubscribe i b = b\<lparr>tb_subscribers := filter (\<lambda>(j, q). j \<noteq> i) (tb_subscribers b)\<rparr>"

definition subscriber_count :: "tail_buffer \<Rightarrow> nat" where
  "subscriber_count b = length (tb_subscribers b)"

text \<open>\<open>queue.get\<close> by the subscriber: the oldest frame, or \<open>None\<close> while it waits.\<close>

definition get_frame :: "nat \<Rightarrow> tail_buffer \<Rightarrow> decision_record option \<times> tail_buffer" where
  "get_frame i b =
     (case map_of (tb_subscribers b) i of
        None \<Rightarrow> (None, b)
      | Some q \<Rightarrow>
          (case q_items q of
             [] \<Rightarrow> (None, b)
           | r # rs \<Rightarrow> (Some r, b\<lparr>tb_subscribers := map (\<lambda>(j, p). (j, if j = i then q\<lparr>q_items := rs\<rparr> else p)) (tb_subscribers b)\<rparr>)))"

section \<open>The persisted sample\<close>

text \<open>The rows \<open>session.add\<close> queues; the flush numbers them after the largest row.\<close>

definition next_sample_id :: "sample_row list \<Rightarrow> nat" where
  "next_sample_id rows = Suc (fold max (map sa_id rows) 0)"

definition sample_of :: "bool \<Rightarrow> nat \<Rightarrow> decision_record \<Rightarrow> sample_row" where
  "sample_of retain_raw i r =
     \<lparr>sa_id = i, sa_ts = dec_ts r, sa_decision = decision_value (dec_decision r), sa_rule_id = dec_rule_id r,
      sa_node = dec_node r, sa_fields = dec_fields r, sa_raw = (if retain_raw then dec_raw r else None)\<rparr>"

fun insert_samples :: "bool \<Rightarrow> decision_record list \<Rightarrow> sample_row list \<Rightarrow> sample_row list" where
  "insert_samples retain_raw [] rows = rows"
| "insert_samples retain_raw (r # rs) rows =
     insert_samples retain_raw rs (rows @ [sample_of retain_raw (next_sample_id rows) r])"

text \<open>The trim: the id at the offset, in ascending order, and the deletion up to it. SQLite reads a
  negative offset as zero; here the offset is never negative.\<close>

definition trim_cutoff :: "int \<Rightarrow> sample_row list \<Rightarrow> nat option" where
  "trim_cutoff max_events rows =
     (let total = int (length rows); excess = total - max_events; ids = sort (map sa_id rows) in
      if total \<le> max_events then None
      else if excess - 1 < total then Some (ids ! nat (excess - 1)) else None)"

definition record_samples :: "int \<Rightarrow> bool \<Rightarrow> decision_record list \<Rightarrow> session \<Rightarrow> nat \<times> session" where
  "record_samples max_events retain_raw records s =
     (length records,
      on_db (\<lambda>db. let rows = insert_samples retain_raw records (db_samples db) in
         db\<lparr>db_samples := (case trim_cutoff max_events rows of
              None \<Rightarrow> rows
            | Some cutoff \<Rightarrow> filter (\<lambda>r. \<not> sa_id r \<le> cutoff) rows)\<rparr>) s)"

text \<open>Newest first; SQLite reads a negative limit as none.\<close>

definition load_samples :: "int \<Rightarrow> session \<Rightarrow> sample_row list" where
  "load_samples limit s =
     (let rows = rev (sort_key sa_id (db_samples (current s)))
      in if limit < 0 then rows else take (nat limit) rows)"

section \<open>The store contract\<close>

definition last_n :: "nat \<Rightarrow> 'a list \<Rightarrow> 'a list" where
  "last_n n xs = drop (length xs - n) xs"

lemma last_n_length [simp]: "length (last_n n xs) = min n (length xs)"
  by (simp add: last_n_def)

lemma last_n_short: "length xs \<le> n \<Longrightarrow> last_n n xs = xs"
  by (simp add: last_n_def)

lemma last_n_append: "last_n n (last_n n xs @ ys) = last_n n (xs @ ys)"
proof (cases "length xs \<le> n")
  case False
  then obtain d where d: "length xs = n + d" using le_Suc_ex by (metis nat_le_linear)
  have k: "length ys + d = length xs + length ys - n" "length xs + length ys - n - length xs = length ys - n"
    using d by simp_all
  have "last_n n (last_n n xs @ ys) = drop (length ys) (drop d xs) @ drop (length ys - n) ys"
    unfolding last_n_def d by (simp add: d)
  then have "last_n n (last_n n xs @ ys) = drop (length xs + length ys - n) xs @ drop (length ys - n) ys"
    unfolding drop_drop k(1) .
  moreover have "last_n n (xs @ ys) = drop (length xs + length ys - n) xs @ drop (length ys - n) ys"
    unfolding last_n_def length_append drop_append k(2) ..
  ultimately show ?thesis by simp
qed (simp add: last_n_short)

lemma rev_last_n: "rev (last_n n xs) = take n (rev xs)"
  by (cases "n \<le> length xs") (simp_all add: last_n_def rev_drop)

text \<open>A store that takes batches of items and keeps the newest ones.\<close>

locale bounded_store =
  fixes push :: "'x list \<Rightarrow> 's \<Rightarrow> 's"
    and view :: "'s \<Rightarrow> 'y list"
    and item :: "'x \<Rightarrow> 'y"
    and cap :: nat
    and inv :: "'s \<Rightarrow> bool"
  assumes inv_push: "inv s \<Longrightarrow> inv (push xs s)"
    and view_push: "inv s \<Longrightarrow> view (push xs s) = last_n cap (view s @ map item xs)"
begin

lemma pushes_inv: "inv s \<Longrightarrow> inv (fold push batches s)"
  by (induction batches arbitrary: s) (simp_all add: inv_push)

text \<open>After any batches, the newest items of everything ever pushed.\<close>

lemma pushes_view:
  assumes "inv s" "length (view s) \<le> cap"
  shows "view (fold push batches s) = last_n cap (view s @ map item (concat batches))"
  using assms
proof (induction batches arbitrary: s)
  case Nil
  then show ?case by (simp add: last_n_short)
next
  case (Cons xs batches)
  from Cons.prems have "length (view (push xs s)) \<le> cap" by (simp add: view_push)
  then have "view (fold push batches (push xs s)) =
      last_n cap (view (push xs s) @ map item (concat batches))"
    using Cons.IH [of "push xs s"] Cons.prems(1) inv_push by blast
  with Cons.prems(1) show ?case by (simp add: view_push last_n_append)
qed

end

section \<open>The ring\<close>

lemma deque_append_last: "length xs \<le> m \<Longrightarrow> deque_append m xs x = last_n m (xs @ [x])"
  by (simp add: deque_append_def last_n_def)

lemma publish_record_simps [simp]:
  "tb_maxlen (publish_record r b) = tb_maxlen b"
  "tb_items (publish_record r b) = deque_append (tb_maxlen b) (tb_items b) r"
  by (simp_all add: publish_record_def)

definition ring_ok :: "nat \<Rightarrow> tail_buffer \<Rightarrow> bool" where
  "ring_ok m b \<longleftrightarrow> tb_maxlen b = m \<and> length (tb_items b) \<le> m"

lemma publish_ring_ok: "ring_ok m b \<Longrightarrow> ring_ok m (publish_record r b)"
  by (simp add: ring_ok_def deque_append_last)

lemma publish_batch:
  assumes "ring_ok m b"
  shows "ring_ok m (fold publish_record rs b) \<and> tb_items (fold publish_record rs b) = last_n m (tb_items b @ rs)"
  using assms
proof (induction rs arbitrary: b)
  case Nil
  then show ?case by (simp add: ring_ok_def last_n_short)
next
  case (Cons r rs)
  have "tb_items (publish_record r b) = last_n m (tb_items b @ [r])"
    using Cons.prems by (simp add: ring_ok_def deque_append_last)
  then show ?case using Cons.IH [OF publish_ring_ok [OF Cons.prems]]
    by (simp add: last_n_append)
qed

interpretation ring: bounded_store "fold publish_record" tb_items "\<lambda>r. r" m "ring_ok m" for m
  by unfold_locales (simp_all add: publish_batch)

section \<open>The sample table\<close>

definition ids_ascending :: "sample_row list \<Rightarrow> bool" where
  "ids_ascending rows \<longleftrightarrow> sorted_wrt (<) (map sa_id rows)"

definition sample_content :: "sample_row \<Rightarrow> sample_row" where
  "sample_content r = r\<lparr>sa_id := 0\<rparr>"

lemma sample_content_id: "sample_content (sample_of retain i r) = sample_content (sample_of retain 0 r)"
  by (simp add: sample_content_def sample_of_def)

lemma fold_max_ge: "(x :: nat) \<in> set xs \<Longrightarrow> x \<le> fold max xs a"
  and fold_max_acc: "(a :: nat) \<le> fold max xs a"
proof -
  show acc: "a \<le> fold max xs a" for a :: nat and xs
    by (induction xs arbitrary: a) (auto intro: order_trans [OF max.cobounded2])
  show "x \<in> set xs \<Longrightarrow> x \<le> fold max xs a"
  proof (induction xs arbitrary: a)
    case (Cons y ys)
    then show ?case using acc [of "max x a" ys] by auto
  qed simp
qed

lemma insert_samples_spec:
  assumes "ids_ascending rows"
  shows "\<exists>new. insert_samples retain rs rows = rows @ new \<and> ids_ascending (rows @ new) \<and>
    map sample_content new = map (\<lambda>r. sample_content (sample_of retain 0 r)) rs"
  using assms
proof (induction rs arbitrary: rows)
  case (Cons r rs)
  let ?x = "sample_of retain (next_sample_id rows) r"
  have "sa_id y < sa_id ?x" if "y \<in> set rows" for y
    using that fold_max_ge [of "sa_id y" "map sa_id rows" 0]
    by (simp add: sample_of_def next_sample_id_def less_Suc_eq_le)
  then have "ids_ascending (rows @ [?x])"
    using Cons.prems by (auto simp: ids_ascending_def sorted_wrt_append)
  then obtain new where "insert_samples retain rs (rows @ [?x]) = (rows @ [?x]) @ new"
    "ids_ascending ((rows @ [?x]) @ new)"
    "map sample_content new = map (\<lambda>r. sample_content (sample_of retain 0 r)) rs"
    using Cons.IH by blast
  then show ?case
    by (intro exI [of _ "?x # new"]) (simp add: sample_content_id [of retain "next_sample_id rows"])
qed simp

lemma ascending_filter:
  fixes f :: "'a \<Rightarrow> nat"
  assumes "sorted_wrt (<) (map f xs)" "k < length xs"
  shows "filter (\<lambda>x. \<not> f x \<le> f (xs ! k)) xs = drop (Suc k) xs"
proof -
  have s: "xs = take (Suc k) xs @ drop (Suc k) xs" by simp
  have lt: "f (xs ! i) < f (xs ! j)" if "i < j" "j < length xs" for i j
    using assms(1) that by (simp add: sorted_wrt_iff_nth_less)
  have "filter (\<lambda>x. \<not> f x \<le> f (xs ! k)) (take (Suc k) xs) = []"
  proof -
    have "f (xs ! i) \<le> f (xs ! k)" if "i < Suc k" for i
      using that lt [of i k] assms(2) by (cases "i = k") (auto simp: less_Suc_eq intro: less_imp_le)
    then show ?thesis by (auto simp: filter_empty_conv in_set_conv_nth)
  qed
  moreover have "filter (\<lambda>x. \<not> f x \<le> f (xs ! k)) (drop (Suc k) xs) = drop (Suc k) xs"
    using lt by (fastforce simp: filter_id_conv in_set_conv_nth not_le)
  ultimately show ?thesis by (subst s, subst filter_append) simp
qed

lemma trim_spec:
  assumes "ids_ascending rows"
  shows "(case trim_cutoff (int n) rows of None \<Rightarrow> rows | Some cutoff \<Rightarrow> filter (\<lambda>r. \<not> sa_id r \<le> cutoff) rows) =
    last_n n rows"
proof (cases "length rows \<le> n")
  case True
  then show ?thesis by (simp add: trim_cutoff_def Let_def last_n_short)
next
  case False
  let ?k = "length rows - n - 1"
  have k: "?k < length rows" "nat (int (length rows) - int n - 1) = ?k" "Suc ?k = length rows - n"
    using False by linarith+
  have "sort (map sa_id rows) = map sa_id rows"
    using assms by (intro sorted_sort_id) (simp add: ids_ascending_def strict_sorted_imp_sorted)
  then have c: "trim_cutoff (int n) rows = Some (sa_id (rows ! ?k))"
    using False k by (simp add: trim_cutoff_def Let_def)
  have "filter (\<lambda>r. \<not> sa_id r \<le> sa_id (rows ! ?k)) rows = drop (Suc ?k) rows"
    using assms k(1) by (intro ascending_filter) (simp_all add: ids_ascending_def)
  then show ?thesis unfolding c option.case k(3) last_n_def .
qed

lemma last_n_map: "map f (last_n n xs) = last_n n (map f xs)"
  by (simp add: last_n_def drop_map)

lemma last_n_ascending: "ids_ascending rows \<Longrightarrow> ids_ascending (last_n n rows)"
  by (simp add: ids_ascending_def last_n_def drop_map [symmetric] sorted_wrt_drop)

definition table_ok :: "session \<Rightarrow> bool" where
  "table_ok s \<longleftrightarrow> ids_ascending (db_samples (current s))"

definition table_view :: "session \<Rightarrow> sample_row list" where
  "table_view s = map sample_content (db_samples (current s))"

lemma record_samples_rows:
  "db_samples (current (snd (record_samples (int n) retain rs s))) = last_n n (insert_samples retain rs (db_samples (current s)))"
  if "table_ok s"
proof -
  have "ids_ascending (insert_samples retain rs (db_samples (current s)))"
    using insert_samples_spec [of "db_samples (current s)" retain rs] that unfolding table_ok_def by auto
  then show ?thesis by (simp add: record_samples_def Let_def trim_spec)
qed

interpretation samples: bounded_store
  "\<lambda>rs s. snd (record_samples (int n) retain rs s)" table_view "\<lambda>r. sample_content (sample_of retain 0 r)" n table_ok
  for n retain
proof unfold_locales
  fix s rs
  assume ok: "table_ok s"
  obtain new where new: "insert_samples retain rs (db_samples (current s)) = db_samples (current s) @ new"
    "ids_ascending (db_samples (current s) @ new)"
    "map sample_content new = map (\<lambda>r. sample_content (sample_of retain 0 r)) rs"
    using insert_samples_spec ok unfolding table_ok_def by blast
  show "table_ok (snd (record_samples (int n) retain rs s))"
    unfolding table_ok_def record_samples_rows [OF ok] new(1) by (rule last_n_ascending [OF new(2)])
  show "table_view (snd (record_samples (int n) retain rs s)) =
      last_n n (table_view s @ map (\<lambda>r. sample_content (sample_of retain 0 r)) rs)"
    unfolding table_view_def record_samples_rows [OF ok] new(1) by (simp add: last_n_map new(3))
qed

section \<open>The life of the buffer\<close>

datatype tail_op =
    Publish_Record decision_record
  | Subscribe_Queue nat int
  | Unsubscribe_Queue nat
  | Get_Frame nat

fun tail_step :: "tail_op \<Rightarrow> tail_buffer \<Rightarrow> (nat \<times> decision_record) list \<times> tail_buffer" where
  "tail_step (Publish_Record r) b = ([], publish_record r b)"
| "tail_step (Subscribe_Queue i k) b = ([], subscribe i k b)"
| "tail_step (Unsubscribe_Queue i) b = ([], unsubscribe i b)"
| "tail_step (Get_Frame i) b =
     (case get_frame i b of (None, b') \<Rightarrow> ([], b') | (Some r, b') \<Rightarrow> ([(i, r)], b'))"

text \<open>The frames delivered to subscribers, in order, and the buffer after the operations.\<close>

fun tail_run :: "tail_op list \<Rightarrow> tail_buffer \<Rightarrow> (nat \<times> decision_record) list \<times> tail_buffer" where
  "tail_run [] b = ([], b)"
| "tail_run (op # ops) b =
     (let (got, b1) = tail_step op b; (rest, b2) = tail_run ops b1 in (got @ rest, b2))"

fun published_by :: "tail_op \<Rightarrow> decision_record list" where
  "published_by (Publish_Record r) = [r]"
| "published_by op = []"

definition published :: "tail_op list \<Rightarrow> decision_record list" where
  "published ops = concat (map published_by ops)"

definition frames :: "nat \<Rightarrow> (nat \<times> decision_record) list \<Rightarrow> decision_record list" where
  "frames i got = map snd (filter (\<lambda>(j, r). j = i) got)"

lemma published_simps [simp]:
  "published [] = []" "published (op # ops) = published_by op @ published ops"
  by (simp_all add: published_def)

lemma frames_simps [simp]:
  "frames i [] = []" "frames i (xs @ ys) = frames i xs @ frames i ys"
  "frames i [(j, r)] = (if j = i then [r] else [])"
  by (auto simp: frames_def)

lemma tail_step_items:
  "tb_items (snd (tail_step op b)) = tb_items (fold publish_record (published_by op) b) \<and>
   tb_maxlen (snd (tail_step op b)) = tb_maxlen b"
  by (cases op) (auto simp: subscribe_def unsubscribe_def get_frame_def split: option.splits list.splits)

lemma tail_step_ring:
  "ring_ok m b \<Longrightarrow> ring_ok m (snd (tail_step op b)) \<and>
     tb_items (snd (tail_step op b)) = last_n m (tb_items b @ published_by op)"
  using tail_step_items [of op b] publish_batch [of m b "published_by op"]
  by (auto simp: ring_ok_def)

lemma tail_run_items:
  "ring_ok m b \<Longrightarrow> tb_items (snd (tail_run ops b)) = last_n m (tb_items b @ published ops)"
proof (induction ops arbitrary: b)
  case Nil
  then show ?case by (simp add: ring_ok_def last_n_short)
next
  case (Cons op ops)
  then show ?case
    using tail_step_ring [OF Cons.prems, of op] Cons.IH [of "snd (tail_step op b)"]
    by (simp add: split_beta Let_def last_n_append)
qed

text \<open>One queue under the operations, and the frames it gives out.\<close>

fun queue_step :: "nat \<Rightarrow> tail_op \<Rightarrow> frame_queue \<Rightarrow> decision_record list \<times> frame_queue" where
  "queue_step i (Publish_Record r) q = ([], offer r q)"
| "queue_step i (Get_Frame j) q =
     (if j = i then (case q_items q of [] \<Rightarrow> ([], q) | r # rs \<Rightarrow> ([r], q\<lparr>q_items := rs\<rparr>)) else ([], q))"
| "queue_step i op q = ([], q)"

fun concerns :: "nat \<Rightarrow> tail_op \<Rightarrow> bool" where
  "concerns i (Subscribe_Queue j k) = (j = i)"
| "concerns i (Unsubscribe_Queue j) = (j = i)"
| "concerns i op = False"

lemma map_of_filter_other: "j \<noteq> i \<Longrightarrow> map_of (filter (\<lambda>(k, q). k \<noteq> j) xs) i = map_of xs i"
  by (induction xs) auto

lemma tail_step_queue:
  assumes "map_of (tb_subscribers b) i = Some q" "\<not> concerns i op"
  shows "frames i (fst (tail_step op b)) = fst (queue_step i op q) \<and>
    map_of (tb_subscribers (snd (tail_step op b))) i = Some (snd (queue_step i op q))"
proof (cases op)
  case (Publish_Record r)
  then show ?thesis using assms(1) by (simp add: publish_record_def map_of_map case_prod_beta)
next
  case (Get_Frame j)
  have upd: "map_of (map (\<lambda>(k, p). (k, if k = j then q' else p)) xs) i =
      (if i = j then map_option (\<lambda>_. q') (map_of xs i) else map_of xs i)" for q' j and xs :: "(nat \<times> frame_queue) list"
    by (induction xs) auto
  show ?thesis using assms(1) Get_Frame
    by (auto simp: get_frame_def upd simp del: map_map split: option.splits list.splits)
qed (use assms in \<open>simp_all add: subscribe_def unsubscribe_def map_of_filter_other\<close>)

definition queue_ok :: "frame_queue \<Rightarrow> bool" where
  "queue_ok q \<longleftrightarrow> 0 < q_maxsize q \<longrightarrow> int (length (q_items q)) \<le> q_maxsize q"

lemma queue_step_subseq:
  "subseq (fst (queue_step i op q) @ q_items (snd (queue_step i op q))) (q_items q @ published_by op)"
  by (cases op) (auto simp: offer_def put_nowait_def intro: subseq_append' split: list.splits)

lemma queue_step_ok:
  "queue_ok q \<Longrightarrow> queue_ok (snd (queue_step i op q)) \<and> q_maxsize (snd (queue_step i op q)) = q_maxsize q"
  by (cases op) (auto simp: queue_ok_def offer_def put_nowait_def queue_full_def split: list.splits)

lemma queue_step_lossless:
  assumes "q_maxsize q \<le> 0 \<or> int (length (q_items q @ published_by op)) \<le> q_maxsize q"
  shows "fst (queue_step i op q) @ q_items (snd (queue_step i op q)) = q_items q @ published_by op"
  using assms by (cases op) (auto simp: offer_def put_nowait_def queue_full_def split: list.splits)

lemma tail_run_queue:
  assumes "map_of (tb_subscribers b) i = Some q" "queue_ok q" "\<forall>op \<in> set ops. \<not> concerns i op"
  shows "\<exists>q'. map_of (tb_subscribers (snd (tail_run ops b))) i = Some q' \<and> queue_ok q' \<and> q_maxsize q' = q_maxsize q \<and>
    subseq (frames i (fst (tail_run ops b)) @ q_items q') (q_items q @ published ops) \<and>
    (q_maxsize q \<le> 0 \<or> int (length (q_items q @ published ops)) \<le> q_maxsize q \<longrightarrow>
      frames i (fst (tail_run ops b)) @ q_items q' = q_items q @ published ops)"
  using assms
proof (induction ops arbitrary: b q)
  case Nil
  then show ?case by simp
next
  case (Cons op ops)
  let ?b = "snd (tail_step op b)" and ?q = "snd (queue_step i op q)" and ?f = "fst (queue_step i op q)"
  have s: "frames i (fst (tail_step op b)) = ?f" "map_of (tb_subscribers ?b) i = Some ?q"
    using tail_step_queue [OF Cons.prems(1)] Cons.prems(3) by auto
  have ok: "queue_ok ?q" "q_maxsize ?q = q_maxsize q" using queue_step_ok [OF Cons.prems(2)] by auto
  obtain q' where q': "map_of (tb_subscribers (snd (tail_run ops ?b))) i = Some q'" "queue_ok q'"
      "q_maxsize q' = q_maxsize q"
      "subseq (frames i (fst (tail_run ops ?b)) @ q_items q') (q_items ?q @ published ops)"
      "q_maxsize q \<le> 0 \<or> int (length (q_items ?q @ published ops)) \<le> q_maxsize q \<Longrightarrow>
        frames i (fst (tail_run ops ?b)) @ q_items q' = q_items ?q @ published ops"
    using Cons.IH [OF s(2) ok(1)] Cons.prems(3) ok(2) by auto
  let ?g = "frames i (fst (tail_run ops ?b)) @ q_items q'"
  have step: "subseq (?f @ q_items ?q) (q_items q @ published_by op)" by (rule queue_step_subseq)
  have "subseq (?f @ ?g) (?f @ q_items ?q @ published ops)" using q'(4) by (simp only: subseq_append')
  moreover have "subseq ((?f @ q_items ?q) @ published ops) ((q_items q @ published_by op) @ published ops)"
    using step by (subst subseq_append)
  ultimately have sub: "subseq (?f @ ?g) (q_items q @ published_by op @ published ops)"
    unfolding append.assoc by (rule subseq_order.trans)
  have eq: "?f @ ?g = q_items q @ published_by op @ published ops"
    if room: "q_maxsize q \<le> 0 \<or> int (length (q_items q @ published_by op @ published ops)) \<le> q_maxsize q"
  proof -
    have "length (?f @ q_items ?q) \<le> length (q_items q @ published_by op)"
      using list_emb_length [OF step] .
    then have "?g = q_items ?q @ published ops" using room by (intro q'(5)) auto
    moreover have "?f @ q_items ?q = q_items q @ published_by op"
      using room by (intro queue_step_lossless) auto
    ultimately show ?thesis unfolding append.assoc [symmetric] by simp
  qed
  show ?case using q' s sub eq by (intro exI [of _ q']) (simp add: split_beta Let_def)
qed

section \<open>Properties\<close>

lemma sort_ascending: "ids_ascending rows \<Longrightarrow> sort_key sa_id rows = rows"
  by (intro sort_key_id_if_sorted) (simp add: ids_ascending_def strict_sorted_imp_sorted)

lemma samples_run:
  fixes s retain batches
  assumes "ids_ascending (db_samples (current s))" "length (db_samples (current s)) \<le> n"
  defines "s' \<equiv> fold (\<lambda>rs s. snd (record_samples (int n) retain rs s)) batches s"
  shows "ids_ascending (db_samples (current s')) \<and> map sample_content (db_samples (current s')) =
    last_n n (map sample_content (db_samples (current s)) @ map (\<lambda>r. sample_content (sample_of retain 0 r)) (concat batches))"
proof -
  have ok: "table_ok s" "length (table_view s) \<le> n" using assms(1,2) by (simp_all add: table_ok_def table_view_def)
  show ?thesis
    using samples.pushes_inv [OF ok(1), of n retain batches] samples.pushes_view [OF ok, of retain batches]
    unfolding s'_def table_ok_def table_view_def by blast
qed

text \<open>A frame for the concrete instances.\<close>

definition frame_of :: "int \<Rightarrow> decision_record" where
  "frame_of ts = \<lparr>dec_ts = ts, dec_decision = D_FORWARD, dec_rule_id = None, dec_rule_version = None,
     dec_reason = R_DEFAULT, dec_source = None, dec_event_id = None, dec_node = None, dec_fields = [],
     dec_raw = Some ''raw'', dec_extra = []\<rparr>"

text \<open>The live view shows the newest frames, newest first, at most as many as the ring holds,
  whatever subscribers do between publications; a limit of zero asks for everything and a negative
  limit leaves out that many of the oldest frames held.\<close>

theorem recent_is_newest:
  "recent limit (snd (tail_run ops (new_buffer m))) =
     (if 0 < limit then take (min (nat limit) m) (rev (published ops))
      else take (min m (length (published ops)) - nat (- limit)) (rev (published ops)))"
proof -
  have ok: "ring_ok m (new_buffer m)" by (simp add: ring_ok_def new_buffer_def)
  then have i: "tb_items (snd (tail_run ops (new_buffer m))) = last_n m (published ops)"
    using tail_run_items [OF ok, of ops] by (simp add: new_buffer_def)
  show ?thesis
  proof (cases "0 < limit")
    case True
    then have "recent limit (snd (tail_run ops (new_buffer m))) = rev (last_n (nat limit) (last_n m (published ops)))"
      by (simp add: recent_def py_suffix_def i last_n_def)
    with True show ?thesis by (simp only: rev_last_n take_take if_True)
  next
    case False
    then show ?thesis
      by (simp add: recent_def py_suffix_def i rev_drop rev_last_n take_take)
  qed
qed

text \<open>C23: A subscriber never slows the publisher and never sees frames out of order or twice: what it
  received, followed by what waits in its queue, is a subsequence of what was published since it
  subscribed, its queue stays within its size, and nothing is lost while everything published would fit.\<close>

theorem slow_subscriber_only_loses:
  assumes "\<forall>op \<in> set ops. \<not> concerns i op"
  shows "\<exists>q. map_of (tb_subscribers (snd (tail_run ops (subscribe i k b)))) i = Some q \<and>
    (0 < k \<longrightarrow> int (length (q_items q)) \<le> k) \<and>
    subseq (frames i (fst (tail_run ops (subscribe i k b))) @ q_items q) (published ops) \<and>
    (k \<le> 0 \<or> int (length (published ops)) \<le> k \<longrightarrow>
      frames i (fst (tail_run ops (subscribe i k b))) @ q_items q = published ops)"
proof -
  let ?q = "\<lparr>q_maxsize = k, q_items = []\<rparr>"
  have s: "map_of (tb_subscribers (subscribe i k b)) i = Some ?q" by (simp add: subscribe_def)
  have "queue_ok ?q" by (simp add: queue_ok_def)
  from tail_run_queue [OF s this assms] show ?thesis by (auto simp: queue_ok_def)
qed

theorem slow_subscriber_only_loses_witness:
  "\<exists>q. map_of (tb_subscribers (snd (tail_run
      [Publish_Record (frame_of 1), Publish_Record (frame_of 2), Get_Frame 7, Publish_Record (frame_of 3)]
      (subscribe 7 1 (new_buffer 2))))) 7 = Some q \<and> int (length (q_items q)) \<le> 1"
  using slow_subscriber_only_loses
    [of "[Publish_Record (frame_of 1), Publish_Record (frame_of 2), Get_Frame 7, Publish_Record (frame_of 3)]"
       7 1 "new_buffer 2"]
  by auto

text \<open>C22: The persisted sample keeps exactly the newest rows, up to the configured number, over any
  sequence of recorded batches; reading returns them newest first, and without raw retention no
  recorded row carries an event text.\<close>

theorem sample_store_keeps_newest:
  fixes s retain batches
  assumes "ids_ascending (db_samples (current s))" "length (db_samples (current s)) \<le> n"
  defines "s' \<equiv> fold (\<lambda>rs s. snd (record_samples (int n) retain rs s)) batches s"
  shows "map sample_content (load_samples (int k) s') =
      take (min k n) (rev (map (\<lambda>r. sample_content (sample_of retain 0 r)) (concat batches)) @
        rev (map sample_content (db_samples (current s)))) \<and>
    length (db_samples (current s')) \<le> n \<and>
    (\<not> retain \<and> list_all (\<lambda>r. sa_raw r = None) (db_samples (current s)) \<longrightarrow>
      list_all (\<lambda>r. sa_raw r = None) (db_samples (current s')))"
proof -
  let ?new = "map (\<lambda>r. sample_content (sample_of retain 0 r)) (concat batches)"
  have r: "ids_ascending (db_samples (current s'))"
    "map sample_content (db_samples (current s')) = last_n n (map sample_content (db_samples (current s)) @ ?new)"
    using samples_run [OF assms(1,2)] unfolding s'_def by blast+
  have "map sample_content (load_samples (int k) s') = take k (rev (map sample_content (db_samples (current s'))))"
    by (simp add: load_samples_def Let_def sort_ascending [OF r(1)] take_map rev_map)
  also have "\<dots> = take (min k n) (rev ?new @ rev (map sample_content (db_samples (current s))))"
    unfolding r(2) rev_last_n take_take rev_append ..
  finally have a: "map sample_content (load_samples (int k) s') =
    take (min k n) (rev ?new @ rev (map sample_content (db_samples (current s))))" .
  have b: "length (db_samples (current s')) \<le> n"
    using arg_cong [OF r(2), of length] by simp
  have c: "list_all (\<lambda>r. sa_raw r = None) (db_samples (current s'))"
    if "\<not> retain" "list_all (\<lambda>r. sa_raw r = None) (db_samples (current s))"
  proof -
    have sub: "set (map sample_content (db_samples (current s'))) \<subseteq>
        set (map sample_content (db_samples (current s)) @ ?new)"
      unfolding r(2) last_n_def by (rule set_drop_subset)
    have none: "sa_raw y = None" if "y \<in> set (map sample_content (db_samples (current s)) @ ?new)" for y
      using that \<open>\<not> retain\<close> \<open>list_all _ (db_samples (current s))\<close>
      by (auto simp: sample_content_def sample_of_def list_all_iff)
    have "sa_raw (sample_content x) = None" if "x \<in> set (db_samples (current s'))" for x
      by (rule none [OF subsetD [OF sub]]) (use that in simp)
    then show ?thesis by (simp add: list_all_iff sample_content_def)
  qed
  show ?thesis by (intro conjI impI a b c) simp_all
qed

theorem sample_store_keeps_newest_witness:
  "let s = \<lparr>committed = empty_db, current = empty_db\<rparr>;
       s' = fold (\<lambda>rs s. snd (record_samples (int 2) False rs s)) [[frame_of 1, frame_of 2], [frame_of 3]] s
   in map sample_content (load_samples (int 5) s') =
        [sample_content (sample_of False 0 (frame_of 3)), sample_content (sample_of False 0 (frame_of 2))] \<and>
      list_all (\<lambda>r. sa_raw r = None) (db_samples (current s'))"
proof -
  let ?s = "\<lparr>committed = empty_db, current = empty_db\<rparr>"
  have h: "ids_ascending (db_samples (current ?s))" "length (db_samples (current ?s)) \<le> 2"
    "list_all (\<lambda>r. sa_raw r = None) (db_samples (current ?s))"
    by (simp_all add: empty_db_def ids_ascending_def)
  have v: "take (min 5 2) (rev (map g (concat [[a, b], [c]])) @ rev (map f (db_samples (current ?s)))) = [g c, g b]"
    for f :: "sample_row \<Rightarrow> sample_row" and g :: "decision_record \<Rightarrow> sample_row" and a b c
    by (simp add: empty_db_def)
  note t = sample_store_keeps_newest [OF h(1,2), of 5 False "[[frame_of 1, frame_of 2], [frame_of 3]]", unfolded v]
  have r: "\<not> False \<and> list_all (\<lambda>r. sa_raw r = None) (db_samples (current ?s))" using h(3) by simp
  show ?thesis
    unfolding Let_def by (rule conjI [OF t [THEN conjunct1] mp [OF t [THEN conjunct2, THEN conjunct2] r]])
qed

end
