(* ===== verification/Auth.thy ===== *)
theory Auth
  imports Prelude Json Database Settings
begin

text \<open>
  Roles and authentication, \<open>api/auth.py\<close>, with the account command of \<open>cli.py\<close>. Argon2 and the
  token library are parameters: a hash is checked with one of three outcomes, and decoding a token
  yields its claims or nothing. The subject claim is a string, which the token library checks.
\<close>

section \<open>Roles\<close>

datatype role = VIEWER | RULE_EDITOR | ADMIN

fun role_value :: "role \<Rightarrow> string" where
  "role_value VIEWER = ''viewer''"
| "role_value RULE_EDITOR = ''rule-editor''"
| "role_value ADMIN = ''admin''"

definition role_of :: "string \<Rightarrow> role option" where
  "role_of s = find (\<lambda>r. role_value r = s) [VIEWER, RULE_EDITOR, ADMIN]"

fun role_rank :: "role \<Rightarrow> nat" where
  "role_rank VIEWER = 0"
| "role_rank RULE_EDITOR = 1"
| "role_rank ADMIN = 2"

instantiation role :: linorder
begin

definition less_eq_role :: "role \<Rightarrow> role \<Rightarrow> bool" where
  "less_eq_role r r' \<longleftrightarrow> role_rank r \<le> role_rank r'"

definition less_role :: "role \<Rightarrow> role \<Rightarrow> bool" where
  "less_role r r' \<longleftrightarrow> role_rank r < role_rank r'"

instance
proof
  fix r r' :: role
  show "r = r'" if "r \<le> r'" "r' \<le> r"
    using that by (cases r; cases r') (simp_all add: less_eq_role_def)
qed (auto simp: less_eq_role_def less_role_def)

end

lemma role_of_value [simp]: "role_of (role_value r) = Some r"
  by (cases r) (simp_all add: role_of_def)

lemma role_of_Some: "role_of s = Some r \<Longrightarrow> s = role_value r"
  by (auto simp: role_of_def split: if_splits)

lemma VIEWER_least [simp]: "VIEWER \<le> r"
  by (simp add: less_eq_role_def)

lemma viewer_not_editor [simp]: "\<not> RULE_EDITOR \<le> VIEWER" "\<not> ADMIN \<le> RULE_EDITOR" "\<not> ADMIN \<le> VIEWER"
  by (simp_all add: less_eq_role_def)

record principal =
  pr_username :: string
  pr_role :: role

definition at_least :: "principal \<Rightarrow> role \<Rightarrow> bool" where
  "at_least p r \<longleftrightarrow> role_rank (pr_role p) \<ge> role_rank r"

definition may_see_event_contents :: "principal \<Rightarrow> bool" where
  "may_see_event_contents p = at_least p RULE_EDITOR"

lemma at_least_iff: "at_least p r \<longleftrightarrow> r \<le> pr_role p"
  by (simp add: at_least_def less_eq_role_def)

lemma may_see_iff: "may_see_event_contents p \<longleftrightarrow> pr_role p \<noteq> VIEWER"
  by (cases "pr_role p") (simp_all add: may_see_event_contents_def at_least_def)

section \<open>Passwords and tokens\<close>

datatype hash_outcome = Hash_Ok | Hash_Mismatch | Hash_Error

record token_claims =
  claim_sub :: "string option"
  claim_role :: "string option"

record auth_env =
  hash_pw :: "string \<Rightarrow> string"
  check_hash :: "string \<Rightarrow> string \<Rightarrow> hash_outcome"
  jwt_encode :: "json \<Rightarrow> string \<Rightarrow> string"
  jwt_decode :: "int \<Rightarrow> string \<Rightarrow> string \<Rightarrow> token_claims option"

definition hash_password :: "auth_env \<Rightarrow> string \<Rightarrow> string" where
  "hash_password env password = hash_pw env password"

definition verify_password :: "auth_env \<Rightarrow> string \<Rightarrow> string \<Rightarrow> bool" where
  "verify_password env password_hash password =
     (case check_hash env password_hash password of Hash_Mismatch \<Rightarrow> False | Hash_Error \<Rightarrow> False | Hash_Ok \<Rightarrow> True)"

definition token_payload :: "principal \<Rightarrow> int \<Rightarrow> int \<Rightarrow> json" where
  "token_payload p now ttl =
     JObj [(''sub'', JStr (pr_username p)), (''role'', JStr (role_value (pr_role p))),
           (''iat'', JInt now), (''exp'', JInt (now + ttl))]"

definition issue_token :: "auth_env \<Rightarrow> settings \<Rightarrow> int \<Rightarrow> principal \<Rightarrow> string" where
  "issue_token env cfg now p = jwt_encode env (token_payload p now (jwt_ttl_seconds cfg)) (jwt_secret cfg)"

definition find_user :: "database \<Rightarrow> string \<Rightarrow> user_row option" where
  "find_user db name = find (\<lambda>u. us_username u = name) (db_users db)"

text \<open>HTTP errors, by status, and the exceptions that end as a 500.\<close>

datatype http_error =
    Unauthorized string
  | Forbidden role
  | Not_Found
  | Unprocessable
  | Server_Error

text \<open>\<open>Role(row.role)\<close> raises for a stored role that is not one of the three.\<close>

definition principal_of :: "string \<Rightarrow> string \<Rightarrow> (http_error, principal) result" where
  "principal_of name role =
     (case role_of role of
        None \<Rightarrow> Inl Server_Error
      | Some r \<Rightarrow> Inr \<lparr>pr_username = name, pr_role = r\<rparr>)"

definition authenticate :: "auth_env \<Rightarrow> database \<Rightarrow> string \<Rightarrow> string \<Rightarrow> (http_error, principal option) result" where
  "authenticate env db name password =
     (case find_user db name of
        None \<Rightarrow> Inr None
      | Some row \<Rightarrow>
          (if us_disabled row then Inr None
           else if \<not> verify_password env (us_password_hash row) password then Inr None
           else bindR (principal_of (us_username row) (us_role row)) (\<lambda>p. Inr (Some p))))"

definition principal_from_token ::
    "auth_env \<Rightarrow> settings \<Rightarrow> int \<Rightarrow> string option \<Rightarrow> database \<Rightarrow> (http_error, principal) result" where
  "principal_from_token env cfg now token db =
     (if dev_auth_bypass cfg then Inr \<lparr>pr_username = ''dev'', pr_role = ADMIN\<rparr>
      else case token of
        None \<Rightarrow> Inl (Unauthorized ''not authenticated'')
      | Some t \<Rightarrow>
          (if t = [] then Inl (Unauthorized ''not authenticated'')
           else case jwt_decode env now t (jwt_secret cfg) of
             None \<Rightarrow> Inl (Unauthorized ''invalid token'')
           | Some claims \<Rightarrow>
               (case (claim_sub claims, claim_role claims) of
                  (Some name, Some role) \<Rightarrow>
                    (if name = [] \<or> role_of role = None then Inl (Unauthorized ''malformed token'')
                     else case find_user db name of
                       None \<Rightarrow> Inl (Unauthorized ''user disabled'')
                     | Some row \<Rightarrow>
                         (if us_disabled row then Inl (Unauthorized ''user disabled'')
                          else principal_of name (us_role row)))
                | _ \<Rightarrow> Inl (Unauthorized ''malformed token''))))"

text \<open>\<open>current_principal\<close>: the bearer header first, then the cookie.\<close>

definition current_principal ::
    "auth_env \<Rightarrow> settings \<Rightarrow> int \<Rightarrow> string option \<Rightarrow> string option \<Rightarrow> database \<Rightarrow> (http_error, principal) result" where
  "current_principal env cfg now header cookie db =
     principal_from_token env cfg now (case header of None \<Rightarrow> cookie | Some t \<Rightarrow> Some t) db"

definition require_role :: "role \<Rightarrow> principal \<Rightarrow> (http_error, principal) result" where
  "require_role r p = (if \<not> at_least p r then Inl (Forbidden r) else Inr p)"

section \<open>WebSocket tokens\<close>

definition WS_SUBPROTOCOL :: string where
  "WS_SUBPROTOCOL = ''ss.bearer''"

definition websocket_token :: "string option \<Rightarrow> string option" where
  "websocket_token header =
     (let offered = filter (\<lambda>s. s \<noteq> []) (map py_strip (py_split CHR '','' (case header of None \<Rightarrow> [] | Some h \<Rightarrow> h)))
      in case offered of
           name # token # _ \<Rightarrow> (if name \<noteq> WS_SUBPROTOCOL then None else Some token)
         | _ \<Rightarrow> None)"

section \<open>Accounts\<close>

datatype adduser_result = User_Exists | User_Created

text \<open>\<open>_cmd_adduser\<close>: an empty or missing password is replaced by a generated one. The role comes
  from the command line parser, which only lets the three values pass.\<close>

definition cmd_adduser ::
    "auth_env \<Rightarrow> string \<Rightarrow> string \<Rightarrow> role \<Rightarrow> string option \<Rightarrow> database \<Rightarrow> (http_error, adduser_result) result \<times> database" where
  "cmd_adduser env generated name r password_arg db =
     session_scope (\<lambda>s.
       let password = (case password_arg of Some (c # cs) \<Rightarrow> c # cs | _ \<Rightarrow> generated) in
       case find_user (current s) name of
         Some row \<Rightarrow> (Inr User_Exists, s)
       | None \<Rightarrow> (Inr User_Created,
           on_db (\<lambda>d. d\<lparr>db_users := db_users d @ [\<lparr>us_username = name, us_password_hash = hash_password env password,
              us_role = role_value r, us_disabled = False\<rparr>]\<rparr>) s)) db"

text \<open>\<open>_cmd_serve\<close>: the address the server binds.\<close>

definition cmd_serve :: "string option \<Rightarrow> int option \<Rightarrow> settings \<Rightarrow> string \<times> int" where
  "cmd_serve host port cfg =
     ((case host of Some (c # cs) \<Rightarrow> c # cs | _ \<Rightarrow> bind_host cfg),
      (case port of Some p \<Rightarrow> if p = 0 then bind_port cfg else p | None \<Rightarrow> bind_port cfg))"

section \<open>Properties\<close>

lemma principal_of_Inr_iff: "principal_of name role = Inr p \<longleftrightarrow> pr_username p = name \<and> role = role_value (pr_role p)"
  by (cases p) (auto simp: principal_of_def dest: role_of_Some split: option.splits)

lemma find_user_name: "find_user db name = Some u \<Longrightarrow> us_username u = name \<and> u \<in> set (db_users db)"
  by (auto simp: find_user_def find_Some_iff)

text \<open>A resolved token, without the bypass.\<close>

lemma principal_from_token_Inr:
  assumes "\<not> dev_auth_bypass cfg"
  shows "principal_from_token env cfg now token db = Inr p \<longleftrightarrow>
    (\<exists>t claims row. token = Some t \<and> t \<noteq> [] \<and> jwt_decode env now t (jwt_secret cfg) = Some claims \<and>
       claim_sub claims = Some (pr_username p) \<and> pr_username p \<noteq> [] \<and>
       (\<exists>r. claim_role claims = Some (role_value r)) \<and>
       find_user db (pr_username p) = Some row \<and> \<not> us_disabled row \<and> us_role row = role_value (pr_role p))"
  (is "?l \<longleftrightarrow> ?r")
proof
  assume ?l
  then show ?r using assms
    by (auto simp: principal_from_token_def principal_of_Inr_iff dest!: role_of_Some
        split: option.splits if_splits)
next
  assume ?r
  then show ?l using assms by (auto simp: principal_from_token_def principal_of_Inr_iff)
qed

lemma require_role_Inr_iff [simp]: "require_role r p = Inr q \<longleftrightarrow> q = p \<and> r \<le> pr_role p"
  by (auto simp: require_role_def at_least_iff)

text \<open>What the code relies on: a fresh Argon2 hash verifies, and a signed token decodes to its
  claims until it expires.\<close>

definition argon_ok :: "auth_env \<Rightarrow> bool" where
  "argon_ok env \<longleftrightarrow> (\<forall>password. check_hash env (hash_pw env password) password = Hash_Ok)"

definition jwt_ok :: "auth_env \<Rightarrow> bool" where
  "jwt_ok env \<longleftrightarrow> (\<forall>p issued ttl key now. now < issued + ttl \<longrightarrow>
     jwt_encode env (token_payload p issued ttl) key \<noteq> [] \<and>
     jwt_decode env now (jwt_encode env (token_payload p issued ttl) key) key =
       Some \<lparr>claim_sub = Some (pr_username p), claim_role = Some (role_value (pr_role p))\<rparr>)"

lemma token_reads_row:
  assumes "jwt_ok env" "now < issued + jwt_ttl_seconds cfg" "\<not> dev_auth_bypass cfg" "pr_username p \<noteq> []"
  shows "principal_from_token env cfg now (Some (issue_token env cfg issued p)) db =
    (case find_user db (pr_username p) of
       None \<Rightarrow> Inl (Unauthorized ''user disabled'')
     | Some row \<Rightarrow> if us_disabled row then Inl (Unauthorized ''user disabled'')
                   else principal_of (pr_username p) (us_role row))"
  using assms by (simp add: principal_from_token_def issue_token_def jwt_ok_def)

lemma find_user_add:
  "find_user (db\<lparr>db_users := db_users db @ [u]\<rparr>) name =
     (case find_user db name of Some v \<Rightarrow> Some v | None \<Rightarrow> if us_username u = name then Some u else None)"
proof -
  have "find P (xs @ [u]) = (case find P xs of Some v \<Rightarrow> Some v | None \<Rightarrow> if P u then Some u else None)" for P xs
    by (induction xs) auto
  then show ?thesis by (simp add: find_user_def)
qed

lemma adduser_effect:
  assumes "find_user db name = None" "password \<noteq> []"
  shows "cmd_adduser env gen name r (Some password) db =
    (Inr User_Created, db\<lparr>db_users := db_users db @ [\<lparr>us_username = name,
       us_password_hash = hash_password env password, us_role = role_value r, us_disabled = False\<rparr>]\<rparr>)"
  using assms by (cases password) (simp_all add: cmd_adduser_def session_scope_def commit_def on_db_def Let_def)

text \<open>A plain environment for the concrete instances: passwords hash to themselves, a token is the
  user name, a colon and the role.\<close>

definition sample_auth :: auth_env where
  "sample_auth = \<lparr>hash_pw = (\<lambda>p. p), check_hash = (\<lambda>h p. if h = p then Hash_Ok else Hash_Mismatch),
     jwt_encode = (\<lambda>j key. case (jget ''sub'' j, jget ''role'' j) of
        (Some (JStr u), Some (JStr r)) \<Rightarrow> r @ '':'' @ u | _ \<Rightarrow> []),
     jwt_decode = (\<lambda>now t key. case py_split CHR '':'' t of
        r # u # us \<Rightarrow> Some \<lparr>claim_sub = Some (py_join '':'' (u # us)), claim_role = Some r\<rparr> | _ \<Rightarrow> None)\<rparr>"

lemma sample_auth_ok: "argon_ok sample_auth" "jwt_ok sample_auth"
proof -
  have s: "py_split CHR '':'' (role_value r @ CHR '':'' # u) = role_value r # py_split CHR '':'' u" for r u
    by (rule py_split_append) (cases r; simp)
  have j: "py_split CHR '':'' u = x # xs \<Longrightarrow> py_join '':'' (x # xs) = u" for u x xs
    by (metis py_join_split)
  show "jwt_ok sample_auth"
    unfolding jwt_ok_def by (auto simp: sample_auth_def token_payload_def s dest: j split: list.splits)
qed (simp add: argon_ok_def sample_auth_def)

text \<open>C16: A request is served as a principal only for the development bypass or for a token that
  decodes under the configured key and names an account that exists and is enabled now; the role is
  the one the account has now, whatever role the token was issued with.\<close>

theorem principal_is_current_account:
  assumes "current_principal env cfg now header cookie db = Inr p"
  shows "(dev_auth_bypass cfg \<and> p = \<lparr>pr_username = ''dev'', pr_role = ADMIN\<rparr>) \<or>
    (\<exists>t claims row. (header = Some t \<or> header = None \<and> cookie = Some t) \<and>
       jwt_decode env now t (jwt_secret cfg) = Some claims \<and> claim_sub claims = Some (pr_username p) \<and>
       row \<in> set (db_users db) \<and> us_username row = pr_username p \<and> \<not> us_disabled row \<and>
       us_role row = role_value (pr_role p))"
proof (cases "dev_auth_bypass cfg")
  case True
  then show ?thesis using assms by (simp add: current_principal_def principal_from_token_def)
next
  case False
  show ?thesis using assms find_user_name
    by (fastforce simp: current_principal_def principal_from_token_Inr [OF False] split: option.splits)
qed

theorem principal_is_current_account_witness:
  "let db = empty_db\<lparr>db_users := [\<lparr>us_username = ''ann'', us_password_hash = [], us_role = ''viewer'', us_disabled = False\<rparr>]\<rparr>;
       res = current_principal sample_auth default_settings 0 None (Some ''admin:ann'') db
   in res = Inr \<lparr>pr_username = ''ann'', pr_role = VIEWER\<rparr> \<and>
      (\<exists>row \<in> set (db_users db). us_role row = role_value VIEWER)"
proof -
  let ?db = "empty_db\<lparr>db_users := [\<lparr>us_username = ''ann'', us_password_hash = [], us_role = ''viewer'', us_disabled = False\<rparr>]\<rparr>"
  have r: "current_principal sample_auth default_settings 0 None (Some ''admin:ann'') ?db =
      Inr \<lparr>pr_username = ''ann'', pr_role = VIEWER\<rparr>"
    by (simp add: current_principal_def principal_from_token_def sample_auth_def default_settings_def role_of_def
        find_user_def principal_of_def empty_db_def)
  show ?thesis
    using principal_is_current_account [OF r] unfolding Let_def r by (auto simp: default_settings_def)
qed



text \<open>The guards look at the configured address, and the server binds that address unless a
  host is given on the command line; such a host bypasses both guards: with a configured
  localhost they accept the published signing key, and the server listens on every interface.\<close>

theorem serve_host_escapes_guards:
  "(make_settings cfg = Inr cfg' \<longrightarrow>
      fst (cmd_serve None port cfg') = bind_host cfg' \<and> fst (cmd_serve (Some []) port cfg') = bind_host cfg' \<and>
      (binds_loopback_only cfg' \<or> jwt_secret cfg' \<noteq> DEV_JWT_SECRET)) \<and>
   (let local = default_settings\<lparr>bind_host := ''localhost''\<rparr> in
      make_settings local = Inr local \<and> jwt_secret local = DEV_JWT_SECRET \<and>
      cmd_serve (Some ''0.0.0.0'') None local = (''0.0.0.0'', 8000))"
proof -
  let ?local = "default_settings\<lparr>bind_host := ''localhost''\<rparr>"
  have "make_settings ?local = Inr ?local"
    by (simp add: make_settings_Inr_iff binds_loopback_only_def default_settings_def DEV_JWT_SECRET_def)
  then show ?thesis
    using make_settings_Inr_iff [of cfg cfg'] by (auto simp: cmd_serve_def default_settings_def)
qed

theorem serve_host_escapes_guards_witness:
  "let local = default_settings\<lparr>bind_host := ''localhost''\<rparr> in
     make_settings local = Inr local \<and> fst (cmd_serve None None local) = bind_host local"
  using serve_host_escapes_guards [of "default_settings\<lparr>bind_host := ''localhost''\<rparr>"
      "default_settings\<lparr>bind_host := ''localhost''\<rparr>" None]
  unfolding Let_def by blast

end
