(* ===== verification/Simulate.thy ===== *)
theory Simulate
  imports Complex_Main Prelude Rule_Model Compiler Json Vector_Config Validate Decision
begin

text \<open>
  The impact preview, \<open>services/simulate.py\<close>. The run of \<open>vector\<close> on a configuration with the
  events as its standard input, \<open>json.loads\<close> and the TOML writer are parameters. The counters are
  natural numbers and the drop share is the exact quotient.
\<close>

section \<open>The configuration\<close>

definition simulation_config :: "rule_chain \<Rightarrow> int \<Rightarrow> (compile_exn, json) result" where
  \<open>simulation_config ch v =
     bindR (compile_or_raise ch v) (\<lambda>program. Inr (JObj [
       (''sources'', JObj [(''sim_in'', JObj [(''type'', JStr ''stdin''),
          (''decoding'', JObj [(''codec'', JStr ''bytes'')])])]),
       (''transforms'', JObj [
          (''decide'', JObj [(''type'', JStr ''remap''), (''inputs'', JList [JStr ''sim_in'']),
             (''drop_on_error'', JBool False), (''drop_on_abort'', JBool False), (''source'', JStr program)]),
          (''compact'', JObj [(''type'', JStr ''remap''), (''inputs'', JList [JStr ''decide'']),
             (''drop_on_error'', JBool False),
             (''source'', JStr (''. = { "decision": .ss.decision, "rule_id": .ss.rule_id, '' @
                ''"reason": .ss.reason }'' @ [NL]))])]),
       (''sinks'', JObj [(''sim_out'', JObj [(''type'', JStr ''console''), (''inputs'', JList [JStr ''compact'']),
          (''encoding'', JObj [(''codec'', JStr ''json'')]), (''target'', JStr ''stdout'')])])]))\<close>

section \<open>Results\<close>

record simulation_result =
  sim_total :: nat
  sim_forwarded :: nat
  sim_dropped :: nat
  sim_parse_errors :: nat
  sim_per_rule :: "(json \<times> nat) list"
  sim_available :: bool
  sim_detail :: string

definition empty_simulation :: simulation_result where
  "empty_simulation = \<lparr>sim_total = 0, sim_forwarded = 0, sim_dropped = 0, sim_parse_errors = 0,
     sim_per_rule = [], sim_available = True, sim_detail = []\<rparr>"

definition drop_share :: "simulation_result \<Rightarrow> rat" where
  "drop_share r = (if sim_total r \<noteq> 0 then of_nat (sim_dropped r) / of_nat (sim_total r) else 0)"

definition exceeds_confirmation_threshold :: "simulation_result \<Rightarrow> bool" where
  "exceeds_confirmation_threshold r \<longleftrightarrow> drop_share r > 1 / 20"

datatype sim_exn = Sim_Compile compile_exn | Not_A_Dict | Unhashable_Key

record sim_env =
  se_vector_available :: bool
  se_dumps :: "json \<Rightarrow> string"
  se_run :: "string \<Rightarrow> string \<Rightarrow> process"
  se_loads :: "string \<Rightarrow> json option"

section \<open>Summarising the output\<close>

text \<open>The keys a dictionary takes.\<close>

fun json_hashable :: "json \<Rightarrow> bool" where
  "json_hashable (JList js) = False"
| "json_hashable (JObj kvs) = False"
| "json_hashable j = True"

text \<open>\<open>d[k] = d.get(k, 0) + 1\<close> on a dictionary in insertion order.\<close>

fun count_key :: "json \<Rightarrow> (json \<times> nat) list \<Rightarrow> (json \<times> nat) list" where
  "count_key k [] = [(k, 1)]"
| "count_key k ((k', n) # kvs) = (if k' = k then (k', Suc n) # kvs else (k', n) # count_key k kvs)"

text \<open>The body of the loop for a line that parses.\<close>

definition count_row :: "json \<Rightarrow> simulation_result \<Rightarrow> (sim_exn, simulation_result) result" where
  "count_row row r =
     (case row of
        JObj kvs \<Rightarrow>
          (let r1 = r\<lparr>sim_total := Suc (sim_total r)\<rparr>;
               dec = (case map_of kvs ''decision'' of Some j \<Rightarrow> j | None \<Rightarrow> JNull);
               rid = (case map_of kvs ''rule_id'' of Some j \<Rightarrow> j | None \<Rightarrow> JNull) in
           if dec = JStr ''drop'' then
             (let r2 = r1\<lparr>sim_dropped := Suc (sim_dropped r1)\<rparr> in
              if \<not> truthy rid then Inr r2
              else if \<not> json_hashable rid then Inl Unhashable_Key
              else Inr (r2\<lparr>sim_per_rule := count_key rid (sim_per_rule r2)\<rparr>))
           else if dec = JStr ''forward_parse_error'' then
             Inr (r1\<lparr>sim_parse_errors := Suc (sim_parse_errors r1), sim_forwarded := Suc (sim_forwarded r1)\<rparr>)
           else Inr (r1\<lparr>sim_forwarded := Suc (sim_forwarded r1)\<rparr>))
      | _ \<Rightarrow> Inl Not_A_Dict)"

fun count_lines :: "(string \<Rightarrow> json option) \<Rightarrow> string list \<Rightarrow> simulation_result \<Rightarrow> (sim_exn, simulation_result) result" where
  "count_lines loads [] r = Inr r"
| "count_lines loads (l # ls) r =
     (let line = py_strip l in
      if line = [] \<or> \<not> py_startswith ''{'' line then count_lines loads ls r
      else case loads line of
        None \<Rightarrow> count_lines loads ls r
      | Some row \<Rightarrow> bindR (count_row row r) (\<lambda>r'. count_lines loads ls r'))"

definition payload_text :: "string list \<Rightarrow> string" where
  "payload_text events = py_join [NL] (map (py_replace NL '' '') events) @ [NL]"

text \<open>The epilogue: no decision at all is reported as unavailable, with what Vector said.\<close>

definition finish :: "string \<Rightarrow> simulation_result \<Rightarrow> simulation_result" where
  "finish stderr r =
     (if sim_total r = 0
      then r\<lparr>sim_available := False,
             sim_detail := take 500 (py_strip (if stderr = [] then ''vector produced no decisions'' else stderr))\<rparr>
      else r)"

definition simulate :: "sim_env \<Rightarrow> rule_chain \<Rightarrow> string list \<Rightarrow> int \<Rightarrow> (sim_exn, simulation_result) result" where
  "simulate env ch events v =
     (if events = [] then Inr (empty_simulation\<lparr>sim_detail := ''no sample events available''\<rparr>)
      else if \<not> se_vector_available env then
        Inr (empty_simulation\<lparr>sim_available := False, sim_detail := ''vector binary not found. '' @
          ''Simulation deliberately has no Python fallback: '' @
          ''a second parser would disagree with the data plane (D-29).''\<rparr>)
      else bindR (mapError Sim_Compile (simulation_config ch v)) (\<lambda>config.
        case se_run env (se_dumps env config) (payload_text events) of
          TimedOut \<Rightarrow> Inr (empty_simulation\<lparr>sim_available := False, sim_detail := ''vector simulation timed out''\<rparr>)
        | Exited code out err \<Rightarrow>
            bindR (count_lines (se_loads env) (py_splitlines out) empty_simulation) (\<lambda>r. Inr (finish err r))))"

section \<open>What the counters mean\<close>

definition drops :: "json \<Rightarrow> bool" where
  "drops row \<longleftrightarrow> jget ''decision'' row = Some (JStr ''drop'')"

definition parse_fails :: "json \<Rightarrow> bool" where
  "parse_fails row \<longleftrightarrow> jget ''decision'' row = Some (JStr ''forward_parse_error'')"

definition tally :: "(json \<times> nat) list \<Rightarrow> json \<Rightarrow> nat" where
  "tally kvs k = (case map_of kvs k of Some n \<Rightarrow> n | None \<Rightarrow> 0)"

definition blames :: "json \<Rightarrow> json \<Rightarrow> bool" where
  "blames k row \<longleftrightarrow> drops row \<and> jget ''rule_id'' row = Some k \<and> truthy k"

lemma tally_count_key: "tally (count_key k kvs) k' = tally kvs k' + (if k = k' then 1 else 0)"
  by (induction k kvs rule: count_key.induct) (auto simp: tally_def)

lemma tally_total: "sum_list (map snd (count_key k kvs)) = Suc (sum_list (map snd kvs))"
  by (induction k kvs rule: count_key.induct) auto

lemma count_row_result:
  assumes "count_row row r = Inr r'"
  shows "sim_total r' = Suc (sim_total r) \<and>
    sim_dropped r' = sim_dropped r + (if drops row then 1 else 0) \<and>
    sim_parse_errors r' = sim_parse_errors r + (if parse_fails row then 1 else 0) \<and>
    sim_forwarded r' = sim_forwarded r + (if drops row then 0 else 1) \<and>
    tally (sim_per_rule r') k = tally (sim_per_rule r) k + (if blames k row then 1 else 0) \<and>
    sim_available r' = sim_available r \<and> sim_detail r' = sim_detail r"
proof -
  obtain kvs where row: "row = JObj kvs" using assms by (cases row) (simp_all add: count_row_def)
  show ?thesis
    using assms unfolding row
    by (auto simp: count_row_def Let_def drops_def parse_fails_def blames_def tally_count_key
        split: option.splits if_splits)
qed

text \<open>The lines that count: those that hold a JSON document.\<close>

definition rows_of :: "(string \<Rightarrow> json option) \<Rightarrow> string list \<Rightarrow> json list" where
  "rows_of loads ls = List.map_filter (\<lambda>l. let line = py_strip l in
     if line = [] \<or> \<not> py_startswith ''{'' line then None else loads line) ls"

lemma rows_of_Cons:
  "rows_of loads (l # ls) =
     (let line = py_strip l in
      if line = [] \<or> \<not> py_startswith ''{'' line then rows_of loads ls
      else case loads line of None \<Rightarrow> rows_of loads ls | Some row \<Rightarrow> row # rows_of loads ls)"
  by (simp add: rows_of_def List.map_filter_def Let_def split: option.splits)

definition count_if :: "('a \<Rightarrow> bool) \<Rightarrow> 'a list \<Rightarrow> nat" where
  "count_if p xs = length (filter p xs)"

lemma count_if_Cons [simp]: "count_if p (x # xs) = (if p x then 1 else 0) + count_if p xs"
  and count_if_Nil [simp]: "count_if p [] = 0"
  by (simp_all add: count_if_def)

lemma count_lines_result:
  assumes "count_lines loads ls r = Inr r'"
  shows "sim_total r' = sim_total r + length (rows_of loads ls) \<and>
    sim_dropped r' = sim_dropped r + count_if drops (rows_of loads ls) \<and>
    sim_parse_errors r' = sim_parse_errors r + count_if parse_fails (rows_of loads ls) \<and>
    sim_forwarded r' = sim_forwarded r + count_if (Not \<circ> drops) (rows_of loads ls) \<and>
    tally (sim_per_rule r') k = tally (sim_per_rule r) k + count_if (blames k) (rows_of loads ls) \<and>
    sim_available r' = sim_available r \<and> sim_detail r' = sim_detail r"
  using assms
proof (induction ls arbitrary: r)
  case Nil
  then show ?case by (simp add: rows_of_def List.map_filter_def)
next
  case (Cons l ls)
  show ?case
  proof (cases "py_strip l = [] \<or> \<not> py_startswith ''{'' (py_strip l) \<or> loads (py_strip l) = None")
    case True
    then show ?thesis using Cons by (auto simp: rows_of_Cons Let_def split: option.splits if_splits)
  next
    case False
    then obtain row where row: "loads (py_strip l) = Some row" by auto
    obtain r1 where r1: "count_row row r = Inr r1" "count_lines loads ls r1 = Inr r'"
      using Cons.prems False row by (auto simp: Let_def bindR_Inr_iff)
    have "rows_of loads (l # ls) = row # rows_of loads ls"
      using False row by (simp add: rows_of_Cons Let_def)
    then show ?thesis using count_row_result [OF r1(1), of k] Cons.IH [OF r1(2)] by simp
  qed
qed

section \<open>The preview and the specification\<close>

lemma count_if_map: "count_if p (map f xs) = count_if (\<lambda>x. p (f x)) xs"
  by (induction xs) auto

lemma count_if_cong: "(\<And>x. x \<in> set xs \<Longrightarrow> p x = q x) \<Longrightarrow> count_if p xs = count_if q xs"
  by (simp add: count_if_def cong: filter_cong)

lemma count_if_split: "count_if p xs + count_if (Not \<circ> p) xs = length xs"
  by (induction xs) auto

lemma count_if_le: "(\<And>x. p x \<Longrightarrow> q x) \<Longrightarrow> count_if p xs \<le> count_if q xs"
  by (induction xs) auto

lemma exceeds_iff: "exceeds_confirmation_threshold r \<longleftrightarrow> sim_total r \<noteq> 0 \<and> sim_total r < 20 * sim_dropped r"
proof (cases "sim_total r = 0")
  case False
  then have "1 / 20 < (of_nat (sim_dropped r) / of_nat (sim_total r) :: rat) \<longleftrightarrow>
      (of_nat (sim_total r) :: rat) < of_nat (20 * sim_dropped r)"
    by (simp add: field_simps)
  with False show ?thesis
    unfolding exceeds_confirmation_threshold_def drop_share_def of_nat_less_iff by simp
qed (auto simp: exceeds_confirmation_threshold_def drop_share_def)

text \<open>A result of a run that reached the output, by its rows.\<close>

lemma simulate_ran:
  assumes "events \<noteq> []" "se_vector_available env" "simulation_config ch v = Inr config"
    and "se_run env (se_dumps env config) (payload_text events) = Exited code out err"
    and "count_lines (se_loads env) (py_splitlines out) empty_simulation = Inr r0"
  shows "simulate env ch events v = Inr (finish err r0)"
  using assms by (simp add: simulate_def)

lemma splitlines_concat:
  "\<forall>l \<in> set ls. \<forall>c \<in> set l. \<not> is_line_break c \<Longrightarrow> py_splitlines (concat (map (\<lambda>l. l @ [NL]) ls)) = ls"
  using splitlines_text [of ls "[]"] by (simp add: lines_text_def list_all_iff py_splitlines_def)

lemma nonempty_replace: "e \<noteq> [] \<Longrightarrow> py_replace NL '' '' e \<noteq> []"
  by (cases e) (simp_all add: py_replace_def)

lemma payload_concat:
  "events \<noteq> [] \<Longrightarrow> payload_text events = concat (map (\<lambda>l. l @ [NL]) (map (py_replace NL '' '') events))"
proof (induction events)
  case (Cons e es)
  then show ?case by (cases es) (simp_all add: payload_text_def)
qed simp

text \<open>The row of a decision record as the simulation topology prints it.\<close>

definition verdict_row :: "verdict \<Rightarrow> json" where
  "verdict_row w = JObj [
     (''decision'', JStr (decision_value (v_decision w))),
     (''rule_id'', case v_rule w of None \<Rightarrow> JNull | Some r \<Rightarrow> JStr (rule_id r)),
     (''reason'', JStr (reason_value (v_reason w)))]"

text \<open>A \<open>vector\<close> that prints one row for each line of its input, with the verdict on that line.\<close>

definition prints_verdicts :: "sim_env \<Rightarrow> string \<Rightarrow> (string \<Rightarrow> verdict) \<Rightarrow> (verdict \<Rightarrow> string) \<Rightarrow> bool" where
  "prints_verdicts env config verdict printed \<longleftrightarrow>
     (\<forall>lines. (\<forall>l \<in> set lines. l \<noteq> [] \<and> NL \<notin> set l) \<longrightarrow>
        (\<exists>err. se_run env config (concat (map (\<lambda>l. l @ [NL]) lines)) =
           Exited 0 (concat (map (\<lambda>l. printed (verdict l) @ [NL]) lines)) err))"

definition renders_rows :: "sim_env \<Rightarrow> (verdict \<Rightarrow> string) \<Rightarrow> verdict set \<Rightarrow> bool" where
  "renders_rows env printed ws \<longleftrightarrow>
     (\<forall>w \<in> ws. se_loads env (printed w) = Some (verdict_row w) \<and> py_strip (printed w) = printed w \<and>
        py_startswith ''{'' (printed w) \<and> (\<forall>c \<in> set (printed w). \<not> is_line_break c))"

lemma verdict_row_simps:
  "drops (verdict_row w) \<longleftrightarrow> v_decision w = D_DROP"
  "parse_fails (verdict_row w) \<longleftrightarrow> v_decision w = D_FORWARD_PARSE_ERROR"
  "i \<noteq> [] \<Longrightarrow> blames (JStr i) (verdict_row w) \<longleftrightarrow>
     v_decision w = D_DROP \<and> (case v_rule w of Some r \<Rightarrow> rule_id r = i | None \<Rightarrow> False)"
  by (cases "v_decision w"; auto simp: drops_def parse_fails_def blames_def verdict_row_def split: option.splits)+

lemma count_row_verdict: "\<exists>r'. count_row (verdict_row w) r = Inr r'"
  by (auto simp: count_row_def verdict_row_def Let_def split: option.splits)

lemma printed_nonempty: "renders_rows env printed W \<Longrightarrow> w \<in> W \<Longrightarrow> printed w \<noteq> []"
proof -
  assume "renders_rows env printed W" "w \<in> W"
  then have "take (length ''{'') (printed w) = ''{''" by (simp add: renders_rows_def py_startswith_def)
  then show ?thesis by auto
qed

lemma count_lines_verdicts:
  assumes "renders_rows env printed W" "set ws \<subseteq> W"
  shows "\<exists>r'. count_lines (se_loads env) (map printed ws) r = Inr r'"
  using assms(2)
proof (induction ws arbitrary: r)
  case (Cons w ws)
  obtain r1 where "count_row (verdict_row w) r = Inr r1" using count_row_verdict by blast
  moreover have "printed w \<noteq> []" using Cons.prems by (intro printed_nonempty [OF assms(1)]) simp
  ultimately show ?case using assms(1) Cons.IH [of r1] Cons.prems by (simp add: renders_rows_def Let_def)
qed simp

lemma rows_of_verdicts:
  assumes "renders_rows env printed W" "set ws \<subseteq> W"
  shows "rows_of (se_loads env) (map printed ws) = map verdict_row ws"
  using assms(2)
proof (induction ws)
  case (Cons w ws)
  have "printed w \<noteq> []" using Cons.prems by (intro printed_nonempty [OF assms(1)]) simp
  with Cons assms(1) show ?case by (simp add: rows_of_Cons renders_rows_def Let_def)
qed (simp add: rows_of_def List.map_filter_def)

text \<open>Where a returned preview comes from.\<close>

lemma simulate_cases:
  assumes "simulate env ch events v = Inr r"
  obtains (nothing) avail detail where
      "r = empty_simulation\<lparr>sim_available := avail, sim_detail := detail\<rparr>" "avail \<longleftrightarrow> events = []"
    | (counted) out err r0 where "events \<noteq> []" "r = finish err r0"
      "count_lines (se_loads env) (py_splitlines out) empty_simulation = Inr r0"
proof (cases "events = [] \<or> \<not> se_vector_available env")
  case True
  then have "r = empty_simulation\<lparr>sim_available := (events = []), sim_detail := sim_detail r\<rparr>"
    using assms by (cases "events = []") (auto simp: simulate_def empty_simulation_def)
  then show ?thesis by (rule nothing) simp
next
  case False
  then obtain config where config: "simulation_config ch v = Inr config"
    using assms by (auto simp: simulate_def bindR_Inr_iff mapError_Inr_iff)
  show ?thesis
  proof (cases "se_run env (se_dumps env config) (payload_text events)")
    case TimedOut
    then have "r = empty_simulation\<lparr>sim_available := False, sim_detail := sim_detail r\<rparr>"
      using assms False config by (auto simp: simulate_def)
    then show ?thesis by (rule nothing) (use False in simp)
  next
    case (Exited code out err)
    then show ?thesis using assms False config counted by (auto simp: simulate_def bindR_Inr_iff)
  qed
qed

text \<open>What a run on lines that Vector decides leaves in the counters.\<close>

lemma simulate_counts:
  fixes ch matches parses printed
  defines "verdict \<equiv> \<lambda>e. decide ch (parses (py_replace NL '' '' e)) (matches (py_replace NL '' '' e))"
  assumes "events \<noteq> []" "list_all (\<lambda>e. e \<noteq> []) events" "se_vector_available env"
    and "simulation_config ch v = Inr config"
    and "prints_verdicts env (se_dumps env config) (\<lambda>l. decide ch (parses l) (matches l)) printed"
    and "renders_rows env printed (range (\<lambda>l. decide ch (parses l) (matches l)))"
  shows "\<exists>r. simulate env ch events v = Inr r \<and> sim_available r \<and> sim_total r = length events \<and>
    sim_dropped r = count_if (\<lambda>e. v_decision (verdict e) = D_DROP) events \<and>
    sim_forwarded r = count_if (\<lambda>e. v_decision (verdict e) \<noteq> D_DROP) events \<and>
    sim_parse_errors r = count_if (\<lambda>e. v_decision (verdict e) = D_FORWARD_PARSE_ERROR) events \<and>
    (\<forall>i. i \<noteq> [] \<longrightarrow> tally (sim_per_rule r) (JStr i) =
       count_if (\<lambda>e. v_decision (verdict e) = D_DROP \<and>
         (case v_rule (verdict e) of Some x \<Rightarrow> rule_id x = i | None \<Rightarrow> False)) events) \<and>
    (exceeds_confirmation_threshold r \<longleftrightarrow>
       length events < 20 * count_if (\<lambda>e. v_decision (verdict e) = D_DROP) events)"
proof -
  let ?lines = "map (py_replace NL '' '') events"
  let ?w = "\<lambda>l. decide ch (parses l) (matches l)"
  have "\<forall>l \<in> set ?lines. l \<noteq> []" using assms(3) nonempty_replace by (auto simp: list_all_iff)
  then have "\<forall>l \<in> set ?lines. l \<noteq> [] \<and> NL \<notin> set l" by (auto simp: py_replace_def split: if_splits)
  then obtain err where "se_run env (se_dumps env config) (concat (map (\<lambda>l. l @ [NL]) ?lines)) =
      Exited 0 (concat (map (\<lambda>l. printed (?w l) @ [NL]) ?lines)) err"
    using assms(6) [unfolded prints_verdicts_def, rule_format, of ?lines] by blast
  moreover have "map (\<lambda>l. l @ [NL]) (map (printed \<circ> ?w) ?lines) = map (\<lambda>l. printed (?w l) @ [NL]) ?lines"
    by simp
  ultimately have run: "se_run env (se_dumps env config) (payload_text events) =
      Exited 0 (concat (map (\<lambda>l. l @ [NL]) (map (printed \<circ> ?w) ?lines))) err"
    unfolding payload_concat [OF assms(2)] by (simp only:)
  have split: "py_splitlines (concat (map (\<lambda>l. l @ [NL]) (map (printed \<circ> ?w) ?lines))) = map printed (map ?w ?lines)"
    using assms(7) by (subst splitlines_concat) (auto simp: renders_rows_def)
  obtain r0 where r0: "count_lines (se_loads env) (map printed (map ?w ?lines)) empty_simulation = Inr r0"
    using count_lines_verdicts [OF assms(7), of "map ?w ?lines"] by fastforce
  have sim: "simulate env ch events v = Inr (finish err r0)"
    by (rule simulate_ran [OF assms(2,4,5) run]) (simp only: split r0)
  have "rows_of (se_loads env) (map printed (map ?w ?lines)) = map verdict_row (map ?w ?lines)"
    by (rule rows_of_verdicts [OF assms(7)]) auto
  note c = count_lines_result [OF r0, unfolded this]
  have v: "?w (py_replace NL '' '' e) = verdict e" for e by (simp add: verdict_def)
  have tot: "sim_total r0 = length events" using c by (simp add: empty_simulation_def)
  then have fin: "finish err r0 = r0" using assms(2) by (simp add: finish_def)
  have d: "sim_dropped r0 = count_if (\<lambda>e. v_decision (verdict e) = D_DROP) events"
    and f: "sim_forwarded r0 = count_if (\<lambda>e. v_decision (verdict e) \<noteq> D_DROP) events"
    and p: "sim_parse_errors r0 = count_if (\<lambda>e. v_decision (verdict e) = D_FORWARD_PARSE_ERROR) events"
    and a: "sim_available r0"
    using c by (simp_all add: empty_simulation_def count_if_map verdict_row_simps v)
  have t: "tally (sim_per_rule r0) (JStr i) = count_if (\<lambda>e. v_decision (verdict e) = D_DROP \<and>
      (case v_rule (verdict e) of Some x \<Rightarrow> rule_id x = i | None \<Rightarrow> False)) events" if "i \<noteq> []" for i
    using c [of "JStr i"] by (simp add: empty_simulation_def count_if_map verdict_row_simps(3) [OF that] v tally_def)
  have e: "exceeds_confirmation_threshold r0 \<longleftrightarrow> length events < 20 * sim_dropped r0"
    using assms(2) by (simp add: exceeds_iff tot)
  show ?thesis using sim fin tot d f p a t e by (intro exI [of _ r0]) simp
qed

section \<open>Properties\<close>

text \<open>Whatever Vector prints, a preview that is returned accounts for every row:
  forwarded and dropped add up to the total, parse errors are among the forwarded, no rule is
  blamed for more than was dropped, and the preview is unavailable exactly when there was nothing to
  count although there were events.\<close>

theorem preview_accounts:
  assumes "simulate env ch events v = Inr r"
  shows "sim_forwarded r + sim_dropped r = sim_total r \<and> sim_parse_errors r \<le> sim_forwarded r \<and>
    tally (sim_per_rule r) k \<le> sim_dropped r \<and>
    (sim_available r \<longleftrightarrow> events = [] \<or> sim_total r \<noteq> 0) \<and>
    (exceeds_confirmation_threshold r \<longleftrightarrow> sim_total r < 20 * sim_dropped r)"
proof -
  have e: "exceeds_confirmation_threshold r \<longleftrightarrow> sim_total r < 20 * sim_dropped r"
    if "sim_forwarded r + sim_dropped r = sim_total r" using that by (auto simp: exceeds_iff)
  show ?thesis
    using assms
  proof (cases rule: simulate_cases)
    case nothing
    then show ?thesis using e by (simp add: empty_simulation_def tally_def)
  next
    case 2: (counted out err r0)
    let ?rows = "rows_of (se_loads env) (py_splitlines out)"
    have c: "sim_total r0 = length ?rows" "sim_dropped r0 = count_if drops ?rows"
      "sim_parse_errors r0 = count_if parse_fails ?rows" "sim_forwarded r0 = count_if (Not \<circ> drops) ?rows"
      "tally (sim_per_rule r0) k = count_if (blames k) ?rows" "sim_available r0"
      using count_lines_result [OF 2(3), of k] by (simp_all add: empty_simulation_def tally_def)
    have f: "sim_total r = sim_total r0" "sim_dropped r = sim_dropped r0" "sim_parse_errors r = sim_parse_errors r0"
      "sim_forwarded r = sim_forwarded r0" "sim_per_rule r = sim_per_rule r0"
      "sim_available r \<longleftrightarrow> sim_total r0 \<noteq> 0"
      using c(6) by (simp_all add: 2(2) finish_def)
    have le: "count_if (blames k) ?rows \<le> count_if drops ?rows"
      "count_if parse_fails ?rows \<le> count_if (Not \<circ> drops) ?rows"
      by (auto intro!: count_if_le simp: blames_def drops_def parse_fails_def)
    have "sim_forwarded r + sim_dropped r = sim_total r"
      using count_if_split [of drops ?rows] by (simp add: f c)
    then show ?thesis using e le 2(1) by (simp add: f c)
  qed
qed


text \<open>A toolchain for the concrete instances: it reads the chain off nothing, drops every line that
  does not start with \<open>x\<close>, which does not parse, and prints one character for each verdict.\<close>

definition drop_chain :: rule_chain where
  "drop_chain = \<lparr>chain_rules = [], default_action = DROP, shadow_mode = False\<rparr>"

definition sample_verdict :: "string \<Rightarrow> verdict" where
  "sample_verdict l = decide drop_chain (hd l \<noteq> CHR ''x'') (\<lambda>r. False)"

definition sample_printed :: "verdict \<Rightarrow> string" where
  "sample_printed w = (if v_decision w = D_DROP then ''{d'' else ''{p'')"

definition sample_sim :: sim_env where
  "sample_sim = \<lparr>se_vector_available = True, se_dumps = (\<lambda>j. []),
     se_run = (\<lambda>config input. Exited 0 (concat (map (\<lambda>l. sample_printed (sample_verdict l) @ [NL])
        (butlast (py_split NL input)))) []),
     se_loads = (\<lambda>t. if t = ''{d'' then Some (verdict_row (sample_verdict ''a'')) else
        if t = ''{p'' then Some (verdict_row (sample_verdict ''x'')) else None)\<rparr>"

lemma split_concat_lines:
  "\<forall>l \<in> set lines. NL \<notin> set l \<Longrightarrow> py_split NL (concat (map (\<lambda>l. l @ [NL]) lines)) = lines @ [[]]"
  by (induction lines) (simp_all add: py_split_append)

lemma sample_sim_ok:
  "prints_verdicts sample_sim config sample_verdict sample_printed"
  "renders_rows sample_sim sample_printed (range sample_verdict)"
proof -
  show "prints_verdicts sample_sim config sample_verdict sample_printed"
    by (auto simp: prints_verdicts_def sample_sim_def split_concat_lines)
  have "sample_verdict l \<in> {sample_verdict ''x'', sample_verdict ''a''}" for l
    by (cases "hd l = CHR ''x''") (simp_all add: sample_verdict_def)
  then have r: "range sample_verdict \<subseteq> {sample_verdict ''x'', sample_verdict ''a''}" by blast
  have d: "v_decision (sample_verdict ''x'') \<noteq> D_DROP" "v_decision (sample_verdict ''a'') = D_DROP"
    by code_simp+
  have "renders_rows sample_sim sample_printed {sample_verdict ''x'', sample_verdict ''a''}"
    by (simp add: renders_rows_def sample_printed_def d sample_sim_def py_strip_def strip_by_def is_space_def
        py_startswith_def is_line_break_def)
  with r show "renders_rows sample_sim sample_printed (range sample_verdict)"
    unfolding renders_rows_def by (meson subsetD)
qed

lemma drop_chain_config: "\<exists>config. simulation_config drop_chain 0 = Inr config"
proof -
  have "succeeds (chain_lines drop_chain 0)" by code_simp
  then show ?thesis
    by (auto simp: succeeds_iff simulation_config_def compile_or_raise_def compile_chain_def bindR_Inr_iff mapError_Inr_iff)
qed

theorem preview_accounts_witness:
  "let r = empty_simulation\<lparr>sim_detail := ''no sample events available''\<rparr> in
     simulate sample_sim drop_chain [] 0 = Inr r \<and> sim_forwarded r + sim_dropped r = sim_total r \<and> sim_available r"
proof -
  have r: "simulate sample_sim drop_chain [] 0 = Inr (empty_simulation\<lparr>sim_detail := ''no sample events available''\<rparr>)"
    by (simp add: simulate_def)
  show ?thesis unfolding Let_def using preview_accounts [OF r] r by blast
qed


end
