(* ===== verification/Api.thy ===== *)
theory Api
  imports Prelude Rule_Model Json Database Settings Rules_Service Bundles Sampling Auth Simulate
begin

text \<open>
  The HTTP surface, \<open>api/routes.py\<close>: one request at a time against the application state, which is
  the database, the live buffer and the open live-view sockets. A request carries its credentials and
  its time. A handler works on a session that is closed without a commit, so only what it committed
  stays. Body validation happens after the role check and answers 422.
\<close>

record api_env =
  ae_auth :: auth_env
  ae_bundles :: bundle_env
  ae_sim :: sim_env
  ae_stamp :: "int \<Rightarrow> string"

abbreviation cfg_of :: "api_env \<Rightarrow> settings" where
  "cfg_of env \<equiv> env_settings (ae_bundles env)"

record app =
  app_db :: database
  app_tail :: tail_buffer
  app_sockets :: "(nat \<times> principal) list"

record credentials =
  cred_header :: "string option"
  cred_cookie :: "string option"
  cred_now :: int

datatype request =
    Login string string
  | Whoami
  | Get_Rules
  | Post_Rule rule_create
  | Patch_Rule string rule_update
  | Delete_Rule string
  | Get_Chain
  | Put_Chain "action option" "bool option"
  | Get_Bundles
  | Publish_Bundle string
  | Rollback_Bundle int
  | Get_Active_Config
  | Agent_Bundle int
  | Intake "decision_record list"
  | Recent_Decisions int
  | Post_Simulate int
  | Get_Audit int
  | Health

datatype response =
    Token_Response string role string
  | Me string role bool
  | Rules "rule list"
  | One_Rule rule
  | Chain_Info action bool nat nat
  | Chain_Settings action bool
  | Bundle_List "bundle_summary list"
  | Bundle_Info bundle_summary
  | Config_Text string
  | Agent_Payload json
  | No_Content
  | Records "decision_record list"
  | Preview simulation_result nat
  | Audit_Log "audit_row list"
  | Health_Info "int option" string nat auth_mode bool

section \<open>Sessions and roles\<close>

text \<open>\<open>get_session\<close>: a fresh session that is closed, not committed, at the end.\<close>

definition in_session :: "(session \<Rightarrow> ('e, 'a) result \<times> session) \<Rightarrow> database \<Rightarrow> ('e, 'a) result \<times> database" where
  "in_session handler db = (case handler \<lparr>committed = db, current = db\<rparr> of (res, s) \<Rightarrow> (res, committed s))"

definition principal_for :: "api_env \<Rightarrow> credentials \<Rightarrow> database \<Rightarrow> (http_error, principal) result" where
  "principal_for env c db =
     current_principal (ae_auth env) (cfg_of env) (cred_now c) (cred_header c) (cred_cookie c) db"

definition with_role ::
    "api_env \<Rightarrow> credentials \<Rightarrow> role \<Rightarrow> (principal \<Rightarrow> session \<Rightarrow> (http_error, 'a) result \<times> session) \<Rightarrow>
     session \<Rightarrow> (http_error, 'a) result \<times> session" where
  "with_role env c r handler s =
     (case bindR (principal_for env c (current s)) (require_role r) of
        Inl e \<Rightarrow> (Inl e, s)
      | Inr p \<Rightarrow> handler p s)"

text \<open>A handler that commits when the service call succeeds; exceptions it does not name are a 500.\<close>

definition committing ::
    "('e \<Rightarrow> http_error) \<Rightarrow> ('a \<Rightarrow> response) \<Rightarrow> (session \<Rightarrow> ('e, 'a) result \<times> session) \<Rightarrow>
     session \<Rightarrow> (http_error, response) result \<times> session" where
  "committing status answer op s =
     (case op s of
        (Inl e, s') \<Rightarrow> (Inl (status e), s')
      | (Inr x, s') \<Rightarrow> (Inr (answer x), commit s'))"

definition reading ::
    "('e \<Rightarrow> http_error) \<Rightarrow> ('a \<Rightarrow> response) \<Rightarrow> (session \<Rightarrow> ('e, 'a) result \<times> session) \<Rightarrow>
     session \<Rightarrow> (http_error, response) result \<times> session" where
  "reading status answer op s =
     (case op s of (res, s') \<Rightarrow> (bindR (mapError status res) (\<lambda>x. Inr (answer x)), s'))"

fun not_found_only :: "service_error \<Rightarrow> http_error" where
  "not_found_only (RuleNotFound i) = Not_Found"
| "not_found_only e = Server_Error"

fun patch_status :: "service_error \<Rightarrow> http_error" where
  "patch_status (RuleNotFound i) = Not_Found"
| "patch_status (InvalidRule e) = Unprocessable"
| "patch_status e = Server_Error"

fun publish_status :: "bundle_error \<Rightarrow> http_error" where
  "publish_status VectorMissing = Unprocessable"
| "publish_status (CheckFailed st out) = Unprocessable"
| "publish_status e = Server_Error"

fun rollback_status :: "bundle_error \<Rightarrow> http_error" where
  "rollback_status (NoSuchBundle v) = Not_Found"
| "rollback_status e = Server_Error"

definition server_error :: "'e \<Rightarrow> http_error" where
  "server_error e = Server_Error"

section \<open>Handlers\<close>

definition login :: "api_env \<Rightarrow> int \<Rightarrow> string \<Rightarrow> string \<Rightarrow> session \<Rightarrow> (http_error, response) result \<times> session" where
  "login env now name password s =
     (bindR (authenticate (ae_auth env) (current s) name password) (\<lambda>m.
        case m of
          None \<Rightarrow> Inl (Unauthorized ''invalid credentials'')
        | Some p \<Rightarrow> Inr (Token_Response (issue_token (ae_auth env) (cfg_of env) now p) (pr_role p) (pr_username p))), s)"

definition whoami :: "principal \<Rightarrow> response" where
  "whoami p = Me (pr_username p) (pr_role p) (may_see_event_contents p)"

definition get_rules :: "principal \<Rightarrow> session \<Rightarrow> (http_error, response) result \<times> session" where
  "get_rules p = reading server_error Rules list_rules"

definition get_bundles :: "principal \<Rightarrow> session \<Rightarrow> (http_error, response) result \<times> session" where
  "get_bundles p s = (Inr (Bundle_List (list_bundles 50 (current s))), s)"

definition get_audit :: "int \<Rightarrow> principal \<Rightarrow> session \<Rightarrow> (http_error, response) result \<times> session" where
  "get_audit limit p s = (Inr (Audit_Log (list_audit limit s)), s)"

definition post_rule :: "rule_create \<Rightarrow> int \<Rightarrow> principal \<Rightarrow> session \<Rightarrow> (http_error, response) result \<times> session" where
  "post_rule payload now p s =
     (case validate_create payload of
        Inl e \<Rightarrow> (Inl Unprocessable, s)
      | Inr payload' \<Rightarrow> committing server_error One_Rule (create_rule payload' (pr_username p) now) s)"

definition patch_rule ::
    "string \<Rightarrow> rule_update \<Rightarrow> int \<Rightarrow> principal \<Rightarrow> session \<Rightarrow> (http_error, response) result \<times> session" where
  "patch_rule i payload now p s =
     (case validate_update payload of
        Inl e \<Rightarrow> (Inl Unprocessable, s)
      | Inr payload' \<Rightarrow> committing patch_status One_Rule (update_rule i payload' (pr_username p) now) s)"

definition delete_rule :: "string \<Rightarrow> int \<Rightarrow> principal \<Rightarrow> session \<Rightarrow> (http_error, response) result \<times> session" where
  "delete_rule i now p = committing not_found_only One_Rule (disable_rule i (pr_username p) now)"

definition get_chain :: "principal \<Rightarrow> session \<Rightarrow> (http_error, response) result \<times> session" where
  "get_chain p = reading server_error
     (\<lambda>ch. Chain_Info (default_action ch) (shadow_mode ch) (length (chain_rules ch)) (length (active ch))) load_chain"

definition put_chain ::
    "action option \<Rightarrow> bool option \<Rightarrow> int \<Rightarrow> principal \<Rightarrow> session \<Rightarrow> (http_error, response) result \<times> session" where
  "put_chain a sh now p = committing server_error (\<lambda>ch. Chain_Settings (default_action ch) (shadow_mode ch))
     (set_chain_settings a sh (pr_username p) now)"

definition publish_bundle ::
    "api_env \<Rightarrow> string \<Rightarrow> int \<Rightarrow> principal \<Rightarrow> session \<Rightarrow> (http_error, response) result \<times> session" where
  "publish_bundle env note_text now p =
     committing publish_status Bundle_Info (publish (ae_bundles env) (pr_username p) note_text None now)"

definition rollback_bundle :: "int \<Rightarrow> int \<Rightarrow> principal \<Rightarrow> session \<Rightarrow> (http_error, response) result \<times> session" where
  "rollback_bundle v now p = committing rollback_status Bundle_Info (rollback v (pr_username p) now)"

definition get_active_config :: "principal \<Rightarrow> session \<Rightarrow> (http_error, response) result \<times> session" where
  "get_active_config p s =
     (case get_active_bundle (current s) of
        None \<Rightarrow> (Inl Not_Found, s)
      | Some b \<Rightarrow> (Inr (Config_Text (bundle_config b)), s))"

text \<open>\<open>manifest.model_dump(mode="json")\<close>.\<close>

definition manifest_json :: "(int \<Rightarrow> string) \<Rightarrow> bundle_manifest \<Rightarrow> json" where
  "manifest_json stamp m = JObj [
     (''version'', JInt (bm_version m)), (''checksum'', JStr (bm_checksum m)),
     (''created_at'', JStr (stamp (bm_created_at m))), (''created_by'', JStr (bm_created_by m)),
     (''rule_ids'', JList (map JStr (bm_rule_ids m))), (''default_action'', JStr (bm_default_action m)),
     (''shadow_mode'', JBool (bm_shadow_mode m)), (''vector_min_version'', JStr (bm_vector_min_version m)),
     (''note'', JStr (bm_note m))]"

definition agent_bundle :: "(int \<Rightarrow> string) \<Rightarrow> int \<Rightarrow> database \<Rightarrow> (http_error, json) result" where
  "agent_bundle stamp since db =
     (case get_active_bundle db of
        None \<Rightarrow> Inl Not_Found
      | Some b \<Rightarrow>
          (if bm_version (bundle_manifest b) = since
           then Inr (JObj [(''changed'', JBool False), (''version'', JInt since)])
           else Inr (JObj [(''changed'', JBool True), (''manifest'', manifest_json stamp (bundle_manifest b)),
                           (''config_toml'', JStr (bundle_config b))])))"

text \<open>The intake: publish to the live view, then record in a transaction of its own.\<close>

definition intake :: "settings \<Rightarrow> decision_record list \<Rightarrow> app \<Rightarrow> (http_error, response) result \<times> app" where
  "intake cfg records a =
     (let tail = fold publish_record records (app_tail a);
          (res, db) = session_scope (\<lambda>s. case record_samples (sample_store_max_events cfg) (sample_store_retain_raw cfg) records s
             of (n, s') \<Rightarrow> (Inr n, s')) (app_db a)
      in (bindR (res :: (http_error, nat) result) (\<lambda>n. Inr No_Content), a\<lparr>app_tail := tail, app_db := db\<rparr>))"

definition redact :: "decision_record \<Rightarrow> principal \<Rightarrow> decision_record" where
  "redact r p = (if may_see_event_contents p then r else r\<lparr>dec_raw := None, dec_fields := []\<rparr>)"

definition recent_decisions :: "int \<Rightarrow> tail_buffer \<Rightarrow> principal \<Rightarrow> decision_record list" where
  "recent_decisions limit b p = map (\<lambda>r. redact r p) (recent limit b)"

definition post_simulate :: "api_env \<Rightarrow> int \<Rightarrow> principal \<Rightarrow> session \<Rightarrow> (http_error, response) result \<times> session" where
  "post_simulate env limit p s =
     (case load_chain s of
        (Inl e, s') \<Rightarrow> (Inl Server_Error, s')
      | (Inr ch, s') \<Rightarrow>
          (let events = concat (map (\<lambda>r. case sa_raw r of Some (c # cs) \<Rightarrow> [c # cs] | _ \<Rightarrow> []) (load_samples limit s'))
           in (bindR (mapError server_error (simulate (ae_sim env) ch events 0)) (\<lambda>r. Inr (Preview r (length events))), s')))"

definition health :: "api_env \<Rightarrow> app \<Rightarrow> session \<Rightarrow> (http_error, response) result \<times> session" where
  "health env a s =
     (let (cs, s') = get_chain_settings s in
      (Inr (Health_Info (map_option br_version (active_bundle_row (current s))) (cs_default_action cs)
         (subscriber_count (app_tail a)) (auth_mode (cfg_of env)) (dev_auth_bypass (cfg_of env))), s'))"

section \<open>The router\<close>

text \<open>Handlers on the database; the two that use the live buffer come with the router.\<close>

fun route :: "api_env \<Rightarrow> credentials \<Rightarrow> app \<Rightarrow> request \<Rightarrow> session \<Rightarrow> (http_error, response) result \<times> session" where
  "route env c a (Login name password) = login env (cred_now c) name password"
| "route env c a Whoami = (\<lambda>s. (bindR (principal_for env c (current s)) (\<lambda>p. Inr (whoami p)), s))"
| "route env c a Get_Rules = with_role env c VIEWER get_rules"
| "route env c a (Post_Rule payload) = with_role env c RULE_EDITOR (post_rule payload (cred_now c))"
| "route env c a (Patch_Rule i payload) = with_role env c RULE_EDITOR (patch_rule i payload (cred_now c))"
| "route env c a (Delete_Rule i) = with_role env c RULE_EDITOR (delete_rule i (cred_now c))"
| "route env c a Get_Chain = with_role env c VIEWER get_chain"
| "route env c a (Put_Chain act sh) = with_role env c ADMIN (put_chain act sh (cred_now c))"
| "route env c a Get_Bundles = with_role env c VIEWER get_bundles"
| "route env c a (Publish_Bundle t) = with_role env c RULE_EDITOR (publish_bundle env t (cred_now c))"
| "route env c a (Rollback_Bundle v) = with_role env c RULE_EDITOR (rollback_bundle v (cred_now c))"
| "route env c a Get_Active_Config = with_role env c VIEWER get_active_config"
| "route env c a (Agent_Bundle since) =
     (\<lambda>s. (bindR (agent_bundle (ae_stamp env) since (current s)) (\<lambda>j. Inr (Agent_Payload j)), s))"
| "route env c a (Recent_Decisions limit) =
     with_role env c VIEWER (\<lambda>p s. (Inr (Records (recent_decisions limit (app_tail a) p)), s))"
| "route env c a (Post_Simulate limit) = with_role env c RULE_EDITOR (post_simulate env limit)"
| "route env c a (Get_Audit limit) = with_role env c VIEWER (get_audit limit)"
| "route env c a Health = health env a"
| "route env c a (Intake records) = (\<lambda>s. (Inr No_Content, s))"

definition serve :: "api_env \<Rightarrow> credentials \<Rightarrow> request \<Rightarrow> app \<Rightarrow> (http_error, response) result \<times> app" where
  "serve env c req a =
     (case req of
        Intake records \<Rightarrow> intake (cfg_of env) records a
      | _ \<Rightarrow> (case in_session (route env c a req) (app_db a) of (res, db) \<Rightarrow> (res, a\<lparr>app_db := db\<rparr>)))"

section \<open>The live view socket\<close>

text \<open>The handshake resolves the principal once, from the subprotocol header; a refused one is closed
  before it is accepted. An accepted one subscribes under a fresh number.\<close>

definition ws_connect :: "api_env \<Rightarrow> int \<Rightarrow> string option \<Rightarrow> nat \<Rightarrow> app \<Rightarrow> app" where
  "ws_connect env now header i a =
     (case principal_from_token (ae_auth env) (cfg_of env) now (websocket_token header) (app_db a) of
        Inl e \<Rightarrow> a
      | Inr p \<Rightarrow> a\<lparr>app_tail := subscribe i 100 (app_tail a), app_sockets := (i, p) # app_sockets a\<rparr>)"

text \<open>One turn of the sending loop: the next frame, redacted for the principal of the handshake.\<close>

definition ws_send :: "nat \<Rightarrow> app \<Rightarrow> (principal \<times> decision_record) list \<times> app" where
  "ws_send i a =
     (case map_of (app_sockets a) i of
        None \<Rightarrow> ([], a)
      | Some p \<Rightarrow>
          (case get_frame i (app_tail a) of
             (None, tail) \<Rightarrow> ([], a\<lparr>app_tail := tail\<rparr>)
           | (Some r, tail) \<Rightarrow> ([(p, redact r p)], a\<lparr>app_tail := tail\<rparr>)))"

definition ws_disconnect :: "nat \<Rightarrow> app \<Rightarrow> app" where
  "ws_disconnect i a =
     a\<lparr>app_tail := unsubscribe i (app_tail a), app_sockets := filter (\<lambda>(j, p). j \<noteq> i) (app_sockets a)\<rparr>"

section \<open>Handlers as transactions\<close>

text \<open>A handler that leaves the committed database alone.\<close>

definition keeps_committed :: "(session \<Rightarrow> 'a \<times> session) \<Rightarrow> bool" where
  "keeps_committed m \<longleftrightarrow> (\<forall>s. committed (snd (m s)) = committed s)"

lemma keeps_committedI: "(\<And>s res s'. m s = (res, s') \<Longrightarrow> committed s' = committed s) \<Longrightarrow> keeps_committed m"
  unfolding keeps_committed_def by (metis prod.collapse)

lemma keeps_services [intro]:
  "keeps_committed (create_rule p actor now)" "keeps_committed (update_rule i u actor now)"
  "keeps_committed (disable_rule i actor now)" "keeps_committed (set_chain_settings a sh actor now)"
  "keeps_committed (publish benv actor t req now)" "keeps_committed (rollback v actor now)"
  "keeps_committed load_chain" "keeps_committed list_rules"
proof -
  show "keeps_committed (create_rule p actor now)" "keeps_committed (update_rule i u actor now)"
    "keeps_committed (disable_rule i actor now)" "keeps_committed (set_chain_settings a sh actor now)"
    "keeps_committed (publish benv actor t req now)" "keeps_committed (rollback v actor now)"
    using create_rule_cases(1) update_rule_cases(1) disable_rule_cases(1) set_chain_settings_cases(1)
      publish_cases(1) rollback_cases(1)
    by (auto intro!: keeps_committedI)
  show "keeps_committed load_chain" using load_chain_tables by (auto intro!: keeps_committedI)
  show "keeps_committed list_rules" by (simp add: keeps_committed_def list_rules_def)
qed

lemma keeps_at: "keeps_committed m \<Longrightarrow> m \<lparr>committed = db, current = db\<rparr> = (r, s') \<Longrightarrow> committed s' = db"
  unfolding keeps_committed_def by (drule spec [of _ "\<lparr>committed = db, current = db\<rparr>"]) simp

lemma in_session_keeps: "keeps_committed h \<Longrightarrow> in_session h db = (res, db') \<Longrightarrow> db' = db"
  using keeps_at by (fastforce simp: in_session_def split: prod.splits)

lemma keeps_reading [intro]: "keeps_committed m \<Longrightarrow> keeps_committed (reading st an m)"
  by (simp add: keeps_committed_def reading_def split_beta)

lemma keeps_pure [intro]: "keeps_committed (\<lambda>s. (f s, s))"
  by (simp add: keeps_committed_def)

text \<open>A handler that commits is the transaction of its service call, or changes nothing.\<close>

lemma in_session_committing:
  assumes "keeps_committed m" "in_session (committing st an m) db = (res, db')"
  obtains (failed) e where "res = Inl (st e)" "db' = db"
    | (performed) x where "res = Inr (an x)" "session_scope m db = (Inr x, db')"
proof -
  obtain r s' where m: "m \<lparr>committed = db, current = db\<rparr> = (r, s')" by fastforce
  note k = keeps_at [OF assms(1) this]
  show ?thesis
  proof (cases r)
    case (Inl e)
    then show ?thesis using assms(2) m k failed [of e] by (simp add: in_session_def committing_def)
  next
    case (Inr x)
    then show ?thesis
      using assms(2) m performed [of x] by (simp add: in_session_def committing_def session_scope_def commit_def)
  qed
qed

lemma in_session_with_role:
  assumes "in_session (with_role env c r h) db = (res, db')"
  obtains (refused) e where "res = Inl e" "db' = db"
    | (served) p where "principal_for env c db = Inr p" "r \<le> pr_role p" "in_session (h p) db = (res, db')"
proof (cases "bindR (principal_for env c db) (require_role r)")
  case (Inl e)
  then show ?thesis using assms refused [of e] by (simp add: in_session_def with_role_def)
next
  case (Inr p)
  then have p: "principal_for env c db = Inr p" "r \<le> pr_role p" "require_role r p = Inr p"
    by (auto simp: bindR_Inr_iff)
  have "in_session (h p) db = (res, db')" using assms by (simp add: in_session_def with_role_def p)
  with p served show ?thesis by blast
qed

lemma scope_returning:
  "session_scope m db = (Inr x, db') \<Longrightarrow> session_scope (returning f m) db = (Inr (f x), db')"
  by (auto simp: session_scope_def returning_def commit_def rollback_session_def split: prod.splits sum.splits)

text \<open>What a request does to the database: nothing, or one transaction of the services.\<close>

definition service_effect ::
    "api_env \<Rightarrow> credentials \<Rightarrow> role \<Rightarrow> service_op \<Rightarrow> (http_error, response) result \<Rightarrow> database \<Rightarrow> database \<Rightarrow> bool" where
  "service_effect env c r op res db db' \<longleftrightarrow>
     db' = db \<or>
     (\<exists>p x. principal_for env c db = Inr p \<and> r \<le> pr_role p \<and> succeeds res \<and>
        service_step (ae_bundles env) (pr_username p, cred_now c, op) db = (Inr x, db'))"

lemma effect_of_rule_op:
  assumes "keeps_committed m" "in_session (committing st an m) db = (res, db')"
    and "principal_for env c db = Inr p" "r \<le> pr_role p"
    and "rule_service (pr_username p) (cred_now c) rop = returning f m"
  shows "service_effect env c r (Rule_Op rop) res db db'"
  using assms(1,2)
proof (cases rule: in_session_committing)
  case (performed x)
  then have "rule_step (pr_username p, cred_now c, rop) db = (Inr (f x), db')"
    using assms(5) scope_returning [of m db x db' f] by (simp add: rule_step_def)
  then show ?thesis using assms(3,4) performed(1) by (auto simp: service_effect_def)
qed (simp add: service_effect_def)

lemma effect_of_bundle_op:
  assumes "keeps_committed m" "in_session (committing st an m) db = (res, db')"
    and "principal_for env c db = Inr p" "r \<le> pr_role p"
    and "\<And>x. session_scope m db = (Inr x, db') \<Longrightarrow>
      \<exists>y. service_step (ae_bundles env) (pr_username p, cred_now c, op) db = (Inr y, db')"
  shows "service_effect env c r op res db db'"
  using assms(1,2)
proof (cases rule: in_session_committing)
  case (performed x)
  then show ?thesis using assms(3,4,5) by (auto simp: service_effect_def)
qed (simp add: service_effect_def)

text \<open>The service operation behind a request, once the body is valid, and the role it needs.\<close>

fun service_for :: "request \<Rightarrow> (role \<times> service_op) option" where
  "service_for (Post_Rule p) = (case validate_create p of Inr q \<Rightarrow> Some (RULE_EDITOR, Rule_Op (Create q)) | Inl e \<Rightarrow> None)"
| "service_for (Patch_Rule i p) =
     (case validate_update p of Inr q \<Rightarrow> Some (RULE_EDITOR, Rule_Op (Update i q)) | Inl e \<Rightarrow> None)"
| "service_for (Delete_Rule i) = Some (RULE_EDITOR, Rule_Op (Disable i))"
| "service_for (Put_Chain a sh) = Some (ADMIN, Rule_Op (Set_Chain a sh))"
| "service_for (Publish_Bundle t) = Some (RULE_EDITOR, Publish t None)"
| "service_for (Rollback_Bundle v) = Some (RULE_EDITOR, Rollback v)"
| "service_for req = None"

lemma in_session_pure: "in_session (\<lambda>s. (f s, s)) db = (res, db') \<Longrightarrow> db' = db"
  by (erule in_session_keeps [OF keeps_pure])

lemma role_then_keeps:
  assumes "\<And>p. keeps_committed (h p)" "in_session (with_role env c r h) db = (res, db')"
  shows "db' = db"
  using assms(2)
proof (cases rule: in_session_with_role)
  case (served p)
  then show ?thesis using in_session_keeps [OF assms(1)] by blast
qed

lemma keeps_simulate: "keeps_committed (post_simulate env limit p)"
proof (rule keeps_committedI)
  fix s res s'
  assume "post_simulate env limit p s = (res, s')"
  then have "s' = snd (load_chain s)" by (auto simp: post_simulate_def Let_def split: prod.splits sum.splits)
  then show "committed s' = committed s" using keeps_services(7) by (simp add: keeps_committed_def)
qed

lemma keeps_active_config: "keeps_committed (get_active_config p)"
  by (simp add: keeps_committed_def get_active_config_def split: option.splits)

lemma keeps_health: "keeps_committed (health env a)"
  by (auto simp: keeps_committed_def health_def get_chain_settings_def Let_def split: option.splits)

text \<open>Requests with no service operation change nothing.\<close>

lemma route_without_service:
  assumes "service_for req = None" "in_session (route env c a req) db = (res, db')"
  shows "db' = db"
proof (cases req)
  case (Post_Rule payload)
  then obtain e where "validate_create payload = Inl e" using assms(1) by (auto split: sum.splits)
  then have k: "keeps_committed (post_rule payload now p)" for now p
    by (simp add: keeps_committed_def post_rule_def)
  show ?thesis using assms(2) role_then_keeps [OF k] by (simp add: Post_Rule)
next
  case (Patch_Rule i payload)
  then obtain e where "validate_update payload = Inl e" using assms(1) by (auto split: sum.splits)
  then have k: "keeps_committed (patch_rule i payload now p)" for now p
    by (simp add: keeps_committed_def patch_rule_def)
  show ?thesis using assms(2) role_then_keeps [OF k] by (simp add: Patch_Rule)
next
  case (Login name password)
  have k: "keeps_committed (login env now name password)" for now by (simp add: keeps_committed_def login_def)
  show ?thesis using assms(2) in_session_keeps [OF k] by (simp add: Login)
next
  case Get_Rules
  then show ?thesis using assms(2) role_then_keeps [OF keeps_reading [OF keeps_services(8)]]
    by (simp add: get_rules_def [abs_def])
next
  case Get_Chain
  then show ?thesis
    using assms(2) role_then_keeps [OF keeps_reading [OF keeps_services(7)]] by (simp add: get_chain_def [abs_def])
next
  case Get_Active_Config
  then show ?thesis using assms(2) role_then_keeps [OF keeps_active_config] by simp
next
  case (Post_Simulate limit)
  then show ?thesis using assms(2) role_then_keeps [OF keeps_simulate] by simp
next
  case Health
  then show ?thesis using assms(2) in_session_keeps [OF keeps_health] by simp
next
  case Get_Bundles
  then show ?thesis using assms(2) role_then_keeps [OF keeps_pure] by (simp add: get_bundles_def [abs_def])
next
  case (Recent_Decisions limit)
  then show ?thesis using assms(2) role_then_keeps [OF keeps_pure] by simp
next
  case (Get_Audit limit)
  then show ?thesis using assms(2) role_then_keeps [OF keeps_pure] by (simp add: get_audit_def [abs_def])
qed (use assms in \<open>auto dest: in_session_pure\<close>)

text \<open>Requests with one are its transaction, under the role.\<close>

lemma rule_op_effect:
  assumes "\<And>p. keeps_committed (m p)" "\<And>p. rule_service (pr_username p) (cred_now c) rop = returning f (m p)"
    and "in_session (with_role env c r (\<lambda>p. committing st an (m p))) db = (res, db')"
  shows "service_effect env c r (Rule_Op rop) res db db'"
  using assms(3)
proof (cases rule: in_session_with_role)
  case (served p)
  show ?thesis by (rule effect_of_rule_op [OF assms(1) served(3,1,2) assms(2)])
qed (simp add: service_effect_def)

lemma bundle_op_effect:
  assumes "\<And>p. keeps_committed (m p)"
    and "\<And>p x. session_scope (m p) db = (Inr x, db') \<Longrightarrow>
      \<exists>y. service_step (ae_bundles env) (pr_username p, cred_now c, op) db = (Inr y, db')"
    and "in_session (with_role env c r (\<lambda>p. committing st an (m p))) db = (res, db')"
  shows "service_effect env c r op res db db'"
  using assms(3)
proof (cases rule: in_session_with_role)
  case (served p)
  show ?thesis by (rule effect_of_bundle_op [OF assms(1) served(3,1,2) assms(2)])
qed (simp add: service_effect_def)

lemmas rule_op_effects =
  rule_op_effect [OF keeps_services(1), where f = Rule_Result]
  rule_op_effect [OF keeps_services(2), where f = Rule_Result]
  rule_op_effect [OF keeps_services(3), where f = Rule_Result]
  rule_op_effect [OF keeps_services(4), where f = Chain_Result]

lemma route_with_service:
  assumes "service_for req = Some (r, op)" "in_session (route env c a req) db = (res, db')"
  shows "service_effect env c r op res db db'"
proof (cases req)
  case (Post_Rule payload)
  then obtain q where q: "validate_create payload = Inr q" "r = RULE_EDITOR" "op = Rule_Op (Create q)"
    using assms(1) by (auto split: sum.splits)
  then show ?thesis using assms(2) unfolding q(2,3) Post_Rule
    by (intro rule_op_effects(1)) (simp_all add: post_rule_def [abs_def])
next
  case (Patch_Rule i payload)
  then obtain q where q: "validate_update payload = Inr q" "r = RULE_EDITOR" "op = Rule_Op (Update i q)"
    using assms(1) by (auto split: sum.splits)
  then show ?thesis using assms(2) unfolding q(2,3) Patch_Rule
    by (intro rule_op_effects(2)) (simp_all add: patch_rule_def [abs_def])
next
  case (Delete_Rule i)
  then have "r = RULE_EDITOR" "op = Rule_Op (Disable i)" using assms(1) by simp_all
  then show ?thesis using assms(2) unfolding Delete_Rule
    by (simp only:) (intro rule_op_effects(3); simp add: delete_rule_def [abs_def])
next
  case (Put_Chain act sh)
  then have "r = ADMIN" "op = Rule_Op (Set_Chain act sh)" using assms(1) by simp_all
  then show ?thesis using assms(2) unfolding Put_Chain
    by (simp only:) (intro rule_op_effects(4); simp add: put_chain_def [abs_def])
next
  case (Publish_Bundle t)
  then have "r = RULE_EDITOR" "op = Publish t None" using assms(1) by simp_all
  then show ?thesis using assms(2) unfolding Publish_Bundle
    by (simp only:) (intro bundle_op_effect [OF keeps_services(5)]; simp add: publish_bundle_def [abs_def])
next
  case (Rollback_Bundle v)
  then have "r = RULE_EDITOR" "op = Rollback v" using assms(1) by simp_all
  then show ?thesis using assms(2) unfolding Rollback_Bundle
    by (simp only:) (intro bundle_op_effect [OF keeps_services(6)]; simp add: rollback_bundle_def [abs_def])
qed (use assms in simp_all)

lemma serve_route:
  "\<forall>rs. req \<noteq> Intake rs \<Longrightarrow> serve env c req a =
     (let (res, db) = in_session (route env c a req) (app_db a) in (res, a\<lparr>app_db := db\<rparr>))"
  by (cases req) (simp_all add: serve_def)

lemma service_for_roles:
  "service_for req = Some (r, op) \<Longrightarrow> RULE_EDITOR \<le> r \<and> ((\<exists>act sh. op = Rule_Op (Set_Chain act sh)) \<longrightarrow> r = ADMIN)"
  by (cases req) (auto simp: less_eq_role_def split: sum.splits)

text \<open>A request is nothing, or one authorised transaction of the services.\<close>

lemma serve_refines:
  assumes "serve env c req a = (res, a')" "\<forall>rs. req \<noteq> Intake rs"
  shows "a' = a \<or>
    (\<exists>p op x. principal_for env c (app_db a) = Inr p \<and> RULE_EDITOR \<le> pr_role p \<and>
       ((\<exists>act sh. op = Rule_Op (Set_Chain act sh)) \<longrightarrow> pr_role p = ADMIN) \<and> succeeds res \<and>
       service_step (ae_bundles env) (pr_username p, cred_now c, op) (app_db a) = (Inr x, app_db a') \<and>
       a' = a\<lparr>app_db := app_db a'\<rparr>)"
proof -
  obtain db' where r: "in_session (route env c a req) (app_db a) = (res, db')" "a' = a\<lparr>app_db := db'\<rparr>"
    using assms by (auto simp: serve_route Let_def split: prod.splits)
  have top: "ADMIN \<le> r \<Longrightarrow> r = ADMIN" for r by (cases r) simp_all
  show ?thesis
  proof (cases "service_for req")
    case None
    then show ?thesis using route_without_service [OF None r(1)] r(2) by simp
  next
    case (Some ro)
    then obtain r0 op where ro: "service_for req = Some (r0, op)" by (cases ro) auto
    have eff: "service_effect env c r0 op res (app_db a) db'" by (rule route_with_service [OF ro r(1)])
    show ?thesis
    proof (cases "db' = app_db a")
      case True
      then show ?thesis using r(2) by simp
    next
      case False
      then obtain p x where p: "principal_for env c (app_db a) = Inr p" "r0 \<le> pr_role p" "succeeds res"
        "service_step (ae_bundles env) (pr_username p, cred_now c, op) (app_db a) = (Inr x, db')"
        using eff unfolding service_effect_def by blast
      have "RULE_EDITOR \<le> pr_role p" using service_for_roles [OF ro] p(2) order_trans by blast
      moreover have "pr_role p = ADMIN" if "\<exists>act sh. op = Rule_Op (Set_Chain act sh)"
        using service_for_roles [OF ro] that p(2) top by blast
      ultimately show ?thesis using p r(2) by (intro disjI2 exI [of _ p] exI [of _ op] exI [of _ x]) simp
    qed
  qed
qed

section \<open>The application over time\<close>

text \<open>Requests, sockets, and account changes made from the command line or directly in the database.\<close>

inductive app_reach :: "api_env \<Rightarrow> app \<Rightarrow> bool" for env where
  booted: "app_reach env \<lparr>app_db = empty_db, app_tail = new_buffer 500, app_sockets = []\<rparr>"
| served: "app_reach env a \<Longrightarrow> app_reach env (snd (serve env c req a))"
| connected: "app_reach env a \<Longrightarrow> i \<notin> fst ` set (app_sockets a) \<Longrightarrow> app_reach env (ws_connect env now header i a)"
| sent: "app_reach env a \<Longrightarrow> app_reach env (snd (ws_send i a))"
| closed: "app_reach env a \<Longrightarrow> app_reach env (ws_disconnect i a)"
| administered: "app_reach env a \<Longrightarrow> app_reach env (a\<lparr>app_db := (app_db a)\<lparr>db_users := users\<rparr>\<rparr>)"

definition admitted :: "api_env \<Rightarrow> principal \<Rightarrow> bool" where
  "admitted env p \<longleftrightarrow> (\<exists>a now token. app_reach env a \<and>
     principal_from_token (ae_auth env) (cfg_of env) now token (app_db a) = Inr p)"

lemma serve_sockets: "app_sockets (snd (serve env c req a)) = app_sockets a"
  by (cases req) (auto simp: serve_def intake_def Let_def split: prod.splits)

lemma ws_send_sockets: "app_sockets (snd (ws_send i a)) = app_sockets a"
  by (auto simp: ws_send_def split: option.splits prod.splits)

lemma sockets_admitted: "app_reach env a \<Longrightarrow> (i, p) \<in> set (app_sockets a) \<Longrightarrow> admitted env p"
proof (induction rule: app_reach.induct)
  case (connected a j now header)
  then show ?case
    by (auto simp: ws_connect_def admitted_def split: sum.splits)
qed (auto simp: serve_sockets ws_send_sockets ws_disconnect_def)

lemma intake_bundles: "db_bundles (app_db (snd (intake cfg rs a))) = db_bundles (app_db a)"
  by (simp add: intake_def session_scope_def record_samples_def commit_def Let_def split_beta)

text \<open>The bundle table stays sound under everything the application does.\<close>

lemma app_bundles_ok: "app_reach env a \<Longrightarrow> bundles_ok (ae_bundles env) (app_db a)"
proof (induction rule: app_reach.induct)
  case booted
  show ?case by (simp add: bundles_ok_def empty_db_def)
next
  case (served a c req)
  obtain res a' where s: "serve env c req a = (res, a')" by fastforce
  show ?case
  proof (cases "\<forall>rs. req \<noteq> Intake rs")
    case True
    consider "a' = a" | actor op x where
      "service_step (ae_bundles env) (actor, cred_now c, op) (app_db a) = (Inr x, app_db a')"
      using serve_refines [OF s True] by blast
    then show ?thesis
    proof cases
      case 2
      then show ?thesis using service_log.inv_step [OF served.IH] s by (metis snd_conv)
    qed (use served.IH s in simp)
  next
    case False
    then show ?thesis
      using served.IH bundles_ok_cong [OF intake_bundles] by (auto simp: serve_def)
  qed
next
  case (connected a i now header)
  then show ?case by (simp add: ws_connect_def split: sum.splits)
next
  case (sent a i)
  then show ?case by (simp add: ws_send_def split: option.splits prod.splits)
next
  case (closed a i)
  then show ?case by (simp add: ws_disconnect_def)
next
  case (administered a users)
  then show ?case by (simp add: bundles_ok_def)
qed

lemma redact_viewer: "RULE_EDITOR \<le> pr_role p \<or> dec_raw (redact r p) = None \<and> dec_fields (redact r p) = []"
  by (simp add: redact_def may_see_event_contents_def at_least_iff)

lemma redact_rest: "dec_extra (redact r p) = dec_extra r" "dec_source (redact r p) = dec_source r"
  by (simp_all add: redact_def)

text \<open>Only the route for recent decisions answers with records.\<close>

lemma records_route:
  assumes "serve env c req a = (Inr (Records rs), a')"
  shows "\<exists>p limit. principal_for env c (app_db a) = Inr p \<and> req = Recent_Decisions limit \<and>
    rs = recent_decisions limit (app_tail a) p"
  using assms
  by (cases req)
    (auto simp: serve_def in_session_def with_role_def committing_def reading_def login_def whoami_def
      get_rules_def get_bundles_def get_audit_def post_rule_def patch_rule_def delete_rule_def get_chain_def put_chain_def publish_bundle_def
      rollback_bundle_def get_active_config_def post_simulate_def health_def intake_def Let_def bindR_Inr_iff
      mapError_Inr_iff split: prod.splits sum.splits option.splits)

section \<open>Properties\<close>

text \<open>An application for the concrete instances, with one account of each kind.\<close>

definition account :: "string \<Rightarrow> role \<Rightarrow> user_row" where
  "account name r = \<lparr>us_username = name, us_password_hash = [], us_role = role_value r, us_disabled = False\<rparr>"

definition sample_api :: api_env where
  "sample_api = \<lparr>ae_auth = sample_auth, ae_bundles = sample_env, ae_sim = sample_sim, ae_stamp = int_str\<rparr>"

definition sample_app :: app where
  "sample_app = \<lparr>app_db = empty_db\<lparr>db_users := [account ''ann'' ADMIN, account ''vic'' VIEWER]\<rparr>,
     app_tail = publish_record (frame_of 1) (new_buffer 500), app_sockets = []\<rparr>"

definition credentials_of :: "string \<Rightarrow> credentials" where
  "credentials_of token = \<lparr>cred_header = Some token, cred_cookie = None, cred_now = 7\<rparr>"

lemma principal_users_cong:
  assumes "db_users d = db_users d'"
  shows "principal_for env c d = principal_for env c d'"
proof -
  have "find_user d = find_user d'" using assms by (simp add: find_user_def fun_eq_iff)
  then show ?thesis unfolding principal_for_def current_principal_def principal_from_token_def by (simp only:)
qed

lemma sample_principals:
  "principal_for sample_api (credentials_of ''admin:ann'') (app_db sample_app) = Inr \<lparr>pr_username = ''ann'', pr_role = ADMIN\<rparr>"
  "principal_for sample_api (credentials_of ''viewer:vic'') (app_db sample_app) = Inr \<lparr>pr_username = ''vic'', pr_role = VIEWER\<rparr>"
  by (simp_all add: principal_for_def current_principal_def principal_from_token_def sample_api_def sample_auth_def
      sample_env_def default_settings_def credentials_of_def sample_app_def role_of_def find_user_def account_def
      principal_of_def)

text \<open>C10: The HTTP surface refines the services: a request other than the intake either leaves the whole
  application as it was, or is one successful transaction of the services in the name of a principal who
  authenticated and is a rule editor or an administrator, and only an administrator for the chain
  settings; a request that is refused or fails changes nothing.\<close>

theorem api_refines_services:
  assumes "serve env c req a = (res, a')" "\<forall>rs. req \<noteq> Intake rs"
  shows "a' = a \<or>
    (\<exists>p op x. principal_for env c (app_db a) = Inr p \<and> RULE_EDITOR \<le> pr_role p \<and>
       ((\<exists>act sh. op = Rule_Op (Set_Chain act sh)) \<longrightarrow> pr_role p = ADMIN) \<and> succeeds res \<and>
       service_step (ae_bundles env) (pr_username p, cred_now c, op) (app_db a) = (Inr x, app_db a') \<and>
       a' = a\<lparr>app_db := app_db a'\<rparr>)"
  by (rule serve_refines [OF assms])

theorem api_refines_services_witness:
  "\<exists>a'. serve sample_api (credentials_of ''admin:ann'') (Put_Chain (Some DROP) None) sample_app =
       (Inr (Chain_Settings DROP False), a') \<and> db_settings (app_db a') \<noteq> None \<and> length (db_audit (app_db a')) = 1 \<and>
     app_tail a' = app_tail sample_app"
proof -
  obtain res a' where s: "serve sample_api (credentials_of ''admin:ann'') (Put_Chain (Some DROP) None) sample_app = (res, a')"
    by fastforce
  have tables: "db_settings (app_db sample_app) = None" "db_rules (app_db sample_app) = []"
    "db_audit (app_db sample_app) = []"
    by (simp_all add: sample_app_def empty_db_def)
  have v: "res = Inr (Chain_Settings DROP False)" "db_settings (app_db a') \<noteq> None" "length (db_audit (app_db a')) = 1"
    using s tables
    by (auto simp: serve_def in_session_def with_role_def sample_principals
        require_role_def at_least_def put_chain_def committing_def commit_def set_chain_settings_def
        get_chain_settings_def load_chain_def list_rules_def default_chain_settings_def set_opt_def write_audit_def
        validate_chain_def on_db_def Let_def action_of_def)
  have "app_tail a' = app_tail sample_app"
  proof -
    have "a' = sample_app \<or> a' = sample_app\<lparr>app_db := app_db a'\<rparr>" using api_refines_services [OF s] by blast
    moreover have "app_tail (sample_app\<lparr>app_db := d\<rparr>) = app_tail sample_app" for d by simp
    ultimately show ?thesis by metis
  qed
  then show ?thesis using s v by blast
qed

text \<open>C15: Event contents reach only editors and administrators: in every reachable application the route
  for recent decisions answers with raw text and fields only for a principal above viewer, and so does
  every frame of a live-view socket, whose principal was authenticated when the socket was opened.
  The other keys of a record are not redacted, and a socket keeps the role of its handshake: no later
  change of the accounts alters what it sends.\<close>

theorem contents_need_editor:
  assumes "app_reach env a"
  shows "(serve env c req a = (Inr (Records rs), a') \<longrightarrow>
       (\<exists>p. principal_for env c (app_db a) = Inr p \<and>
         (RULE_EDITOR \<le> pr_role p \<or> list_all (\<lambda>r. dec_raw r = None \<and> dec_fields r = []) rs))) \<and>
    ((p, r) \<in> set (fst (ws_send i a)) \<longrightarrow>
       admitted env p \<and> (RULE_EDITOR \<le> pr_role p \<or> dec_raw r = None \<and> dec_fields r = [])) \<and>
    (dec_extra (redact r p) = dec_extra r \<and> fst (ws_send i (a\<lparr>app_db := db\<rparr>)) = fst (ws_send i a))"
proof (intro conjI impI)
  assume "serve env c req a = (Inr (Records rs), a')"
  then obtain q limit where q: "principal_for env c (app_db a) = Inr q" "rs = recent_decisions limit (app_tail a) q"
    using records_route by blast
  then show "\<exists>p. principal_for env c (app_db a) = Inr p \<and>
      (RULE_EDITOR \<le> pr_role p \<or> list_all (\<lambda>r. dec_raw r = None \<and> dec_fields r = []) rs)"
    using redact_viewer [of q] by (auto simp: recent_decisions_def list_all_iff)
next
  assume "(p, r) \<in> set (fst (ws_send i a))"
  then obtain r0 where r: "(i, p) \<in> set (app_sockets a)" "r = redact r0 p"
    by (auto simp: ws_send_def dest: map_of_SomeD split: option.splits prod.splits)
  show "admitted env p" by (rule sockets_admitted [OF assms r(1)])
  show "RULE_EDITOR \<le> pr_role p \<or> dec_raw r = None \<and> dec_fields r = []" unfolding r(2) by (rule redact_viewer)
qed (simp_all add: redact_rest ws_send_def split: option.splits prod.splits)

theorem contents_need_editor_witness:
  "\<exists>rs a a'. app_reach sample_api a \<and>
     serve sample_api (credentials_of ''viewer:vic'') (Recent_Decisions 5) a = (Inr (Records rs), a') \<and>
     map dec_ts rs = [1] \<and> list_all (\<lambda>r. dec_raw r = None) rs"
proof -
  let ?a0 = "\<lparr>app_db = empty_db, app_tail = new_buffer 500, app_sockets = []\<rparr>"
  let ?a1 = "?a0\<lparr>app_db := (app_db ?a0)\<lparr>db_users := [account ''ann'' ADMIN, account ''vic'' VIEWER]\<rparr>\<rparr>"
  let ?a = "snd (serve sample_api (credentials_of []) (Intake [frame_of 1]) ?a1)"
  have reach: "app_reach sample_api ?a"
    by (intro app_reach.served app_reach.administered app_reach.booted)
  have users: "db_users (app_db ?a) = [account ''ann'' ADMIN, account ''vic'' VIEWER]"
    by (simp add: serve_def intake_def session_scope_def record_samples_def commit_def Let_def empty_db_def)
  have tail: "app_tail ?a = publish_record (frame_of 1) (new_buffer 500)"
    by (simp add: serve_def intake_def split: prod.splits)
  have vic: "principal_for sample_api (credentials_of ''viewer:vic'') (app_db ?a) = Inr \<lparr>pr_username = ''vic'', pr_role = VIEWER\<rparr>"
    using principal_users_cong [of "app_db ?a" "app_db sample_app"] users sample_principals(2)
    by (simp add: sample_app_def)
  let ?vic = "\<lparr>pr_username = ''vic'', pr_role = VIEWER\<rparr>"
  have recent_vic: "\<exists>a'. serve sample_api (credentials_of ''viewer:vic'') (Recent_Decisions 5) a =
      (Inr (Records (recent_decisions 5 (app_tail a) ?vic)), a')"
    if "principal_for sample_api (credentials_of ''viewer:vic'') (app_db a) = Inr ?vic" for a
    by (simp add: serve_def in_session_def with_role_def that require_role_def at_least_def)
  obtain a' where s: "serve sample_api (credentials_of ''viewer:vic'') (Recent_Decisions 5) ?a =
      (Inr (Records (recent_decisions 5 (app_tail ?a) ?vic)), a')"
    using recent_vic [OF vic] by blast
  have ts: "map dec_ts (recent_decisions 5 (app_tail ?a) ?vic) = [1]"
    unfolding tail by (simp add: recent_decisions_def recent_def new_buffer_def deque_append_def py_suffix_def redact_def
        may_see_event_contents_def at_least_def frame_of_def)
  have "\<exists>p. principal_for sample_api (credentials_of ''viewer:vic'') (app_db ?a) = Inr p \<and>
      (RULE_EDITOR \<le> pr_role p \<or> list_all (\<lambda>r. dec_raw r = None \<and> dec_fields r = [])
         (recent_decisions 5 (app_tail ?a) ?vic))"
    using contents_need_editor [OF reach, THEN conjunct1, rule_format, OF s] .
  then have "list_all (\<lambda>r. dec_raw r = None) (recent_decisions 5 (app_tail ?a) ?vic)"
    unfolding vic by (auto simp: list_all_iff)
  from conjI [OF reach conjI [OF s conjI [OF ts this]]] show ?thesis by (intro exI)
qed

end
