(* ===== verification/Preview.thy ===== *)
theory Preview
  imports Prelude Rule_Model Database Settings Rules_Service Bundles Sampling Auth Simulate Api
begin

text \<open>
  The impact preview on the sample as the intake keeps it: \<open>post_simulate\<close> of \<open>api/routes.py\<close> over
  \<open>load_samples\<close> of \<open>sampling/store.py\<close>, under the setting \<open>sample_store_retain_raw\<close> of \<open>config.py\<close>.
\<close>

section \<open>The services leave the sample alone\<close>

lemma rule_step_samples: "db_samples (snd (rule_step (actor, now, op) db)) = db_samples db"
  by (cases op)
    (auto simp: rule_step_cases returning_def create_rule_def update_rule_def disable_rule_def set_chain_settings_def
      load_chain_def list_rules_def get_chain_settings_def rollback_session_def add_row_def store_row_def Let_def
      split: option.splits sum.splits)

lemma publish_samples: "db_samples (current (snd (publish env actor msg require now s))) = db_samples (current s)"
  by (simp add: publish_def load_chain_def list_rules_def get_chain_settings_def add_bundle_def deactivate_all_def Let_def
      split: option.split sum.split prod.split)

lemma rollback_samples: "db_samples (current (snd (rollback v actor now s))) = db_samples (current s)"
  by (simp add: rollback_def activate_def deactivate_all_def Let_def split: option.split)

lemma service_step_samples: "db_samples (snd (service_step env req db)) = db_samples db"
proof -
  obtain actor now op where req: "req = (actor, now, op)" by (cases req)
  obtain res db' where s: "service_step env (actor, now, op) db = (res, db')" by (cases "service_step env (actor, now, op) db")
  show ?thesis
  proof (cases res)
    case (Inl e)
    then show ?thesis using s service_step_failed [of env actor now op db] by (simp add: req)
  next
    case (Inr x)
    show ?thesis
    proof (cases op)
      case (Rule_Op rop)
      then show ?thesis using rule_step_samples [of actor now rop db]
        by (cases "rule_step (actor, now, rop) db") (simp add: req)
    next
      case (Publish msg require)
      then obtain y where "session_scope (publish env actor msg require now) db = (Inr y, db')"
        using s Inr by (auto simp: bindR_Inr_iff split: prod.splits)
      then show ?thesis
        using publish_samples [of env actor msg require now "\<lparr>committed = db, current = db\<rparr>"] s
        by (auto simp: req elim!: scope_succeeded)
    next
      case (Rollback v)
      then obtain y where "session_scope (rollback v actor now) db = (Inr y, db')"
        using s Inr by (auto simp: bindR_Inr_iff split: prod.splits)
      then show ?thesis
        using rollback_samples [of v actor now "\<lparr>committed = db, current = db\<rparr>"] s
        by (auto simp: req elim!: scope_succeeded)
    qed
  qed
qed

section \<open>Without the event texts\<close>

definition no_texts :: "database \<Rightarrow> bool" where
  "no_texts db \<longleftrightarrow> (\<forall>row \<in> set (db_samples db). sa_raw row = None)"

lemma insert_no_texts:
  "\<forall>row \<in> set rows. sa_raw row = None \<Longrightarrow> \<forall>row \<in> set (insert_samples False rs rows). sa_raw row = None"
proof (induction rs arbitrary: rows)
  case (Cons r rs)
  then have "\<forall>row \<in> set (rows @ [sample_of False (next_sample_id rows) r]). sa_raw row = None"
    by (simp add: sample_of_def)
  from Cons.IH [OF this] show ?case by simp
qed simp

lemma intake_no_texts:
  assumes "no_texts (app_db a)" "\<not> sample_store_retain_raw cfg"
  shows "no_texts (app_db (snd (intake cfg rs a)))"
proof -
  have "\<forall>row \<in> set (insert_samples False rs (db_samples (app_db a))). sa_raw row = None"
    using assms(1) insert_no_texts unfolding no_texts_def by blast
  then show ?thesis
    using assms(2)
    by (auto simp: no_texts_def intake_def session_scope_def record_samples_def commit_def Let_def split: option.splits)
qed

lemma app_no_texts:
  assumes "app_reach env a" "\<not> sample_store_retain_raw (cfg_of env)"
  shows "no_texts (app_db a)"
  using assms(1)
proof (induction rule: app_reach.induct)
  case booted
  show ?case by (simp add: no_texts_def empty_db_def)
next
  case (served a c req)
  obtain res a' where s: "serve env c req a = (res, a')" by fastforce
  show ?case
  proof (cases "\<forall>rs. req \<noteq> Intake rs")
    case True
    then show ?thesis
      using serve_refines [OF s True] service_step_samples served.IH s unfolding no_texts_def by (metis snd_conv)
  next
    case False
    then show ?thesis using intake_no_texts [OF served.IH assms(2)] by (auto simp: serve_def)
  qed
next
  case (connected a i now header)
  then show ?case by (simp add: ws_connect_def split: sum.splits)
next
  case (sent a i)
  then show ?case by (simp add: ws_send_def split: option.splits prod.splits)
next
  case (closed a i)
  then show ?case by (simp add: ws_disconnect_def)
next
  case (administered a users)
  then show ?case by (simp add: no_texts_def)
qed

text \<open>The events of a preview are the nonempty texts of the newest rows.\<close>

lemma no_texts_events:
  assumes "no_texts (current s)"
  shows "concat (map (\<lambda>r. case sa_raw r of Some (c # cs) \<Rightarrow> [c # cs] | _ \<Rightarrow> []) (load_samples limit s)) = []"
proof -
  have "set (load_samples limit s) \<subseteq> set (db_samples (current s))"
    by (auto simp: load_samples_def Let_def dest: in_set_takeD)
  then show ?thesis using assms unfolding no_texts_def by fastforce
qed

lemma load_chain_samples: "db_samples (current (snd (load_chain s))) = db_samples (current s)"
  by (simp add: load_chain_def list_rules_def get_chain_settings_def Let_def split: option.split)

lemma preview_empty:
  assumes "load_chain s = (Inr ch, s1)" "no_texts (current s)"
  shows "post_simulate env limit p s = (Inr (Preview (empty_simulation\<lparr>sim_detail := ''no sample events available''\<rparr>) 0), s1)"
proof -
  have "no_texts (current s1)" using assms(2) load_chain_samples [of s] by (simp add: assms(1) no_texts_def)
  note none = no_texts_events [OF this, of limit]
  show ?thesis
    unfolding post_simulate_def assms(1) prod.case sum.case Let_def none by (simp add: simulate_def mapError_def)
qed

section \<open>Properties\<close>

text \<open>C14: With the texts of events not retained, the preview counts nothing: in every state the application
  reaches, whatever chain is stored and whatever was sampled, an answer to a preview is that of an empty sample,
  available, with a drop share of zero, and it never asks for confirmation.\<close>

theorem preview_needs_texts:
  assumes "app_reach env a" "\<not> sample_store_retain_raw (cfg_of env)"
    and "serve env c (Post_Simulate limit) a = (Inr resp, a')"
  shows "\<exists>r. resp = Preview r 0 \<and> sim_available r \<and> sim_total r = 0 \<and> drop_share r = 0 \<and>
    \<not> exceeds_confirmation_threshold r \<and> sim_detail r = ''no sample events available''"
proof -
  let ?s = "\<lparr>committed = app_db a, current = app_db a\<rparr>"
  obtain p s' where p: "post_simulate env limit p ?s = (Inr resp, s')"
    using assms(3)
    by (auto simp: serve_def in_session_def with_role_def split: prod.splits sum.splits)
  obtain ch s1 where l: "load_chain ?s = (Inr ch, s1)"
    using p by (auto simp: post_simulate_def split: prod.splits sum.splits)
  have "resp = Preview (empty_simulation\<lparr>sim_detail := ''no sample events available''\<rparr>) 0"
    using p preview_empty [OF l] app_no_texts [OF assms(1,2)] by simp
  then show ?thesis
    by (simp add: empty_simulation_def drop_share_def exceeds_confirmation_threshold_def)
qed

text \<open>A deployment that keeps no texts, with two decisions sampled.\<close>

definition no_text_api :: api_env where
  "no_text_api = sample_api\<lparr>ae_bundles := sample_env\<lparr>env_settings := default_settings\<lparr>sample_store_retain_raw := False\<rparr>\<rparr>\<rparr>"

theorem preview_needs_texts_witness:
  "\<exists>a r a'. app_reach no_text_api a \<and> length (db_samples (app_db a)) = 2 \<and>
     serve no_text_api (credentials_of ''admin:ann'') (Post_Simulate 2000) a = (Inr (Preview r 0), a') \<and> drop_share r = 0"
proof -
  let ?a0 = "\<lparr>app_db = empty_db, app_tail = new_buffer 500, app_sockets = []\<rparr>"
  let ?a1 = "?a0\<lparr>app_db := (app_db ?a0)\<lparr>db_users := [account ''ann'' ADMIN]\<rparr>\<rparr>"
  define a where "a = snd (serve no_text_api (credentials_of []) (Intake [frame_of 1, frame_of 2]) ?a1)"
  have reach: "app_reach no_text_api a"
    unfolding a_def by (intro app_reach.served app_reach.administered app_reach.booted)
  have off: "\<not> sample_store_retain_raw (cfg_of no_text_api)" by (simp add: no_text_api_def)
  have tables: "db_users (app_db a) = [account ''ann'' ADMIN]" "db_rules (app_db a) = []" "db_settings (app_db a) = None"
    "length (db_samples (app_db a)) = 2"
    by (simp_all add: a_def serve_def intake_def session_scope_def record_samples_def commit_def Let_def empty_db_def
        no_text_api_def default_settings_def trim_cutoff_def)
  have "principal_for no_text_api (credentials_of ''admin:ann'') (app_db a) = Inr \<lparr>pr_username = ''ann'', pr_role = ADMIN\<rparr>"
    by (simp add: principal_for_def current_principal_def principal_from_token_def no_text_api_def sample_api_def sample_auth_def
        sample_env_def default_settings_def credentials_of_def role_of_def find_user_def tables account_def principal_of_def)
  then obtain p where p: "bindR (principal_for no_text_api (credentials_of ''admin:ann'') (app_db a)) (require_role RULE_EDITOR) = Inr p"
    by (simp add: require_role_def at_least_def)
  obtain res a' where s: "serve no_text_api (credentials_of ''admin:ann'') (Post_Simulate 2000) a = (res, a')" by fastforce
  obtain ch s1 where "load_chain \<lparr>committed = app_db a, current = app_db a\<rparr> = (Inr ch, s1)"
    using tables by (simp add: load_chain_def list_rules_def get_chain_settings_def default_chain_settings_def
      validate_chain_def action_of_def Let_def)
  note preview_empty [OF this, of no_text_api 2000 p]
  then obtain resp where "res = Inr resp"
    using s p app_no_texts [OF reach off] by (auto simp: serve_def in_session_def with_role_def)
  then show ?thesis using preview_needs_texts [OF reach off] s reach tables(4) by blast
qed

end
