(* ===== verification/Live_Sample.thy ===== *)
theory Live_Sample
  imports Complex_Main Prelude Json Rule_Model Database Settings Rules_Service Bundles Sampling Auth Simulate Api Decision
    Condition_Meaning Program_Run Program_Message Vector_Config Node_Records Data_Plane
begin

text \<open>
  From the node to the control plane: the record the sample program of \<open>compiler/vector_config.py\<close>
  posts is a \<open>DecisionRecord\<close> of \<open>models/rule.py\<close>, and the intake of \<open>api/routes.py\<close> puts it in
  the live view and in the sample the impact preview replays. Reading the posted object is
  Pydantic's: a parameter, with the documented meaning of the model's field types.
\<close>

section \<open>The posted object as a record\<close>

definition record_names :: "string list" where
  "record_names = [''ts'', ''decision'', ''rule_id'', ''rule_version'', ''reason'', ''source'', ''event_id'', ''node'',
     ''fields'', ''raw'']"

fun scalar_of :: "vrl_value \<Rightarrow> pyval option" where
  "scalar_of (VStr s) = Some (PStr s)"
| "scalar_of (VInt i) = Some (PInt i)"
| "scalar_of (VBool b) = Some (PBool b)"
| "scalar_of VNull = Some PNone"
| "scalar_of v = None"

text \<open>An optional field: absent or null, or a value of its type.\<close>

definition column_is :: "('a \<Rightarrow> vrl_value) \<Rightarrow> vobj \<Rightarrow> string \<Rightarrow> 'a option \<Rightarrow> bool" where
  "column_is f kv k x \<longleftrightarrow>
     (case x of Some y \<Rightarrow> map_of kv k = Some (f y) | None \<Rightarrow> map_of kv k \<in> {None, Some VNull})"

definition extras_of :: "vobj \<Rightarrow> (string \<times> pyval) list option" where
  "extras_of kv = those (map (\<lambda>(k, v). map_option (Pair k) (scalar_of v)) (filter (\<lambda>(k, v). k \<notin> set record_names) kv))"

definition describes :: "(string \<Rightarrow> int option) \<Rightarrow> vobj \<Rightarrow> decision_record \<Rightarrow> bool" where
  "describes parse_ts kv r \<longleftrightarrow>
     (case map_of kv ''ts'' of Some (VStr s) \<Rightarrow> parse_ts s = Some (dec_ts r) | _ \<Rightarrow> False) \<and>
     map_of kv ''decision'' = Some (VStr (decision_value (dec_decision r))) \<and>
     map_of kv ''reason'' = Some (VStr (reason_value (dec_reason r))) \<and>
     column_is VStr kv ''rule_id'' (dec_rule_id r) \<and> column_is VInt kv ''rule_version'' (dec_rule_version r) \<and>
     column_is VStr kv ''source'' (dec_source r) \<and> column_is VStr kv ''event_id'' (dec_event_id r) \<and>
     column_is VStr kv ''node'' (dec_node r) \<and> column_is VStr kv ''raw'' (dec_raw r) \<and>
     map_of kv ''fields'' = Some (VObj (map (\<lambda>(k, s). (k, VStr s)) (dec_fields r))) \<and> extras_of kv = Some (dec_extra r)"

text \<open>Validation of a posted object: what describes a record becomes that record.\<close>

locale decision_posts =
  fixes parse_ts :: "string \<Rightarrow> int option" and validate :: "vobj \<Rightarrow> decision_record option"
  assumes validate_described: "describes parse_ts kv r \<Longrightarrow> validate kv = Some r"

section \<open>A reader that keeps the law\<close>

definition text_column :: "vobj \<Rightarrow> string \<Rightarrow> string option option" where
  "text_column kv k =
     (case map_of kv k of None \<Rightarrow> Some None | Some VNull \<Rightarrow> Some None | Some (VStr s) \<Rightarrow> Some (Some s) | _ \<Rightarrow> None)"

definition int_column :: "vobj \<Rightarrow> string \<Rightarrow> int option option" where
  "int_column kv k =
     (case map_of kv k of None \<Rightarrow> Some None | Some VNull \<Rightarrow> Some None | Some (VInt i) \<Rightarrow> Some (Some i) | _ \<Rightarrow> None)"

definition named_value :: "('a \<Rightarrow> string) \<Rightarrow> 'a list \<Rightarrow> vobj \<Rightarrow> string \<Rightarrow> 'a option" where
  "named_value f xs kv k = (case map_of kv k of Some (VStr s) \<Rightarrow> find (\<lambda>x. f x = s) xs | _ \<Rightarrow> None)"

definition text_fields :: "vobj \<Rightarrow> string \<Rightarrow> (string \<times> string) list option" where
  "text_fields kv k =
     (case map_of kv k of
        Some (VObj fs) \<Rightarrow> those (map (\<lambda>(k, v). case v of VStr s \<Rightarrow> Some (k, s) | _ \<Rightarrow> None) fs)
      | _ \<Rightarrow> None)"

definition read_posted :: "(string \<Rightarrow> int option) \<Rightarrow> vobj \<Rightarrow> decision_record option" where
  "read_posted parse_ts kv =
     Option.bind (Option.bind (map_of kv ''ts'') (\<lambda>v. case v of VStr s \<Rightarrow> parse_ts s | _ \<Rightarrow> None)) (\<lambda>t.
     Option.bind (named_value decision_value [D_FORWARD, D_DROP, D_FORWARD_PARSE_ERROR] kv ''decision'') (\<lambda>d.
     Option.bind (named_value reason_value [R_RULE, R_DEFAULT, R_PARSE_ERROR, R_SHADOW] kv ''reason'') (\<lambda>why.
     Option.bind (text_column kv ''rule_id'') (\<lambda>rule.
     Option.bind (int_column kv ''rule_version'') (\<lambda>ver.
     Option.bind (text_column kv ''source'') (\<lambda>src.
     Option.bind (text_column kv ''event_id'') (\<lambda>event.
     Option.bind (text_column kv ''node'') (\<lambda>node.
     Option.bind (text_column kv ''raw'') (\<lambda>raw.
     Option.bind (text_fields kv ''fields'') (\<lambda>fs.
     Option.bind (extras_of kv) (\<lambda>extra.
       Some \<lparr>dec_ts = t, dec_decision = d, dec_rule_id = rule, dec_rule_version = ver, dec_reason = why,
         dec_source = src, dec_event_id = event, dec_node = node, dec_fields = fs, dec_raw = raw,
         dec_extra = extra\<rparr>)))))))))))"

lemma read_column:
  "column_is VStr kv k x \<Longrightarrow> text_column kv k = Some x" "column_is VInt kv k i \<Longrightarrow> int_column kv k = Some i"
  by (auto simp: column_is_def text_column_def int_column_def split: option.splits)

lemma read_named:
  "map_of kv k = Some (VStr (decision_value d)) \<Longrightarrow>
     named_value decision_value [D_FORWARD, D_DROP, D_FORWARD_PARSE_ERROR] kv k = Some d"
  "map_of kv k = Some (VStr (reason_value y)) \<Longrightarrow>
     named_value reason_value [R_RULE, R_DEFAULT, R_PARSE_ERROR, R_SHADOW] kv k = Some y"
  by (cases d; simp add: named_value_def) (cases y; simp add: named_value_def)

lemma those_Somes: "those (map (\<lambda>x. Some (f x)) xs) = Some (map f xs)"
  by (induction xs) simp_all

lemma read_fields: "map_of kv k = Some (VObj (map (\<lambda>(k, s). (k, VStr s)) fs)) \<Longrightarrow> text_fields kv k = Some fs"
  using those_Somes [of "\<lambda>x. x" fs] by (simp add: text_fields_def comp_def split_def)

interpretation posted: decision_posts parse_ts "read_posted parse_ts" for parse_ts
proof unfold_locales
  fix kv r
  assume d: "describes parse_ts kv r"
  then have "Option.bind (map_of kv ''ts'') (\<lambda>v. case v of VStr s \<Rightarrow> parse_ts s | _ \<Rightarrow> None) = Some (dec_ts r)"
    by (auto simp: describes_def split: option.splits vrl_value.splits)
  with d show "read_posted parse_ts kv = Some r"
    unfolding describes_def read_posted_def by (elim conjE) (simp add: read_column read_named read_fields)
qed

section \<open>The record of a message\<close>

text \<open>What the control plane makes of the sampled record; the parser flags are extra keys.\<close>

definition sampled_record :: "vrl_std \<Rightarrow> read_result \<Rightarrow> verdict \<Rightarrow> string \<Rightarrow> string \<Rightarrow> int \<Rightarrow> decision_record" where
  "sampled_record S e vd node raw t =
     \<lparr>dec_ts = t, dec_decision = v_decision vd, dec_rule_id = map_option rule_id (v_rule vd),
      dec_rule_version = map_option rule_version (v_rule vd), dec_reason = v_reason vd, dec_source = None,
      dec_event_id = Some (summary_text S (re_fields e) ''eventid'' ''syslog.msgid''), dec_node = Some node,
      dec_fields =
        [(''severity'', summary_text S (re_fields e) ''severity'' ''syslog.severity''),
         (''filterhostname'', summary_text S (re_fields e) ''filterhostname'' ''syslog.hostname''),
         (''name'', summary_text S (re_fields e) ''name'' ''syslog.appname'')],
      dec_raw = Some raw, dec_extra = [(''cef_ok'', PBool (re_cef e)), (''syslog_ok'', PBool (re_syslog e))]\<rparr>"

lemma sample_described:
  assumes "parse_ts (ps_now P) = Some t"
  shows "describes parse_ts (sample_record S P e vd node raw) (sampled_record S e vd node raw t)"
  using assms
  by (cases "v_rule vd")
    (simp_all add: describes_def sample_record_def sampled_record_def rule_columns_def column_is_def extras_of_def
      record_names_def)

section \<open>What the intake makes of it\<close>

lemma last_of_last_n: "0 < n \<Longrightarrow> \<exists>xs. last_n n (ys @ [y]) = xs @ [y]"
  by (simp add: last_n_def)

lemma newest_frame:
  assumes "ring_ok m (app_tail a)" "0 < m"
  shows "recent 1 (app_tail (snd (intake cfg (rs @ [r]) a))) = [r]"
proof -
  obtain xs where xs: "last_n m ((tb_items (app_tail a) @ rs) @ [r]) = xs @ [r]"
    using last_of_last_n [OF assms(2), of "tb_items (app_tail a) @ rs" r] by blast
  have "tb_items (app_tail (snd (intake cfg (rs @ [r]) a))) = last_n m (tb_items (app_tail a) @ rs @ [r])"
    using publish_batch [OF assms(1), of "rs @ [r]"] by (simp add: intake_def split_beta del: fold_append)
  also have "\<dots> = xs @ [r]" using xs by simp
  finally show ?thesis unfolding recent_def by (simp add: py_suffix_def)
qed

lemma newest_row:
  assumes "ids_ascending (db_samples (app_db a))" "sample_store_max_events cfg = int n" "0 < n"
    and "app_db (snd (intake cfg (rs @ [r]) a)) = db"
  shows "\<exists>row. load_samples 1 \<lparr>committed = db, current = db\<rparr> = [row] \<and>
    sample_content row = sample_content (sample_of (sample_store_retain_raw cfg) 0 r)"
proof -
  let ?s = "\<lparr>committed = app_db a, current = app_db a\<rparr>" and ?keep = "sample_store_retain_raw cfg"
  let ?s' = "snd (record_samples (int n) ?keep (rs @ [r]) ?s)"
  have ok: "table_ok ?s" using assms(1) by (simp add: table_ok_def)
  have db: "db = current ?s'"
    using assms(2,4) by (auto simp: intake_def session_scope_def record_samples_def commit_def Let_def)
  obtain rows where rows: "table_view ?s' = rows @ [sample_content (sample_of ?keep 0 r)]"
    using samples.view_push [OF ok, of n ?keep "rs @ [r]"]
      last_of_last_n [OF assms(3), of "table_view ?s @ map (\<lambda>r. sample_content (sample_of ?keep 0 r)) rs"]
    by auto
  then obtain pre row where row: "db_samples db = pre @ [row]" "sample_content row = sample_content (sample_of ?keep 0 r)"
    unfolding table_view_def db by (auto simp: map_eq_append_conv)
  have "ids_ascending (db_samples db)"
    using samples.inv_push [OF ok] unfolding table_ok_def db by blast
  then have "sort_key sa_id (db_samples db) = db_samples db"
    by (intro sort_key_id_if_sorted) (simp add: ids_ascending_def strict_sorted_imp_sorted)
  with row show ?thesis by (simp add: load_samples_def Let_def)
qed

section \<open>Properties\<close>



end
