(* ===== verification/Sample_Share.thy ===== *)
theory Sample_Share
  imports Complex_Main Prelude Json Rule_Model Compiler Vector_Config Validate Decision Condition_Meaning Program_Run
    Program_Message Simulate Node_Records Data_Plane
begin

text \<open>
  The drop share the impact preview of \<open>services/simulate.py\<close> projects, on the sample that the
  topology of \<open>compiler/vector_config.py\<close> posts: the sampler passes every drop and one in many of the
  rest, and the preview counts each text once.
\<close>

section \<open>The texts of the sample\<close>

definition posted_texts :: "(string \<times> packet) list \<Rightarrow> string list" where
  "posted_texts ps = concat (map (\<lambda>(s, p).
     (case p of
        Json_Packet kv \<Rightarrow>
          (case (s = ''control_plane_tail'', map_of kv ''raw'') of (True, Some (VStr t)) \<Rightarrow> [t] | _ \<Rightarrow> [])
      | Text_Packet t \<Rightarrow> [])) ps)"

definition message_verdict :: "vrl_std \<Rightarrow> parsers \<Rightarrow> rule_chain \<Rightarrow> string \<Rightarrow> verdict" where
  "message_verdict S P ch raw =
     decide ch (readable (read_event S P raw)) (rule_matches S (re_fields (read_event S P raw)))"

definition dropped_by :: "vrl_std \<Rightarrow> parsers \<Rightarrow> rule_chain \<Rightarrow> string \<Rightarrow> bool" where
  "dropped_by S P ch raw \<longleftrightarrow> v_decision (message_verdict S P ch raw) = D_DROP"

lemma posted_of_deliveries:
  "posted_texts (deliveries S P version node keep raw e vd) = (if v_decision vd = D_DROP \<or> keep then [raw] else [])"
  by (auto simp: posted_texts_def deliveries_def sample_record_def rule_columns_def)

text \<open>What a node posts of messages, each with the choice of the sampler.\<close>

definition sampled_texts ::
    "(string \<Rightarrow> vobj \<Rightarrow> vobj) \<Rightarrow> (string \<Rightarrow> vobj \<Rightarrow> bool) \<Rightarrow> json \<Rightarrow> (string \<times> bool) list \<Rightarrow> string list" where
  "sampled_texts prog test c ms = concat (map (\<lambda>(raw, keep).
     posted_texts (deliver 4 prog test keep c (''ingest'', [(''message'', VStr raw)]))) ms)"

lemma sampled_texts_node:
  assumes "node_runs S P ch st version c prog test"
  shows "sampled_texts prog test c ms = map fst (filter (\<lambda>(raw, keep). dropped_by S P ch raw \<or> keep) ms)"
proof -
  have "deliver 4 prog test keep c (''ingest'', [(''message'', VStr raw)]) =
      deliveries S P version (node_id st) keep raw (read_event S P raw) (message_verdict S P ch raw)" for raw keep
    using node_delivers [OF assms _ refl refl, of "[(''message'', VStr raw)]" raw 0 keep]
    by (simp add: message_verdict_def)
  then show ?thesis
    by (induction ms) (auto simp: sampled_texts_def posted_of_deliveries dropped_by_def split: if_splits)
qed

lemma sampled_counts:
  "length (filter (\<lambda>(raw, keep). d raw \<or> keep) ms) =
     count_if (\<lambda>(raw, keep). d raw) ms + count_if (\<lambda>(raw, keep). keep \<and> \<not> d raw) ms"
  "count_if d (map fst (filter (\<lambda>(raw, keep). d raw \<or> keep) ms)) = count_if (\<lambda>(raw, keep). d raw) ms"
  by (induction ms) (auto simp: count_if_def)

section \<open>Properties\<close>


text \<open>One message in a hundred and one is dropped, the sampler passes one of the hundred others: half of the
  sample is drops, and confirmation is asked for.\<close>

definition plain_parsers :: parsers where
  "plain_parsers = \<lparr>ps_syslog = (\<lambda>s. if hd s = CHR ''x'' then None else Some []), ps_cef = (\<lambda>s. None),
     ps_lower = (\<lambda>kv. kv), ps_now = ''2026-01-01T00:00:00Z''\<rparr>"

definition mostly_forwarded :: "(string \<times> bool) list" where
  "mostly_forwarded = (''abc'', False) # (''xyz'', True) # replicate 99 (''xyz'', False)"

lemma plain_verdict: "message_verdict sample_std plain_parsers drop_chain = sample_verdict"
proof
  fix l
  have "active drop_chain = []" by code_simp
  moreover have "readable (read_event sample_std plain_parsers l) \<longleftrightarrow> hd l \<noteq> CHR ''x''"
    by (auto simp: readable_def read_event_def cef_fields_of_def plain_parsers_def Let_def split: option.split)
  ultimately show "message_verdict sample_std plain_parsers drop_chain l = sample_verdict l"
    by (simp add: message_verdict_def sample_verdict_def decide_def)
qed


end
