(* ===== verification/Node_Sync.thy ===== *)
theory Node_Sync
  imports Prelude Json Database Bundles Agent Api
begin

text \<open>
  The node agent against the control plane: a poll fetches from the route \<open>/api/agent/bundle\<close>. The
  transport carries a JSON document unchanged and an error status is a failed fetch.
\<close>

definition fetch_from :: "(int \<Rightarrow> string) \<Rightarrow> database \<Rightarrow> int \<Rightarrow> fetched" where
  "fetch_from stamp db since =
     (case agent_bundle stamp since db of Inl e \<Rightarrow> Fetch_Failed | Inr j \<Rightarrow> Payload j)"

definition poll_server :: "agent_env \<Rightarrow> (int \<Rightarrow> string) \<Rightarrow> database \<Rightarrow> files \<Rightarrow> (agent_exn, bool) result \<times> files \<times> bool" where
  "poll_server env stamp db fs = poll_once env (fetch_from stamp db) fs"

text \<open>The files after a number of polls.\<close>

fun polls :: "agent_env \<Rightarrow> (int \<Rightarrow> string) \<Rightarrow> database \<Rightarrow> nat \<Rightarrow> files \<Rightarrow> files" where
  "polls env stamp db 0 fs = fs"
| "polls env stamp db (Suc n) fs = polls env stamp db n (fst (snd (poll_server env stamp db fs)))"

definition in_sync :: "agent_env \<Rightarrow> config_bundle \<Rightarrow> files \<Rightarrow> bool" where
  "in_sync env b fs \<longleftrightarrow>
     fs Config_File = Some (bundle_config b) \<and> current_version env fs = Inr (bm_version (bundle_manifest b))"

text \<open>The state document the agent writes reads back.\<close>

definition state_reads_back :: "agent_env \<Rightarrow> bool" where
  "state_reads_back env \<longleftrightarrow> (\<forall>v c. ae_loads env (ae_dumps env (state_json (JInt v) c)) = Some (state_json (JInt v) c))"

lemma agent_bundle_changed:
  assumes "get_active_bundle db = Some b" "bm_version (bundle_manifest b) \<noteq> since"
  shows "fetch_from stamp db since = Payload (JObj [(''changed'', JBool True),
    (''manifest'', manifest_json stamp (bundle_manifest b)), (''config_toml'', JStr (bundle_config b))])"
  using assms by (simp add: fetch_from_def agent_bundle_def)

lemma poll_unchanged:
  assumes "get_active_bundle db = Some b" "current_version env fs = Inr (bm_version (bundle_manifest b))"
  shows "poll_server env stamp db fs = (Inr False, fs, False)"
  using assms
  by (simp add: poll_server_def poll_once_def poll_ops_def fetch_from_def agent_bundle_def apply_payload_def)

lemma poll_applies:
  assumes "get_active_bundle db = Some b" "current_version env fs = Inr v" "v \<noteq> bm_version (bundle_manifest b)"
    and "bm_checksum (bundle_manifest b) = ae_sha256 env (bundle_config b)"
  shows "poll_server env stamp db fs =
    (Inr True, do_ops (write_ops env (bundle_config b) (JInt (bm_version (bundle_manifest b)))) fs, True)"
  using assms
  by (simp add: poll_server_def poll_once_def poll_ops_def agent_bundle_changed apply_payload_def manifest_json_def
      write_config_def)

lemma applied_in_sync:
  assumes "state_reads_back env"
  shows "in_sync env b (do_ops (write_ops env (bundle_config b) (JInt (bm_version (bundle_manifest b)))) fs)"
  using assms version_after_write [of env "bm_version (bundle_manifest b)" "bundle_config b" fs]
  by (simp add: in_sync_def write_ops_result state_reads_back_def)

lemma polls_fixed: "poll_server env stamp db fs = (res, fs, sig) \<Longrightarrow> polls env stamp db n fs = fs"
  by (induction n) simp_all

text \<open>The active bundle of a sound bundle table verifies, and its version is positive.\<close>

lemma active_verifies:
  assumes "bundles_ok benv db" "get_active_bundle db = Some b"
  shows "bm_checksum (bundle_manifest b) = sha256_hex benv (bundle_config b) \<and> 1 \<le> bm_version (bundle_manifest b)"
proof -
  obtain row where row: "find br_active (db_bundles db) = Some row"
    and b: "b = \<lparr>bundle_manifest = br_manifest row, bundle_config = br_config_toml row\<rparr>"
    using assms(2) by (auto simp: get_active_bundle_def active_bundle_row_def)
  have "row \<in> set (db_bundles db)" using row by (auto simp: find_Some_iff)
  then have "bundle_ok benv row"
    using assms(1) by (simp add: bundles_ok_def list_all_iff)
  then show ?thesis by (simp add: b bundle_ok_def checksum_def)
qed

text \<open>An agent and a published bundle for the concrete instances.\<close>

definition sample_node :: agent_env where
  "sample_node = \<lparr>ae_sha256 = (\<lambda>t. ''sha256:'' @ t),
     ae_loads = (\<lambda>t. case py_split CHR '':'' t of
        v # c # cs \<Rightarrow> Some (state_json (JInt (read_int v)) (py_join '':'' (c # cs))) | _ \<Rightarrow> None),
     ae_dumps = (\<lambda>j. case (jget ''version'' j, jget ''checksum'' j) of
        (Some (JInt v), Some (JStr c)) \<Rightarrow> int_str v @ '':'' @ c | _ \<Rightarrow> [])\<rparr>"

lemma sample_node_reads_back: "state_reads_back sample_node"
proof -
  have "CHR '':'' \<notin> set (int_str v)" for v
    using int_str_chars [of "CHR '':''" v] by (auto simp: is_ascii_digit_def)
  then have s: "py_split CHR '':'' (int_str v @ CHR '':'' # c) = int_str v # py_split CHR '':'' c" for v c
    by (rule py_split_append)
  have j: "py_split CHR '':'' u = x # xs \<Longrightarrow> py_join '':'' (x # xs) = u" for u x xs
    by (metis py_join_split)
  show ?thesis
    by (auto simp: state_reads_back_def sample_node_def state_json_def s dest: j split: list.splits)
qed

definition published_app :: app where
  "published_app = snd (serve sample_api (credentials_of ''admin:ann'') (Publish_Bundle ''first'')
     \<lparr>app_db = empty_db\<lparr>db_users := [account ''ann'' ADMIN, account ''vic'' VIEWER]\<rparr>, app_tail = new_buffer 500, app_sockets = []\<rparr>)"

lemma published_app_reach: "app_reach sample_api published_app"
proof -
  have "app_reach sample_api (\<lparr>app_db = empty_db, app_tail = new_buffer 500, app_sockets = []\<rparr>
    \<lparr>app_db := (app_db \<lparr>app_db = empty_db, app_tail = new_buffer 500, app_sockets = []\<rparr>)\<lparr>db_users := [account ''ann'' ADMIN, account ''vic'' VIEWER]\<rparr>\<rparr>)"
    by (intro app_reach.administered app_reach.booted)
  then show ?thesis unfolding published_app_def by (intro app_reach.served) simp
qed

lemma published_app_bundle:
  "map_option (\<lambda>b. (bm_version (bundle_manifest b), bundle_config b)) (get_active_bundle (app_db published_app)) =
     Some (1, ''# config'')"
proof -
  define db where "db = empty_db\<lparr>db_users := [account ''ann'' ADMIN, account ''vic'' VIEWER]\<rparr>"
  have ann: "principal_for sample_api (credentials_of ''admin:ann'') db = Inr \<lparr>pr_username = ''ann'', pr_role = ADMIN\<rparr>"
    using principal_users_cong [of db "app_db sample_app"] sample_principals(1) by (simp add: db_def sample_app_def)
  obtain x s' where p: "publish sample_env ''ann'' ''first'' None 7 \<lparr>committed = db, current = db\<rparr> = (Inr x, s')"
    and m: "map (\<lambda>b. (br_version b, br_config_toml b, br_active b, bm_version (br_manifest b))) (db_bundles (current s')) =
      [(1, ''# config'', True, 1)]"
    using publish_empty [of db "''ann''" "''first''" 7] by (auto simp: db_def empty_db_def)
  have env: "ae_bundles sample_api = sample_env" "cred_now (credentials_of t) = 7" for t
    by (simp_all add: sample_api_def credentials_of_def)
  have "app_db published_app = current s'"
    by (simp add: published_app_def db_def [symmetric] serve_def in_session_def with_role_def ann require_role_def
        at_least_def publish_bundle_def committing_def env p commit_def)
  with m show ?thesis by (auto simp: get_active_bundle_def active_bundle_row_def)
qed

section \<open>Properties\<close>

text \<open>Nodes converge: while the control plane serves an active bundle, the first poll of a node that
  can read its state brings its configuration and its recorded version to that bundle, unless it
  records that version already, and any number of further polls changes nothing and signals nothing;
  a change of the active bundle, upward or back, is picked up in the same way.\<close>

theorem node_converges:
  assumes "app_reach env a" "get_active_bundle (app_db a) = Some b"
    and "\<And>t. ae_sha256 agent t = sha256_hex (ae_bundles env) t" "state_reads_back agent"
    and "current_version agent fs = Inr v" "v \<noteq> bm_version (bundle_manifest b)"
  shows "in_sync agent b (polls agent stamp (app_db a) (Suc n) fs) \<and>
    fst (poll_server agent stamp (app_db a) fs) = Inr True \<and>
    poll_server agent stamp (app_db a) (polls agent stamp (app_db a) (Suc n) fs) =
      (Inr False, polls agent stamp (app_db a) (Suc n) fs, False)"
proof -
  let ?fs = "do_ops (write_ops agent (bundle_config b) (JInt (bm_version (bundle_manifest b)))) fs"
  have "bm_checksum (bundle_manifest b) = ae_sha256 agent (bundle_config b)"
    using active_verifies [OF app_bundles_ok [OF assms(1)] assms(2)] assms(3) by simp
  then have first: "poll_server agent stamp (app_db a) fs = (Inr True, ?fs, True)"
    by (rule poll_applies [OF assms(2,5,6)])
  have sync: "in_sync agent b ?fs" by (rule applied_in_sync [OF assms(4)])
  then have stay: "poll_server agent stamp (app_db a) ?fs = (Inr False, ?fs, False)"
    using poll_unchanged [OF assms(2)] by (simp add: in_sync_def)
  have "polls agent stamp (app_db a) (Suc n) fs = ?fs" using first polls_fixed [OF stay] by simp
  then show ?thesis using first sync stay by simp
qed

theorem node_converges_witness:
  "\<exists>b. get_active_bundle (app_db published_app) = Some b \<and>
     in_sync sample_node b (polls sample_node int_str (app_db published_app) 4 (\<lambda>f. None))"
proof -
  obtain b where b: "get_active_bundle (app_db published_app) = Some b" "bm_version (bundle_manifest b) = 1"
    using published_app_bundle by auto
  have h: "\<And>t. ae_sha256 sample_node t = sha256_hex (ae_bundles sample_api) t"
    "current_version sample_node (\<lambda>f. None) = Inr 0" "(0 :: int) \<noteq> bm_version (bundle_manifest b)"
    using b(2) by (simp_all add: sample_node_def sample_api_def sample_env_def current_version_def)
  show ?thesis
    using node_converges [OF published_app_reach b(1) h(1) sample_node_reads_back h(2,3), of int_str 3] b(1)
    by (auto simp: numeral_eq_Suc)
qed

text \<open>C21: The order of the two writes leaves a gap: when a node crashes after it replaced its
  configuration and before it saved its state, and the control plane goes back to the version the state
  still names before the node polls again, every later poll reports that nothing changed and the node
  keeps running the configuration that was rolled back.\<close>

theorem crash_then_rollback_diverges:
  assumes "current_version agent fs = Inr (bm_version (bundle_manifest b))" "fs Config_File = Some (bundle_config b)"
    and "get_active_bundle db = Some b"
  shows "\<exists>fs'. torn (write_ops agent newer (JInt w)) fs fs' \<and> fs' Config_File = Some newer \<and>
    polls agent stamp db n fs' = fs' \<and> fst (poll_server agent stamp db fs') = Inr False"
proof -
  let ?fs = "do_op (Replace Tmp_File Config_File) (do_op (Write Tmp_File newer) fs)"
  have t: "torn (write_ops agent newer (JInt w)) fs ?fs"
    unfolding write_ops_def by (rule torn_step [OF torn_step [OF torn_now]])
  have "current_version agent ?fs = current_version agent fs" by (rule current_version_cong) simp
  then have p: "poll_server agent stamp db ?fs = (Inr False, ?fs, False)"
    using poll_unchanged [OF assms(3)] assms(1) by simp
  show ?thesis using t p polls_fixed [OF p] by (intro exI [of _ ?fs]) simp
qed

theorem crash_then_rollback_diverges_witness:
  "\<exists>b fs'. get_active_bundle (app_db published_app) = Some b \<and> fs' Config_File = Some ''newer'' \<and>
     polls sample_node int_str (app_db published_app) 9 fs' = fs'"
proof -
  obtain b where b: "get_active_bundle (app_db published_app) = Some b" using published_app_bundle by auto
  let ?fs = "do_ops (write_ops sample_node (bundle_config b) (JInt (bm_version (bundle_manifest b)))) (\<lambda>f. None)"
  have "in_sync sample_node b ?fs" by (rule applied_in_sync [OF sample_node_reads_back])
  then have f: "current_version sample_node ?fs = Inr (bm_version (bundle_manifest b))"
    "?fs Config_File = Some (bundle_config b)"
    by (simp_all add: in_sync_def)
  show ?thesis
    using crash_then_rollback_diverges [OF f b, of "''newer''" 2 int_str 9] b by blast
qed

end
