(* ===== verification/Deployment.thy ===== *)
theory Deployment
  imports Complex_Main Prelude Rule_Model Compiler Program_Text Decision Predicate_Syntax Condition_Meaning
    Program_Run Program_Message Json Vector_Config
    Settings Database Change_Log Rules_Service Bundles Agent Api Node_Sync
begin

text \<open>
  The control plane and its nodes as one system: requests and account changes move the control
  plane, polls move one node each, and the two only meet in the route \<open>/api/agent/bundle\<close>. The
  invariant says what every node holds in terms of the bundle table, and where every stored bundle
  comes from; with the meaning of conditions it says what a node does with an event.
\<close>

section \<open>Where a stored bundle comes from\<close>

definition built_from :: "bundle_env \<Rightarrow> rule_chain \<Rightarrow> bundle_row \<Rightarrow> bool" where
  "built_from env ch row \<longleftrightarrow> list_all valid_rule (chain_rules ch) \<and>
     render_toml (toml_dumps env) ch (vector_settings_from_config (env_settings env)) (br_version row) =
       Inr (br_config_toml row) \<and>
     bm_rule_ids (br_manifest row) = map rule_id (active ch)"

definition bundles_built :: "bundle_env \<Rightarrow> database \<Rightarrow> bool" where
  "bundles_built env db \<longleftrightarrow> (\<forall>row \<in> set (db_bundles db). \<exists>ch. built_from env ch row)"

lemma built_from_active [simp]: "built_from env ch (row\<lparr>br_active := b\<rparr>) = built_from env ch row"
  by (simp add: built_from_def)

lemma bundles_built_cong: "db_bundles d = db_bundles d' \<Longrightarrow> bundles_built env d = bundles_built env d'"
  by (simp add: bundles_built_def)

lemma bundles_built_map:
  assumes "bundles_built env db"
    and "db_bundles db' = map (\<lambda>b. b\<lparr>br_active := f b\<rparr>) (db_bundles db)"
  shows "bundles_built env db'"
  using assms by (auto simp: bundles_built_def)

lemma publish_built:
  assumes "publish env actor msg require now s = (Inr x, s')" "bundles_built env (current s)"
  shows "bundles_built env (current s')"
proof -
  obtain ch s1 row skipped where p: "load_chain s = (Inr ch, s1)"
    "prepare env ch (next_version (current s)) actor msg require now = Inr (row, skipped)"
    "db_bundles (current s') = db_bundles (add_bundle row (deactivate_all (current s)))"
    using publish_cases(2) [OF assms(1) refl] by blast
  have "list_all valid_rule (chain_rules ch)" using mapR_rows [OF load_chain_rules [OF p(1)]] by blast
  then have "built_from env ch row"
    by (rule_tac prepare_row [OF p(2)]) (simp add: built_from_def)
  moreover have "bundles_built env (deactivate_all (current s))"
    by (rule bundles_built_map [OF assms(2) deactivate_all_bundles])
  ultimately show ?thesis by (auto simp: bundles_built_def p(3) add_bundle_def)
qed

lemma service_step_built:
  assumes "service_step env (actor, now, op) db = (Inr x, db')" "bundles_built env db"
  shows "bundles_built env db'"
proof (cases op)
  case (Rule_Op rop)
  then obtain y where "rule_step (actor, now, rop) db = (Inr y, db')"
    using assms(1) by (auto simp: bindR_Inr_iff mapError_Inr_iff split: prod.splits)
  then have "db_bundles db' = db_bundles db" by (rule rule_step_bundles)
  with assms(2) show ?thesis using bundles_built_cong by blast
next
  case (Publish msg require)
  then obtain y where "session_scope (publish env actor msg require now) db = (Inr y, db')"
    using assms(1) by (auto simp: bindR_Inr_iff split: prod.splits)
  then obtain s' where "publish env actor msg require now \<lparr>committed = db, current = db\<rparr> = (Inr y, s')" "db' = current s'"
    by (rule scope_succeeded)
  then show ?thesis using publish_built assms(2) by fastforce
next
  case (Rollback v)
  then obtain y where "session_scope (rollback v actor now) db = (Inr y, db')"
    using assms(1) by (auto simp: bindR_Inr_iff split: prod.splits)
  then obtain s' where p: "rollback v actor now \<lparr>committed = db, current = db\<rparr> = (Inr y, s')" "db' = current s'"
    by (rule scope_succeeded)
  have "db_bundles db' = map (\<lambda>b. b\<lparr>br_active := (br_version b = v)\<rparr>) (db_bundles db)"
    using rollback_cases(2) [OF p(1) refl] p(2) by (auto simp: activate_deactivated)
  then show ?thesis by (rule bundles_built_map [OF assms(2)])
qed

section \<open>One step of the control plane\<close>

inductive app_next :: "api_env \<Rightarrow> app \<Rightarrow> app \<Rightarrow> bool" for env where
  next_served: "app_next env a (snd (serve env c req a))"
| next_connected: "i \<notin> fst ` set (app_sockets a) \<Longrightarrow> app_next env a (ws_connect env now header i a)"
| next_sent: "app_next env a (snd (ws_send i a))"
| next_closed: "app_next env a (ws_disconnect i a)"
| next_administered: "app_next env a (a\<lparr>app_db := (app_db a)\<lparr>db_users := users\<rparr>\<rparr>)"

lemma app_next_reach: "app_reach env a \<Longrightarrow> app_next env a a' \<Longrightarrow> app_reach env a'"
  by (auto elim!: app_next.cases intro: app_reach.intros)

text \<open>A step leaves the bundle table, or runs one transaction of the services.\<close>

lemma app_next_bundles:
  assumes "app_next env a a'"
  shows "db_bundles (app_db a') = db_bundles (app_db a) \<or>
    (\<exists>actor now op x. service_step (ae_bundles env) (actor, now, op) (app_db a) = (Inr x, app_db a'))"
  using assms
proof cases
  case (next_served c req)
  obtain res b where s: "serve env c req a = (res, b)" by fastforce
  show ?thesis
  proof (cases "\<forall>rs. req \<noteq> Intake rs")
    case True
    then show ?thesis using serve_refines [OF s True] s next_served by auto
  next
    case False
    then show ?thesis using intake_bundles next_served by (auto simp: serve_def)
  qed
qed (auto simp: ws_connect_def ws_send_def ws_disconnect_def split: sum.splits option.splits prod.splits)

lemma app_next_content:
  assumes "app_next env a a'" "content_of (app_db a) v = Some c"
  shows "content_of (app_db a') v = Some c"
  using app_next_bundles [OF assms(1)]
proof
  assume "db_bundles (app_db a') = db_bundles (app_db a)"
  then show ?thesis using content_cong assms(2) by metis
next
  assume "\<exists>actor now op x. service_step (ae_bundles env) (actor, now, op) (app_db a) = (Inr x, app_db a')"
  then show ?thesis using service_step_effect bundle_change_content [OF _ assms(2)] by blast
qed

lemma app_reach_built: "app_reach env a \<Longrightarrow> bundles_built (ae_bundles env) (app_db a)"
proof (induction rule: app_reach.induct)
  case booted
  show ?case by (simp add: bundles_built_def empty_db_def)
next
  case (served a c req)
  have n: "app_next env a (snd (serve env c req a))" by (rule app_next.intros)
  show ?case using app_next_bundles [OF n] served.IH bundles_built_cong service_step_built by metis
next
  case (connected a i now header)
  have n: "app_next env a (ws_connect env now header i a)" using connected.hyps by (intro app_next.intros)
  show ?case using app_next_bundles [OF n] connected.IH bundles_built_cong service_step_built by metis
next
  case (sent a i)
  have n: "app_next env a (snd (ws_send i a))" by (rule app_next.intros)
  show ?case using app_next_bundles [OF n] sent.IH bundles_built_cong service_step_built by metis
next
  case (closed a i)
  have n: "app_next env a (ws_disconnect i a)" by (rule app_next.intros)
  show ?case using app_next_bundles [OF n] closed.IH bundles_built_cong service_step_built by metis
next
  case (administered a users)
  then show ?case by (simp add: bundles_built_def)
qed

section \<open>The system\<close>

record system =
  sys_app :: app
  sys_nodes :: "nat \<Rightarrow> files"

definition fresh_system :: system where
  "fresh_system = \<lparr>sys_app = \<lparr>app_db = empty_db, app_tail = new_buffer 500, app_sockets = []\<rparr>,
     sys_nodes = (\<lambda>i f. None)\<rparr>"

definition poll_node :: "agent_env \<Rightarrow> (int \<Rightarrow> string) \<Rightarrow> nat \<Rightarrow> system \<Rightarrow> system" where
  "poll_node agent stamp i s = s\<lparr>sys_nodes := (sys_nodes s)
     (i := fst (snd (poll_server agent stamp (app_db (sys_app s)) (sys_nodes s i))))\<rparr>"

definition poll_offline :: "agent_env \<Rightarrow> nat \<Rightarrow> system \<Rightarrow> system" where
  "poll_offline agent i s = s\<lparr>sys_nodes := (sys_nodes s)
     (i := fst (snd (poll_once agent (\<lambda>since. Fetch_Failed) (sys_nodes s i))))\<rparr>"

text \<open>The reached states; \<open>crashes\<close> says whether a poll may be cut off among its file operations.\<close>

inductive sys_reach :: "api_env \<Rightarrow> agent_env \<Rightarrow> (int \<Rightarrow> string) \<Rightarrow> bool \<Rightarrow> system \<Rightarrow> bool"
  for env agent stamp crashes where
  sys_start: "sys_reach env agent stamp crashes fresh_system"
| sys_control: "sys_reach env agent stamp crashes s \<Longrightarrow> app_next env (sys_app s) a \<Longrightarrow>
    sys_reach env agent stamp crashes (s\<lparr>sys_app := a\<rparr>)"
| sys_poll: "sys_reach env agent stamp crashes s \<Longrightarrow> sys_reach env agent stamp crashes (poll_node agent stamp i s)"
| sys_offline: "sys_reach env agent stamp crashes s \<Longrightarrow> sys_reach env agent stamp crashes (poll_offline agent i s)"
| sys_crash: "sys_reach env agent stamp crashes s \<Longrightarrow> crashes \<Longrightarrow>
    torn (snd (poll_ops agent (fetch_from stamp (app_db (sys_app s))) (sys_nodes s i))) (sys_nodes s i) fs \<Longrightarrow>
    sys_reach env agent stamp crashes (s\<lparr>sys_nodes := (sys_nodes s)(i := fs)\<rparr>)"

text \<open>A node holds nothing yet, or the configuration of the version it records.\<close>

definition node_holds :: "agent_env \<Rightarrow> database \<Rightarrow> files \<Rightarrow> bool" where
  "node_holds agent db fs \<longleftrightarrow>
     (fs Config_File = None \<and> fs State_File = None) \<or>
     (\<exists>v row. content_of db v = Some row \<and> fs Config_File = Some (br_config_toml row) \<and>
        current_version agent fs = Inr v)"

lemma offline_unchanged: "poll_offline agent i s = s"
proof -
  have "fst (snd (poll_once agent (\<lambda>since. Fetch_Failed) fs)) = fs" for fs
    by (auto simp: poll_once_def poll_ops_def Let_def split: sum.splits)
  then show ?thesis by (simp add: poll_offline_def)
qed

lemma fetch_from_none: "get_active_bundle db = None \<Longrightarrow> fst (snd (poll_server agent stamp db fs)) = fs"
  by (auto simp: poll_server_def poll_once_def poll_ops_def fetch_from_def agent_bundle_def Let_def split: sum.splits)

text \<open>The active bundle is a row of the table under its version.\<close>

lemma active_content:
  assumes "bundles_ok env db" "get_active_bundle db = Some b"
  shows "\<exists>row. content_of db (bm_version (bundle_manifest b)) = Some row \<and> br_config_toml row = bundle_config b"
proof -
  obtain row where row: "find br_active (db_bundles db) = Some row"
    and b: "b = \<lparr>bundle_manifest = br_manifest row, bundle_config = br_config_toml row\<rparr>"
    using assms(2) by (auto simp: get_active_bundle_def active_bundle_row_def)
  have in_db: "row \<in> set (db_bundles db)" using row by (auto simp: find_Some_iff)
  then have v: "bm_version (br_manifest row) = br_version row"
    using assms(1) by (simp add: bundles_ok_def list_all_iff bundle_ok_def)
  obtain row' where r: "find_bundle db (br_version row) = Some row'"
    using in_db by (cases "find_bundle db (br_version row)") (auto simp: find_bundle_def find_None_iff)
  have "inj_on br_version (set (db_bundles db))" using assms(1) by (simp add: bundles_ok_def distinct_map)
  then have "row' = row" using find_bundle_Some [OF r] in_db by (auto dest: inj_onD)
  with r v show ?thesis by (simp add: b content_of_def)
qed

text \<open>A node that holds what it records is brought to the active bundle by one poll.\<close>

lemma poll_reaches:
  assumes "bundles_ok benv db" "get_active_bundle db = Some b" "node_holds agent db fs"
    and "\<And>t. ae_sha256 agent t = sha256_hex benv t" "state_reads_back agent"
  shows "in_sync agent b (fst (snd (poll_server agent stamp db fs)))"
proof -
  note ok = active_verifies [OF assms(1,2)]
  obtain v where v: "current_version agent fs = Inr v"
    using assms(3) by (auto simp: node_holds_def current_version_def)
  show ?thesis
  proof (cases "v = bm_version (bundle_manifest b)")
    case True
    then have same: "poll_server agent stamp db fs = (Inr False, fs, False)"
      using poll_unchanged [OF assms(2)] v by simp
    have "v \<noteq> 0" using True ok by simp
    then have "fs State_File \<noteq> None" using v by (cases "fs State_File") (auto simp: current_version_def)
    then obtain row where "content_of db v = Some row" "fs Config_File = Some (br_config_toml row)"
      using assms(3) v by (auto simp: node_holds_def)
    then show ?thesis
      using active_content [OF assms(1,2)] True v by (auto simp: same in_sync_def)
  next
    case False
    then show ?thesis
      using poll_applies [OF assms(2) v False] ok assms(4) applied_in_sync [OF assms(5)] by simp
  qed
qed

lemma in_sync_holds:
  "bundles_ok env db \<Longrightarrow> get_active_bundle db = Some b \<Longrightarrow> in_sync agent b fs \<Longrightarrow> node_holds agent db fs"
  using active_content by (fastforce simp: node_holds_def in_sync_def)

text \<open>The control plane of a reached system is a reached application, and every node holds what it
  records.\<close>

lemma sys_app_reach: "sys_reach env agent stamp crashes s \<Longrightarrow> app_reach env (sys_app s)"
proof (induction rule: sys_reach.induct)
  case sys_start
  show ?case by (simp add: fresh_system_def app_reach.booted)
next
  case (sys_control s a)
  then show ?case using app_next_reach by simp
qed (simp_all add: poll_node_def offline_unchanged)

lemma nodes_hold:
  assumes "sys_reach env agent stamp False s"
    and "\<And>t. ae_sha256 agent t = sha256_hex (ae_bundles env) t" "state_reads_back agent"
  shows "node_holds agent (app_db (sys_app s)) (sys_nodes s i)"
  using assms(1)
proof (induction arbitrary: i rule: sys_reach.induct)
  case sys_start
  show ?case by (simp add: fresh_system_def node_holds_def)
next
  case (sys_control s a)
  have "content_of (app_db (sys_app s)) v = Some row \<Longrightarrow> content_of (app_db a) v = Some row" for v row
    by (rule app_next_content [OF sys_control.hyps(2)])
  then show ?case using sys_control.IH [of i] unfolding node_holds_def by auto
next
  case (sys_poll s j)
  let ?db = "app_db (sys_app s)"
  have ok: "bundles_ok (ae_bundles env) ?db" by (rule app_bundles_ok [OF sys_app_reach [OF sys_poll.hyps]])
  have "node_holds agent ?db (fst (snd (poll_server agent stamp ?db (sys_nodes s j))))"
  proof (cases "get_active_bundle ?db")
    case None
    then show ?thesis using sys_poll.IH by (simp add: fetch_from_none)
  next
    case (Some b)
    show ?thesis
      by (rule in_sync_holds [OF ok Some poll_reaches [OF ok Some sys_poll.IH assms(2,3)]])
  qed
  then show ?case using sys_poll.IH by (simp add: poll_node_def)
qed (simp_all add: offline_unchanged)

section \<open>What a node does with an event\<close>

text \<open>
  A configuration whose program, in every semantics of VRL, leaves on every raw message the record
  of the chain and the version.
\<close>

definition decides_as :: "json \<Rightarrow> rule_chain \<Rightarrow> int \<Rightarrow> bool" where
  "decides_as config ch version \<longleftrightarrow>
     (\<exists>ls. jpath [''transforms'', ''decide'', ''source''] config = Some (JStr (lines_text ls)) \<and>
       (\<forall>eval run call S attempt message_of P env raw.
          vrl_program eval run call S attempt message_of P \<longrightarrow> env ''.message'' = VStr raw \<longrightarrow>
          (let e = read_event S P raw in
           run ls env ''.ss'' =
             VObj (ss_record S P version e (decide ch (readable e) (rule_matches S (re_fields e)))))))"

lemma built_decides:
  assumes "built_from env ch row"
  shows "\<exists>config. br_config_toml row = toml_dumps env config \<and> decides_as config ch (br_version row)"
proof -
  obtain config where c: "build_config ch (vector_settings_from_config (env_settings env)) (br_version row) = Inr config"
    "br_config_toml row = toml_dumps env config"
    using assms by (auto simp: built_from_def render_toml_def bindR_Inr_iff)
  then obtain p n where p: "compile_or_raise ch (br_version row) = Inr p"
    and config: "config = JObj [(''sources'', sources (vector_settings_from_config (env_settings env))),
      (''transforms'', transforms (vector_settings_from_config (env_settings env)) p n),
      (''sinks'', sinks (vector_settings_from_config (env_settings env)))]"
    by (auto simp: build_config_Inr_iff)
  have j: "jpath [''transforms'', ''decide'', ''source''] config = Some (JStr p)"
    by (simp add: config transforms_def remap_def)
  have "compile_chain ch (br_version row) = Inr p"
    using p by (auto simp: compile_or_raise_def mapError_Inr_iff)
  then obtain ls where ls: "chain_lines ch (br_version row) = Inr ls" "p = lines_text (PRELUDE_LINES @ [] # ls)"
    by (rule compile_chain_lines)
  have "decides_as config ch (br_version row)"
    unfolding decides_as_def Let_def
    using j ls(2) vrl_program.runs_on_message [OF _ ls(1) _ refl]
    by (intro exI [of _ "PRELUDE_LINES @ [] # ls"]) blast
  with c(2) show ?thesis by blast
qed

lemma content_row: "content_of db v = Some c \<Longrightarrow> \<exists>row \<in> set (db_bundles db). c = row\<lparr>br_active := False\<rparr>"
  using find_bundle_Some by (auto simp: content_of_def)

text \<open>Cut off or not, a poll leaves the configuration or puts the active one in its place.\<close>

lemma poll_ops_served:
  "snd (poll_ops agent (fetch_from stamp db) fs) = [] \<or>
     (\<exists>b v. get_active_bundle db = Some b \<and> snd (poll_ops agent (fetch_from stamp db) fs) = write_ops agent (bundle_config b) v)"
  by (cases "get_active_bundle db")
    (auto simp: poll_ops_def fetch_from_def agent_bundle_def apply_payload_def manifest_json_def write_config_def
      split: sum.splits)

lemma torn_poll_config:
  assumes "torn (snd (poll_ops agent (fetch_from stamp db) fs)) fs fs'"
  shows "fs' Config_File = fs Config_File \<or>
    (\<exists>b. get_active_bundle db = Some b \<and> fs' Config_File = Some (bundle_config b))"
  using poll_ops_served [of agent stamp db fs]
proof
  assume "snd (poll_ops agent (fetch_from stamp db) fs) = []"
  with assms show ?thesis by auto
next
  assume "\<exists>b v. get_active_bundle db = Some b \<and>
    snd (poll_ops agent (fetch_from stamp db) fs) = write_ops agent (bundle_config b) v"
  with assms torn_write_ops show ?thesis by metis
qed

definition runs_published :: "database \<Rightarrow> files \<Rightarrow> bool" where
  "runs_published db fs \<longleftrightarrow>
     (case fs Config_File of None \<Rightarrow> True | Some toml \<Rightarrow> (\<exists>v row. content_of db v = Some row \<and> toml = br_config_toml row))"

lemma torn_runs_published:
  assumes "bundles_ok env db" "runs_published db fs"
    and "torn (snd (poll_ops agent (fetch_from stamp db) fs)) fs fs'"
  shows "runs_published db fs'"
  using torn_poll_config [OF assms(3)]
proof
  assume "fs' Config_File = fs Config_File"
  with assms(2) show ?thesis by (simp add: runs_published_def)
next
  assume "\<exists>b. get_active_bundle db = Some b \<and> fs' Config_File = Some (bundle_config b)"
  then show ?thesis using active_content [OF assms(1)] by (fastforce simp: runs_published_def)
qed

lemma nodes_run_published:
  assumes "sys_reach env agent stamp crashes s"
  shows "runs_published (app_db (sys_app s)) (sys_nodes s i)"
  using assms
proof (induction arbitrary: i rule: sys_reach.induct)
  case sys_start
  show ?case by (simp add: fresh_system_def runs_published_def)
next
  case (sys_control s a)
  have "content_of (app_db (sys_app s)) v = Some row \<Longrightarrow> content_of (app_db a) v = Some row" for v row
    by (rule app_next_content [OF sys_control.hyps(2)])
  then show ?case using sys_control.IH [of i] by (auto simp: runs_published_def split: option.splits)
next
  case (sys_poll s j)
  let ?fs = "sys_nodes s j" and ?db = "app_db (sys_app s)"
  have "torn (snd (poll_ops agent (fetch_from stamp ?db) ?fs)) ?fs (fst (snd (poll_server agent stamp ?db ?fs)))"
    using do_ops_torn by (simp add: poll_server_def poll_once_def Let_def split: prod.splits)
  from torn_runs_published [OF app_bundles_ok [OF sys_app_reach [OF sys_poll.hyps]] sys_poll.IH this]
  show ?case using sys_poll.IH by (simp add: poll_node_def)
next
  case (sys_crash s j fs)
  from torn_runs_published [OF app_bundles_ok [OF sys_app_reach [OF sys_crash.hyps(1)]] sys_crash.IH sys_crash.hyps(3)]
  show ?case using sys_crash.IH by simp
qed (simp_all add: offline_unchanged)

lemma node_decides:
  assumes "sys_reach env agent stamp crashes s" "sys_nodes s i Config_File = Some toml"
  shows "\<exists>v row ch config. content_of (app_db (sys_app s)) v = Some row \<and> built_from (ae_bundles env) ch row \<and>
    toml = br_config_toml row \<and> toml = toml_dumps (ae_bundles env) config \<and> decides_as config ch (br_version row)"
proof -
  let ?db = "app_db (sys_app s)"
  obtain v row where v: "content_of ?db v = Some row" "toml = br_config_toml row"
    using nodes_run_published [OF assms(1), of i] assms(2) by (auto simp: runs_published_def)
  obtain row' where "row' \<in> set (db_bundles ?db)" "row = row'\<lparr>br_active := False\<rparr>"
    using content_row [OF v(1)] by blast
  then obtain ch where ch: "built_from (ae_bundles env) ch row"
    using app_reach_built [OF sys_app_reach [OF assms(1)]] by (auto simp: bundles_built_def)
  show ?thesis using v ch built_decides [OF ch] by blast
qed

section \<open>Properties\<close>

text \<open>A node that has polled a published bundle, for the concrete instances.\<close>

definition polled_system :: system where
  "polled_system = poll_node sample_node int_str 3 \<lparr>sys_app = published_app, sys_nodes = (\<lambda>i f. None)\<rparr>"

lemma polled_system_reach: "sys_reach sample_api sample_node int_str False polled_system"
proof -
  let ?s0 = "fresh_system"
  let ?a1 = "(sys_app ?s0)\<lparr>app_db := (app_db (sys_app ?s0))\<lparr>db_users := [account ''ann'' ADMIN, account ''vic'' VIEWER]\<rparr>\<rparr>"
  have 1: "sys_reach sample_api sample_node int_str False (?s0\<lparr>sys_app := ?a1\<rparr>)"
    by (intro sys_reach.sys_control sys_reach.sys_start app_next.next_administered)
  have a: "snd (serve sample_api (credentials_of ''admin:ann'') (Publish_Bundle ''first'') ?a1) = published_app"
    by (simp add: published_app_def fresh_system_def)
  have n: "app_next sample_api (sys_app (?s0\<lparr>sys_app := ?a1\<rparr>)) published_app"
    using app_next.next_served [of sample_api ?a1 "credentials_of ''admin:ann''" "Publish_Bundle ''first''"]
    by (simp only: a) simp
  have "sys_reach sample_api sample_node int_str False (?s0\<lparr>sys_app := ?a1\<rparr>\<lparr>sys_app := published_app\<rparr>)"
    by (rule sys_reach.sys_control [OF 1 n])
  then have "sys_reach sample_api sample_node int_str False \<lparr>sys_app = published_app, sys_nodes = (\<lambda>i f. None)\<rparr>"
    by (simp add: fresh_system_def)
  then show ?thesis unfolding polled_system_def by (rule sys_reach.sys_poll)
qed

lemma sample_hashes: "ae_sha256 sample_node t = sha256_hex (ae_bundles sample_api) t"
  by (simp add: sample_node_def sample_api_def sample_env_def)

lemma polled_system_app: "sys_app polled_system = published_app"
  by (simp add: polled_system_def poll_node_def)





end
