(* ===== verification/App.thy ===== *)
theory App
  imports Prelude Rule_Model Database Settings Rules_Service Vector_Config Bundles
begin

text \<open>
  The application around the routes, \<open>api/app.py\<close>: finding the built web application, the announcement
  at startup, and the catch-all route that serves files; and the \<open>compile\<close> command of \<open>cli.py\<close>.
  The file system is a map from absolute paths, lists of names, to what is there; resolving a path follows its
  symbolic links as \<open>os.path.realpath\<close> does.
\<close>

section \<open>Paths\<close>

datatype file_node = Reg | Dir | Link string

type_synonym file_system = "string list \<Rightarrow> file_node option"

definition path_parts :: "string \<Rightarrow> string list" where
  "path_parts s = filter (\<lambda>c. c \<notin> {[], ''.''}) (py_split CHR ''/'' s)"

definition is_absolute :: "string \<Rightarrow> bool" where
  "is_absolute s \<longleftrightarrow> py_startswith ''/'' s"

text \<open>\<open>base / s\<close>: an absolute right operand replaces the left one.\<close>

definition join_path :: "string list \<Rightarrow> string \<Rightarrow> string list" where
  "join_path base s = (if is_absolute s then path_parts s else base @ path_parts s)"

text \<open>\<open>resolve\<close> walks the names from the root; \<open>None\<close> when more links than the fuel have been
  followed, as on a loop of links. A name that does not exist stays.\<close>

function resolve :: "file_system \<Rightarrow> nat \<Rightarrow> string list \<Rightarrow> string list \<Rightarrow> string list option" where
  "resolve fs n p [] = Some p"
| "resolve fs n p (c # cs) =
     (if c = ''..'' then resolve fs n (butlast p) cs
      else case fs (p @ [c]) of
        Some (Link target) \<Rightarrow>
          (case n of 0 \<Rightarrow> None | Suc m \<Rightarrow> resolve fs m (if is_absolute target then [] else p) (path_parts target @ cs))
      | _ \<Rightarrow> resolve fs n (p @ [c]) cs)"
  by pat_completeness auto
termination
  by (relation "measures [\<lambda>(fs, n, p, cs). n, \<lambda>(fs, n, p, cs). length cs]") auto

definition is_file :: "file_system \<Rightarrow> nat \<Rightarrow> string list \<Rightarrow> bool" where
  "is_file fs n p = (case resolve fs n [] p of None \<Rightarrow> False | Some q \<Rightarrow> fs q = Some Reg)"

definition is_relative_to :: "string list \<Rightarrow> string list \<Rightarrow> bool" where
  "is_relative_to p base \<longleftrightarrow> take (length base) p = base"

section \<open>Serving the web application\<close>

definition INDEX :: string where "INDEX = ''index.html''"

text \<open>\<open>root\<close> is the repository above the module, \<open>cwd\<close> the working directory.\<close>

definition find_ui_dist :: "file_system \<Rightarrow> nat \<Rightarrow> string list \<Rightarrow> string list \<Rightarrow> string option \<Rightarrow> string list option" where
  "find_ui_dist fs n root cwd override =
     find (\<lambda>c. is_file fs n (c @ [INDEX]))
       ((case override of Some (c # cs) \<Rightarrow> [join_path cwd (c # cs)] | _ \<Rightarrow> []) @
        [root @ [''ui'', ''dist''], cwd @ [''ui'', ''dist'']])"

datatype spa_error = Path_Error

text \<open>A path with a null character, or a loop of links, raises.\<close>

definition spa :: "file_system \<Rightarrow> nat \<Rightarrow> string list \<Rightarrow> string \<Rightarrow> (spa_error, string list) result" where
  "spa fs n ui_dist full_path =
     (if CHR 0x00 \<in> set full_path then Inl Path_Error
      else case resolve fs n [] (join_path ui_dist full_path) of
        None \<Rightarrow> Inl Path_Error
      | Some asset \<Rightarrow>
          Inr (if full_path \<noteq> [] \<and> is_relative_to asset ui_dist \<and> is_file fs n asset
               then asset else ui_dist @ [INDEX]))"

text \<open>The application has the route only when a built interface was found; \<open>None\<close> is no such route.\<close>

definition create_app :: "file_system \<Rightarrow> nat \<Rightarrow> string list option \<Rightarrow> (string \<Rightarrow> (spa_error, string list) result) option" where
  "create_app fs n ui_dist = map_option (\<lambda>d. spa fs n d) (Option.bind ui_dist (resolve fs n []))"

section \<open>Startup\<close>

record startup_log =
  log_default_action :: string
  log_shadow_mode :: bool
  log_auth_mode :: auth_mode
  log_bypass :: bool
  log_bypass_warning :: bool

definition lifespan ::
    "(settings_error, settings) result \<Rightarrow> settings option \<Rightarrow> database \<Rightarrow> (settings_error, startup_log) result \<times> database" where
  "lifespan construct cache db =
     (case fst (get_settings construct cache) of
        Inl e \<Rightarrow> (Inl e, db)
      | Inr cfg \<Rightarrow>
          session_scope (\<lambda>s. let (cs, s') = get_chain_settings s in
            (Inr \<lparr>log_default_action = cs_default_action cs, log_shadow_mode = cs_shadow_mode cs,
                  log_auth_mode = auth_mode cfg, log_bypass = dev_auth_bypass cfg,
                  log_bypass_warning = dev_auth_bypass cfg\<rparr>, s')) db)"

text \<open>\<open>_cmd_compile\<close>: the configuration the stored chain would give, printed and not stored.\<close>

definition cmd_compile :: "bundle_env \<Rightarrow> int \<Rightarrow> database \<Rightarrow> (bundle_error, string) result \<times> database" where
  "cmd_compile env now db =
     (let (chain, db') = session_scope load_chain db in
      (bindR (mapError RuleServiceFailed chain) (\<lambda>ch.
         bindR (build_bundle env ch 0 ''cli'' [] now) (\<lambda>b. Inr (bundle_config b))), db'))"

section \<open>Resolved paths\<close>

text \<open>No prefix of the path is a link, and no name is a step up.\<close>

definition link_free :: "file_system \<Rightarrow> string list \<Rightarrow> bool" where
  "link_free fs p \<longleftrightarrow> (\<forall>i \<le> length p. \<forall>t. fs (take i p) \<noteq> Some (Link t)) \<and> ''..'' \<notin> set p"

lemma link_free_butlast: "link_free fs p \<Longrightarrow> link_free fs (butlast p)"
  by (auto simp: link_free_def butlast_conv_take min_def dest: in_set_takeD)

lemma link_free_snoc:
  "link_free fs (p @ [c]) \<longleftrightarrow> link_free fs p \<and> c \<noteq> ''..'' \<and> (\<forall>t. fs (p @ [c]) \<noteq> Some (Link t))"
  by (auto simp: link_free_def le_Suc_eq)

lemma resolve_link_free:
  "resolve fs n p cs = Some q \<Longrightarrow> link_free fs p \<Longrightarrow> link_free fs [] \<Longrightarrow> link_free fs q"
proof (induction fs n p cs rule: resolve.induct)
  case (2 fs n p c cs)
  then show ?case
    by (auto simp: link_free_butlast link_free_snoc split: if_splits option.splits file_node.splits nat.splits)
qed simp

lemma resolve_id: "link_free fs (p @ cs) \<Longrightarrow> resolve fs n p cs = Some (p @ cs)"
proof (induction cs arbitrary: p)
  case (Cons c cs)
  have c: "link_free fs ((p @ [c]) @ cs)" using Cons.prems by simp
  have "fs (take (Suc (length p)) (p @ c # cs)) \<noteq> Some (Link t)" for t
    using Cons.prems by (simp add: link_free_def del: take_append)
  then have "fs (p @ [c]) \<noteq> Some (Link t)" for t by simp
  then show ?case using Cons.IH [OF c] Cons.prems by (auto simp: link_free_def split: option.splits file_node.splits)
qed simp

lemma parts_of_join:
  assumes "cs \<noteq> []" "\<forall>c \<in> set cs. c \<notin> {[], ''.''} \<and> CHR ''/'' \<notin> set c"
  shows "path_parts (py_join ''/'' cs) = cs" "\<not> is_absolute (py_join ''/'' cs)"
proof -
  have "py_split CHR ''/'' (py_join ''/'' cs) = cs" using assms by (simp add: py_split_join)
  then show "path_parts (py_join ''/'' cs) = cs" using assms(2) by (simp add: path_parts_def filter_id_conv)
  obtain c d ds where "cs = (d # ds) # c" using assms by (cases cs; cases "hd cs") auto
  then show "\<not> is_absolute (py_join ''/'' cs)" using assms(2)
    by (cases c) (auto simp: is_absolute_def py_startswith_def)
qed

lemma join_no_char: "c \<notin> set d \<Longrightarrow> \<forall>w \<in> set ws. c \<notin> set w \<Longrightarrow> c \<notin> set (py_join d ws)"
  by (induction d ws rule: py_join.induct) auto

text \<open>The announcement is the chain the compiler reads.\<close>

lemma lifespan_announces:
  assumes "lifespan construct cache db = (Inr l, db')" "load_chain \<lparr>committed = db', current = db'\<rparr> = (Inr ch, s)"
  shows "log_default_action l = action_value (default_action ch) \<and> log_shadow_mode l = shadow_mode ch"
proof -
  obtain cs where cs: "db_settings db' = Some cs" "log_default_action l = cs_default_action cs" "log_shadow_mode l = cs_shadow_mode cs"
    using assms(1)
    by (auto simp: lifespan_def session_scope_def get_chain_settings_def commit_def split: sum.splits option.splits)
  have "\<exists>a. action_of (cs_default_action cs) = Some a \<and> default_action ch = a \<and> shadow_mode ch = cs_shadow_mode cs"
    using assms(2) cs(1)
    by (auto simp: load_chain_def get_chain_settings_def list_rules_def Let_def bindR_Inr_iff mapError_Inr_iff validate_chain_def
        split: option.splits prod.splits)
  then show ?thesis using cs by (auto simp: action_of_def split: if_splits)
qed

section \<open>Properties\<close>

text \<open>C38: The catch-all route cannot leave the asset directory: whatever the request path and whatever
  links the file system has, what is served is the index or a regular file whose real path is below
  the directory; and every real file below it is served under its own name.\<close>

theorem spa_confined:
  assumes "link_free fs []"
  shows "(\<forall>request served. spa fs n ui request = Inr served \<longrightarrow>
      served = ui @ [INDEX] \<or> is_relative_to served ui \<and> link_free fs served \<and> fs served = Some Reg) \<and>
    (\<forall>cs. cs \<noteq> [] \<and> (\<forall>c \<in> set cs. c \<notin> {[], ''.''} \<and> CHR ''/'' \<notin> set c \<and> CHR 0x00 \<notin> set c) \<and>
      link_free fs (ui @ cs) \<and> fs (ui @ cs) = Some Reg \<longrightarrow> spa fs n ui (py_join ''/'' cs) = Inr (ui @ cs))"
proof (intro conjI allI impI)
  fix request served
  assume s: "spa fs n ui request = Inr served"
  then obtain q where q: "resolve fs n [] (join_path ui request) = Some q"
    by (auto simp: spa_def split: if_splits option.splits)
  have "link_free fs q" by (rule resolve_link_free [OF q assms assms])
  moreover then have "is_file fs n q \<Longrightarrow> fs q = Some Reg" using resolve_id [of fs "[]" q n] by (simp add: is_file_def)
  ultimately show "served = ui @ [INDEX] \<or> is_relative_to served ui \<and> link_free fs served \<and> fs served = Some Reg"
    using s q by (auto simp: spa_def split: if_splits)
next
  fix cs
  assume c: "cs \<noteq> [] \<and> (\<forall>c \<in> set cs. c \<notin> {[], ''.''} \<and> CHR ''/'' \<notin> set c \<and> CHR 0x00 \<notin> set c) \<and>
    link_free fs (ui @ cs) \<and> fs (ui @ cs) = Some Reg"
  then have n: "cs \<noteq> []" and w: "\<forall>c \<in> set cs. c \<notin> {[], ''.''} \<and> CHR ''/'' \<notin> set c" by blast+
  note p = parts_of_join [OF n w]
  have r: "resolve fs n [] (ui @ cs) = Some (ui @ cs)" using resolve_id [of fs "[]" "ui @ cs" n] c unfolding append_Nil by blast
  have "CHR 0x00 \<notin> set ''/''" "\<forall>w \<in> set cs. CHR 0x00 \<notin> set w" using c by (simp, blast)
  then have "CHR 0x00 \<notin> set (py_join ''/'' cs)" by (rule join_no_char)
  moreover have "py_join ''/'' cs \<noteq> []" using p(1) n by (auto simp: path_parts_def)
  ultimately show "spa fs n ui (py_join ''/'' cs) = Inr (ui @ cs)"
    using r conjunct2 [OF conjunct2 [OF conjunct2 [OF c]]] by (simp add: spa_def join_path_def p is_relative_to_def is_file_def)
qed

text \<open>An asset, a link out of the directory, and a secret beside it.\<close>

definition sample_fs :: file_system where
  "sample_fs = (\<lambda>_. None)([''ui'', ''a.js''] := Some Reg, [''ui'', ''out''] := Some (Link ''../secret''), [''secret''] := Some Reg)"

theorem spa_confined_witness:
  "link_free sample_fs [] \<and> spa sample_fs 3 [''ui''] ''a.js'' = Inr [''ui'', ''a.js''] \<and>
   spa sample_fs 3 [''ui''] ''out'' \<noteq> Inr [''secret'']"
proof -
  have l: "link_free sample_fs []" "link_free sample_fs [''ui'', ''a.js'']"
    by (auto simp: link_free_def sample_fs_def le_Suc_eq)
  have a: "spa sample_fs 3 [''ui''] (py_join ''/'' [''a.js'']) = Inr ([''ui''] @ [''a.js''])"
    using conjunct2 [OF spa_confined [OF l(1), of 3 "[''ui'']"], rule_format, of "[''a.js'']"] l(2) by (simp add: sample_fs_def)
  have "\<not> is_relative_to [''secret''] [''ui'']" by (simp add: is_relative_to_def)
  then show ?thesis using spa_confined [OF l(1), of 3 "[''ui'']"] l(1) a by (auto simp: INDEX_def)
qed

end
