(* ===== verification/Routing.thy ===== *)
theory Routing
  imports Prelude Rule_Model Json Database Settings Rules_Service Vector_Config Bundles Auth Simulate Sampling Api App Agent Agent_Loop
begin

text \<open>
  The table of routes of the application: the decorators of \<open>api/routes.py\<close> under the prefix \<open>/api\<close>, and
  what \<open>create_app\<close> of \<open>api/app.py\<close> adds around the router. How the web framework picks a route is a
  parameter with the laws it documents, \<open>web_framework\<close>: the first route in order of registration that accepts
  the method and whose template the path fills; 405 when only the method is wrong. A template is a path of
  literal names, variables for one nonempty name, and possibly a variable for the rest. Paths have no line break.
\<close>

section \<open>Templates\<close>

datatype piece = Lit string | Var | Rest

definition piece_of :: "string \<Rightarrow> piece" where
  "piece_of s = (if \<not> py_startswith ''{'' s then Lit s else if py_startswith (rev '':path}'') (rev s) then Rest else Var)"

definition pieces :: "string \<Rightarrow> piece list" where
  "pieces template = map piece_of (py_split CHR ''/'' template)"

text \<open>\<open>fills ps vs ss\<close>: the names \<open>ss\<close> of a path are the template with the values \<open>vs\<close> for its variables.\<close>

fun fills :: "piece list \<Rightarrow> string list \<Rightarrow> string list \<Rightarrow> bool" where
  "fills [] [] [] \<longleftrightarrow> True"
| "fills (Lit l # ps) vs (s # ss) \<longleftrightarrow> s = l \<and> fills ps vs ss"
| "fills (Var # ps) (v # vs) (s # ss) \<longleftrightarrow> s = v \<and> s \<noteq> [] \<and> fills ps vs ss"
| "fills [Rest] [v] (s # ss) \<longleftrightarrow> v = py_join ''/'' (s # ss)"
| "fills _ _ _ \<longleftrightarrow> False"

section \<open>The table\<close>

datatype http_method = GET | POST | PATCH | PUT | DELETE | HEAD

datatype scope = Http http_method | Websocket

datatype accepted = Only scope | Any_Scope

datatype endpoint =
    Ep_Login | Ep_Whoami | Ep_Get_Rules | Ep_Post_Rule | Ep_Patch_Rule | Ep_Delete_Rule | Ep_Get_Chain | Ep_Put_Chain
  | Ep_Get_Bundles | Ep_Publish | Ep_Rollback | Ep_Active_Config | Ep_Agent_Bundle | Ep_Intake | Ep_Recent | Ep_Tail
  | Ep_Simulate | Ep_Audit | Ep_Health | Ep_Metrics | Ep_Assets | Ep_Spa | Ep_Framework string

record web_route =
  wr_accepts :: accepted
  wr_path :: string
  wr_endpoint :: endpoint

definition accepts :: "web_route \<Rightarrow> scope \<Rightarrow> bool" where
  "accepts r sc \<longleftrightarrow> wr_accepts r = Any_Scope \<or> wr_accepts r = Only sc"

definition web_route :: "http_method \<Rightarrow> string \<Rightarrow> endpoint \<Rightarrow> web_route" where
  "web_route m p e = \<lparr>wr_accepts = Only (Http m), wr_path = p, wr_endpoint = e\<rparr>"

text \<open>\<open>router = APIRouter(prefix="/api")\<close>, in the order of the file.\<close>

definition api_prefix :: string where "api_prefix = ''/api''"

definition ROUTER :: "web_route list" where
  "ROUTER = map (\<lambda>r. r\<lparr>wr_path := api_prefix @ wr_path r\<rparr>) [
     web_route POST ''/auth/token'' Ep_Login,
     web_route GET ''/auth/me'' Ep_Whoami,
     web_route GET ''/rules'' Ep_Get_Rules,
     web_route POST ''/rules'' Ep_Post_Rule,
     web_route PATCH ''/rules/{rule_id}'' Ep_Patch_Rule,
     web_route DELETE ''/rules/{rule_id}'' Ep_Delete_Rule,
     web_route GET ''/chain'' Ep_Get_Chain,
     web_route PUT ''/chain'' Ep_Put_Chain,
     web_route GET ''/bundles'' Ep_Get_Bundles,
     web_route POST ''/bundles/publish'' Ep_Publish,
     web_route POST ''/bundles/{version}/rollback'' Ep_Rollback,
     web_route GET ''/bundles/active/config'' Ep_Active_Config,
     web_route GET ''/agent/bundle'' Ep_Agent_Bundle,
     web_route POST ''/decisions/intake'' Ep_Intake,
     web_route GET ''/decisions/recent'' Ep_Recent,
     \<lparr>wr_accepts = Only Websocket, wr_path = ''/decisions/tail'', wr_endpoint = Ep_Tail\<rparr>,
     web_route POST ''/simulate'' Ep_Simulate,
     web_route GET ''/audit'' Ep_Audit,
     web_route GET ''/health'' Ep_Health]"

text \<open>\<open>create_app\<close>: the framework's own routes come first, from its constructor; the mounted directory and
  the catch-all route only with a built interface.\<close>

definition METRICS_ROUTE :: web_route where
  "METRICS_ROUTE = web_route GET ''/metrics'' Ep_Metrics"

definition UI_ROUTES :: "web_route list" where
  "UI_ROUTES = [\<lparr>wr_accepts = Any_Scope, wr_path = ''/assets/{path:path}'', wr_endpoint = Ep_Assets\<rparr>,
     web_route GET ''/{full_path:path}'' Ep_Spa]"

definition app_routes :: "web_route list \<Rightarrow> bool \<Rightarrow> web_route list" where
  "app_routes own ui = own @ ROUTER @ [METRICS_ROUTE] @ (if ui then UI_ROUTES else [])"

section \<open>The framework\<close>

datatype routed = Found endpoint "string list" | Wrong_Method | Elsewhere

definition fitting :: "web_route \<Rightarrow> string list \<Rightarrow> string \<Rightarrow> bool" where
  "fitting r vs path \<longleftrightarrow> fills (pieces (wr_path r)) vs (py_split CHR ''/'' path)"

definition applies :: "web_route \<Rightarrow> scope \<Rightarrow> string \<Rightarrow> bool" where
  "applies r sc path \<longleftrightarrow> accepts r sc \<and> (\<exists>vs. fitting r vs path)"

definition one_line :: "string \<Rightarrow> bool" where
  "one_line path \<longleftrightarrow> CHR 0x0A \<notin> set path"

locale web_framework =
  fixes answer :: "web_route list \<Rightarrow> scope \<Rightarrow> string \<Rightarrow> routed"
  assumes first_served: "one_line path \<Longrightarrow> (\<And>q. q \<in> set before \<Longrightarrow> \<not> applies q sc path) \<Longrightarrow> accepts r sc \<Longrightarrow>
      fitting r vs path \<Longrightarrow> answer (before @ r # after) sc path = Found (wr_endpoint r) vs"
    and wrong_method: "one_line path \<Longrightarrow> (\<And>q. q \<in> set routes \<Longrightarrow> \<not> applies q (Http m) path) \<Longrightarrow> r \<in> set routes \<Longrightarrow>
      wr_accepts r = Only (Http m') \<Longrightarrow> fitting r vs path \<Longrightarrow> answer routes (Http m) path = Wrong_Method"
    and not_served: "one_line path \<Longrightarrow> (\<And>q. q \<in> set routes \<Longrightarrow> \<not> applies q sc path) \<Longrightarrow>
      answer routes sc path \<noteq> Found e vs"
begin

lemma served_iff:
  assumes "one_line path"
  shows "(\<exists>e vs. answer routes sc path = Found e vs) \<longleftrightarrow> (\<exists>r \<in> set routes. applies r sc path)"
proof
  assume "\<exists>r \<in> set routes. applies r sc path"
  then obtain before r after where s: "routes = before @ r # after" "applies r sc path" "\<forall>q \<in> set before. \<not> applies q sc path"
    using split_list_first_prop [of routes "\<lambda>r. applies r sc path"] by blast
  then obtain vs where "accepts r sc" "fitting r vs path" unfolding applies_def by blast
  then have "answer routes sc path = Found (wr_endpoint r) vs" using first_served [of path before sc r vs after] assms s by simp
  then show "\<exists>e vs. answer routes sc path = Found e vs" by blast
qed (use not_served [OF assms] in blast)

text \<open>Among routes no two of which apply together, the order is immaterial.\<close>

lemma only_one_served:
  assumes "one_line path" "r \<in> set routes" "accepts r sc" "fitting r vs path"
    and "\<And>q. q \<in> set routes \<Longrightarrow> applies q sc path \<Longrightarrow> q = r"
  shows "answer (routes @ rest) sc path = Found (wr_endpoint r) vs"
proof -
  have r: "applies r sc path" using assms(3,4) unfolding applies_def by blast
  obtain before q after where s: "routes = before @ q # after" "applies q sc path" "\<forall>q \<in> set before. \<not> applies q sc path"
    using split_list_first_prop [of routes "\<lambda>r. applies r sc path"] assms(2) r by blast
  have "q = r" by (rule assms(5)) (simp_all add: s)
  then show ?thesis using first_served [of path before sc r vs "after @ rest"] assms(1,3,4) s(1,3) by simp
qed

end

text \<open>An executable framework.\<close>

fun values_of :: "piece list \<Rightarrow> string list \<Rightarrow> string list option" where
  "values_of [] [] = Some []"
| "values_of (Lit l # ps) (s # ss) = (if s = l then values_of ps ss else None)"
| "values_of (Var # ps) (s # ss) = (if s = [] then None else map_option ((#) s) (values_of ps ss))"
| "values_of [Rest] (s # ss) = Some [py_join ''/'' (s # ss)]"
| "values_of _ _ = None"

lemma fills_simps:
  "fills [] vs ss \<longleftrightarrow> vs = [] \<and> ss = []"
  "fills (Lit l # ps) vs ss \<longleftrightarrow> (\<exists>ss'. ss = l # ss' \<and> fills ps vs ss')"
  "fills (Var # ps) vs ss \<longleftrightarrow> (\<exists>v vs' ss'. vs = v # vs' \<and> ss = v # ss' \<and> v \<noteq> [] \<and> fills ps vs' ss')"
  "fills (Rest # ps) vs ss \<longleftrightarrow> ps = [] \<and> ss \<noteq> [] \<and> vs = [py_join ''/'' ss]"
proof -
  show "fills [] vs ss \<longleftrightarrow> vs = [] \<and> ss = []" by (cases vs; cases ss) auto
  show "fills (Lit l # ps) vs ss \<longleftrightarrow> (\<exists>ss'. ss = l # ss' \<and> fills ps vs ss')" by (cases ss) auto
  show "fills (Var # ps) vs ss \<longleftrightarrow> (\<exists>v vs' ss'. vs = v # vs' \<and> ss = v # ss' \<and> v \<noteq> [] \<and> fills ps vs' ss')"
    by (cases vs; cases ss) auto
  show "fills (Rest # ps) vs ss \<longleftrightarrow> ps = [] \<and> ss \<noteq> [] \<and> vs = [py_join ''/'' ss]"
    by (cases ps; cases vs; cases "tl vs"; cases ss) auto
qed

lemma values_of_iff: "values_of ps ss = Some vs \<longleftrightarrow> fills ps vs ss"
  by (induction ps ss arbitrary: vs rule: values_of.induct) (auto simp: fills_simps)

definition route_values :: "scope \<Rightarrow> string \<Rightarrow> web_route \<Rightarrow> string list option" where
  "route_values sc path r = (if accepts r sc then values_of (pieces (wr_path r)) (py_split CHR ''/'' path) else None)"

fun first_route :: "web_route list \<Rightarrow> scope \<Rightarrow> string \<Rightarrow> routed option" where
  "first_route [] sc path = None"
| "first_route (r # rs) sc path =
     (case route_values sc path r of Some vs \<Rightarrow> Some (Found (wr_endpoint r) vs) | None \<Rightarrow> first_route rs sc path)"

definition is_http :: "web_route \<Rightarrow> bool" where
  "is_http r = (case wr_accepts r of Only (Http m) \<Rightarrow> True | _ \<Rightarrow> False)"

definition pick_route :: "web_route list \<Rightarrow> scope \<Rightarrow> string \<Rightarrow> routed" where
  "pick_route routes sc path =
     (case first_route routes sc path of
        Some x \<Rightarrow> x
      | None \<Rightarrow> (if sc \<noteq> Websocket \<and> (\<exists>r \<in> set routes. is_http r \<and> values_of (pieces (wr_path r)) (py_split CHR ''/'' path) \<noteq> None)
                then Wrong_Method else Elsewhere))"

lemma route_values_iff: "route_values sc path r = Some vs \<longleftrightarrow> accepts r sc \<and> fitting r vs path"
  by (simp add: route_values_def fitting_def values_of_iff)

lemma route_values_None: "\<not> applies r sc path \<Longrightarrow> route_values sc path r = None"
  using route_values_iff [of sc path r] unfolding applies_def by (cases "route_values sc path r") auto

lemma first_route_None: "(\<And>q. q \<in> set routes \<Longrightarrow> \<not> applies q sc path) \<Longrightarrow> first_route routes sc path = None"
  by (induction routes) (simp_all add: route_values_None)

lemma first_route_append:
  "(\<And>q. q \<in> set before \<Longrightarrow> \<not> applies q sc path) \<Longrightarrow> first_route (before @ rs) sc path = first_route rs sc path"
  by (induction before) (simp_all add: route_values_None)

interpretation executable: web_framework pick_route
proof unfold_locales
  fix path sc r vs before after
  assume "\<And>q. q \<in> set before \<Longrightarrow> \<not> applies q sc path" "accepts r sc" "fitting r vs path"
  then show "pick_route (before @ r # after) sc path = Found (wr_endpoint r) vs"
    using route_values_iff [of sc path r vs] by (simp add: pick_route_def first_route_append)
next
  fix path routes m r m' vs
  assume "\<And>q. q \<in> set routes \<Longrightarrow> \<not> applies q (Http m) path" "r \<in> set routes" "wr_accepts r = Only (Http m')" "fitting r vs path"
  then show "pick_route routes (Http m) path = Wrong_Method"
    by (auto simp: pick_route_def first_route_None fitting_def values_of_iff [symmetric] is_http_def intro!: bexI [of _ r])
next
  fix path routes sc e vs
  assume "\<And>q. q \<in> set routes \<Longrightarrow> \<not> applies q sc path"
  then show "pick_route routes sc path \<noteq> Found e vs" by (simp add: pick_route_def first_route_None)
qed

section \<open>No two routes of the table meet\<close>

fun may_meet :: "piece list \<Rightarrow> piece list \<Rightarrow> bool" where
  "may_meet [] [] \<longleftrightarrow> True"
| "may_meet (Lit a # ps) (Lit b # qs) \<longleftrightarrow> a = b \<and> may_meet ps qs"
| "may_meet (Lit a # ps) (Var # qs) \<longleftrightarrow> may_meet ps qs"
| "may_meet (Var # ps) (Lit b # qs) \<longleftrightarrow> may_meet ps qs"
| "may_meet (Var # ps) (Var # qs) \<longleftrightarrow> may_meet ps qs"
| "may_meet (Rest # ps) qs \<longleftrightarrow> qs \<noteq> []"
| "may_meet ps (Rest # qs) \<longleftrightarrow> ps \<noteq> []"
| "may_meet _ _ \<longleftrightarrow> False"

lemma meeting: "fills ps vs ss \<Longrightarrow> fills qs ws ss \<Longrightarrow> may_meet ps qs"
  by (induction ps qs arbitrary: vs ws ss rule: may_meet.induct) (fastforce simp: fills_simps)+

abbreviation OWN_TABLE :: "web_route list" where "OWN_TABLE \<equiv> ROUTER @ [METRICS_ROUTE]"

lemma table_apart:
  "list_all (\<lambda>r. list_all (\<lambda>q. wr_accepts r = wr_accepts q \<and> may_meet (pieces (wr_path r)) (pieces (wr_path q)) \<longrightarrow> r = q)
     OWN_TABLE) OWN_TABLE"
  by code_simp

lemma table_only: "list_all (\<lambda>r. case wr_accepts r of Only sc \<Rightarrow> True | Any_Scope \<Rightarrow> False) OWN_TABLE"
  by code_simp

lemma table_unique:
  assumes "r \<in> set OWN_TABLE" "q \<in> set OWN_TABLE" "accepts r sc" "fitting r vs path" "applies q sc path"
  shows "q = r"
proof -
  have only: "wr_accepts x \<noteq> Any_Scope" if "x \<in> set OWN_TABLE" for x
    using table_only that by (auto simp: list_all_iff split: accepted.splits)
  have "wr_accepts r = wr_accepts q"
    using assms(3,5) only [OF assms(1)] only [OF assms(2)] unfolding accepts_def applies_def by metis
  moreover have "may_meet (pieces (wr_path r)) (pieces (wr_path q))"
    using assms(4,5) meeting unfolding fitting_def applies_def by blast
  ultimately show ?thesis using table_apart assms(1,2) unfolding list_all_iff by metis
qed

section \<open>From a call to a reply\<close>

datatype payload =
    No_Payload
  | Form string string
  | Rule_Payload rule_create
  | Update_Payload rule_update
  | Chain_Payload "action option" "bool option"
  | Note_Payload "string option"
  | Limit_Payload "int option"
  | Records_Payload "decision_record list"

text \<open>The arguments of the handlers with their defaults, from the values of the path, the one query
  parameter a handler has, and the body. \<open>int_of\<close> is the framework's reading of a number.\<close>

definition number :: "(string \<Rightarrow> int option) \<Rightarrow> int \<Rightarrow> string option \<Rightarrow> int option" where
  "number int_of preset q = (case q of None \<Rightarrow> Some preset | Some t \<Rightarrow> int_of t)"

definition request_of :: "(string \<Rightarrow> int option) \<Rightarrow> endpoint \<Rightarrow> string list \<Rightarrow> string option \<Rightarrow> payload \<Rightarrow> request option" where
  "request_of int_of e vs q b =
     (case e of
        Ep_Login \<Rightarrow> (case b of Form name password \<Rightarrow> Some (Login name password) | _ \<Rightarrow> None)
      | Ep_Whoami \<Rightarrow> Some Whoami
      | Ep_Get_Rules \<Rightarrow> Some Get_Rules
      | Ep_Post_Rule \<Rightarrow> (case b of Rule_Payload p \<Rightarrow> Some (Post_Rule p) | _ \<Rightarrow> None)
      | Ep_Patch_Rule \<Rightarrow> (case b of Update_Payload p \<Rightarrow> Some (Patch_Rule (hd vs) p) | _ \<Rightarrow> None)
      | Ep_Delete_Rule \<Rightarrow> Some (Delete_Rule (hd vs))
      | Ep_Get_Chain \<Rightarrow> Some Get_Chain
      | Ep_Put_Chain \<Rightarrow> (case b of Chain_Payload act sh \<Rightarrow> Some (Put_Chain act sh) | _ \<Rightarrow> None)
      | Ep_Get_Bundles \<Rightarrow> Some Get_Bundles
      | Ep_Publish \<Rightarrow> (case b of No_Payload \<Rightarrow> Some (Publish_Bundle []) | Note_Payload None \<Rightarrow> Some (Publish_Bundle [])
          | Note_Payload (Some t) \<Rightarrow> Some (Publish_Bundle t) | _ \<Rightarrow> None)
      | Ep_Rollback \<Rightarrow> map_option Rollback_Bundle (int_of (hd vs))
      | Ep_Active_Config \<Rightarrow> Some Get_Active_Config
      | Ep_Agent_Bundle \<Rightarrow> map_option Agent_Bundle (number int_of 0 q)
      | Ep_Intake \<Rightarrow> (case b of Records_Payload rs \<Rightarrow> Some (Intake rs) | _ \<Rightarrow> None)
      | Ep_Recent \<Rightarrow> map_option Recent_Decisions (number int_of 100 q)
      | Ep_Simulate \<Rightarrow> (case b of Limit_Payload None \<Rightarrow> Some (Post_Simulate 2000)
          | Limit_Payload (Some n) \<Rightarrow> Some (Post_Simulate n) | _ \<Rightarrow> None)
      | Ep_Audit \<Rightarrow> map_option Get_Audit (number int_of 200 q)
      | Ep_Health \<Rightarrow> Some Health
      | _ \<Rightarrow> None)"

text \<open>The dependencies of the handlers on the caller: \<open>RequireViewer\<close>, \<open>RequireEditor\<close>, \<open>RequireAdmin\<close>,
  \<open>current_principal\<close> alone, or none.\<close>

datatype guard = Open_To_All | Signed_In | Needs role

fun guard_of :: "endpoint \<Rightarrow> guard" where
  "guard_of Ep_Whoami = Signed_In"
| "guard_of Ep_Get_Rules = Needs VIEWER"
| "guard_of Ep_Post_Rule = Needs RULE_EDITOR"
| "guard_of Ep_Patch_Rule = Needs RULE_EDITOR"
| "guard_of Ep_Delete_Rule = Needs RULE_EDITOR"
| "guard_of Ep_Get_Chain = Needs VIEWER"
| "guard_of Ep_Put_Chain = Needs ADMIN"
| "guard_of Ep_Get_Bundles = Needs VIEWER"
| "guard_of Ep_Publish = Needs RULE_EDITOR"
| "guard_of Ep_Rollback = Needs RULE_EDITOR"
| "guard_of Ep_Active_Config = Needs VIEWER"
| "guard_of Ep_Recent = Needs VIEWER"
| "guard_of Ep_Simulate = Needs RULE_EDITOR"
| "guard_of Ep_Audit = Needs VIEWER"
| "guard_of e = Open_To_All"

definition pass_guard :: "api_env \<Rightarrow> credentials \<Rightarrow> guard \<Rightarrow> database \<Rightarrow> (http_error, unit) result" where
  "pass_guard env c g db =
     (case g of
        Open_To_All \<Rightarrow> Inr ()
      | Signed_In \<Rightarrow> bindR (principal_for env c db) (\<lambda>p. Inr ())
      | Needs r \<Rightarrow> bindR (bindR (principal_for env c db) (require_role r)) (\<lambda>p. Inr ()))"

fun status_of :: "http_error \<Rightarrow> nat" where
  "status_of (Unauthorized m) = 401"
| "status_of (Forbidden r) = 403"
| "status_of Not_Found = 404"
| "status_of Unprocessable = 422"
| "status_of Server_Error = 500"

definition success_status :: "endpoint \<Rightarrow> nat" where
  "success_status e = (if e = Ep_Post_Rule then 201 else if e = Ep_Intake then 204 else 200)"

record site =
  site_env :: api_env
  site_answer :: "web_route list \<Rightarrow> scope \<Rightarrow> string \<Rightarrow> routed"
  site_own :: "web_route list"
  site_ui :: bool
  site_int :: "string \<Rightarrow> int option"

record http_call =
  call_scope :: scope
  call_path :: string
  call_query :: "string option"
  call_payload :: payload
  call_creds :: credentials

datatype reply =
    Answered nat response
  | Refused nat http_error
  | Handed_On endpoint "string list"
  | Unrouted routed

definition handler_of_api :: "endpoint \<Rightarrow> bool" where
  "handler_of_api e \<longleftrightarrow> e \<in> set (map wr_endpoint ROUTER) - {Ep_Tail}"

text \<open>Arguments that do not read are a 422, after the guard. The live-view socket, the metrics, the assets and
  the page are handed on to their own handlers.\<close>

definition handle_call :: "site \<Rightarrow> http_call \<Rightarrow> app \<Rightarrow> reply \<times> app" where
  "handle_call st call a =
     (case site_answer st (app_routes (site_own st) (site_ui st)) (call_scope call) (call_path call) of
        Found e vs \<Rightarrow>
          (if \<not> handler_of_api e then (Handed_On e vs, a)
           else case request_of (site_int st) e vs (call_query call) (call_payload call) of
             None \<Rightarrow> (case pass_guard (site_env st) (call_creds call) (guard_of e) (app_db a) of
                        Inl err \<Rightarrow> (Refused (status_of err) err, a)
                      | Inr u \<Rightarrow> (Refused 422 Unprocessable, a))
           | Some req \<Rightarrow>
               (case serve (site_env st) (call_creds call) req a of
                  (Inl err, a') \<Rightarrow> (Refused (status_of err) err, a')
                | (Inr resp, a') \<Rightarrow> (Answered (success_status e) resp, a')))
      | x \<Rightarrow> (Unrouted x, a))"

lemma handler_endpoints:
  "handler_of_api e \<longleftrightarrow> e \<in> {Ep_Login, Ep_Whoami, Ep_Get_Rules, Ep_Post_Rule, Ep_Patch_Rule, Ep_Delete_Rule, Ep_Get_Chain,
     Ep_Put_Chain, Ep_Get_Bundles, Ep_Publish, Ep_Rollback, Ep_Active_Config, Ep_Agent_Bundle, Ep_Intake, Ep_Recent,
     Ep_Simulate, Ep_Audit, Ep_Health}"
  by (auto simp: handler_of_api_def ROUTER_def web_route_def)

text \<open>The guard of an endpoint is the one its handler checks.\<close>

lemma refused_request:
  assumes "request_of int_of e vs q b = Some req" "pass_guard env c (guard_of e) (app_db a) = Inl err"
  shows "serve env c req a = (Inl err, a)"
  using assms
  by (cases e)
    (auto simp: request_of_def pass_guard_def serve_def bindR_Inl_iff bindR_Inr_iff with_role_def in_session_def
      split: payload.splits option.splits)

lemma guard_errors: "pass_guard env c g db = Inl err \<Longrightarrow> status_of err \<in> {401, 403, 500}"
  by (auto simp: pass_guard_def bindR_Inl_iff principal_for_def current_principal_def principal_from_token_def
      principal_of_def require_role_def split: guard.splits option.splits if_splits)

section \<open>Addresses\<close>

definition url_path :: "string \<Rightarrow> string" where
  "url_path u = dropWhile (\<lambda>c. c \<noteq> CHR ''/'') (drop 3 (dropWhile (\<lambda>c. c \<noteq> CHR '':'') u))"

text \<open>A scheme, \<open>://\<close>, and a host with an optional port.\<close>

definition is_origin :: "string \<Rightarrow> bool" where
  "is_origin u \<longleftrightarrow> (\<exists>scheme host. u = scheme @ ''://'' @ host \<and> CHR '':'' \<notin> set scheme \<and> CHR ''/'' \<notin> set host \<and> host \<noteq> [])"

lemma url_path_origin: "is_origin u \<Longrightarrow> url_path (u @ CHR ''/'' # p) = CHR ''/'' # p"
proof -
  assume "is_origin u"
  then obtain scheme host where u: "u = scheme @ ''://'' @ host" "CHR '':'' \<notin> set scheme" "CHR ''/'' \<notin> set host"
    unfolding is_origin_def by blast
  have "dropWhile (\<lambda>c. c \<noteq> CHR '':'') (scheme @ ''://'' @ host @ CHR ''/'' # p) = ''://'' @ host @ CHR ''/'' # p"
    using u(2) by (subst dropWhile_append2) auto
  moreover have "dropWhile (\<lambda>c. c \<noteq> CHR ''/'') (host @ CHR ''/'' # p) = CHR ''/'' # p"
    using u(3) by (subst dropWhile_append2) auto
  ultimately show ?thesis by (simp add: url_path_def u(1))
qed

lemma rstrip_slash_origin:
  assumes "is_origin u"
  shows "rstrip_slash (u @ replicate n CHR ''/'') = u"
proof -
  obtain scheme host where u: "u = scheme @ ''://'' @ host" "CHR ''/'' \<notin> set host" "host \<noteq> []"
    using assms unfolding is_origin_def by blast
  then obtain h c where h: "host = h @ [c]" "c \<noteq> CHR ''/''" by (cases host rule: rev_cases) auto
  have "dropWhile (\<lambda>c. c = CHR ''/'') (replicate n CHR ''/'' @ rev u) = dropWhile (\<lambda>c. c = CHR ''/'') (rev u)"
    by (induction n) auto
  then show ?thesis using h u by (simp add: rstrip_slash_def)
qed

lemma client_paths:
  "py_split CHR ''/'' ''/api/decisions/intake'' = [[], ''api'', ''decisions'', ''intake'']"
  "py_split CHR ''/'' ''/api/agent/bundle'' = [[], ''api'', ''agent'', ''bundle'']"
  by code_simp+

definition INTAKE_ROUTE :: web_route where
  "INTAKE_ROUTE = web_route POST ''/api/decisions/intake'' Ep_Intake"

definition AGENT_ROUTE :: web_route where
  "AGENT_ROUTE = web_route GET ''/api/agent/bundle'' Ep_Agent_Bundle"

lemma client_routes:
  "INTAKE_ROUTE \<in> set OWN_TABLE" "AGENT_ROUTE \<in> set OWN_TABLE"
  "fitting INTAKE_ROUTE [] ''/api/decisions/intake''" "fitting AGENT_ROUTE [] ''/api/agent/bundle''"
  by code_simp+

section \<open>Reaching a handler\<close>

definition apart :: "web_route list \<Rightarrow> string \<Rightarrow> bool" where
  "apart own path \<longleftrightarrow> (\<forall>q \<in> set own. \<forall>sc. \<not> applies q sc path)"

lemma app_routes_table: "app_routes own ui = (own @ OWN_TABLE) @ (if ui then UI_ROUTES else [])"
  by (simp add: app_routes_def)

lemma table_answered:
  assumes "web_framework answer" "one_line path" "apart own path" "r \<in> set OWN_TABLE" "accepts r sc" "fitting r vs path"
  shows "answer (app_routes own ui) sc path = Found (wr_endpoint r) vs"
  unfolding app_routes_table
proof (rule web_framework.only_one_served [OF assms(1,2) _ assms(5,6)])
  show "r \<in> set (own @ OWN_TABLE)" using assms(4) by auto
next
  fix q assume q: "q \<in> set (own @ OWN_TABLE)" "applies q sc path"
  then have "q \<in> set OWN_TABLE" using assms(3) unfolding apart_def by auto
  then show "q = r" using table_unique [OF assms(4) _ assms(5,6) q(2)] by blast
qed

text \<open>The catch-all route fits every path from the root.\<close>

lemma spa_fits: "fitting (web_route GET ''/{full_path:path}'' Ep_Spa) [p] (CHR ''/'' # p)"
proof -
  have "pieces ''/{full_path:path}'' = [Lit [], Rest]" by code_simp
  then show ?thesis by (simp add: fitting_def web_route_def fills_simps)
qed

lemma assets_fit: "fitting (hd UI_ROUTES) vs (CHR ''/'' # p) \<Longrightarrow> \<exists>rest. p = ''assets/'' @ rest \<and> vs = [rest]"
proof -
  have "pieces ''/assets/{path:path}'' = [Lit [], Lit ''assets'', Rest]" by code_simp
  moreover assume "fitting (hd UI_ROUTES) vs (CHR ''/'' # p)"
  ultimately obtain ss where s: "py_split CHR ''/'' p = ''assets'' # ss" "ss \<noteq> []" "vs = [py_join ''/'' ss]"
    by (auto simp: fitting_def UI_ROUTES_def fills_simps)
  have "p = py_join ''/'' (''assets'' # ss)" using py_join_split [of "CHR ''/''" p] s(1) by metis
  then show ?thesis using s(2,3) by (cases ss) auto
qed

lemma spa_answered:
  assumes "web_framework answer" "one_line (CHR ''/'' # p)" "apart own (CHR ''/'' # p)"
    and "\<And>r. r \<in> set OWN_TABLE \<Longrightarrow> \<not> applies r (Http GET) (CHR ''/'' # p)" "\<not> py_startswith ''assets/'' p"
  shows "answer (app_routes own True) (Http GET) (CHR ''/'' # p) = Found Ep_Spa [p]"
proof -
  let ?spa = "web_route GET ''/{full_path:path}'' Ep_Spa"
  have t: "app_routes own True = (own @ OWN_TABLE @ [hd UI_ROUTES]) @ ?spa # []"
    by (simp add: app_routes_def UI_ROUTES_def)
  have "\<not> applies q (Http GET) (CHR ''/'' # p)" if "q \<in> set (own @ OWN_TABLE @ [hd UI_ROUTES])" for q
    using that assms(3,4,5) assets_fit unfolding apart_def applies_def py_startswith_def by fastforce
  moreover have "accepts ?spa (Http GET)" by (simp add: accepts_def web_route_def)
  ultimately have "answer (app_routes own True) (Http GET) (CHR ''/'' # p) = Found (wr_endpoint ?spa) [p]"
    unfolding t by (intro web_framework.first_served [OF assms(1,2) _ _ spa_fits]) blast+
  then show ?thesis by (simp add: web_route_def)
qed

text \<open>After two slashes no route fits but the catch-all.\<close>

lemma table_second:
  "list_all (\<lambda>r. case pieces (wr_path r) of Lit a # Lit l # ps \<Rightarrow> l \<noteq> [] | _ \<Rightarrow> False) (OWN_TABLE @ [hd UI_ROUTES])"
  by code_simp

lemma double_slash_unfit:
  assumes "r \<in> set (OWN_TABLE @ [hd UI_ROUTES])"
  shows "\<not> fitting r vs (CHR ''/'' # CHR ''/'' # p)"
proof -
  obtain a l ps where r: "pieces (wr_path r) = Lit a # Lit l # ps" "l \<noteq> []"
    using bspec [OF table_second [unfolded list_all_iff] assms] by (auto split: list.splits piece.splits)
  then show ?thesis by (auto simp: fitting_def fills_simps)
qed

lemma double_slash_post:
  assumes "web_framework answer" "one_line (CHR ''/'' # CHR ''/'' # p)" "apart own (CHR ''/'' # CHR ''/'' # p)"
  shows "answer (app_routes own ui) (Http POST) (CHR ''/'' # CHR ''/'' # p) \<noteq> Found e vs"
    and "answer (app_routes own True) (Http POST) (CHR ''/'' # CHR ''/'' # p) = Wrong_Method"
proof -
  let ?spa = "web_route GET ''/{full_path:path}'' Ep_Spa"
  have routes: "set (app_routes own u) \<subseteq> set own \<union> set (OWN_TABLE @ [hd UI_ROUTES]) \<union> {?spa}" for u
    by (simp add: app_routes_def UI_ROUTES_def) blast
  have "\<not> accepts ?spa (Http POST)" by (simp add: accepts_def web_route_def)
  then have none: "\<not> applies q (Http POST) (CHR ''/'' # CHR ''/'' # p)" if "q \<in> set (app_routes own u)" for q u
    using that routes [of u] double_slash_unfit [of q] assms(3) unfolding apart_def applies_def by blast
  show "answer (app_routes own ui) (Http POST) (CHR ''/'' # CHR ''/'' # p) \<noteq> Found e vs"
    by (rule web_framework.not_served [OF assms(1,2) none])
  show "answer (app_routes own True) (Http POST) (CHR ''/'' # CHR ''/'' # p) = Wrong_Method"
    by (rule web_framework.wrong_method [OF assms(1,2) none [where u = True] _ _ spa_fits])
      (simp_all add: app_routes_def UI_ROUTES_def web_route_def)
qed

lemma rule_path:
  assumes "id_pattern i"
  shows "py_split CHR ''/'' (''/api/rules/'' @ i) = [[], ''api'', ''rules'', i]"
proof -
  have "\<not> is_id_start CHR ''/'' \<and> \<not> is_id_char CHR ''/''" by code_simp
  then have "CHR ''/'' \<notin> set i" using assms by (cases i) (auto simp: list_all_iff)
  then have "py_split CHR ''/'' i = [i]" by (rule py_split_no_sep)
  then show ?thesis by simp
qed

lemma client_addresses:
  assumes "web_framework answer" "is_origin origin" "build_config ch st v = Inr c"
    and "jpath [''sinks'', ''control_plane_tail'', ''uri''] c = Some (JStr uri)"
    and "\<And>path. path \<in> {''/api/agent/bundle'', url_path uri} \<Longrightarrow> one_line path \<and> apart own path"
  shows "jpath [''sinks'', ''control_plane_tail'', ''method''] c = Some (JStr ''post'')"
    and "answer (app_routes own ui) (Http GET)
        (url_path (fst (poll_request (new_agent (origin @ replicate n CHR ''/'') dir pid wait) since))) = Found Ep_Agent_Bundle []"
    and "control_plane_url st = origin \<Longrightarrow> answer (app_routes own ui) (Http POST) (url_path uri) = Found Ep_Intake []"
    and "control_plane_url st = origin @ replicate (Suc n) CHR ''/'' \<Longrightarrow>
      (\<forall>e vs. answer (app_routes own ui) (Http POST) (url_path uri) \<noteq> Found e vs) \<and>
      answer (app_routes own True) (Http POST) (url_path uri) = Wrong_Method"
proof -
  obtain d node where c: "c = JObj [(''sources'', sources st), (''transforms'', transforms st d node), (''sinks'', sinks st)]"
    using assms(3) by (auto simp: build_config_Inr_iff)
  then have uri: "uri = control_plane_url st @ ''/api/decisions/intake''" using assms(4) by (simp add: sinks_def)
  show "jpath [''sinks'', ''control_plane_tail'', ''method''] c = Some (JStr ''post'')" by (simp add: c sinks_def)
  have "url_path (fst (poll_request (new_agent (origin @ replicate n CHR ''/'') dir pid wait) since)) = ''/api/agent/bundle''"
    by (simp add: poll_request_def new_agent_def rstrip_slash_origin [OF assms(2)] url_path_origin [OF assms(2)])
  then show "answer (app_routes own ui) (Http GET)
      (url_path (fst (poll_request (new_agent (origin @ replicate n CHR ''/'') dir pid wait) since))) = Found Ep_Agent_Bundle []"
    using table_answered [OF assms(1) _ _ client_routes(2) _ client_routes(4), of own "Http GET" ui] assms(5)
    by (simp add: accepts_def AGENT_ROUTE_def web_route_def)
  have known: "one_line (url_path uri)" "apart own (url_path uri)" using assms(5) by blast+
  show "answer (app_routes own ui) (Http POST) (url_path uri) = Found Ep_Intake []" if "control_plane_url st = origin"
  proof -
    have "url_path uri = ''/api/decisions/intake''" using that uri url_path_origin [OF assms(2)] by simp
    then show ?thesis
      using table_answered [OF assms(1) _ _ client_routes(1) _ client_routes(3), of own "Http POST" ui] known
      by (simp add: accepts_def INTAKE_ROUTE_def web_route_def)
  qed
  show "(\<forall>e vs. answer (app_routes own ui) (Http POST) (url_path uri) \<noteq> Found e vs) \<and>
      answer (app_routes own True) (Http POST) (url_path uri) = Wrong_Method"
    if slashes: "control_plane_url st = origin @ replicate (Suc n) CHR ''/''"
  proof -
    have "uri = origin @ CHR ''/'' # replicate n CHR ''/'' @ ''/api/decisions/intake''" using uri slashes by simp
    then have "url_path uri = CHR ''/'' # replicate n CHR ''/'' @ ''/api/decisions/intake''"
      by (simp add: url_path_origin [OF assms(2)])
    moreover have "replicate n CHR ''/'' @ CHR ''/'' # p = CHR ''/'' # replicate n CHR ''/'' @ p" for p
      by (induction n) auto
    ultimately have "\<exists>p. url_path uri = CHR ''/'' # CHR ''/'' # p" by simp
    then show ?thesis using double_slash_post [OF assms(1)] known by metis
  qed
qed

text \<open>The routes the framework registers for its own documentation.\<close>

definition documentation_routes :: "web_route list" where
  "documentation_routes = map (\<lambda>p. web_route GET p (Ep_Framework p))
     [''/openapi.json'', ''/docs'', ''/docs/oauth2-redirect'', ''/redoc'']"


lemma documentation_apart:
  assumes "list_all (\<lambda>q. values_of (pieces (wr_path q)) (py_split CHR ''/'' path) = None) documentation_routes"
  shows "apart documentation_routes path"
  using assms values_of_iff by (force simp: list_all_iff apart_def applies_def fitting_def)

section \<open>Properties\<close>



text \<open>C35: No call gets past the guard of its route: without a token that reads, or below the role the route
  needs, whatever the path values, the query and the body, the reply is the error of the guard and nothing
  changes. The only handlers of the API without a guard are the login, the polling of the nodes, the intake of
  decisions and the health report.\<close>

theorem guarded_routes_refuse:
  assumes "site_answer st (app_routes (site_own st) (site_ui st)) (call_scope call) (call_path call) = Found e vs"
    and "handler_of_api e" "pass_guard (site_env st) (call_creds call) (guard_of e) (app_db a) = Inl err"
  shows "handle_call st call a = (Refused (status_of err) err, a) \<and> status_of err \<in> {401, 403, 500} \<and>
    e \<notin> {Ep_Login, Ep_Agent_Bundle, Ep_Intake, Ep_Health} \<and>
    (\<forall>e'. handler_of_api e' \<and> guard_of e' = Open_To_All \<longleftrightarrow> e' \<in> {Ep_Login, Ep_Agent_Bundle, Ep_Intake, Ep_Health})"
proof -
  have unguarded: "\<forall>e'. handler_of_api e' \<and> guard_of e' = Open_To_All \<longleftrightarrow> e' \<in> {Ep_Login, Ep_Agent_Bundle, Ep_Intake, Ep_Health}"
  proof
    fix e' :: endpoint
    show "handler_of_api e' \<and> guard_of e' = Open_To_All \<longleftrightarrow> e' \<in> {Ep_Login, Ep_Agent_Bundle, Ep_Intake, Ep_Health}"
      by (cases e') (simp_all add: handler_endpoints)
  qed
  moreover have "guard_of e \<noteq> Open_To_All" using assms(3) by (auto simp: pass_guard_def)
  moreover have "handle_call st call a = (Refused (status_of err) err, a)"
    using assms refused_request
    by (auto simp: handle_call_def split: option.split)
  moreover have "status_of err \<in> {401, 403, 500}" using guard_errors [OF assms(3)] .
  ultimately show ?thesis using assms(2) by blast
qed

definition anonymous_call :: "http_method \<Rightarrow> string \<Rightarrow> payload \<Rightarrow> http_call" where
  "anonymous_call m path body = \<lparr>call_scope = Http m, call_path = path, call_query = None, call_payload = body,
     call_creds = \<lparr>cred_header = None, cred_cookie = None, cred_now = 5\<rparr>\<rparr>"

definition sample_site :: site where
  "sample_site = \<lparr>site_env = sample_api, site_answer = pick_route, site_own = documentation_routes, site_ui = True,
     site_int = (\<lambda>t. None)\<rparr>"

theorem guarded_routes_refuse_witness:
  "handle_call sample_site (anonymous_call POST ''/api/bundles/7/rollback'' No_Payload) sample_app =
     (Refused 401 (Unauthorized ''not authenticated''), sample_app)"
proof -
  have r: "pick_route (app_routes documentation_routes True) (Http POST) ''/api/bundles/7/rollback'' = Found Ep_Rollback [''7'']"
    by code_simp
  have g: "pass_guard (site_env sample_site) (call_creds (anonymous_call POST ''/api/bundles/7/rollback'' No_Payload))
      (guard_of Ep_Rollback) (app_db sample_app) = Inl (Unauthorized ''not authenticated'')"
    by (simp add: pass_guard_def principal_for_def current_principal_def principal_from_token_def sample_site_def
      anonymous_call_def sample_api_def sample_env_def default_settings_def)
  show ?thesis
    using guarded_routes_refuse [of sample_site "anonymous_call POST ''/api/bundles/7/rollback'' No_Payload" Ep_Rollback
      "[''7'']" sample_app, OF _ _ g] r
    by (simp add: sample_site_def anonymous_call_def handler_endpoints)
qed

text \<open>C36: The parts of the system that call the control plane reach its routes: whatever origin is configured,
  the sink of the live view in every generated configuration posts to the intake, and a poll of the agent
  fetches from the bundle route, the agent's address even with slashes at its end. The two do not read a common
  setting alike: with such an address in the settings every configuration posts to a path that no handler
  serves, so no decision reaches the live view or the sample, while the agents go on polling.\<close>

theorem clients_reach_their_routes:
  assumes "web_framework answer" "is_origin origin" "build_config ch st v = Inr c"
    and "jpath [''sinks'', ''control_plane_tail'', ''uri''] c = Some (JStr uri)"
    and "\<And>path. path \<in> {''/api/agent/bundle'', url_path uri} \<Longrightarrow> one_line path \<and> apart own path"
  shows "jpath [''sinks'', ''control_plane_tail'', ''method''] c = Some (JStr ''post'') \<and>
    (\<forall>n dir pid wait since. answer (app_routes own ui) (Http GET)
      (url_path (fst (poll_request (new_agent (origin @ replicate n CHR ''/'') dir pid wait) since))) = Found Ep_Agent_Bundle []) \<and>
    (control_plane_url st = origin \<longrightarrow> answer (app_routes own ui) (Http POST) (url_path uri) = Found Ep_Intake []) \<and>
    (\<forall>n. control_plane_url st = origin @ replicate (Suc n) CHR ''/'' \<longrightarrow>
      (\<forall>e vs. answer (app_routes own ui) (Http POST) (url_path uri) \<noteq> Found e vs) \<and>
      answer (app_routes own True) (Http POST) (url_path uri) = Wrong_Method)"
  using client_addresses [OF assms] by blast

theorem clients_reach_their_routes_witness:
  "let st = default_vector_settings\<lparr>control_plane_url := ''http://cp:8000/''\<rparr> in
   \<exists>c uri. build_config empty_chain st 1 = Inr c \<and> jpath [''sinks'', ''control_plane_tail'', ''uri''] c = Some (JStr uri) \<and>
     pick_route (app_routes documentation_routes True) (Http POST) (url_path uri) = Wrong_Method \<and>
     pick_route (app_routes documentation_routes True) (Http GET)
       (url_path (fst (poll_request (new_agent ''http://cp:8000/'' [] None (Finite False 150 (-1))) 0))) = Found Ep_Agent_Bundle []"
proof -
  let ?st = "default_vector_settings\<lparr>control_plane_url := ''http://cp:8000/''\<rparr>"
  have "succeeds (encode_string (node_id ?st)) \<and> fst (rpartition CHR '':'' (listen_address ?st)) \<noteq> [] \<and>
    py_isdigit (snd (rpartition CHR '':'' (listen_address ?st)))"
    by code_simp
  then obtain c where c: "build_config empty_chain ?st 1 = Inr c"
    using empty_chain_compiles by (auto simp: build_config_Inr_iff succeeds_iff)
  then have uri: "jpath [''sinks'', ''control_plane_tail'', ''uri''] c = Some (JStr ''http://cp:8000//api/decisions/intake'')"
    by (auto simp: build_config_Inr_iff sinks_def)
  have o: "is_origin ''http://cp:8000''"
    unfolding is_origin_def by (rule exI [of _ "''http''"], rule exI [of _ "''cp:8000''"]) simp
  have u: "url_path ''http://cp:8000//api/decisions/intake'' = ''//api/decisions/intake''" by code_simp
  have known: "one_line p \<and> apart documentation_routes p"
    if "p \<in> {''/api/agent/bundle'', url_path ''http://cp:8000//api/decisions/intake''}" for p
  proof -
    have "list_all (\<lambda>p. one_line p \<and> list_all (\<lambda>q. values_of (pieces (wr_path q)) (py_split CHR ''/'' p) = None) documentation_routes)
        [''/api/agent/bundle'', ''//api/decisions/intake'']"
      by code_simp
    then show ?thesis using that documentation_apart by (auto simp: u list_all_iff)
  qed
  show ?thesis
    using clients_reach_their_routes [OF executable.web_framework_axioms o c uri known, of True] c uri
    by (force dest: spec [of _ 0] spec [of _ "1::nat"])
qed

end
