(* ===== verification/Engine.thy ===== *)
theory Engine
  imports Prelude Settings
begin

text \<open>
  The engine and the session factory of \<open>db/session.py\<close>: two globals of the process, each made at its
  first use, without a lock. Engines are objects, so they live in a store and the globals hold
  references. The functions are given whole, for one thread, and as steps on the globals, for requests
  that are served by several threads. SQLAlchemy itself, and the tables, stay outside.
\<close>

section \<open>The globals\<close>

definition sqlite :: "string \<Rightarrow> bool" where
  "sqlite url \<longleftrightarrow> py_startswith ''sqlite'' url"

text \<open>What \<open>_configure_sqlite\<close> runs on every new connection.\<close>

definition SQLITE_PRAGMAS :: "string list" where
  "SQLITE_PRAGMAS = [''PRAGMA journal_mode=WAL'', ''PRAGMA foreign_keys=ON'', ''PRAGMA synchronous=NORMAL'']"

record engine =
  eng_url :: string
  eng_any_thread :: bool
  eng_listeners :: nat

record db_process =
  pr_settings :: "settings option"
  pr_heap :: "engine list"
  pr_engine :: "nat option"
  pr_maker :: "nat option"
  pr_tables :: "nat list"

definition fresh_process :: db_process where
  "fresh_process = \<lparr>pr_settings = None, pr_heap = [], pr_engine = None, pr_maker = None, pr_tables = []\<rparr>"

text \<open>What a new connection of an engine has run, one listener after another.\<close>

definition connect_script :: "engine \<Rightarrow> string list" where
  "connect_script e = concat (replicate (eng_listeners e) SQLITE_PRAGMAS)"

definition create_engine :: "string \<Rightarrow> db_process \<Rightarrow> db_process" where
  "create_engine url p =
     p\<lparr>pr_heap := pr_heap p @ [\<lparr>eng_url = url, eng_any_thread = sqlite url, eng_listeners = 0\<rparr>],
       pr_engine := Some (length (pr_heap p))\<rparr>"

text \<open>\<open>event.listen\<close> on the engine that the global names.\<close>

definition listen :: "string \<Rightarrow> db_process \<Rightarrow> db_process" where
  "listen url p =
     (case pr_engine p of
        None \<Rightarrow> p
      | Some i \<Rightarrow> if sqlite url
          then p\<lparr>pr_heap := (pr_heap p)[i := (pr_heap p ! i)\<lparr>eng_listeners := Suc (eng_listeners (pr_heap p ! i))\<rparr>]\<rparr>
          else p)"

definition get_engine :: "(settings_error, settings) result \<Rightarrow> db_process \<Rightarrow> (settings_error, nat) result \<times> db_process" where
  "get_engine construct p =
     (case pr_engine p of
        Some i \<Rightarrow> (Inr i, p)
      | None \<Rightarrow>
          (case get_settings construct (pr_settings p) of
             (Inl e, c) \<Rightarrow> (Inl e, p\<lparr>pr_settings := c\<rparr>)
           | (Inr s, c) \<Rightarrow>
               (let q = listen (database_url s) (create_engine (database_url s) (p\<lparr>pr_settings := c\<rparr>))
                in (Inr (the (pr_engine q)), q))))"

definition get_sessionmaker :: "(settings_error, settings) result \<Rightarrow> db_process \<Rightarrow> (settings_error, nat) result \<times> db_process" where
  "get_sessionmaker construct p =
     (case pr_maker p of
        Some i \<Rightarrow> (Inr i, p)
      | None \<Rightarrow>
          (case get_engine construct p of
             (Inl e, q) \<Rightarrow> (Inl e, q)
           | (Inr i, q) \<Rightarrow> (Inr i, q\<lparr>pr_maker := Some i\<rparr>)))"

definition init_db :: "(settings_error, settings) result \<Rightarrow> db_process \<Rightarrow> (settings_error, unit) result \<times> db_process" where
  "init_db construct p =
     (case get_engine construct p of
        (Inl e, q) \<Rightarrow> (Inl e, q)
      | (Inr i, q) \<Rightarrow> (Inr (), q\<lparr>pr_tables := List.insert i (pr_tables q)\<rparr>))"

definition reset_engine_cache :: "db_process \<Rightarrow> db_process" where
  "reset_engine_cache p = p\<lparr>pr_engine := None, pr_maker := None\<rparr>"

section \<open>One thread\<close>

text \<open>References are in the store, and the factory, when there is one, is bound to the engine of the global.\<close>

definition process_ok :: "db_process \<Rightarrow> bool" where
  "process_ok p \<longleftrightarrow>
     (case pr_engine p of Some i \<Rightarrow> i < length (pr_heap p) | None \<Rightarrow> True) \<and>
     (pr_maker p = None \<or> pr_maker p = pr_engine p) \<and> (\<forall>i \<in> set (pr_tables p). i < length (pr_heap p)) \<and>
     (\<forall>e \<in> set (pr_heap p). eng_any_thread e = sqlite (eng_url e) \<and>
        connect_script e = (if sqlite (eng_url e) then SQLITE_PRAGMAS else []))"

lemma fresh_process_ok: "process_ok fresh_process"
  by (simp add: process_ok_def fresh_process_def)

lemma new_engine_heap:
  "pr_heap (listen url (create_engine url p)) =
     pr_heap p @ [\<lparr>eng_url = url, eng_any_thread = sqlite url, eng_listeners = (if sqlite url then 1 else 0)\<rparr>]"
  "pr_engine (listen url (create_engine url p)) = Some (length (pr_heap p))"
  "pr_maker (listen url (create_engine url p)) = pr_maker p" "pr_tables (listen url (create_engine url p)) = pr_tables p"
  by (simp_all add: listen_def create_engine_def)

lemma get_engine_ok:
  assumes "process_ok p" "get_engine construct p = (r, q)"
  shows "process_ok q" "r = Inr i \<Longrightarrow> pr_engine q = Some i" "pr_maker q = pr_maker p"
    "pr_engine p \<noteq> None \<Longrightarrow> q = p \<and> r = Inr (the (pr_engine p))"
  using assms
  by (auto simp: get_engine_def process_ok_def new_engine_heap connect_script_def Let_def less_Suc_eq
      split: option.splits prod.splits sum.splits)

lemma get_sessionmaker_ok:
  assumes "process_ok p" "get_sessionmaker construct p = (r, q)"
  shows "process_ok q" "r = Inr i \<Longrightarrow> pr_engine q = Some i \<and> pr_maker q = Some i"
proof -
  obtain r' q' where g: "get_engine construct p = (r', q')" by (cases "get_engine construct p")
  note e = get_engine_ok [OF assms(1) g]
  show "process_ok q"
    using assms e g by (auto simp: get_sessionmaker_def process_ok_def split: option.splits sum.splits)
  show "r = Inr i \<Longrightarrow> pr_engine q = Some i \<and> pr_maker q = Some i"
    using assms e g by (auto simp: get_sessionmaker_def process_ok_def split: option.splits sum.splits)
qed

lemma init_db_ok:
  assumes "process_ok p" "init_db construct p = (r, q)"
  shows "process_ok q" "r = Inr () \<Longrightarrow> \<exists>i. pr_engine q = Some i \<and> i \<in> set (pr_tables q)"
proof -
  obtain r' q' where g: "get_engine construct p = (r', q')" by (cases "get_engine construct p")
  note e = get_engine_ok [OF assms(1) g]
  show "process_ok q"
    using assms(2) e(1,2) g by (fastforce simp: init_db_def process_ok_def split: sum.splits)
  show "r = Inr () \<Longrightarrow> \<exists>i. pr_engine q = Some i \<and> i \<in> set (pr_tables q)"
    using assms(2) e(2) g by (auto simp: init_db_def split: sum.splits)
qed

lemma reset_engine_cache_ok: "process_ok p \<Longrightarrow> process_ok (reset_engine_cache p)"
  by (simp add: process_ok_def reset_engine_cache_def)

section \<open>Several threads\<close>

text \<open>
  Where a thread is inside \<open>get_sessionmaker\<close>. Each step reads or writes one global; the settings
  are cached by then, so the address is a parameter.
\<close>

datatype pc = Want_Maker | Want_Engine | Creating | Listening | Reading | Binding nat | Returning | Has nat

fun thread_step :: "string \<Rightarrow> pc \<Rightarrow> db_process \<Rightarrow> pc \<times> db_process" where
  "thread_step url Want_Maker p = (if pr_maker p = None then Want_Engine else Returning, p)"
| "thread_step url Want_Engine p = (if pr_engine p = None then Creating else Reading, p)"
| "thread_step url Creating p = (Listening, create_engine url p)"
| "thread_step url Listening p = (Reading, listen url p)"
| "thread_step url Reading p = (case pr_engine p of Some i \<Rightarrow> Binding i | None \<Rightarrow> Reading, p)"
| "thread_step url (Binding i) p = (Returning, p\<lparr>pr_maker := Some i\<rparr>)"
| "thread_step url Returning p = (case pr_maker p of Some i \<Rightarrow> Has i | None \<Rightarrow> Returning, p)"
| "thread_step url (Has i) p = (Has i, p)"

text \<open>A schedule names the thread of each step.\<close>

fun schedule :: "string \<Rightarrow> nat list \<Rightarrow> (nat \<Rightarrow> pc) \<times> db_process \<Rightarrow> (nat \<Rightarrow> pc) \<times> db_process" where
  "schedule url [] (pcs, p) = (pcs, p)"
| "schedule url (t # ts) (pcs, p) =
     (case thread_step url (pcs t) p of (c, q) \<Rightarrow> schedule url ts (pcs(t := c), q))"

text \<open>A thread that is not interrupted computes the function.\<close>

lemma alone_is_get_sessionmaker:
  assumes "pr_settings p = Some s" "process_ok p"
  shows "\<exists>i. schedule (database_url s) (replicate 7 t) (\<lambda>_. Want_Maker, p) =
      ((\<lambda>_. Want_Maker)(t := Has i), snd (get_sessionmaker construct p)) \<and>
    fst (get_sessionmaker construct p) = Inr i"
proof -
  have r: "replicate 7 t = [t, t, t, t, t, t, t]" by (simp add: numeral_eq_Suc)
  have f: "p\<lparr>pr_settings := Some s\<rparr> = p" using assms(1) by simp
  show ?thesis
    unfolding r using assms(1)
    by (cases "pr_maker p"; cases "pr_engine p")
      (auto simp: get_sessionmaker_def get_engine_def get_settings_def Let_def f new_engine_heap)
qed

text \<open>
  Two first requests at once: both find no engine, the first ends on its own engine, and the second
  replaces the global and the factory. The process then has two engines in use.
\<close>

lemma two_first_requests_race:
  "case schedule ''sqlite://'' [0, 0, 1, 1, 0, 0, 0, 0, 0, 1, 1, 1, 1, 1] (\<lambda>_. Want_Maker, fresh_process) of
     (pcs, p) \<Rightarrow> pcs 0 = Has 0 \<and> pcs 1 = Has 1 \<and> length (pr_heap p) = 2 \<and> pr_engine p = Some 1"
  by code_simp

text \<open>The steps left to a thread when the engine exists.\<close>

fun steps_left :: "pc \<Rightarrow> nat" where
  "steps_left Want_Maker = 5"
| "steps_left Want_Engine = 4"
| "steps_left Reading = 3"
| "steps_left (Binding i) = 2"
| "steps_left Returning = 1"
| "steps_left _ = 0"

definition settled :: "nat \<Rightarrow> db_process \<Rightarrow> pc \<Rightarrow> db_process \<Rightarrow> bool" where
  "settled e p0 c p \<longleftrightarrow>
     (p = p0 \<or> p = p0\<lparr>pr_maker := Some e\<rparr>) \<and>
     c \<in> {Want_Maker, Want_Engine, Reading, Binding e, Returning, Has e} \<and>
     (c \<in> {Returning, Has e} \<longrightarrow> pr_maker p = Some e)"

lemma settled_step:
  assumes "pr_engine p0 = Some e" "pr_maker p0 \<in> {None, Some e}" "settled e p0 c p" "thread_step url c p = (c', p')"
  shows "settled e p0 c' p'" "steps_left c' = steps_left c - 1 \<or> steps_left c' < steps_left c"
    "settled e p0 d p \<Longrightarrow> settled e p0 d p'"
  using assms by (cases c; auto simp: settled_def split: if_splits)+

lemma settled_schedule:
  assumes "pr_engine p0 = Some e" "pr_maker p0 \<in> {None, Some e}" "\<forall>t. settled e p0 (pcs t) p"
    and "schedule url ts (pcs, p) = (pcs', p')"
  shows "(\<forall>t. settled e p0 (pcs' t) p') \<and> (\<forall>t. steps_left (pcs' t) \<le> steps_left (pcs t) - count_list ts t)"
  using assms(3,4)
proof (induction ts arbitrary: pcs p)
  case (Cons u ts)
  obtain c q where st: "thread_step url (pcs u) p = (c, q)" by fastforce
  note step = settled_step [OF assms(1,2) Cons.prems(1) [rule_format] st]
  have "\<forall>t. settled e p0 ((pcs(u := c)) t) q"
    using step(1) step(3) [OF Cons.prems(1) [rule_format]] by simp
  moreover have "schedule url ts (pcs(u := c), q) = (pcs', p')" using Cons.prems(2) st by simp
  ultimately have ih: "\<forall>t. settled e p0 (pcs' t) p'"
    "\<forall>t. steps_left (pcs' t) \<le> steps_left ((pcs(u := c)) t) - count_list ts t"
    using Cons.IH [of "pcs(u := c)" q] by blast+
  have "steps_left (pcs' t) \<le> steps_left (pcs t) - count_list (u # ts) t" for t
    using ih(2) [rule_format, of t] step(2) by (cases "t = u") auto
  with ih(1) show ?case by blast
qed simp

section \<open>Properties\<close>

text \<open>C39: Once the tables have been created at startup, requests served by any number of threads, in any
  interleaving, get sessions on that one engine: none makes another, its SQLite connections are set
  up exactly once, and five turns are enough for every request. (Without the startup two first
  requests can end on two engines.)\<close>

theorem requests_share_engine:
  assumes "process_ok p" "init_db construct p = (Inr (), q)"
    and "schedule url ts (\<lambda>_. Want_Maker, q) = (pcs, q')"
  shows "\<exists>e. e \<in> set (pr_tables q) \<and> pr_engine q' = Some e \<and> pr_heap q' = pr_heap q \<and>
    connect_script (pr_heap q ! e) = (if sqlite (eng_url (pr_heap q ! e)) then SQLITE_PRAGMAS else []) \<and>
    (\<forall>t x. pcs t = Has x \<longrightarrow> x = e) \<and> (\<forall>t. 5 \<le> count_list ts t \<longrightarrow> pcs t = Has e)"
proof -
  obtain e where e: "pr_engine q = Some e" "e \<in> set (pr_tables q)" and ok: "process_ok q"
    using init_db_ok [OF assms(1,2)] by blast
  have m: "pr_maker q \<in> {None, Some e}" using ok e(1) by (auto simp: process_ok_def)
  have "\<forall>t::nat. settled e q Want_Maker q" by (simp add: settled_def)
  from settled_schedule [OF e(1) m this assms(3)]
  have s: "settled e q (pcs t) q'" "steps_left (pcs t) \<le> 5 - count_list ts t" for t by simp_all
  have "pr_engine q' = Some e" "pr_heap q' = pr_heap q" using s(1) [of 0] e(1) by (auto simp: settled_def)
  moreover have "pcs t = Has x \<longrightarrow> x = e" for t x using s(1) [of t] by (auto simp: settled_def)
  moreover have "5 \<le> count_list ts t \<longrightarrow> pcs t = Has e" for t
    using s [of t] by (auto simp: settled_def)
  moreover have "connect_script (pr_heap q ! e) = (if sqlite (eng_url (pr_heap q ! e)) then SQLITE_PRAGMAS else [])"
    using ok e(1) by (auto simp: process_ok_def)
  ultimately show ?thesis using e(2) by blast
qed

theorem requests_share_engine_witness:
  "let (r, q) = init_db (Inr default_settings) fresh_process;
       (pcs, q') = schedule (database_url default_settings) [0, 1, 1, 0, 1, 0, 0, 1, 1, 0] (\<lambda>_. Want_Maker, q)
   in r = Inr () \<and> pcs 0 = Has 0 \<and> pcs 1 = Has 0 \<and> length (pr_heap q') = 1"
proof -
  let ?ts = "[0, 1, 1, 0, 1, 0, 0, 1, 1, 0] :: nat list"
  obtain q where q: "init_db (Inr default_settings) fresh_process = (Inr (), q)"
    by (simp add: init_db_def get_engine_def get_settings_def fresh_process_def Let_def new_engine_heap)
  then have h: "length (pr_heap q) = 1" "pr_engine q = Some 0"
    by (auto simp: init_db_def get_engine_def get_settings_def fresh_process_def Let_def new_engine_heap)
  obtain pcs q' where s: "schedule (database_url default_settings) ?ts (\<lambda>_. Want_Maker, q) = (pcs, q')"
    by (cases "schedule (database_url default_settings) ?ts (\<lambda>_. Want_Maker, q)")
  obtain e where "pr_engine q' = Some e" "pr_heap q' = pr_heap q" "\<forall>t. 5 \<le> count_list ?ts t \<longrightarrow> pcs t = Has e"
    "e \<in> set (pr_tables q)"
    using requests_share_engine [OF fresh_process_ok q s] by blast
  moreover have "pr_tables q = [0]"
    using q by (auto simp: init_db_def get_engine_def get_settings_def fresh_process_def Let_def new_engine_heap)
  ultimately show ?thesis using q s h by simp
qed

end
