(* ===== verification/Number_Format.thy ===== *)
theory Number_Format
  imports Complex_Main Prelude Py_Float
begin

text \<open>
  The number formats of the printed reports: thousands separators, a fixed number of decimals, a sign and
  a width. A float is the exact rational it stands for; its text is the decimal nearest to it, a tie
  going to the even last digit.
\<close>

text \<open>Commas between groups of three, on the digits in reverse.\<close>

fun group_digits :: "string \<Rightarrow> string" where
  "group_digits (a # b # c # d # ds) = a # b # c # CHR '','' # group_digits (d # ds)"
| "group_digits ds = ds"

definition grouped :: "nat \<Rightarrow> string" where
  "grouped n = rev (group_digits (rev (nat_str n)))"

text \<open>\<open>f"{n:,}"\<close> of an integer.\<close>

definition fmt_int :: "int \<Rightarrow> string" where
  "fmt_int i = (if i < 0 then CHR ''-'' # grouped (nat (- i)) else grouped (nat i))"

text \<open>The absolute value in units of the last of \<open>d\<close> decimals.\<close>

definition scaled :: "nat \<Rightarrow> rat \<Rightarrow> nat" where
  "scaled d x = (case quotient_of \<bar>x\<bar> of (a, b) \<Rightarrow> round_div (nat a * 10 ^ d) (nat b))"

definition decimals :: "(nat \<Rightarrow> string) \<Rightarrow> nat \<Rightarrow> nat \<Rightarrow> string" where
  "decimals digits d n =
     (if d = 0 then digits n else digits (n div 10 ^ d) @ ''.'' @ zero_pad d (nat_str (n mod 10 ^ d)))"

text \<open>\<open>f"{x:.df}"\<close>, \<open>f"{x:,.df}"\<close> and \<open>f"{x:+.df}"\<close>.\<close>

definition fmt_fixed :: "nat \<Rightarrow> rat \<Rightarrow> string" where
  "fmt_fixed d x = (if x < 0 then ''-'' else []) @ decimals nat_str d (scaled d x)"

definition fmt_grouped :: "nat \<Rightarrow> rat \<Rightarrow> string" where
  "fmt_grouped d x = (if x < 0 then ''-'' else []) @ decimals grouped d (scaled d x)"

definition fmt_signed :: "nat \<Rightarrow> rat \<Rightarrow> string" where
  "fmt_signed d x = (if x < 0 then ''-'' else ''+'') @ decimals nat_str d (scaled d x)"

definition right_align :: "nat \<Rightarrow> string \<Rightarrow> string" where
  "right_align w s = replicate (w - length s) (CHR '' '') @ s"

definition left_align :: "nat \<Rightarrow> string \<Rightarrow> string" where
  "left_align w s = s @ replicate (w - length s) (CHR '' '')"

section \<open>Reading them back\<close>

definition no_commas :: "string \<Rightarrow> string" where
  "no_commas = filter (\<lambda>c. c \<noteq> CHR '','')"

lemma no_commas_group: "CHR '','' \<notin> set ds \<Longrightarrow> no_commas (group_digits ds) = ds"
  by (induction ds rule: group_digits.induct) (auto simp: no_commas_def)

lemma nat_str_no_comma: "CHR '','' \<notin> set (nat_str n)"
  by (auto dest!: nat_str_digits simp: is_ascii_digit_def)

lemma no_commas_grouped: "no_commas (grouped n) = nat_str n"
proof -
  have "no_commas (group_digits (rev (nat_str n))) = rev (nat_str n)"
    by (rule no_commas_group) (simp add: nat_str_no_comma)
  then show ?thesis by (simp add: grouped_def no_commas_def rev_filter [symmetric])
qed

lemma fmt_int_reads_back: "no_commas (fmt_int i) = int_str i"
  using no_commas_grouped by (simp add: fmt_int_def int_str_def) (simp add: no_commas_def)

text \<open>Groups: every comma is followed by three digits, and then by a comma or the end.\<close>

fun three_by_three :: "string \<Rightarrow> bool" where
  "three_by_three (a # b # c # d # ds) \<longleftrightarrow>
     CHR '','' \<notin> {a, b, c} \<and> d = CHR '','' \<and> ds \<noteq> [] \<and> three_by_three ds"
| "three_by_three ds \<longleftrightarrow> CHR '','' \<notin> set ds"

lemma group_digits_nonempty: "group_digits ds = [] \<longleftrightarrow> ds = []"
  by (cases ds rule: group_digits.cases) simp_all

lemma group_digits_shape: "CHR '','' \<notin> set ds \<Longrightarrow> three_by_three (group_digits ds)"
  by (induction ds rule: group_digits.induct) (simp_all add: group_digits_nonempty)

lemma grouped_shape: "three_by_three (rev (grouped n))"
  unfolding grouped_def rev_rev_ident by (rule group_digits_shape) (simp add: nat_str_no_comma)

lemma round_div_nearest:
  assumes "0 < b"
  shows "\<bar>2 * int (round_div a b) * int b - 2 * int a\<bar> \<le> int b"
proof -
  have e: "int a = int (a div b) * int b + int (a mod b)" by (metis div_mult_mod_eq of_nat_add of_nat_mult)
  have "a mod b < b" using assms by simp
  then show ?thesis
    unfolding round_div_def Let_def e by (auto simp: algebra_simps)
qed

lemma scaled_nearest: "\<bar>of_nat (scaled d x) / 10 ^ d - \<bar>x\<bar>\<bar> \<le> 1 / (2 * 10 ^ d)"
proof -
  obtain a b where q: "quotient_of \<bar>x\<bar> = (a, b)" by fastforce
  have b: "0 < b" using quotient_of_denom_pos [OF q] .
  have x: "\<bar>x\<bar> = of_int a / of_int b" by (rule quotient_of_div [OF q])
  have "0 \<le> \<bar>x\<bar>" by simp
  then have a: "0 \<le> a" using b unfolding x by (simp add: zero_le_divide_iff)
  let ?n = "round_div (nat a * 10 ^ d) (nat b)"
  have "\<bar>2 * int ?n * b - 2 * (a * 10 ^ d)\<bar> \<le> b"
    using round_div_nearest [of "nat b" "nat a * 10 ^ d"] a b by simp
  then have "(of_int \<bar>2 * int ?n * b - 2 * (a * 10 ^ d)\<bar> :: rat) \<le> of_int b" by (simp only: of_int_le_iff)
  then have r: "\<bar>2 * of_nat ?n * of_int b - 2 * (of_int a * 10 ^ d)\<bar> \<le> (of_int b :: rat)" by simp
  have "of_nat ?n / 10 ^ d - \<bar>x\<bar> = (2 * of_nat ?n * of_int b - 2 * (of_int a * 10 ^ d)) / (2 * of_int b * 10 ^ d)"
    using b by (simp add: x field_simps)
  moreover have "\<bar>2 * of_nat ?n * of_int b - 2 * (of_int a * 10 ^ d)\<bar> / (2 * of_int b * 10 ^ d) \<le> (of_int b / (2 * of_int b * 10 ^ d) :: rat)"
    by (rule divide_right_mono [OF r]) (use b in simp)
  moreover have "of_int b / (2 * of_int b * 10 ^ d) = (1 / (2 * 10 ^ d) :: rat)" using b by simp
  moreover have "\<bar>2 * of_int b * 10 ^ d :: rat\<bar> = 2 * of_int b * 10 ^ d" using b by (simp add: abs_mult)
  ultimately show ?thesis by (simp add: scaled_def q abs_divide del: abs_mult)
qed

end
