(* ===== verification/Cefgen.thy ===== *)
theory Cefgen
  imports Prelude
begin

text \<open>
  The traffic generator, \<open>cefgen/main.py\<close>: the two escapes and one event. What the random source and
  the clock give is a record of draws. Text is its UTF-8 encoding, which the escapes, being ASCII, respect.
\<close>

definition HOSTS :: "string list" where
  "HOSTS = [''scanner01'', ''web-prod-01'', ''db-prod-02'', ''LAB-HOST-9'', ''vpn-edge-1'']"

definition TYPES :: "string list" where
  "TYPES = [''ids'', ''av'', ''dlp'', ''fw'', ''auth'']"

definition NAMES :: "string list" where
  "NAMES = [''Port scan detected'', ''Malware signature match'', ''Policy violation'',
     ''Failed authentication'', ''Suspicious outbound connection'']"

definition ADVERSARIAL_NAMES :: "string list" where
  "ADVERSARIAL_NAMES = [
     ''Query string in name?a=1&b=2'',
     ''Pipe '' @ [BSLASH] @ ''| inside header'',
     ''Backslash '' @ [BSLASH, BSLASH] @ '' at end'',
     ''Equals = unescaped in value'',
     ''Escaped '' @ [BSLASH] @ ''= equals in value'',
     ''Newline '' @ [BSLASH] @ ''n literal'',
     ''Unicode '' @ [CHR 0xE2, CHR 0x98, CHR 0x83] @ '' snowman'',
     replicate 900 (CHR ''A'')]"

definition cef_escape_header :: "string \<Rightarrow> string" where
  "cef_escape_header value = py_replace CHR ''|'' [BSLASH, CHR ''|''] (py_replace BSLASH [BSLASH, BSLASH] value)"

definition cef_escape_extension :: "string \<Rightarrow> string" where
  "cef_escape_extension value = py_replace CHR ''='' [BSLASH, CHR ''=''] (py_replace BSLASH [BSLASH, BSLASH] value)"

text \<open>The draws of one event; a choice from a list is an index below its length.\<close>

record event_draw =
  dr_host :: nat
  dr_severity :: nat
  dr_name :: nat
  dr_ip :: "nat \<times> nat \<times> nat"
  dr_signature :: nat
  dr_eventid :: nat
  dr_filterid :: nat
  dr_node :: nat
  dr_priority :: nat
  dr_type :: nat
  dr_millis :: int
  dr_stamp :: string

definition draw_ok :: "bool \<Rightarrow> event_draw \<Rightarrow> bool" where
  "draw_ok adversarial d \<longleftrightarrow>
     dr_host d < length HOSTS \<and> dr_severity d \<le> 10 \<and>
     dr_name d < length (if adversarial then ADVERSARIAL_NAMES else NAMES) \<and> dr_type d < length TYPES"

definition chosen_host :: "string option \<Rightarrow> event_draw \<Rightarrow> string" where
  "chosen_host host d = (case host of Some (c # cs) \<Rightarrow> c # cs | _ \<Rightarrow> HOSTS ! dr_host d)"

definition chosen_severity :: "int option \<Rightarrow> event_draw \<Rightarrow> int" where
  "chosen_severity severity d = (case severity of Some i \<Rightarrow> i | None \<Rightarrow> int (dr_severity d))"

definition chosen_name :: "bool \<Rightarrow> event_draw \<Rightarrow> string" where
  "chosen_name adversarial d = (if adversarial then ADVERSARIAL_NAMES else NAMES) ! dr_name d"

definition event_header :: "bool \<Rightarrow> int option \<Rightarrow> event_draw \<Rightarrow> string" where
  "event_header adversarial severity d =
     py_join ''|'' [''CEF:0'', ''SixthSense'', ''Generator'', ''1.0'', nat_str (dr_signature d),
       cef_escape_header (chosen_name adversarial d), int_str (chosen_severity severity d)]"

definition event_extension :: "string option \<Rightarrow> bool \<Rightarrow> event_draw \<Rightarrow> string" where
  "event_extension host escape_extensions d =
     (let esc = (if escape_extensions then cef_escape_extension else (\<lambda>v. v));
          ip = (case dr_ip d of (a, b, c) \<Rightarrow> ''10.'' @ nat_str a @ ''.'' @ nat_str b @ ''.'' @ nat_str c) in
      py_join '' '' [
        ''eventid='' @ nat_str (dr_eventid d),
        ''filterhostname='' @ esc (chosen_host host d),
        ''filterid='' @ nat_str (dr_filterid d),
        ''filteripaddress='' @ ip,
        ''filternodename=node-'' @ nat_str (dr_node d),
        ''filterpriority='' @ nat_str (dr_priority d),
        ''filtertype='' @ TYPES ! dr_type d,
        ''notificationtime='' @ int_str (dr_millis d)])"

definition make_event :: "bool \<Rightarrow> string option \<Rightarrow> int option \<Rightarrow> bool \<Rightarrow> event_draw \<Rightarrow> string" where
  "make_event adversarial host severity escape_extensions d =
     ''<134>'' @ dr_stamp d @ '' '' @ chosen_host host d @ '' CEF: '' @ event_header adversarial severity d @
     ''|'' @ event_extension host escape_extensions d"

section \<open>Reading an event\<close>

text \<open>A header field ends at a bar that no backslash escapes.\<close>

fun cef_field :: "string \<Rightarrow> string \<times> string option" where
  "cef_field [] = ([], None)"
| "cef_field (c # cs) =
     (if c = CHR ''|'' then ([], Some cs)
      else if c = BSLASH then
        (case cs of
           [] \<Rightarrow> ([BSLASH], None)
         | d # ds \<Rightarrow> (let (f, rest) = cef_field ds in (d # f, rest)))
      else (let (f, rest) = cef_field cs in (c # f, rest)))"

fun cef_fields :: "nat \<Rightarrow> string \<Rightarrow> (string list \<times> string) option" where
  "cef_fields 0 s = Some ([], s)"
| "cef_fields (Suc n) s =
     (case cef_field s of
        (f, Some rest) \<Rightarrow> (case cef_fields n rest of Some (fs, tail) \<Rightarrow> Some (f # fs, tail) | None \<Rightarrow> None)
      | (f, None) \<Rightarrow> None)"

text \<open>The equals signs of an extension that no backslash escapes: one for each key.\<close>

fun bare_equals :: "string \<Rightarrow> nat" where
  "bare_equals [] = 0"
| "bare_equals (c # cs) =
     (if c = BSLASH then (case cs of [] \<Rightarrow> 0 | d # ds \<Rightarrow> bare_equals ds)
      else (if c = CHR ''='' then 1 else 0) + bare_equals cs)"

lemma escape_header_simps:
  "cef_escape_header [] = []"
  "cef_escape_header (c # cs) =
     (if c = BSLASH then [BSLASH, BSLASH] else if c = CHR ''|'' then [BSLASH, CHR ''|''] else [c]) @ cef_escape_header cs"
  by (simp_all add: cef_escape_header_def py_replace_def)

lemma escape_extension_simps:
  "cef_escape_extension [] = []"
  "cef_escape_extension (c # cs) =
     (if c = BSLASH then [BSLASH, BSLASH] else if c = CHR ''='' then [BSLASH, CHR ''=''] else [c]) @ cef_escape_extension cs"
  by (simp_all add: cef_escape_extension_def py_replace_def)

lemma cef_field_escaped: "cef_field (cef_escape_header s @ CHR ''|'' # rest) = (s, Some rest)"
  by (induction s) (simp_all add: escape_header_simps)

lemma cef_field_plain:
  "CHR ''|'' \<notin> set s \<Longrightarrow> BSLASH \<notin> set s \<Longrightarrow> cef_field (s @ CHR ''|'' # rest) = (s, Some rest)"
  by (induction s) auto

lemma bare_equals_plain: "BSLASH \<notin> set s \<Longrightarrow> bare_equals (s @ t) = length (filter (\<lambda>c. c = CHR ''='') s) + bare_equals t"
  by (induction s) auto

lemma bare_equals_escaped: "bare_equals (cef_escape_extension s @ t) = bare_equals t"
  by (induction s) (simp_all add: escape_extension_simps)

lemma digits_plain: "c \<in> set (nat_str n) \<Longrightarrow> c \<noteq> CHR ''='' \<and> c \<noteq> BSLASH \<and> c \<noteq> CHR ''|''"
  using nat_str_digits [of c n] by (auto simp: is_ascii_digit_def)

lemma int_str_plain: "c \<in> set (int_str i) \<Longrightarrow> c \<noteq> CHR ''='' \<and> c \<noteq> BSLASH \<and> c \<noteq> CHR ''|''"
  using int_str_chars [of c i] by (auto simp: is_ascii_digit_def)

lemma bare_equals_number:
  "bare_equals (nat_str n @ t) = bare_equals t" "bare_equals (int_str i @ t) = bare_equals t"
  "bare_equals (int_str i) = 0"
proof -
  have f: "filter (\<lambda>c. c = CHR ''='') (nat_str n) = []" "filter (\<lambda>c. c = CHR ''='') (int_str i) = []" for n i
    using digits_plain int_str_plain by (auto simp: filter_empty_conv)
  show "bare_equals (nat_str n @ t) = bare_equals t" "bare_equals (int_str i @ t) = bare_equals t"
    using bare_equals_plain [of "nat_str n" t] bare_equals_plain [of "int_str i" t] f digits_plain int_str_plain by auto
  show "bare_equals (int_str i) = 0" using bare_equals_plain [of "int_str i" "[]"] f int_str_plain by auto
qed

lemma bare_equals_type: "i < length TYPES \<Longrightarrow> bare_equals (TYPES ! i @ t) = bare_equals t"
proof -
  assume "i < length TYPES"
  then have "TYPES ! i \<in> set TYPES" by (rule nth_mem)
  then show ?thesis by (auto simp: TYPES_def)
qed

section \<open>Properties\<close>

text \<open>A generated event reads back, adversarial names included: after the marker come the seven
  header fields the generator put in, the name as it was before escaping, and then exactly the
  extension; the escaped extension has one bare equals sign for each of its eight keys whatever the
  host is called.\<close>

theorem generated_event_reads_back:
  assumes "draw_ok adversarial d"
  shows "\<exists>pre body. make_event adversarial host severity escaped d = pre @ '' CEF: '' @ body \<and>
    cef_fields 7 body = Some ([''CEF:0'', ''SixthSense'', ''Generator'', ''1.0'', nat_str (dr_signature d),
        chosen_name adversarial d, int_str (chosen_severity severity d)], event_extension host escaped d) \<and>
    bare_equals (event_extension host True d) = 8"
proof -
  let ?body = "event_header adversarial severity d @ ''|'' @ event_extension host escaped d"
  have n: "cef_field (nat_str k @ CHR ''|'' # r) = (nat_str k, Some r)"
    "cef_field (int_str i @ CHR ''|'' # r) = (int_str i, Some r)" for k i r
    using cef_field_plain digits_plain int_str_plain by blast+
  have "cef_fields 7 ?body = Some ([''CEF:0'', ''SixthSense'', ''Generator'', ''1.0'', nat_str (dr_signature d),
      chosen_name adversarial d, int_str (chosen_severity severity d)], event_extension host escaped d)"
    by (simp add: event_header_def numeral_eq_Suc n cef_field_escaped)
  moreover have "bare_equals (event_extension host True d) = 8"
    using assms
    by (simp add: event_extension_def Let_def split_beta draw_ok_def bare_equals_number bare_equals_escaped bare_equals_type)
  moreover have "make_event adversarial host severity escaped d =
      (''<134>'' @ dr_stamp d @ '' '' @ chosen_host host d) @ '' CEF: '' @ ?body"
    by (simp add: make_event_def)
  ultimately show ?thesis by blast
qed

text \<open>A draw for the concrete instance.\<close>

definition sample_draw :: event_draw where
  "sample_draw = \<lparr>dr_host = 0, dr_severity = 5, dr_name = 1, dr_ip = (1, 2, 3), dr_signature = 1000,
     dr_eventid = 100000, dr_filterid = 1, dr_node = 1, dr_priority = 1, dr_type = 0, dr_millis = 0,
     dr_stamp = ''Jul 31 12:00:00''\<rparr>"

theorem generated_event_reads_back_witness:
  "draw_ok True sample_draw \<and> bare_equals (event_extension (Some ''a=b'') True sample_draw) = 8"
proof -
  have d: "draw_ok True sample_draw"
    by (simp add: draw_ok_def sample_draw_def HOSTS_def ADVERSARIAL_NAMES_def TYPES_def)
  show ?thesis using generated_event_reads_back [OF d, of "Some ''a=b''" None True] d by blast
qed

text \<open>The commands name no host, and no built-in host has a character to escape: with and without
  escaping the same event comes out, so the options for unescaped values change nothing, and no generated
  event has a bare equals sign in a value.\<close>

lemma plain_escape: "BSLASH \<notin> set s \<Longrightarrow> CHR ''='' \<notin> set s \<Longrightarrow> cef_escape_extension s = s"
  by (induction s) (auto simp: escape_extension_simps)

theorem unescaped_changes_nothing:
  assumes "draw_ok adversarial d"
  shows "make_event adversarial None severity escaped d = make_event adversarial None severity True d \<and>
    bare_equals (event_extension None escaped d) = 8"
proof -
  have "HOSTS ! dr_host d \<in> set HOSTS" using assms by (simp add: draw_ok_def)
  moreover have "\<forall>h \<in> set HOSTS. BSLASH \<notin> set h \<and> CHR ''='' \<notin> set h" by code_simp
  ultimately have "cef_escape_extension (chosen_host None d) = chosen_host None d"
    using plain_escape by (simp add: chosen_host_def)
  then have e: "event_extension None escaped d = event_extension None True d"
    by (simp add: event_extension_def Let_def)
  moreover have "bare_equals (event_extension None True d) = 8" using generated_event_reads_back [OF assms, of None None True] by blast
  ultimately show ?thesis by (simp add: make_event_def)
qed

theorem unescaped_changes_nothing_witness: "bare_equals (event_extension None False sample_draw) = 8"
proof -
  have "draw_ok True sample_draw" by (simp add: draw_ok_def sample_draw_def HOSTS_def ADVERSARIAL_NAMES_def TYPES_def)
  then show ?thesis using unescaped_changes_nothing by blast
qed

end
