(* ===== verification/Cefgen_Send.thy ===== *)
theory Cefgen_Send
  imports Complex_Main Prelude Number_Format Cefgen
begin

text \<open>
  The command \<open>cefgen\<close>: sending events at a rate, and the two subcommands. The random source and the
  clock are parameters, a turn of the loop at a time: what the generator draws, how long making and
  sending the event takes, and by how much a sleep overshoots, which Python documents it may but never
  ends early. Times are exact rationals in seconds.
\<close>

section \<open>Sending\<close>

text \<open>\<open>s.rpartition(sep)\<close>.\<close>

definition py_rpartition :: "char \<Rightarrow> string \<Rightarrow> string \<times> string \<times> string" where
  "py_rpartition sep s =
     (if sep \<notin> set s then ([], [], s)
      else let t = rev (takeWhile (\<lambda>c. c \<noteq> sep) (rev s)) in (take (length s - Suc (length t)) s, [sep], t))"

record send_turn =
  tn_adversarial :: rat
  tn_unescaped :: rat
  tn_draw :: event_draw
  tn_work :: rat
  tn_overshoot :: rat

definition turn_event :: "rat \<Rightarrow> rat \<Rightarrow> send_turn \<Rightarrow> string" where
  "turn_event adversarial_share unescaped_share t =
     make_event (tn_adversarial t < adversarial_share) None None (unescaped_share \<le> tn_unescaped t) (tn_draw t)"

text \<open>The wait after an event, from the deadline and the clock to the clock afterwards.\<close>

definition wait_until :: "rat \<Rightarrow> rat \<Rightarrow> rat \<Rightarrow> rat" where
  "wait_until deadline now overshoot = (let delay = deadline - now in if 0 < delay then now + delay + overshoot else now)"

text \<open>The loop gives the events with the clock after each was sent, and the clock at the end.\<close>

fun send_loop :: "(send_turn \<Rightarrow> string) \<Rightarrow> rat \<Rightarrow> rat \<Rightarrow> rat \<Rightarrow> send_turn list \<Rightarrow> (rat \<times> string) list \<times> rat" where
  "send_loop event interval next_at now [] = ([], now)"
| "send_loop event interval next_at now (t # ts) =
     (let sent_at = now + tn_work t;
          deadline = (if interval \<noteq> 0 then next_at + interval else next_at);
          now' = (if interval \<noteq> 0 then wait_until deadline sent_at (tn_overshoot t) else sent_at);
          (packets, fin) = send_loop event interval deadline now' ts
      in ((sent_at, event t) # packets, fin))"

definition interval_of :: "int \<Rightarrow> rat" where
  "interval_of rate = (if 0 < rate then 1 / of_int rate else 0)"

record sending =
  sd_host :: string
  sd_port :: int
  sd_packets :: "(rat \<times> string) list"
  sd_sent :: nat
  sd_elapsed :: rat

datatype send_error = BadPort string

definition send :: "string \<Rightarrow> int \<Rightarrow> int \<Rightarrow> rat \<Rightarrow> rat \<Rightarrow> rat \<Rightarrow> (nat \<Rightarrow> send_turn) \<Rightarrow> (send_error, sending) result" where
  "send target count rate adversarial_share unescaped_share start turns =
     (case py_rpartition CHR '':'' target of (host, sep, port) \<Rightarrow>
        (case py_int_of_str port of
           None \<Rightarrow> Inl (BadPort port)
         | Some p \<Rightarrow>
             (case send_loop (turn_event adversarial_share unescaped_share) (interval_of rate) start start
                     (map turns [0..<nat count]) of
                (packets, fin) \<Rightarrow> Inr \<lparr>sd_host = host, sd_port = p, sd_packets = packets,
                   sd_sent = length packets, sd_elapsed = fin - start\<rparr>)))"

section \<open>The command\<close>

datatype command =
    Print_Events (ce_count: int) (ce_adversarial: bool) (ce_unescaped: bool)
  | Send_Events (ce_target: string) (ce_count: int) (ce_rate: int) (ce_adversarial_share: rat) (ce_unescaped_share: rat)

text \<open>The options' defaults.\<close>

definition print_defaults :: command where
  "print_defaults = Print_Events 10 False False"

definition send_defaults :: "string \<Rightarrow> command" where
  "send_defaults target = Send_Events target 1000 1000 0 0"

definition achieved :: "sending \<Rightarrow> rat" where
  "achieved s = (if sd_elapsed s \<noteq> 0 then of_nat (sd_sent s) / sd_elapsed s else 0)"

definition sent_line :: "sending \<Rightarrow> string" where
  "sent_line s = ''sent '' @ nat_str (sd_sent s) @ '' events in '' @ fmt_fixed 2 (sd_elapsed s) @ ''s ('' @
     fmt_grouped 0 (achieved s) @ '' EPS)''"

text \<open>What it prints on the two streams, and the exit code.\<close>

record printed =
  out_lines :: "string list"
  err_lines :: "string list"
  exit_code :: int

definition cefgen_main :: "command \<Rightarrow> rat \<Rightarrow> (nat \<Rightarrow> send_turn) \<Rightarrow> (send_error, printed) result" where
  "cefgen_main c start turns =
     (case c of
        Print_Events count adversarial unescaped \<Rightarrow>
          Inr \<lparr>out_lines = map (\<lambda>i. make_event adversarial None None (\<not> unescaped) (tn_draw (turns i))) [0..<nat count],
               err_lines = [], exit_code = 0\<rparr>
      | Send_Events target count rate adversarial_share unescaped_share \<Rightarrow>
          bindR (send target count rate adversarial_share unescaped_share start turns) (\<lambda>s.
            Inr \<lparr>out_lines = [], err_lines = [sent_line s], exit_code = 0\<rparr>))"

section \<open>Pacing\<close>

lemma rpartition_target: "CHR '':'' \<notin> set port \<Longrightarrow> py_rpartition CHR '':'' (host @ CHR '':'' # port) = (host, '':'', port)"
proof -
  assume "CHR '':'' \<notin> set port"
  then have "takeWhile (\<lambda>c. c \<noteq> CHR '':'') (rev port @ CHR '':'' # rev host) = rev port"
    by (subst takeWhile_append2) auto
  then show ?thesis by (simp add: py_rpartition_def)
qed

lemma send_loop_length: "length (fst (send_loop event interval next_at now ts)) = length ts"
  by (induction ts arbitrary: next_at now) (simp_all add: Let_def case_prod_beta)

definition fair_turn :: "rat \<Rightarrow> rat \<Rightarrow> send_turn \<Rightarrow> bool" where
  "fair_turn w v t \<longleftrightarrow> 0 \<le> tn_work t \<and> tn_work t \<le> w \<and> 0 \<le> tn_overshoot t \<and> tn_overshoot t \<le> v"

text \<open>Never ahead of the schedule, whatever the times are.\<close>

lemma send_loop_not_early:
  assumes "0 < interval" "\<forall>t \<in> set ts. 0 \<le> tn_work t \<and> 0 \<le> tn_overshoot t" "next_at \<le> now"
  shows "next_at + of_nat (length ts) * interval \<le> snd (send_loop event interval next_at now ts) \<and>
    (\<forall>k < length ts. next_at + of_nat k * interval \<le> fst (fst (send_loop event interval next_at now ts) ! k))"
  using assms(2,3)
proof (induction ts arbitrary: next_at now)
  case (Cons t ts)
  let ?sent = "now + tn_work t" and ?next = "next_at + interval"
  let ?now = "wait_until ?next ?sent (tn_overshoot t)"
  obtain ps fin where r: "send_loop event interval ?next ?now ts = (ps, fin)" by fastforce
  have "?next \<le> ?now" using Cons.prems by (auto simp: wait_until_def Let_def)
  with Cons.IH [of ?next ?now] Cons.prems r
  have ih: "?next + of_nat (length ts) * interval \<le> fin"
    "\<And>k. k < length ts \<Longrightarrow> ?next + of_nat k * interval \<le> fst (ps ! k)" by auto
  have "next_at + of_nat k * interval \<le> fst (((?sent, event t) # ps) ! k)" if "k < length (t # ts)" for k
  proof (cases k)
    case 0
    then show ?thesis using Cons.prems by simp
  next
    case (Suc j)
    then show ?thesis using ih(2) [of j] that by (simp add: algebra_simps)
  qed
  then show ?case using ih(1) r assms(1) by (simp add: Let_def algebra_simps)
qed simp

text \<open>And it catches up, when a turn and an overshoot fit into one interval.\<close>

lemma send_loop_not_late:
  assumes "0 < interval" "w + v \<le> interval" "0 \<le> v" "\<forall>t \<in> set ts. fair_turn w v t" "now \<le> next_at + v"
  shows "snd (send_loop event interval next_at now ts) \<le> next_at + of_nat (length ts) * interval + v"
  using assms(4,5)
proof (induction ts arbitrary: next_at now)
  case (Cons t ts)
  let ?sent = "now + tn_work t" and ?next = "next_at + interval"
  let ?now = "wait_until ?next ?sent (tn_overshoot t)"
  have "tn_work t \<le> w" "tn_overshoot t \<le> v" using Cons.prems by (simp_all add: fair_turn_def)
  then have "?sent \<le> ?next" "?now \<le> ?next + v"
    using Cons.prems(2) assms(2,3) by (auto simp: wait_until_def Let_def)
  with Cons.IH [of ?now ?next] Cons.prems(1)
  have "snd (send_loop event interval ?next ?now ts) \<le> ?next + of_nat (length ts) * interval + v" by simp
  then show ?case using assms(1) by (simp add: Let_def case_prod_beta algebra_simps)
qed simp

lemma interval_of_pos: "0 < rate \<Longrightarrow> 0 < interval_of rate"
  by (simp add: interval_of_def)

lemma send_Inr:
  assumes "send target count rate a u start turns = Inr s"
  obtains "sd_packets s = fst (send_loop (turn_event a u) (interval_of rate) start start (map turns [0..<nat count]))"
    "sd_elapsed s = snd (send_loop (turn_event a u) (interval_of rate) start start (map turns [0..<nat count])) - start"
    "sd_sent s = nat count"
  using assms send_loop_length [of "turn_event a u" "interval_of rate" start start "map turns [0..<nat count]"]
  by (auto simp: send_def split: option.splits prod.splits)

section \<open>Properties\<close>

definition sample_turn :: "nat \<Rightarrow> send_turn" where
  "sample_turn i = \<lparr>tn_adversarial = 1 / 2, tn_unescaped = 1 / 2,
     tn_draw = \<lparr>dr_host = 0, dr_severity = 5, dr_name = 0, dr_ip = (1, 2, 3), dr_signature = 100, dr_eventid = 1,
       dr_filterid = 1, dr_node = 1, dr_priority = 1, dr_type = 0, dr_millis = 0, dr_stamp = ''Jul 31 12:00:00''\<rparr>,
     tn_work = (if i = 1 then 1 / 200 else 1 / 1000), tn_overshoot = 1 / 1000\<rparr>"

text \<open>A paced sender keeps its rate: it sends exactly the number of events asked for, event \<open>k\<close> no
  earlier than \<open>k\<close> intervals after the start, so the achieved rate is never above the one asked for,
  whatever the machine does. And it does not drift: when the time for an event and the overshoot of a
  sleep fit into an interval together, it is behind the schedule by one overshoot at most at the end.\<close>

theorem sending_keeps_rate:
  assumes "send target count rate a u start turns = Inr s" "0 < rate" "0 < count"
    and "\<forall>i < nat count. fair_turn w v (turns i)"
  shows "int (sd_sent s) = count \<and> achieved s \<le> of_int rate \<and>
    (\<forall>k < nat count. start + of_nat k / of_int rate \<le> fst (sd_packets s ! k)) \<and>
    (w + v \<le> 1 / of_int rate \<longrightarrow> sd_elapsed s \<le> of_int count / of_int rate + v)"
proof -
  let ?ts = "map turns [0..<nat count]" and ?i = "interval_of rate"
  let ?loop = "send_loop (turn_event a u) ?i start start ?ts"
  have s: "sd_packets s = fst ?loop" "sd_elapsed s = snd ?loop - start" "sd_sent s = nat count"
    using send_Inr [OF assms(1)] by blast+
  have i: "0 < ?i" "?i = 1 / of_int rate" using assms(2) by (simp_all add: interval_of_def)
  have f: "\<forall>t \<in> set ?ts. fair_turn w v t" "\<forall>t \<in> set ?ts. 0 \<le> tn_work t \<and> 0 \<le> tn_overshoot t"
    using assms(4) by (auto simp: fair_turn_def)
  have len: "(of_nat (length ?ts) :: rat) = of_int count" using assms(3) by simp
  note early = send_loop_not_early [OF i(1) f(2) order_refl, of start "turn_event a u", unfolded len]
  then have e: "of_int count * ?i \<le> sd_elapsed s" unfolding s(2) by linarith
  have "0 < of_int count * ?i" using assms(3) i(1) by simp
  with e have pos: "0 < sd_elapsed s" by linarith
  have "of_int count \<le> of_int rate * sd_elapsed s" using e assms(2) by (simp add: i(2) field_simps)
  then have "achieved s \<le> of_int rate" using pos assms(3) by (simp add: achieved_def s(3) field_simps)
  moreover have "start + of_nat k / of_int rate \<le> fst (sd_packets s ! k)" if "k < nat count" for k
    using early that by (simp add: s(1) i(2))
  moreover have "sd_elapsed s \<le> of_int count / of_int rate + v" if "w + v \<le> 1 / of_int rate"
  proof -
    have "turns 0 \<in> set ?ts" using assms(3) by simp
    then have "fair_turn w v (turns 0)" using f(1) by blast
    then have "0 \<le> v" by (simp add: fair_turn_def)
    from send_loop_not_late [OF i(1) _ this f(1), of start start "turn_event a u", unfolded len] that this
    show ?thesis unfolding s(2) i(2) by simp
  qed
  ultimately show ?thesis using s(3) assms(3) by simp
qed

theorem sending_keeps_rate_witness:
  "\<exists>s. send ''127.0.0.1:5140'' 3 100 0 0 7 sample_turn = Inr s \<and> sd_port s = 5140 \<and> achieved s \<le> 100 \<and>
     7 + 2 / 100 \<le> fst (sd_packets s ! 2) \<and> sd_elapsed s \<le> 3 / 100 + 1 / 1000"
proof -
  have "py_rpartition CHR '':'' ''127.0.0.1:5140'' = (''127.0.0.1'', '':'', ''5140'')" "py_int_of_str ''5140'' = Some 5140"
    by code_simp+
  then have "\<exists>s. send ''127.0.0.1:5140'' 3 100 0 0 7 sample_turn = Inr s \<and> sd_port s = 5140"
    by (simp add: send_def case_prod_beta)
  then obtain s where s: "send ''127.0.0.1:5140'' 3 100 0 0 7 sample_turn = Inr s" "sd_port s = 5140" by blast
  have "\<forall>i < nat 3. fair_turn (1 / 200) (1 / 1000) (sample_turn i)" by (simp add: fair_turn_def sample_turn_def)
  from sending_keeps_rate [OF s(1) _ _ this] have r: "achieved s \<le> 100" "sd_elapsed s \<le> 3 / 100 + 1 / 1000"
    "\<forall>k < nat 3. 7 + of_nat k / 100 \<le> fst (sd_packets s ! k)" by simp_all
  then have "7 + of_nat 2 / 100 \<le> fst (sd_packets s ! 2)" by (metis nat_numeral lessI numeral_3_eq_3 numeral_2_eq_2)
  with r s show ?thesis by (intro exI [of _ s]) simp
qed

end
