(* ===== verification/Cli.thy ===== *)
theory Cli
  imports Complex_Main Prelude Rule_Model Compiler Json Vector_Config Validate Settings Database Change_Log
    Rules_Service Bundles Auth App Engine Number_Format Cefgen_Send
begin

text \<open>
  The command \<open>ssctl\<close>, \<open>cli.py\<close>: the parsed options, the four commands with what they print, and the
  dispatch. The parser of the options is the library's; a process starts with empty globals, creates the
  tables and works on the stored database.
\<close>

datatype ss_command =
    Serve (sc_host: "string option") (sc_port: "int option") (sc_reload: bool)
  | Init_Db
  | Add_User (sc_username: string) (sc_role: role) (sc_password: "string option")
  | Compile_Chain

text \<open>The options of a command line with nothing but the required ones.\<close>

definition serve_defaults :: ss_command where
  "serve_defaults = Serve None None False"

definition adduser_defaults :: "string \<Rightarrow> ss_command" where
  "adduser_defaults name = Add_User name VIEWER None"

record cli_env =
  cl_construct :: "(settings_error, settings) result"
  cl_auth :: auth_env
  cl_toml :: "json \<Rightarrow> string"
  cl_sha256 :: "string \<Rightarrow> string"
  cl_tools :: toolchain
  cl_generated :: string
  cl_now :: int

datatype cli_error = Bad_Settings settings_error | Account_Error http_error | Compile_Failed bundle_error

text \<open>What the server is started with, and what is printed.\<close>

record cli_result =
  cr_printed :: printed
  cr_server :: "(string \<times> int \<times> bool) option"

definition prints :: "string list \<Rightarrow> string list \<Rightarrow> int \<Rightarrow> cli_result" where
  "prints out err code = \<lparr>cr_printed = \<lparr>out_lines = out, err_lines = err, exit_code = code\<rparr>, cr_server = None\<rparr>"

definition run_serve :: "cli_env \<Rightarrow> string option \<Rightarrow> int option \<Rightarrow> bool \<Rightarrow> (cli_error, cli_result) result" where
  "run_serve env host port reload =
     bindR (mapError Bad_Settings (cl_construct env)) (\<lambda>cfg.
       case cmd_serve host port cfg of (h, p) \<Rightarrow> Inr ((prints [] [] 0)\<lparr>cr_server := Some (h, p, reload)\<rparr>))"

definition run_init :: "cli_env \<Rightarrow> (cli_error, cli_result) result" where
  "run_init env = bindR (mapError Bad_Settings (fst (init_db (cl_construct env) fresh_process))) (\<lambda>u.
     Inr (prints [''database initialized''] [] 0))"

text \<open>\<open>_cmd_adduser\<close> with its output. An existing account returns out of the scope, which commits nothing.\<close>

definition run_adduser ::
    "cli_env \<Rightarrow> string \<Rightarrow> role \<Rightarrow> string option \<Rightarrow> database \<Rightarrow> (cli_error, cli_result) result \<times> database" where
  "run_adduser env name r password db =
     (case fst (init_db (cl_construct env) fresh_process) of
        Inl e \<Rightarrow> (Inl (Bad_Settings e), db)
      | Inr u \<Rightarrow>
          (case cmd_adduser (cl_auth env) (cl_generated env) name r password db of
             (Inl e, db') \<Rightarrow> (Inl (Account_Error e), db')
           | (Inr User_Exists, db') \<Rightarrow> (Inr (prints [] [''user '' @ name @ '' already exists''] 1), db')
           | (Inr User_Created, db') \<Rightarrow>
               (Inr (prints ([''created '' @ name @ '' with role '' @ role_value r] @
                  (if password = None \<or> password = Some [] then [''generated password: '' @ cl_generated env] else []))
                  [] 0), db')))"

definition run_compile :: "cli_env \<Rightarrow> database \<Rightarrow> (cli_error, cli_result) result \<times> database" where
  "run_compile env db =
     (case init_db (cl_construct env) fresh_process of
        (Inl e, p) \<Rightarrow> (Inl (Bad_Settings e), db)
      | (Inr u, p) \<Rightarrow>
          (let benv = \<lparr>toml_dumps = cl_toml env, sha256_hex = cl_sha256 env, tools = cl_tools env,
                 env_settings = the (pr_settings p)\<rparr>;
               (text, db') = cmd_compile benv (cl_now env) db
           in (bindR (mapError Compile_Failed text) (\<lambda>t. Inr (prints [t] [] 0)), db')))"

definition ssctl :: "cli_env \<Rightarrow> ss_command \<Rightarrow> database \<Rightarrow> (cli_error, cli_result) result \<times> database" where
  "ssctl env c db =
     (case c of
        Serve host port reload \<Rightarrow> (run_serve env host port reload, db)
      | Init_Db \<Rightarrow> (run_init env, db)
      | Add_User name r password \<Rightarrow> run_adduser env name r password db
      | Compile_Chain \<Rightarrow> run_compile env db)"

section \<open>What a command does\<close>

lemma init_fresh:
  "init_db (Inr cfg) fresh_process = (Inr (), p) \<Longrightarrow> pr_settings p = Some cfg"
  "\<exists>p. init_db (Inr cfg) fresh_process = (Inr (), p)"
  by (auto simp: init_db_def get_engine_def get_settings_def fresh_process_def Let_def listen_def create_engine_def
      split: if_splits)

lemma adduser_cases:
  "cmd_adduser aenv gen name r password db =
     (if find_user db name \<noteq> None then (Inr User_Exists, db)
      else (Inr User_Created, db\<lparr>db_users := db_users db @ [\<lparr>us_username = name,
        us_password_hash = hash_password aenv (case password of Some (c # cs) \<Rightarrow> c # cs | _ \<Rightarrow> gen),
        us_role = role_value r, us_disabled = False\<rparr>]\<rparr>))"
  by (auto simp: cmd_adduser_def session_scope_def commit_def on_db_def Let_def split: option.split)

text \<open>The command changes the accounts only, and exits with 1 exactly when the account exists.\<close>

lemma adduser_effects:
  assumes "cl_construct env = Inr cfg"
  shows "\<exists>res db'. run_adduser env name r password db = (Inr res, db') \<and> cr_server res = None \<and>
    (exit_code (cr_printed res) = 1 \<longleftrightarrow> find_user db name \<noteq> None) \<and>
    (exit_code (cr_printed res) = 1 \<longrightarrow> db' = db \<and> out_lines (cr_printed res) = []) \<and>
    db'\<lparr>db_users := db_users db\<rparr> = db"
proof -
  obtain p where "init_db (Inr cfg) fresh_process = (Inr (), p)" using init_fresh(2) by blast
  then show ?thesis
    by (cases "find_user db name") (simp_all add: run_adduser_def assms adduser_cases prints_def)
qed

text \<open>A printed password works.\<close>

lemma generated_password_works:
  assumes "run_adduser env name r None db = (Inr res, db')" "exit_code (cr_printed res) = 0"
    and "argon_ok (cl_auth env)"
  shows "last (out_lines (cr_printed res)) = ''generated password: '' @ cl_generated env \<and>
    authenticate (cl_auth env) db' name (cl_generated env) = Inr (Some \<lparr>pr_username = name, pr_role = r\<rparr>)"
proof -
  have n: "find_user db name = None"
    using assms(1,2) by (auto simp: run_adduser_def adduser_cases prints_def split: sum.splits if_splits)
  let ?u = "\<lparr>us_username = name, us_password_hash = hash_password (cl_auth env) (cl_generated env),
      us_role = role_value r, us_disabled = False\<rparr>"
  have d: "db' = db\<lparr>db_users := db_users db @ [?u]\<rparr>"
    "last (out_lines (cr_printed res)) = ''generated password: '' @ cl_generated env"
    using assms(1) n by (auto simp: run_adduser_def adduser_cases prints_def split: sum.splits)
  have "find_user db' name = Some ?u" using n by (simp add: d find_user_add)
  moreover have "verify_password (cl_auth env) (hash_password (cl_auth env) (cl_generated env)) (cl_generated env)"
    using assms(3) by (simp add: verify_password_def hash_password_def argon_ok_def)
  ultimately show ?thesis using d(2) by (simp add: authenticate_def principal_of_def)
qed

text \<open>What \<open>compile\<close> prints is the configuration of the stored chain at version 0; nothing is published.\<close>

lemma compile_prints_chain:
  assumes "run_compile env db = (Inr res, db')"
  shows "\<exists>cfg ch s. cl_construct env = Inr cfg \<and> load_chain \<lparr>committed = db, current = db\<rparr> = (Inr ch, s) \<and>
    render_toml (cl_toml env) ch (vector_settings_from_config cfg) 0 = Inr (hd (out_lines (cr_printed res))) \<and>
    db_bundles db' = db_bundles db \<and> db_audit db' = db_audit db \<and> db_rules db' = db_rules db"
proof -
  have "init_db (Inl e) fresh_process = (Inl e, fresh_process)" for e
    by (simp add: init_db_def get_engine_def get_settings_def fresh_process_def)
  then obtain cfg where cfg: "cl_construct env = Inr cfg"
    using assms by (cases "cl_construct env") (simp_all add: run_compile_def)
  obtain p where "init_db (Inr cfg) fresh_process = (Inr (), p)" using init_fresh(2) by blast
  note c = cfg this
  obtain r s where l: "load_chain \<lparr>committed = db, current = db\<rparr> = (r, s)" by fastforce
  note t = load_chain_tables [OF l]
  show ?thesis
    using assms c l t init_fresh(1) [OF c(2)]
    by (cases r) (auto simp: run_compile_def cmd_compile_def session_scope_def commit_def rollback_session_def
        build_bundle_def bindR_Inr_iff mapError_Inr_iff prints_def)
qed

end
