(* ===== verification/Perf_Counters.thy ===== *)
theory Perf_Counters
  imports Prelude Validate
begin

text \<open>
  The kernel's UDP counters, \<open>perf/counters.py\<close>: the two parsers and the difference of two
  snapshots. Reading a file and running a program are parameters: their text, or nothing on an error.
\<close>

record udp_counters =
  receive_buffer_errors :: "int option"
  in_errors :: "int option"
  uc_received :: "int option"
  uc_source :: string

definition unavailable :: udp_counters where
  "unavailable = \<lparr>receive_buffer_errors = None, in_errors = None, uc_received = None, uc_source = ''unavailable''\<rparr>"

definition diff_opt :: "int option \<Rightarrow> int option \<Rightarrow> int option" where
  "diff_opt a b = (case (a, b) of (Some x, Some y) \<Rightarrow> Some (x - y) | _ \<Rightarrow> None)"

definition delta :: "udp_counters \<Rightarrow> udp_counters \<Rightarrow> udp_counters" where
  "delta later earlier =
     \<lparr>receive_buffer_errors = diff_opt (receive_buffer_errors later) (receive_buffer_errors earlier),
      in_errors = diff_opt (in_errors later) (in_errors earlier),
      uc_received = diff_opt (uc_received later) (uc_received earlier), uc_source = uc_source later\<rparr>"

definition available :: "udp_counters \<Rightarrow> bool" where
  "available c \<longleftrightarrow> receive_buffer_errors c \<noteq> None"

section \<open>Linux\<close>

text \<open>\<open>line.split()\<close>: the maximal runs of other characters than white space.\<close>

fun split_words :: "string \<Rightarrow> string \<Rightarrow> string list" where
  "split_words acc [] = (if acc = [] then [] else [rev acc])"
| "split_words acc (c # cs) =
     (if is_space c then (if acc = [] then [] else [rev acc]) @ split_words [] cs
      else split_words (c # acc) cs)"

definition py_words :: "string \<Rightarrow> string list" where
  "py_words s = split_words [] s"

text \<open>The dictionary of a header and its values; \<open>None\<close> is the \<open>ValueError\<close> of a value that is not
  a number. The last one of equal names stays.\<close>

definition snmp_values :: "string list \<Rightarrow> string list \<Rightarrow> (string \<times> int) list option" where
  "snmp_values header columns =
     (let pairs = map (\<lambda>(k, f). (k, py_int_of_str f)) (zip header columns) in
      if list_all (\<lambda>(k, v). v \<noteq> None) pairs then Some (rev (map (\<lambda>(k, v). (k, the v)) pairs)) else None)"

fun scan_snmp :: "string list option \<Rightarrow> string list \<Rightarrow> udp_counters option" where
  "scan_snmp header [] = Some unavailable"
| "scan_snmp header (l # ls) =
     (if \<not> py_startswith ''Udp:'' l then scan_snmp header ls
      else let columns = tl (py_words l) in
        (case header of
           None \<Rightarrow> scan_snmp (Some columns) ls
         | Some h \<Rightarrow> map_option (\<lambda>values.
             \<lparr>receive_buffer_errors = map_of values ''RcvbufErrors'', in_errors = map_of values ''InErrors'',
              uc_received = map_of values ''InDatagrams'', uc_source = ''/proc/net/snmp''\<rparr>)
             (snmp_values h columns)))"

definition read_linux :: "string option \<Rightarrow> udp_counters option" where
  "read_linux text =
     (case text of None \<Rightarrow> Some unavailable | Some t \<Rightarrow> scan_snmp None (py_splitlines t))"

section \<open>macOS\<close>

text \<open>\<open>(\d+)\s+literal\<close> at a position, and the first position where it matches.\<close>

definition match_count :: "string \<Rightarrow> string \<Rightarrow> string option" where
  "match_count lit s =
     (let digits = takeWhile is_ascii_digit s; rest = dropWhile is_ascii_digit s in
      if digits \<noteq> [] \<and> rest \<noteq> [] \<and> is_space (hd rest) \<and> py_startswith lit (dropWhile is_space rest)
      then Some digits else None)"

fun search_count :: "string \<Rightarrow> string \<Rightarrow> string option" where
  "search_count lit [] = None"
| "search_count lit (c # cs) =
     (case match_count lit (c # cs) of Some d \<Rightarrow> Some d | None \<Rightarrow> search_count lit cs)"

definition macos_dropped :: string where "macos_dropped = ''dropped due to full socket buffers''"
definition macos_received :: string where "macos_received = ''datagrams received''"
definition macos_bad :: string where "macos_bad = ''with bad checksum''"

definition count_of :: "string \<Rightarrow> string \<Rightarrow> int option" where
  "count_of lit s = map_option (\<lambda>d. int (read_nat d)) (search_count lit s)"

definition read_macos :: "string option \<Rightarrow> udp_counters" where
  "read_macos netstat =
     (case netstat of
        None \<Rightarrow> unavailable
      | Some text \<Rightarrow>
          (case count_of macos_dropped text of
             None \<Rightarrow> unavailable
           | Some n \<Rightarrow> \<lparr>receive_buffer_errors = Some n, in_errors = count_of macos_bad text,
               uc_received = count_of macos_received text, uc_source = ''netstat -s -p udp''\<rparr>))"

datatype platform = Linux | Darwin | Other_System

definition read_udp_counters ::
    "platform \<Rightarrow> string option \<Rightarrow> string option \<Rightarrow> udp_counters option" where
  "read_udp_counters system snmp netstat =
     (case system of
        Linux \<Rightarrow> read_linux snmp
      | Darwin \<Rightarrow> Some (read_macos netstat)
      | Other_System \<Rightarrow> Some unavailable)"

text \<open>\<open>max_socket_buffer\<close>: the file first, then \<open>sysctl\<close> on macOS.\<close>

definition max_socket_buffer :: "platform \<Rightarrow> string option \<Rightarrow> string option \<Rightarrow> int option" where
  "max_socket_buffer system rmem_max sysctl =
     (case Option.bind rmem_max (\<lambda>t. py_int_of_str (py_strip t)) of
        Some n \<Rightarrow> Some n
      | None \<Rightarrow> (if system = Darwin then Option.bind sysctl (\<lambda>t. py_int_of_str (py_strip t)) else None))"

section \<open>What the parsers find\<close>

lemma delta_available: "available (delta later earlier) \<longleftrightarrow> available later \<and> available earlier"
  by (auto simp: available_def delta_def diff_opt_def split: option.splits)

lemma delta_adds:
  "receive_buffer_errors (delta c a) = Some z \<Longrightarrow> receive_buffer_errors (delta b a) = Some x \<Longrightarrow>
     receive_buffer_errors (delta c b) = Some (z - x)"
  by (auto simp: delta_def diff_opt_def split: option.splits)

lemma match_count_text:
  assumes "ds \<noteq> []" "list_all is_ascii_digit ds" "lit \<noteq> []" "\<not> is_space (hd lit)"
  shows "match_count lit (ds @ CHR '' '' # lit @ rest) = Some ds"
proof -
  have sp: "\<not> is_ascii_digit CHR '' ''" "is_space CHR '' ''" by (simp_all add: is_ascii_digit_def is_space_def Let_def)
  have t: "takeWhile is_ascii_digit (ds @ CHR '' '' # lit @ rest) = ds"
    "dropWhile is_ascii_digit (ds @ CHR '' '' # lit @ rest) = CHR '' '' # lit @ rest"
    using assms(2) sp(1) by (simp_all add: takeWhile_append2 dropWhile_append2 list_all_iff)
  have "dropWhile is_space (lit @ rest) = lit @ rest" using assms(3,4) by (cases lit) simp_all
  then show ?thesis using assms(1) sp(2) by (simp add: match_count_def t py_startswith_def Let_def)
qed

section \<open>Reading what the kernel writes\<close>

text \<open>A line of the file: the protocol and its columns.\<close>

definition snmp_line :: "string list \<Rightarrow> string" where
  "snmp_line ws = py_join '' '' (''Udp:'' # ws)"

definition other_line :: "string \<Rightarrow> bool" where
  "other_line l \<longleftrightarrow> \<not> py_startswith ''Udp:'' l \<and> list_all (\<lambda>c. \<not> is_line_break c) l"

definition word_ok :: "string \<Rightarrow> bool" where
  "word_ok w \<longleftrightarrow> w \<noteq> [] \<and> list_all (\<lambda>c. \<not> is_space c) w"

lemma break_is_space: "is_line_break c \<Longrightarrow> is_space c"
  by (auto simp: is_line_break_def is_space_def)

lemma split_words_run:
  "list_all (\<lambda>c. \<not> is_space c) w \<Longrightarrow> split_words acc (w @ s) = split_words (rev w @ acc) s"
  by (induction w arbitrary: acc) auto

lemma words_of_join:
  assumes "\<forall>w \<in> set ws. word_ok w"
  shows "py_words (py_join '' '' ws) = ws"
  using assms
proof (induction ws)
  case (Cons w ws)
  then have w: "w \<noteq> []" "list_all (\<lambda>c. \<not> is_space c) w" by (simp_all add: word_ok_def)
  have sp: "is_space CHR '' ''" by (simp add: is_space_def)
  show ?case
    using Cons split_words_run [OF w(2), of "[]" "[]"] split_words_run [OF w(2), of "[]"] w(1) sp
    by (cases "ws = []") (auto simp: py_words_def py_join_Cons)
qed (simp add: py_words_def)

lemma snmp_line_ok:
  assumes "\<forall>w \<in> set ws. word_ok w"
  shows "py_words (snmp_line ws) = ''Udp:'' # ws" "py_startswith ''Udp:'' (snmp_line ws)"
    "list_all (\<lambda>c. \<not> is_line_break c) (snmp_line ws)"
proof -
  have u: "word_ok ''Udp:''" by (simp add: word_ok_def is_space_def)
  show "py_words (snmp_line ws) = ''Udp:'' # ws" using words_of_join [of "''Udp:'' # ws"] assms u by (simp add: snmp_line_def)
  show "py_startswith ''Udp:'' (snmp_line ws)"
    by (cases ws) (simp_all add: snmp_line_def py_startswith_def)
  have "\<forall>w \<in> set vs. word_ok w \<Longrightarrow> list_all (\<lambda>c. \<not> is_line_break c) (py_join '' '' vs)" for vs
  proof (induction vs)
    case (Cons v vs)
    then have "list_all (\<lambda>c. \<not> is_line_break c) v" using break_is_space by (auto simp: word_ok_def list_all_iff)
    with Cons show ?case by (cases "vs = []") (auto simp: py_join_Cons is_line_break_def)
  qed simp
  from this [of "''Udp:'' # ws"] u assms show "list_all (\<lambda>c. \<not> is_line_break c) (snmp_line ws)" by (simp add: snmp_line_def)
qed

lemma scan_other: "\<forall>l \<in> set ls. other_line l \<Longrightarrow> scan_snmp h (ls @ rest) = scan_snmp h rest"
  by (induction ls) (auto simp: other_line_def)

lemma nat_word: "word_ok (nat_str n)"
  using nat_str_digits [of _ n] by (fastforce simp: word_ok_def list_all_iff is_ascii_digit_def is_space_def Let_def)

lemma read_nat_word: "length (nat_str n) \<le> 4300 \<Longrightarrow> py_int_of_str (nat_str n) = Some (int n)"
proof -
  have "hd (nat_str n) \<in> set (nat_str n)" "last (nat_str n) \<in> set (nat_str n)" by simp_all
  then have "py_strip (nat_str n) = nat_str n"
    using nat_word [of n] by (auto simp: py_strip_def strip_by_id_iff word_ok_def list_all_iff)
  then show "length (nat_str n) \<le> 4300 \<Longrightarrow> py_int_of_str (nat_str n) = Some (int n)"
    by (simp add: py_int_of_str_def read_integer_str)
qed

lemma snmp_values_numbers:
  assumes "\<forall>v \<in> set vs. length (nat_str v) \<le> 4300"
  shows "snmp_values hs (map nat_str vs) = Some (rev (zip hs (map int vs)))"
proof -
  have "map (\<lambda>(k, f). (k, py_int_of_str f)) (zip hs (map nat_str vs)) = map (\<lambda>(k, i). (k, Some i)) (zip hs (map int vs))"
    using assms by (induction hs vs rule: list_induct2') (simp_all add: read_nat_word)
  moreover have "list_all (\<lambda>(k, v). v \<noteq> None) (map (\<lambda>(k, i). (k, Some i)) ps)"
    "map (\<lambda>(k, v). (k, the v)) (map (\<lambda>(k, i). (k, Some i)) ps) = ps" for ps :: "(string \<times> int) list"
    by (induction ps) auto
  ultimately show ?thesis unfolding snmp_values_def Let_def by simp
qed

lemma map_of_rev: "distinct (map fst ps) \<Longrightarrow> map_of (rev ps) = map_of ps"
  by (rule map_of_inject_set [THEN iffD2]) (simp_all add: rev_map [symmetric])

text \<open>The Linux reader finds the kernel's counters: in a file with one header line and one value line
  for UDP, whatever other lines surround them, each counter is the number under its own name, absent
  when the header does not name it.\<close>

theorem linux_counters_read:
  assumes "\<forall>l \<in> set pre. other_line l" "\<forall>l \<in> set mid. other_line l"
    and "\<forall>h \<in> set hs. word_ok h" "distinct hs" "length vs = length hs" "\<forall>v \<in> set vs. length (nat_str v) \<le> 4300"
  shows "read_linux (Some (lines_text (pre @ [snmp_line hs] @ mid @ [snmp_line (map nat_str vs)]) @ rest)) =
     Some \<lparr>receive_buffer_errors = map_of (zip hs (map int vs)) ''RcvbufErrors'',
       in_errors = map_of (zip hs (map int vs)) ''InErrors'',
       uc_received = map_of (zip hs (map int vs)) ''InDatagrams'', uc_source = ''/proc/net/snmp''\<rparr>"
proof -
  let ?ls = "pre @ [snmp_line hs] @ mid @ [snmp_line (map nat_str vs)]"
  have nv: "\<forall>w \<in> set (map nat_str vs). word_ok w" by (simp add: nat_word)
  note h = snmp_line_ok [OF assms(3)] and v = snmp_line_ok [OF nv]
  have "py_splitlines (lines_text ?ls @ rest) = ?ls @ py_splitlines rest"
    using assms(1,2) h(3) v(3) by (intro splitlines_text) (auto simp: other_line_def)
  moreover have "distinct (map fst (zip hs (map int vs)))" using assms(4,5) by simp
  ultimately show ?thesis
    using scan_other [OF assms(1)] scan_other [OF assms(2)] h v
    by (simp add: read_linux_def snmp_values_numbers [OF assms(6)] map_of_rev)
qed

theorem linux_counters_read_witness:
  "receive_buffer_errors (the (read_linux (Some (lines_text [''Ip: 1'', snmp_line [''InDatagrams'', ''RcvbufErrors''],
     snmp_line (map nat_str [70, 5])] @ ''UdpLite: 1'')))) = Some 5"
proof -
  have o: "\<forall>l \<in> set [''Ip: 1'']. other_line l" by (simp add: other_line_def py_startswith_def is_line_break_def)
  have h: "\<forall>h \<in> set [''InDatagrams'', ''RcvbufErrors'']. word_ok h" by (simp add: word_ok_def is_space_def)
  have b: "length (nat_str 70) \<le> 4300" "length (nat_str 5) \<le> 4300" by code_simp+
  show ?thesis
    using linux_counters_read [OF o, of "[]" "[''InDatagrams'', ''RcvbufErrors'']" "[70, 5]" "''UdpLite: 1''"] h b
    by simp
qed

end
