(* ===== verification/Perf_Harness.thy ===== *)
theory Perf_Harness
  imports Complex_Main Prelude Py_Float Cefgen Perf_Counters
begin

text \<open>
  The measurement of \<open>perf/harness.py\<close>: the sender with its pacing, the receiver, and the result of a
  run with what it derives from the counts. Clocks and the network are parameters: the readings the sender
  takes, and what the receiver's socket gives it. A float is the exact rational it stands for, and the not
  a number of an empty sample is \<open>None\<close>.
\<close>

definition TS_KEY :: string where "TS_KEY = '' perfts=''"

definition DEFAULT_RCVBUF :: int where "DEFAULT_RCVBUF = 32 * 1024 * 1024"

section \<open>The result of a run\<close>

record run_result =
  rr_label :: string
  rr_sent :: int
  rr_received :: int
  rr_dropped :: int
  rr_duration :: rat
  rr_latencies :: "rat list"
  rr_kernel :: udp_counters
  rr_requested :: int
  rr_actual :: int

definition per_second :: "int \<Rightarrow> run_result \<Rightarrow> rat" where
  "per_second n r = (if rr_duration r = 0 then 0 else of_int n / rr_duration r)"

definition send_rate :: "run_result \<Rightarrow> rat" where
  "send_rate r = per_second (rr_sent r) r"

definition receive_rate :: "run_result \<Rightarrow> rat" where
  "receive_rate r = per_second (rr_received r) r"

definition accounted :: "run_result \<Rightarrow> int" where
  "accounted r = rr_received r + rr_dropped r"

definition throughput :: "run_result \<Rightarrow> rat" where
  "throughput r = per_second (accounted r) r"

definition lost :: "run_result \<Rightarrow> int" where
  "lost r = max 0 (rr_sent r - accounted r)"

definition loss_pct :: "run_result \<Rightarrow> rat" where
  "loss_pct r = (if rr_sent r = 0 then 0 else of_int (lost r) / of_int (rr_sent r) * 100)"

text \<open>\<open>round\<close> takes the even neighbour of a tie.\<close>

definition percentile :: "nat \<Rightarrow> run_result \<Rightarrow> rat option" where
  "percentile p r =
     (if rr_latencies r = [] then None
      else let ordered = sort (rr_latencies r); n = length ordered in
        Some (ordered ! min (n - 1) (round_div (p * (n - 1)) 100)))"

definition p50 :: "run_result \<Rightarrow> rat option" where "p50 r = percentile 50 r"

definition p99 :: "run_result \<Rightarrow> rat option" where "p99 r = percentile 99 r"

definition mean_us :: "run_result \<Rightarrow> rat option" where
  "mean_us r = (if rr_latencies r = [] then None else Some (sum_list (rr_latencies r) / of_nat (length (rr_latencies r))))"

section \<open>Sending\<close>

text \<open>Each event's draws, and whether it is adversarial.\<close>

definition build_payloads :: "(bool \<times> event_draw) list \<Rightarrow> string list" where
  "build_payloads draws = map (\<lambda>(adversarial, d). make_event adversarial None None True d @ TS_KEY) draws"

datatype wait = Sleep rat | Spin rat | Go

definition wait_for :: "rat \<Rightarrow> wait" where
  "wait_for slack = (if 5 / 10000 < slack then Sleep slack else if 0 < slack then Spin slack else Go)"

text \<open>A reading is the performance counter before the wait and the wall clock, in nanoseconds, at the send.\<close>

fun send_paced :: "rat \<Rightarrow> rat \<Rightarrow> string list \<Rightarrow> (rat \<times> nat) list \<Rightarrow> (wait \<times> string) list" where
  "send_paced interval deadline (p # ps) ((now, stamp) # cs) =
     (let d = deadline + interval in (wait_for (d - now), p @ nat_str stamp) # send_paced interval d ps cs)"
| "send_paced interval deadline ps cs = []"

definition send_all :: "int \<Rightarrow> rat \<Rightarrow> string list \<Rightarrow> (rat \<times> nat) list \<Rightarrow> (wait \<times> string) list" where
  "send_all rate start payloads readings =
     (if rate \<le> 0 then map (\<lambda>(p, (now, stamp)). (Go, p @ nat_str stamp)) (zip payloads readings)
      else send_paced (1 / of_int rate) start payloads readings)"

section \<open>Receiving\<close>

fun py_rfind :: "string \<Rightarrow> string \<Rightarrow> nat option" where
  "py_rfind key [] = (if key = [] then Some 0 else None)"
| "py_rfind key (c # cs) =
     (case py_rfind key cs of
        Some i \<Rightarrow> Some (Suc i)
      | None \<Rightarrow> if py_startswith key (c # cs) then Some 0 else None)"

definition latency_of :: "int \<Rightarrow> string \<Rightarrow> rat option" where
  "latency_of now view =
     (case py_rfind TS_KEY view of
        None \<Rightarrow> None
      | Some marker \<Rightarrow>
          map_option (\<lambda>sent. of_int (now - sent) / 1000)
            (py_int_of_bytes (hd (py_split CHR '' '' (drop (marker + length TS_KEY) view)))))"

record receiver =
  rc_count :: nat
  rc_latencies :: "rat list"
  rc_first :: int
  rc_last :: int

definition new_receiver :: receiver where
  "new_receiver = \<lparr>rc_count = 0, rc_latencies = [], rc_first = 0, rc_last = 0\<rparr>"

text \<open>One datagram, received at \<open>now\<close>; \<open>None\<close> is the division by zero.\<close>

definition receive_one :: "int \<Rightarrow> int \<Rightarrow> string \<Rightarrow> receiver \<Rightarrow> receiver option" where
  "receive_one sample_every now data rc =
     (let rc = rc\<lparr>rc_count := rc_count rc + 1, rc_first := (if rc_first rc = 0 then now else rc_first rc), rc_last := now\<rparr> in
      if sample_every = 0 then None
      else if int (rc_count rc) mod sample_every \<noteq> 0 then Some rc
      else case latency_of now (take 65535 data) of
        None \<Rightarrow> Some rc
      | Some l \<Rightarrow> Some (rc\<lparr>rc_latencies := rc_latencies rc @ [l]\<rparr>))"

text \<open>What a wait on the socket gives, until the run stops.\<close>

datatype arrival = Timed_Out | Socket_Error | Datagram int string

fun receive_loop :: "int \<Rightarrow> arrival list \<Rightarrow> receiver \<Rightarrow> receiver option" where
  "receive_loop k [] rc = Some rc"
| "receive_loop k (Timed_Out # es) rc = receive_loop k es rc"
| "receive_loop k (Socket_Error # es) rc = Some rc"
| "receive_loop k (Datagram now data # es) rc = Option.bind (receive_one k now data rc) (receive_loop k es)"

text \<open>The report of the receiver process: nothing when it died.\<close>

definition receiver_report :: "int \<Rightarrow> arrival list \<Rightarrow> receiver option" where
  "receiver_report sample_every es = receive_loop sample_every es new_receiver"

section \<open>A run\<close>

datatype run_error = ZeroDivision | NoSenders | ReceiverNotStarted

text \<open>The processes of a run: whether the receiver came up, the seconds each sender took, what arrives at
  the receiver and at the audit socket (with the buffer size granted), and the counters around the sends.\<close>

record run_env =
  en_ready :: bool
  en_elapsed :: "nat \<Rightarrow> rat"
  en_arrivals :: "arrival list"
  en_audit :: "arrival list"
  en_granted :: int
  en_before :: udp_counters
  en_after :: udp_counters

definition per_sender :: "int \<Rightarrow> int \<Rightarrow> int" where
  "per_sender count senders = max 1 (count div senders)"

text \<open>The events sender \<open>i\<close> sends, and the endpoint it sends them to.\<close>

definition endpoint_of :: "'a \<Rightarrow> 'a list \<Rightarrow> nat \<Rightarrow> 'a" where
  "endpoint_of target targets i = (let endpoints = (if targets = [] then [target] else targets) in
     endpoints ! (i mod length endpoints))"

definition dropped_count :: "bool \<Rightarrow> run_env \<Rightarrow> int" where
  "dropped_count audited env =
     (if \<not> audited then 0
      else case receiver_report (10 ^ 9) (en_audit env) of None \<Rightarrow> 0 | Some rc \<Rightarrow> int (rc_count rc))"

definition run :: "string \<Rightarrow> int \<Rightarrow> int \<Rightarrow> int \<Rightarrow> int \<Rightarrow> bool \<Rightarrow> run_env \<Rightarrow> (run_error, run_result) result" where
  "run label count senders sample_every rcvbuf audited env =
     (if senders = 0 then Inl ZeroDivision
      else if \<not> en_ready env then Inl ReceiverNotStarted
      else if senders < 0 then Inl NoSenders
      else let sent = sum_list (map (\<lambda>i. per_sender count senders) [0..<nat senders]);
               elapsed = Max (en_elapsed env ` {0..<nat senders});
               report = receiver_report sample_every (en_arrivals env) in
        Inr \<lparr>rr_label = label, rr_sent = sent,
             rr_received = (case report of None \<Rightarrow> 0 | Some rc \<Rightarrow> int (rc_count rc)),
             rr_dropped = dropped_count audited env, rr_duration = elapsed,
             rr_latencies = (case report of None \<Rightarrow> [] | Some rc \<Rightarrow> rc_latencies rc),
             rr_kernel = delta (en_after env) (en_before env), rr_requested = rcvbuf,
             rr_actual = (case report of None \<Rightarrow> 0 | Some rc \<Rightarrow> en_granted env)\<rparr>)"

section \<open>What the receiver counts\<close>

lemma startswith_key: "py_startswith TS_KEY (c # cs) \<Longrightarrow> c = CHR '' ''"
  by (auto simp: py_startswith_def TS_KEY_def)

lemma rfind_none: "CHR '' '' \<notin> set s \<Longrightarrow> py_rfind TS_KEY s = None"
  by (induction s) (auto simp: TS_KEY_def dest!: startswith_key [unfolded TS_KEY_def])

lemma rfind_key: "CHR '' '' \<notin> set s \<Longrightarrow> py_rfind TS_KEY (e @ TS_KEY @ s) = Some (length e)"
proof (induction e)
  case Nil
  have "py_rfind TS_KEY (''perfts='' @ s) = None" using Nil by (intro rfind_none) simp
  then show ?case by (simp add: TS_KEY_def py_startswith_def)
qed simp

lemma nat_str_bytes:
  "CHR '' '' \<notin> set (nat_str n)" "strip_by is_ascii_space (nat_str n) = nat_str n"
proof -
  have d: "c \<in> set (nat_str n) \<Longrightarrow> \<not> is_ascii_space c" for c
    using nat_str_digits [of c n] by (auto simp: is_ascii_space_def is_ascii_digit_def)
  then show "CHR '' '' \<notin> set (nat_str n)" by (force simp: is_ascii_space_def)
  have "hd (nat_str n) \<in> set (nat_str n)" "last (nat_str n) \<in> set (nat_str n)" by simp_all
  with d show "strip_by is_ascii_space (nat_str n) = nat_str n" by (simp add: strip_by_id_iff)
qed

text \<open>The stamp survives: what the receiver reads back is the time the sender wrote.\<close>

lemma latency_of_stamped:
  assumes "length (nat_str t) \<le> 4300"
  shows "latency_of now (e @ TS_KEY @ nat_str t) = Some (of_int (now - int t) / 1000)"
proof -
  have "py_int_of_bytes (nat_str t) = Some (int t)"
    by (simp add: py_int_of_bytes_def nat_str_bytes read_integer_str [OF assms])
  then show ?thesis by (simp add: latency_of_def rfind_key nat_str_bytes py_split_no_sep)
qed

definition stamped :: "string \<Rightarrow> nat \<Rightarrow> string" where
  "stamped event t = event @ TS_KEY @ nat_str t"

text \<open>A stamped datagram as it comes off the socket: when it arrived, the event, when it was sent.\<close>

fun stamped_arrival :: "int \<times> string \<times> nat \<Rightarrow> arrival" where
  "stamped_arrival (now, event, t) = Datagram now (stamped event t)"

fun delay :: "int \<times> string \<times> nat \<Rightarrow> rat" where
  "delay (now, event, t) = of_int (now - int t) / 1000"

fun fits :: "int \<times> string \<times> nat \<Rightarrow> bool" where
  "fits (now, event, t) \<longleftrightarrow> length (stamped event t) \<le> 65535 \<and> length (nat_str t) \<le> 4300"

lemma receive_stamped:
  assumes "0 < k" "fits (now, e, t)"
  shows "\<exists>rc'. receive_one k now (stamped e t) rc = Some rc' \<and> rc_count rc' = Suc (rc_count rc) \<and>
    rc_latencies rc' = rc_latencies rc @ (if k dvd int (Suc (rc_count rc)) then [delay (now, e, t)] else [])"
proof -
  have "take 65535 (stamped e t) = stamped e t" using assms(2) by simp
  then have "latency_of now (take 65535 (stamped e t)) = Some (delay (now, e, t))"
    using assms(2) latency_of_stamped [of t now e] by (simp add: stamped_def)
  then show ?thesis using assms(1)
    by (cases "k dvd int (Suc (rc_count rc))") (simp_all add: receive_one_def Let_def dvd_eq_mod_eq_0 add.commute)
qed

lemma loop_stamped:
  assumes "0 < k" "\<forall>x \<in> set xs. fits x"
  shows "\<exists>rc'. receive_loop k (map stamped_arrival xs) rc = Some rc' \<and> rc_count rc' = rc_count rc + length xs \<and>
    rc_latencies rc' = rc_latencies rc @ map delay (nths xs {i. k dvd int (Suc (i + rc_count rc))})"
  using assms(2)
proof (induction xs arbitrary: rc)
  case (Cons x xs)
  obtain now e t where x: "x = (now, e, t)" by (cases x)
  obtain rc1 where 1: "receive_one k now (stamped e t) rc = Some rc1" "rc_count rc1 = Suc (rc_count rc)"
    "rc_latencies rc1 = rc_latencies rc @ (if k dvd int (Suc (rc_count rc)) then [delay x] else [])"
    using receive_stamped [OF assms(1), of now e t rc] Cons.prems x by auto
  then show ?case using Cons.IH [of rc1] Cons.prems x by (cases "k dvd int (Suc (rc_count rc))") (simp_all add: nths_Cons)
qed simp

text \<open>The datagrams received before the socket failed.\<close>

fun arrived :: "arrival list \<Rightarrow> nat" where
  "arrived [] = 0"
| "arrived (Timed_Out # es) = arrived es"
| "arrived (Socket_Error # es) = 0"
| "arrived (Datagram now data # es) = Suc (arrived es)"

lemma receive_one_counts:
  assumes "k \<noteq> 0"
  shows "\<exists>rc'. receive_one k now data rc = Some rc' \<and> rc_count rc' = Suc (rc_count rc)"
  using assms by (auto simp: receive_one_def Let_def split: option.splits)

lemma loop_counts:
  "k \<noteq> 0 \<Longrightarrow> \<exists>rc'. receive_loop k es rc = Some rc' \<and> rc_count rc' = rc_count rc + arrived es"
proof (induction k es rc rule: receive_loop.induct)
  case (4 k now data es rc)
  obtain rc1 where "receive_one k now data rc = Some rc1" "rc_count rc1 = Suc (rc_count rc)"
    using receive_one_counts [OF "4.prems"] by blast
  with 4 show ?case by force
qed simp_all

lemma report_counts: "k \<noteq> 0 \<Longrightarrow> \<exists>rc. receiver_report k es = Some rc \<and> rc_count rc = arrived es"
  using loop_counts [of k es new_receiver] by (simp add: receiver_report_def new_receiver_def)

section \<open>What the sender sends\<close>

lemma send_all_length: "length readings = length payloads \<Longrightarrow> length (send_all rate start payloads readings) = length payloads"
proof -
  have "length cs = length ps \<Longrightarrow> length (send_paced i d ps cs) = length ps" for i d ps and cs :: "(rat \<times> nat) list"
    by (induction ps cs arbitrary: d rule: list_induct2') (auto simp: Let_def)
  then show "length readings = length payloads \<Longrightarrow> ?thesis" by (simp add: send_all_def)
qed

text \<open>Every datagram sent is a generated event with the stamp of its own send.\<close>

lemma sent_are_stamped:
  "d \<in> set (send_all rate start (build_payloads draws) readings) \<Longrightarrow> \<exists>e t. snd d = stamped e t"
proof -
  assume d: "d \<in> set (send_all rate start (build_payloads draws) readings)"
  have "d \<in> set (send_paced i dl ps cs) \<Longrightarrow> \<exists>p \<in> set ps. \<exists>t. snd d = p @ nat_str t" for i dl ps and cs :: "(rat \<times> nat) list"
    by (induction ps cs arbitrary: dl rule: list_induct2') (fastforce simp: Let_def)+
  with d obtain p t where "p \<in> set (build_payloads draws)" "snd d = p @ nat_str t"
    by (fastforce simp: send_all_def dest: set_zip_leftD split: if_splits)
  then have "\<exists>e. snd d = e @ TS_KEY @ nat_str t" by (auto simp: build_payloads_def)
  then show ?thesis unfolding stamped_def by blast
qed

text \<open>A paced sender that waits as told never sends an event before its place in the schedule.\<close>

fun waited :: "rat \<Rightarrow> wait \<Rightarrow> rat" where
  "waited now (Sleep s) = now + s"
| "waited now (Spin s) = now + s"
| "waited now Go = now"

lemma wait_reaches: "deadline \<le> waited now (wait_for (deadline - now))"
  by (auto simp: wait_for_def)

lemma paced_schedule:
  assumes "length readings = length payloads" "i < length payloads"
  shows "start + of_nat (Suc i) * interval \<le>
    waited (fst (readings ! i)) (fst (send_paced interval start payloads readings ! i))"
  using assms
proof (induction payloads readings arbitrary: start i rule: list_induct2')
  case (4 p ps c cs)
  show ?case
  proof (cases i)
    case 0 then show ?thesis by (cases c) (simp add: Let_def wait_reaches)
  next
    case (Suc j)
    then show ?thesis using "4.IH" [of j "start + interval"] "4.prems" by (cases c) (simp add: Let_def algebra_simps)
  qed
qed simp_all

section \<open>Properties\<close>

text \<open>The receiver samples every k-th datagram and measures it exactly: when what arrives are the
  generator's events with the sender's stamp, it counts all of them and its latencies are, in order,
  the microseconds between stamp and arrival of the datagrams k, 2k, 3k and so on.\<close>

theorem receiver_samples:
  assumes "0 < k" "\<forall>x \<in> set xs. fits x"
  shows "\<exists>rc. receiver_report k (map stamped_arrival xs) = Some rc \<and> rc_count rc = length xs \<and>
    rc_latencies rc = map delay (nths xs {i. k dvd int (Suc i)})"
  using loop_stamped [OF assms, of new_receiver] by (auto simp: receiver_report_def new_receiver_def)

theorem receiver_samples_witness:
  "(let xs = [(5000, ''a'', 1000), (9000, ''b perfts=7'', 2000)] in
    list_all fits xs \<and>
    (\<exists>rc. receiver_report 2 (map stamped_arrival xs) = Some rc \<and> rc_latencies rc = [7]))"
proof -
  let ?xs = "[(5000, ''a'', 1000), (9000, ''b perfts=7'', 2000)] :: (int \<times> string \<times> nat) list"
  have "length (nat_str 1000) = 4" "length (nat_str 2000) = 4" by code_simp+
  then have f: "\<forall>x \<in> set ?xs. fits x" by (simp add: stamped_def TS_KEY_def)
  have d: "map delay (nths ?xs {i. 2 dvd int (Suc i)}) = [7]" by (simp add: nths_Cons)
  obtain rc where "receiver_report 2 (map stamped_arrival ?xs) = Some rc" "rc_latencies rc = [7]"
    using receiver_samples [OF _ f, of 2] unfolding d by fastforce
  with f show ?thesis unfolding Let_def list_all_iff by blast
qed

lemma run_unfold:
  assumes "0 < senders" "sample_every \<noteq> 0" "en_ready env"
  shows "\<exists>r rc. run label count senders sample_every rcvbuf audited env = Inr r \<and>
    receiver_report sample_every (en_arrivals env) = Some rc \<and>
    rr_sent r = senders * per_sender count senders \<and> rr_received r = int (arrived (en_arrivals env)) \<and>
    rr_dropped r = (if audited then int (arrived (en_audit env)) else 0) \<and> rr_latencies r = rc_latencies rc"
proof -
  obtain rc where rc: "receiver_report sample_every (en_arrivals env) = Some rc" "rc_count rc = arrived (en_arrivals env)"
    using report_counts [OF assms(2)] by blast
  obtain au where "receiver_report (10 ^ 9) (en_audit env) = Some au" "rc_count au = arrived (en_audit env)"
    using report_counts [of "10 ^ 9" "en_audit env"] by auto
  with rc assms show ?thesis
    by (simp add: run_def Let_def dropped_count_def sum_list_triv)
qed

lemma loss_pct_range: "0 \<le> accounted r \<Longrightarrow> 0 \<le> rr_sent r \<Longrightarrow> 0 \<le> loss_pct r \<and> loss_pct r \<le> 100"
proof -
  assume a: "0 \<le> accounted r" "0 \<le> rr_sent r"
  then have l: "0 \<le> lost r" "lost r \<le> rr_sent r" by (simp_all add: lost_def)
  define q :: rat where "q = of_int (lost r) / of_int (rr_sent r)"
  with a l have "q \<le> 1" "0 \<le> q" by (cases "rr_sent r = 0"; simp add: divide_le_eq_1)+
  moreover have "loss_pct r = q * 100" by (simp add: loss_pct_def q_def)
  ultimately show ?thesis by simp
qed

text \<open>A run accounts for what it sent: once the receiver is up it returns a result with the number of
  events sent, and what it calls lost is exactly the part of them that neither the receiver nor the
  audit socket saw, a share between nothing and all. Without the audit socket every event a rule
  dropped counts as lost.\<close>

theorem run_accounts:
  assumes "0 < senders" "0 < sample_every" "en_ready env"
  shows "\<exists>r. run label count senders sample_every rcvbuf audited env = Inr r \<and>
    rr_sent r = senders * per_sender count senders \<and>
    lost r = max 0 (rr_sent r - int (arrived (en_arrivals env)) - (if audited then int (arrived (en_audit env)) else 0)) \<and>
    (accounted r \<le> rr_sent r \<longrightarrow> accounted r + lost r = rr_sent r) \<and>
    (loss_pct r = 0 \<longleftrightarrow> rr_sent r \<le> accounted r) \<and> 0 \<le> loss_pct r \<and> loss_pct r \<le> 100"
proof -
  obtain r where r: "run label count senders sample_every rcvbuf audited env = Inr r"
    "rr_sent r = senders * per_sender count senders" "rr_received r = int (arrived (en_arrivals env))"
    "rr_dropped r = (if audited then int (arrived (en_audit env)) else 0)"
    using run_unfold [of senders sample_every env] assms by (metis less_irrefl)
  then have s: "0 < rr_sent r" using assms(1) by (simp add: per_sender_def)
  have "0 \<le> accounted r" using r by (simp add: accounted_def)
  with s have "0 \<le> loss_pct r \<and> loss_pct r \<le> 100" using loss_pct_range by simp
  moreover have "loss_pct r = 0 \<longleftrightarrow> rr_sent r \<le> accounted r" using s by (auto simp: loss_pct_def lost_def)
  ultimately show ?thesis using r by (auto simp: lost_def accounted_def)
qed

definition sample_env :: run_env where
  "sample_env = \<lparr>en_ready = True, en_elapsed = (\<lambda>i. 1), en_arrivals = [Datagram 1 ''a'', Timed_Out, Datagram 2 ''b''],
     en_audit = [Datagram 3 ''c''], en_granted = 0, en_before = unavailable, en_after = unavailable\<rparr>"

theorem run_accounts_witness:
  "\<exists>r s. run ''x'' 3 1 20 0 True sample_env = Inr r \<and> lost r = 0 \<and>
     run ''x'' 3 1 20 0 False sample_env = Inr s \<and> lost s = 1"
proof -
  have e: "en_ready sample_env" by (simp add: sample_env_def)
  show ?thesis
    using run_accounts [of 1 20 sample_env "''x''" 3 0 True] run_accounts [of 1 20 sample_env "''x''" 3 0 False] e
    by (auto simp: sample_env_def per_sender_def)
qed

end
