(* ===== verification/Perf_Main.thy ===== *)
theory Perf_Main
  imports Complex_Main Prelude Rule_Model Compiler Injection Json Vector_Config Decision Perf_Harness
begin

text \<open>
  The command \<open>ssperf\<close>, \<open>perf/main.py\<close>: the chains it measures, the configuration it starts Vector with,
  the arithmetic of event counts, the verdict and the sweeps. Starting processes, free ports and probing
  are parameters; what is printed is kept where it is computed, not its layout.
\<close>

definition TARGET_SUSTAINED_EPS :: int where "TARGET_SUSTAINED_EPS = 20000"
definition TARGET_BURST_EPS :: int where "TARGET_BURST_EPS = 100000"
definition TARGET_ADDED_P99_US :: rat where "TARGET_ADDED_P99_US = 1000"

section \<open>The chains\<close>

text \<open>A condition and a rule with the defaults of the model; constructing them validates them.\<close>

definition make_condition :: "string \<Rightarrow> operator \<Rightarrow> pyval \<Rightarrow> (validation_error, condition) result" where
  "make_condition f op v = validate_condition \<lparr>cond_field = f, cond_op = op, cond_value = v, case_sensitive = False\<rparr>"

definition drop_rule :: "string \<Rightarrow> string \<Rightarrow> int \<Rightarrow> condition list \<Rightarrow> int \<Rightarrow> rule" where
  "drop_rule i name order cs now =
     \<lparr>rule_id = i, rule_name = name, rule_description = [], rule_enabled = True, rule_order = order,
      rule_action = DROP, rule_conditions = cs, rule_output = ''default'', rule_retain = False,
      rule_shadow = False, rule_version = 1, rule_updated = now\<rparr>"

definition make_chain :: "rule list \<Rightarrow> (validation_error, rule_chain) result" where
  "make_chain rs = validate_chain \<lparr>chain_rules = rs, default_action = FORWARD, shadow_mode = False\<rparr>"

definition demo_chain :: "int \<Rightarrow> (validation_error, rule_chain) result" where
  "demo_chain now =
     bindR (make_condition ''filterhostname'' EQ (PStr ''scanner01'')) (\<lambda>c1.
     bindR (validate_rule (drop_rule ''perf-scanner'' ''scanner'' 0 [c1] now)) (\<lambda>r1.
     bindR (make_condition ''filteripaddress'' CIDR (PStr ''10.42.0.0/16'')) (\<lambda>c2.
     bindR (validate_rule (drop_rule ''perf-lab'' ''lab subnet'' 1 [c2] now)) (\<lambda>r2.
     bindR (make_condition ''severity'' LT (PInt 1)) (\<lambda>c3.
     bindR (make_condition ''filtertype'' IN (PList [PStr ''dlp'', PStr ''av''])) (\<lambda>c4.
     bindR (validate_rule (drop_rule ''perf-sev'' ''low severity noise'' 2 [c3, c4] now)) (\<lambda>r3.
       make_chain [r1, r2, r3])))))))"

definition synthetic_parts :: "nat \<Rightarrow> string \<times> operator \<times> pyval" where
  "synthetic_parts i =
     (let n = nat_str i; kind = i mod 6 in
      if kind = 0 then (''filterhostname'', EQ, PStr (''absent-host-'' @ n))
      else if kind = 1 then (''name'', CONTAINS, PStr (''zzq-'' @ n))
      else if kind = 2 then (''filteripaddress'', CIDR, PStr ''203.0.113.0/24'')
      else if kind = 3 then (''severity'', GT, PInt 999)
      else if kind = 4 then (''name'', GLOB, PStr (''zzq*'' @ n @ ''*''))
      else (''filtertype'', IN, PList [PStr (''absent-'' @ n), PStr (''gone-'' @ n)]))"

definition synthetic_rule :: "int \<Rightarrow> nat \<Rightarrow> (validation_error, rule) result" where
  "synthetic_rule now i =
     (case synthetic_parts i of (f, op, v) \<Rightarrow>
        bindR (make_condition f op v) (\<lambda>c.
          validate_rule (drop_rule (''perf-'' @ zero_pad 4 (nat_str i)) (''synthetic '' @ nat_str i) (int i) [c] now)))"

definition synthetic_chain :: "int \<Rightarrow> int \<Rightarrow> (validation_error, rule_chain) result" where
  "synthetic_chain now count = bindR (mapR (synthetic_rule now) [0..<nat count]) make_chain"

section \<open>Starting Vector\<close>

text \<open>\<open>text.replace(old, new)\<close>: from left to right, without overlaps.\<close>

function replace_all :: "string \<Rightarrow> string \<Rightarrow> string \<Rightarrow> string" where
  "replace_all old new [] = []"
| "replace_all old new (c # cs) =
     (if old \<noteq> [] \<and> py_startswith old (c # cs) then new @ replace_all old new (drop (length old) (c # cs))
      else c # replace_all old new cs)"
  by pat_completeness auto
termination
  by (relation "measure (\<lambda>(old, new, s). length s)") (auto simp: py_startswith_def)

definition perf_settings :: "int \<Rightarrow> int \<Rightarrow> int \<Rightarrow> int \<Rightarrow> vector_settings" where
  "perf_settings ingest forward audit rcvbuf = default_vector_settings
     \<lparr>listen_address := ''127.0.0.1:'' @ int_str ingest, elk_address := ''127.0.0.1:'' @ int_str forward,
      drop_audit_address := ''127.0.0.1:'' @ int_str audit, control_plane_url := ''http://127.0.0.1:1'',
      receive_buffer_bytes := rcvbuf\<rparr>"

definition metrics_address :: "string \<Rightarrow> string" where
  "metrics_address a = ''address = '' @ [DQ] @ a @ [DQ]"

definition vector_config_text ::
    "(json \<Rightarrow> string) \<Rightarrow> rule_chain \<Rightarrow> int \<Rightarrow> int \<Rightarrow> int \<Rightarrow> int \<Rightarrow> int \<Rightarrow> (config_error, string) result" where
  "vector_config_text dumps ch ingest forward audit rcvbuf metrics =
     bindR (render_toml dumps ch (perf_settings ingest forward audit rcvbuf) 0) (\<lambda>text.
       Inr (replace_all (metrics_address ''0.0.0.0:9598'') (metrics_address (''127.0.0.1:'' @ int_str metrics)) text))"

definition vector_argv :: "string \<Rightarrow> int option \<Rightarrow> string list" where
  "vector_argv path threads =
     [''vector'', ''--quiet'', ''--config'', path] @
     (case threads of None \<Rightarrow> [] | Some n \<Rightarrow> [''--threads'', int_str n])"

section \<open>The verdict\<close>

text \<open>The parts that are judged, in the order printed; the last is absent without both samples.\<close>

definition throughput_target :: "int \<Rightarrow> int" where
  "throughput_target rate = (if 0 < rate then rate else TARGET_BURST_EPS)"

definition meets_throughput :: "run_result \<Rightarrow> int \<Rightarrow> bool" where
  "meets_throughput proxy rate \<longleftrightarrow> of_int (throughput_target rate) * (95 / 100) \<le> throughput proxy"

definition lossless :: "run_result \<Rightarrow> bool" where
  "lossless proxy \<longleftrightarrow> loss_pct proxy < 1 / 10"

definition added_latency :: "run_result option \<Rightarrow> run_result \<Rightarrow> rat option" where
  "added_latency baseline proxy =
     (case baseline of
        None \<Rightarrow> None
      | Some b \<Rightarrow> (case (p99 proxy, p99 b) of (Some x, Some y) \<Rightarrow> Some (x - y) | _ \<Rightarrow> None))"

definition within_latency :: "run_result option \<Rightarrow> run_result \<Rightarrow> bool" where
  "within_latency baseline proxy =
     (case added_latency baseline proxy of None \<Rightarrow> True | Some added \<Rightarrow> added < TARGET_ADDED_P99_US)"

definition kernel_warning :: "run_result \<Rightarrow> bool" where
  "kernel_warning r = (case receive_buffer_errors (rr_kernel r) of None \<Rightarrow> False | Some n \<Rightarrow> 0 < n)"

definition verdict_code :: "run_result option \<Rightarrow> run_result option \<Rightarrow> int \<Rightarrow> int" where
  "verdict_code baseline proxy rate =
     (case proxy of
        None \<Rightarrow> 0
      | Some p \<Rightarrow> if meets_throughput p rate \<and> lossless p \<and> within_latency baseline p then 0 else 1)"

text \<open>The note of the report on a capped socket buffer.\<close>

definition buffer_capped :: "run_result \<Rightarrow> bool" where
  "buffer_capped r \<longleftrightarrow> rr_actual r \<noteq> 0 \<and> rr_actual r < rr_requested r div 2"

section \<open>The sweeps\<close>

text \<open>The numbers of a comma-separated list; \<open>None\<close> is the \<open>ValueError\<close>.\<close>

definition parse_counts :: "string \<Rightarrow> int list option" where
  "parse_counts s =
     (let ns = map py_int_of_str (filter (\<lambda>t. py_strip t \<noteq> []) (py_split CHR '','' s)) in
      if None \<in> set ns then None else Some (map the ns))"

type_synonym sweep_row = "int \<times> rat"

text \<open>The loop over the configurations: one that does not become ready has no row, and an error of a run
  ends the sweep.\<close>

fun sweep_rows :: "(int \<Rightarrow> (run_error, run_result) result option) \<Rightarrow> int list \<Rightarrow> (run_error, (int \<times> run_result) list) result" where
  "sweep_rows probe [] = Inr []"
| "sweep_rows probe (n # ns) =
     (case probe n of
        None \<Rightarrow> sweep_rows probe ns
      | Some res \<Rightarrow> bindR res (\<lambda>r. bindR (sweep_rows probe ns) (\<lambda>rows. Inr ((n, r) # rows))))"

text \<open>The scaling table: throughput, size and efficiency against the first row.\<close>

definition scaling :: "sweep_row \<Rightarrow> sweep_row \<Rightarrow> rat \<times> rat \<times> rat" where
  "scaling base row =
     (let factor = (if snd base \<noteq> 0 then snd row / snd base else 0);
          cores = (if fst base \<noteq> 0 then of_int (fst row) / of_int (fst base) else 1)
      in (factor, cores, if cores \<noteq> 0 then factor / cores * 100 else 0))"

definition scaling_table :: "(int \<times> run_result) list \<Rightarrow> (rat \<times> rat \<times> rat) list" where
  "scaling_table rows =
     (let points = map (\<lambda>(n, r). (n, throughput r)) rows in
      if 2 \<le> length points then map (scaling (hd points)) points else [])"

text \<open>The rule sweep: its factor in per cent, and the warning that a rule matched.\<close>

definition rules_table :: "(int \<times> run_result) list \<Rightarrow> (rat \<times> rat) list" where
  "rules_table rows =
     (let eps = map (\<lambda>(n, r). throughput r) rows in
      if 2 \<le> length eps
      then map (\<lambda>e. let factor = (if hd eps \<noteq> 0 then e / hd eps else 0) in (factor, (factor - 1) * 100)) eps else [])"

definition not_worst_case :: "(int \<times> run_result) list \<Rightarrow> bool" where
  "not_worst_case rows = list_ex (\<lambda>(n, r). rr_dropped r \<noteq> 0) rows"

section \<open>The command\<close>

text \<open>The options. The adversarial share and the thread limit shape the traffic and Vector's command line, not
  the exit code.\<close>

record perf_args =
  pa_rate :: int
  pa_seconds :: rat
  pa_count :: int
  pa_senders :: int
  pa_sample_every :: int
  pa_rcvbuf :: int
  pa_adversarial_share :: rat
  pa_vector_threads :: "int option"
  pa_rules_sweep :: "string option"
  pa_workers_sweep :: "string option"
  pa_scale :: "string option"
  pa_skip_baseline :: bool
  pa_skip_proxy :: bool

definition truncated :: "rat \<Rightarrow> int" where
  "truncated x = (if 0 \<le> x then \<lfloor>x\<rfloor> else \<lceil>x\<rceil>)"

definition event_count :: "perf_args \<Rightarrow> int" where
  "event_count a =
     (if pa_count a \<noteq> 0 then pa_count a
      else if 0 < pa_rate a then truncated (of_int (pa_rate a) * pa_seconds a) else TARGET_BURST_EPS)"

definition announced_per_sender :: "perf_args \<Rightarrow> int" where
  "announced_per_sender a = max 1 (event_count a div max 1 (pa_senders a))"

definition total_events :: "perf_args \<Rightarrow> int" where
  "total_events a = announced_per_sender a * pa_senders a"

text \<open>What the command meets: the binary, the processes of its runs, and the sweeps' measurements.\<close>

record perf_env =
  pe_vector :: bool
  pe_ready :: bool
  pe_baseline :: run_env
  pe_proxy :: run_env
  pe_sweep :: "int \<Rightarrow> (run_error, run_result) result option"

datatype perf_error = RunError run_error | BadCounts string

definition sweep :: "perf_env \<Rightarrow> string \<Rightarrow> (perf_error, int) result" where
  "sweep env s =
     (if \<not> pe_vector env then Inr 1
      else case parse_counts s of
        None \<Rightarrow> Inl (BadCounts s)
      | Some ns \<Rightarrow> bindR (mapError RunError (sweep_rows (pe_sweep env) ns)) (\<lambda>rows. Inr 0))"

definition given :: "string option \<Rightarrow> bool" where
  "given s = (case s of None \<Rightarrow> False | Some t \<Rightarrow> t \<noteq> [])"

definition perf_main :: "perf_args \<Rightarrow> perf_env \<Rightarrow> (perf_error, int) result" where
  "perf_main a env =
     (let total = total_events a;
          measure = (\<lambda>label audited e. mapError RunError
            (run label total (pa_senders a) (pa_sample_every a) (pa_rcvbuf a) audited e)) in
      if given (pa_rules_sweep a) then sweep env (the (pa_rules_sweep a))
      else if given (pa_workers_sweep a) then sweep env (the (pa_workers_sweep a))
      else if given (pa_scale a) then sweep env (the (pa_scale a))
      else bindR (if pa_skip_baseline a then Inr None
                  else bindR (measure ''baseline (no proxy in the path)'' False (pe_baseline env)) (\<lambda>r. Inr (Some r)))
        (\<lambda>baseline.
           if pa_skip_proxy a \<or> \<not> pe_vector env then Inr (verdict_code baseline None (pa_rate a))
           else if \<not> pe_ready env then Inr 1
           else bindR (measure ''through the proxy (vector, 3 rules)'' True (pe_proxy env)) (\<lambda>proxy.
             Inr (verdict_code baseline (Some proxy) (pa_rate a)))))"

section \<open>The chains are valid and compile\<close>

lemma make_condition_plain:
  assumes "f \<in> {''filterhostname'', ''name'', ''filteripaddress'', ''severity'', ''filtertype''}"
  shows "make_condition f op v =
    (if value_typed v then check_value_shape \<lparr>cond_field = f, cond_op = op, cond_value = v, case_sensitive = False\<rparr>
     else Inl BadValueType)"
proof -
  have "normalize_field ''filterhostname'' = Inr ''filterhostname''" "normalize_field ''name'' = Inr ''name''"
    "normalize_field ''filteripaddress'' = Inr ''filteripaddress''" "normalize_field ''severity'' = Inr ''severity''"
    "normalize_field ''filtertype'' = Inr ''filtertype''" by code_simp+
  with assms show ?thesis by (auto simp: make_condition_def validate_condition_def)
qed

definition plain_condition :: "string \<Rightarrow> operator \<Rightarrow> pyval \<Rightarrow> condition" where
  "plain_condition f op v = \<lparr>cond_field = f, cond_op = op, cond_value = v, case_sensitive = False\<rparr>"

lemma nat_str_small: "n < 10 ^ 58 \<Longrightarrow> length (nat_str n) \<le> 58"
  by (rule nat_str_length) simp_all

text \<open>The two networks, octet by octet.\<close>

lemma known_octets:
  "parse_octet ''203'' = Some 203" "parse_octet ''0'' = Some 0" "parse_octet ''113'' = Some 113"
  "parse_octet ''10'' = Some 10" "parse_octet ''42'' = Some 42" "prefix_length 32 ''24'' = Some 24"
  "prefix_length 32 ''16'' = Some 16"
  by code_simp+

lemma known_networks: "ip_network_ok ''203.0.113.0/24''" "ip_network_ok ''10.42.0.0/16''"
  by (simp_all add: ip_network_ok_def ipv4_network_ok_def ipv4_int_def Let_def known_octets)

lemma threshold_encodes:
  "int_to_float 999 = Some (Finite False 9990 (-1))" "length (format_f False 9990 (-1)) \<le> 128"
  "int_to_float 1 = Some (Finite False 10 (-1))" "length (format_f False 10 (-1)) \<le> 128"
proof -
  show "int_to_float 999 = Some (Finite False 9990 (-1))" "int_to_float 1 = Some (Finite False 10 (-1))"
    by (simp_all add: int_to_float_exact)
  have dg: "digit_char 9 = CHR ''9''" "digit_char 0 = CHR ''0''" "digit_char (Suc 0) = CHR ''1''" by code_simp+
  have d: "nat_str 9990 = ''9990''" "nat_str 10 = ''10''"
    by (simp_all add: nat_str_def base_digits.simps dg)
  show "length (format_f False 9990 (-1)) \<le> 128" "length (format_f False 10 (-1)) \<le> 128"
    by (simp_all add: format_f_def d Let_def)
qed

lemma synthetic_condition:
  assumes "synthetic_parts i = (f, op, v)" "i < 10 ^ 58"
  shows "make_condition f op v = Inr (plain_condition f op v)" "encodable_value (plain_condition f op v)"
proof -
  have n: "length (nat_str i) \<le> 58" using assms(2) by (rule nat_str_small)
  have "i mod 6 < 6" by simp
  then consider "i mod 6 = 0" | "i mod 6 = 1" | "i mod 6 = 2" | "i mod 6 = 3" | "i mod 6 = 4" | "i mod 6 = 5" by linarith
  note kinds = this
  show "make_condition f op v = Inr (plain_condition f op v)"
    using kinds assms(1) n
    by cases (auto simp: synthetic_parts_def Let_def make_condition_plain check_value_shape_def operator_classes
        plain_condition_def known_networks)
  show "encodable_value (plain_condition f op v)"
    using kinds assms(1) n
    by cases (auto simp: synthetic_parts_def Let_def encodable_value_def plain_condition_def operator_classes threshold_encodes)
qed

lemma zero_pad_inj: "zero_pad 4 (nat_str i) = zero_pad 4 (nat_str j) \<longleftrightarrow> i = j"
  by (metis read_nat_str read_nat_zeros_left zero_pad_def)

lemma synthetic_id:
  assumes "i < 10 ^ 58"
  shows "id_pattern (''perf-'' @ zero_pad 4 (nat_str i))"
proof -
  have "length (nat_str i) \<le> 58" using assms by (rule nat_str_small)
  moreover have "list_all is_id_char (nat_str i)"
    using nat_str_digits by (auto simp: list_all_iff is_id_char_def is_id_start_def)
  ultimately show ?thesis
    by (auto simp: zero_pad_def list_all_iff is_id_char_def is_id_start_def is_ascii_digit_def)
qed

definition synthetic :: "int \<Rightarrow> nat \<Rightarrow> rule" where
  "synthetic now i = (case synthetic_parts i of (f, op, v) \<Rightarrow>
     drop_rule (''perf-'' @ zero_pad 4 (nat_str i)) (''synthetic '' @ nat_str i) (int i) [plain_condition f op v] now)"

lemma condition_valid: "make_condition f op v = Inr (plain_condition f op v) \<Longrightarrow>
  validate_condition (plain_condition f op v) = Inr (plain_condition f op v)"
  by (simp add: make_condition_def plain_condition_def)

lemma synthetic_rule_ok:
  assumes "i < 10 ^ 58"
  shows "synthetic_rule now i = Inr (synthetic now i)" "valid_rule (synthetic now i)" "encodable_rule (synthetic now i)"
proof -
  obtain f op v where p: "synthetic_parts i = (f, op, v)" by (cases "synthetic_parts i")
  note c = synthetic_condition [OF p assms] and n = nat_str_small [OF assms]
  have ok: "validate_rule (synthetic now i) = Inr (synthetic now i)"
    using condition_valid [OF c(1)] synthetic_id [OF assms] n
    by (simp add: synthetic_def p validate_rule_def drop_rule_def check_name_def check_order_def check_conditions_def
        check_retain_payload_def)
  then show "synthetic_rule now i = Inr (synthetic now i)" "valid_rule (synthetic now i)"
    by (simp_all add: synthetic_rule_def synthetic_def p c(1) valid_rule_def)
  show "encodable_rule (synthetic now i)" using c(2)
    by (simp add: encodable_rule_def synthetic_def p drop_rule_def fits_int64_def)
qed

lemma synthetic_simps:
  "rule_id (synthetic now i) = ''perf-'' @ zero_pad 4 (nat_str i)" "rule_order (synthetic now i) = int i"
  "rule_enabled (synthetic now i)" "rule_action (synthetic now i) = DROP" "\<not> rule_shadow (synthetic now i)"
  by (simp_all add: synthetic_def drop_rule_def split: prod.splits)

lemma synthetic_chain_eq:
  assumes "n \<le> 10 ^ 58"
  shows "synthetic_chain now (int n) =
    Inr \<lparr>chain_rules = map (synthetic now) [0..<n], default_action = FORWARD, shadow_mode = False\<rparr>"
proof -
  have "mapR (synthetic_rule now) [0..<n] = Inr (map (synthetic now) [0..<n])"
    using assms by (intro mapR_pure synthetic_rule_ok) simp
  moreover have "distinct (map rule_id (map (synthetic now) [0..<n]))"
    by (simp add: distinct_map inj_on_def synthetic_simps zero_pad_inj)
  then have "check_unique_ids {} (map (synthetic now) [0..<n]) = Inr ()" by (simp add: check_unique_ids_iff)
  ultimately show ?thesis by (simp add: synthetic_chain_def make_chain_def validate_chain_def)
qed

lemma active_synthetic:
  "active \<lparr>chain_rules = map (synthetic now) [0..<n], default_action = d, shadow_mode = s\<rparr> = map (synthetic now) [0..<n]"
proof -
  have "sorted (map order_key (map (synthetic now) [0..<n]))"
    by (auto simp: sorted_map sorted_wrt_map sorted_wrt_iff_nth_less order_key_def synthetic_simps less_eq_prod_def)
  moreover have "filter rule_enabled (map (synthetic now) [0..<n]) = map (synthetic now) [0..<n]"
    by (simp add: filter_id_conv synthetic_simps)
  ultimately show ?thesis by (simp add: active_def sorted_sort_id sort_key_id_if_sorted)
qed

lemma demo_chain_eq:
  "\<exists>ch. demo_chain now = Inr ch \<and> length (active ch) = 3 \<and> (\<exists>p. compile_chain ch v = Inr p) = fits_int64 v"
proof -
  define rs where "rs =
    [drop_rule ''perf-scanner'' ''scanner'' 0 [plain_condition ''filterhostname'' EQ (PStr ''scanner01'')] now,
     drop_rule ''perf-lab'' ''lab subnet'' 1 [plain_condition ''filteripaddress'' CIDR (PStr ''10.42.0.0/16'')] now,
     drop_rule ''perf-sev'' ''low severity noise'' 2 [plain_condition ''severity'' LT (PInt 1),
       plain_condition ''filtertype'' IN (PList [PStr ''dlp'', PStr ''av''])] now]"
  have c: "make_condition ''filterhostname'' EQ (PStr ''scanner01'') = Inr (plain_condition ''filterhostname'' EQ (PStr ''scanner01''))"
    "make_condition ''filteripaddress'' CIDR (PStr ''10.42.0.0/16'') = Inr (plain_condition ''filteripaddress'' CIDR (PStr ''10.42.0.0/16''))"
    "make_condition ''severity'' LT (PInt 1) = Inr (plain_condition ''severity'' LT (PInt 1))"
    "make_condition ''filtertype'' IN (PList [PStr ''dlp'', PStr ''av'']) =
       Inr (plain_condition ''filtertype'' IN (PList [PStr ''dlp'', PStr ''av'']))"
    by (simp_all add: make_condition_plain check_value_shape_def operator_classes plain_condition_def known_networks)
  have v: "\<forall>r \<in> set rs. valid_rule r"
    using c [THEN condition_valid]
    by (simp add: rs_def valid_rule_def validate_rule_def drop_rule_def check_name_def check_order_def
        check_conditions_def check_retain_payload_def is_id_char_def is_id_start_def is_ascii_digit_def)
  have e: "\<forall>r \<in> set rs. rule_enabled r \<longrightarrow> encodable_rule r"
    by (simp add: rs_def drop_rule_def encodable_rule_def fits_int64_def plain_condition_def encodable_value_def
        operator_classes threshold_encodes)
  have u: "check_unique_ids {} rs = Inr ()" by (simp add: rs_def drop_rule_def)
  have d: "demo_chain now = Inr \<lparr>chain_rules = rs, default_action = FORWARD, shadow_mode = False\<rparr>"
    using v u by (simp add: demo_chain_def c make_chain_def validate_chain_def rs_def valid_rule_def)
  moreover have "length (active \<lparr>chain_rules = rs, default_action = FORWARD, shadow_mode = False\<rparr>) = 3"
    by (simp add: active_def rs_def drop_rule_def)
  ultimately show ?thesis
    using chain_compiles_iff [of "\<lparr>chain_rules = rs, default_action = FORWARD, shadow_mode = False\<rparr>" v] v e by auto
qed

section \<open>Properties\<close>

text \<open>The synthetic chain is the worst case it is meant to be: for every length it constructs without
  a validation error, keeps its rules in order, all enabled, and compiles; an event is forwarded
  only after every rule failed to match, and dropped, which the sweep counts, as soon as one matches.\<close>

theorem synthetic_chain_worst_case:
  assumes "n \<le> 10 ^ 58"
  shows "\<exists>ch p. synthetic_chain now (int n) = Inr ch \<and> length (active ch) = n \<and> active ch = chain_rules ch \<and>
    compile_chain ch 0 = Inr p \<and>
    (\<forall>matches. v_decision (decide ch True matches) = (if \<exists>r \<in> set (active ch). matches r then D_DROP else D_FORWARD))"
proof -
  let ?ch = "\<lparr>chain_rules = map (synthetic now) [0..<n], default_action = FORWARD, shadow_mode = False\<rparr>"
  have ok: "\<forall>r \<in> set (chain_rules ?ch). valid_rule r \<and> encodable_rule r" using synthetic_rule_ok assms by simp
  have a: "active ?ch = map (synthetic now) [0..<n]" by (rule active_synthetic)
  obtain p where p: "compile_chain ?ch 0 = Inr p"
    using chain_compiles_iff [of ?ch 0] ok by (auto simp: fits_int64_def)
  have "v_decision (decide ?ch True matches) = (if \<exists>r \<in> set (active ?ch). matches r then D_DROP else D_FORWARD)" for matches
  proof (cases "find matches (map (synthetic now) [0..<n])")
    case None
    then have "\<not> (\<exists>r \<in> set (active ?ch). matches r)" unfolding a find_None_iff by blast
    with None show ?thesis by (simp add: decide_def Let_def a)
  next
    case (Some r)
    then obtain i where r: "r = synthetic now i" "matches r" "r \<in> set (map (synthetic now) [0..<n])"
      by (auto simp: find_Some_iff)
    then show ?thesis using Some unfolding decide_def Let_def a by (auto simp: synthetic_simps)
  qed
  with synthetic_chain_eq [OF assms, of now] a p show ?thesis by auto
qed

theorem synthetic_chain_worst_case_witness:
  "(100::nat) \<le> 10 ^ 58 \<and> (\<exists>ch. synthetic_chain 0 100 = Inr ch \<and> length (active ch) = 100)"
  using synthetic_chain_worst_case [of 100 0] by auto

lemma per_second_ge:
  assumes "0 < x"
  shows "x \<le> per_second n r \<longleftrightarrow> (0 < rr_duration r \<and> x * rr_duration r \<le> of_int n) \<or>
    (rr_duration r < 0 \<and> of_int n \<le> x * rr_duration r)"
  using assms by (cases "rr_duration r" "0::rat" rule: linorder_cases)
    (simp_all add: per_second_def pos_le_divide_eq neg_le_divide_eq)

lemma verdict_zero_iff:
  assumes "0 < rr_sent p" "0 \<le> accounted p"
  shows "verdict_code baseline (Some p) rate = 0 \<longleftrightarrow>
    0 < rr_duration p \<and> 95 * of_int (throughput_target rate) * rr_duration p \<le> 100 * of_int (accounted p) \<and>
    1000 * lost p < rr_sent p \<and> within_latency baseline p"
proof -
  have t: "0 < throughput_target rate" by (simp add: throughput_target_def TARGET_BURST_EPS_def)
  then have x: "0 < (of_int (throughput_target rate) * (95 / 100) :: rat)" by simp
  have "\<not> (rr_duration p < 0 \<and> of_int (accounted p) \<le> of_int (throughput_target rate) * (95 / 100) * rr_duration p)"
  proof
    assume n: "rr_duration p < 0 \<and> of_int (accounted p) \<le> of_int (throughput_target rate) * (95 / 100) * rr_duration p"
    then have "(of_int (accounted p) :: rat) < 0" using mult_pos_neg [OF x] by (meson le_less_trans)
    with assms(2) show False by simp
  qed
  then have "meets_throughput p rate \<longleftrightarrow> 0 < rr_duration p \<and>
      95 * of_int (throughput_target rate) * rr_duration p \<le> 100 * of_int (accounted p)"
    unfolding meets_throughput_def throughput_def per_second_ge [OF x] by (auto simp: mult.commute mult.left_commute)
  moreover have "(of_int (lost p) / of_int (rr_sent p) * 100 < (1 / 10 :: rat)) \<longleftrightarrow> 1000 * lost p < rr_sent p"
    using assms(1) by (simp add: divide_less_eq) (metis of_int_less_iff of_int_mult of_int_numeral)
  then have "lossless p \<longleftrightarrow> 1000 * lost p < rr_sent p" using assms(1) by (simp add: lossless_def loss_pct_def)
  ultimately show ?thesis by (auto simp: verdict_code_def)
qed

text \<open>When the command measures the proxy and exits with 0, it sent the number of events it announced,
  fewer than one in a thousand of them is missing from what the receiver and the audit socket got
  together, these were at least 95 per cent of the target for the time taken, and against a measured
  baseline the 99th percentile grew by less than a millisecond.\<close>

theorem exit_zero_means:
  assumes "perf_main a env = Inr 0" "\<not> given (pa_rules_sweep a)" "\<not> given (pa_workers_sweep a)" "\<not> given (pa_scale a)"
    and "\<not> pa_skip_proxy a" "pe_vector env" "pa_sample_every a \<noteq> 0"
  shows "\<exists>r seen. seen = int (arrived (en_arrivals (pe_proxy env))) + int (arrived (en_audit (pe_proxy env))) \<and>
    run ''through the proxy (vector, 3 rules)'' (total_events a) (pa_senders a) (pa_sample_every a) (pa_rcvbuf a) True (pe_proxy env) = Inr r \<and>
    rr_sent r = total_events a \<and> 1000 * (total_events a - seen) < total_events a \<and>
    0 < rr_duration r \<and> 95 * of_int (throughput_target (pa_rate a)) * rr_duration r \<le> 100 * of_int seen \<and>
    (\<forall>b x y. \<not> pa_skip_baseline a \<longrightarrow>
      run ''baseline (no proxy in the path)'' (total_events a) (pa_senders a) (pa_sample_every a) (pa_rcvbuf a) False (pe_baseline env) = Inr b \<longrightarrow>
      p99 r = Some x \<longrightarrow> p99 b = Some y \<longrightarrow> x - y < 1000)"
proof -
  let ?run = "\<lambda>label audited e. run label (total_events a) (pa_senders a) (pa_sample_every a) (pa_rcvbuf a) audited e"
  obtain baseline r where
    b: "(if pa_skip_baseline a then Inr None
        else bindR (mapError RunError (?run ''baseline (no proxy in the path)'' False (pe_baseline env))) (\<lambda>r. Inr (Some r))) = Inr baseline"
    and r: "?run ''through the proxy (vector, 3 rules)'' True (pe_proxy env) = Inr r"
    and v: "verdict_code baseline (Some r) (pa_rate a) = 0"
    using assms by (auto simp: perf_main_def Let_def bindR_Inr_iff mapError_Inr_iff split: if_splits)
  have s: "0 < pa_senders a" "en_ready (pe_proxy env)" using r by (auto simp: run_def split: if_splits)
  have "total_events a div pa_senders a = announced_per_sender a" using s by (simp add: total_events_def)
  then have ps: "pa_senders a * per_sender (total_events a) (pa_senders a) = total_events a"
    by (simp add: per_sender_def total_events_def announced_per_sender_def)
  have c: "rr_sent r = total_events a" "rr_received r = int (arrived (en_arrivals (pe_proxy env)))"
    "rr_dropped r = int (arrived (en_audit (pe_proxy env)))"
    using run_unfold [OF s(1) assms(7) s(2), of "''through the proxy (vector, 3 rules)''" "total_events a" "pa_rcvbuf a" True] r ps
    by auto
  have pos: "0 < total_events a" using s by (simp add: total_events_def announced_per_sender_def)
  have "0 < rr_sent r" "0 \<le> accounted r" using c pos by (simp_all add: accounted_def)
  from v [unfolded verdict_zero_iff [OF this]] have z: "0 < rr_duration r"
    "95 * of_int (throughput_target (pa_rate a)) * rr_duration r \<le> 100 * of_int (accounted r)"
    "1000 * lost r < rr_sent r" "within_latency baseline r" by simp_all
  have "x - y < 1000" if "\<not> pa_skip_baseline a" "?run ''baseline (no proxy in the path)'' False (pe_baseline env) = Inr q"
    "p99 r = Some x" "p99 q = Some y" for q x y
    using b z(4) that by (auto simp: within_latency_def added_latency_def TARGET_ADDED_P99_US_def)
  then have l: "\<forall>b x y. \<not> pa_skip_baseline a \<longrightarrow> ?run ''baseline (no proxy in the path)'' False (pe_baseline env) = Inr b \<longrightarrow>
      p99 r = Some x \<longrightarrow> p99 b = Some y \<longrightarrow> x - y < 1000" by blast
  have acc: "accounted r = int (arrived (en_arrivals (pe_proxy env))) + int (arrived (en_audit (pe_proxy env)))"
    using c by (simp add: accounted_def)
  have "1000 * (total_events a - accounted r) < total_events a" using z(3) c(1) by (simp add: lost_def max_def split: if_splits)
  with r c(1) z(1,2) l show ?thesis by (intro exI [of _ r] exI [of _ "accounted r"] conjI acc) simp_all
qed

definition sample_run :: run_env where
  "sample_run = sample_env\<lparr>en_elapsed := (\<lambda>i. 1 / 100000)\<rparr>"

definition sample_args :: perf_args where
  "sample_args = \<lparr>pa_rate = 0, pa_seconds = 10, pa_count = 3, pa_senders = 1, pa_sample_every = 20, pa_rcvbuf = 0,
     pa_adversarial_share = 0, pa_vector_threads = None,
     pa_rules_sweep = None, pa_workers_sweep = None, pa_scale = None, pa_skip_baseline = True, pa_skip_proxy = False\<rparr>"

definition sample_perf_env :: perf_env where
  "sample_perf_env = \<lparr>pe_vector = True, pe_ready = True, pe_baseline = sample_run, pe_proxy = sample_run,
     pe_sweep = (\<lambda>n. None)\<rparr>"

theorem exit_zero_means_witness:
  "perf_main sample_args sample_perf_env = Inr 0 \<and> total_events sample_args = 3 \<and>
   (\<exists>seen. 1000 * (3 - seen) < 3 \<and> seen = int (arrived (en_arrivals sample_run)) + int (arrived (en_audit sample_run)))"
proof -
  have z: "perf_main sample_args sample_perf_env = Inr 0"
    by (simp add: perf_main_def Let_def sample_args_def sample_perf_env_def given_def total_events_def announced_per_sender_def
        event_count_def sample_run_def sample_env_def run_def per_sender_def receiver_report_def new_receiver_def
        receive_one_def dropped_count_def verdict_code_def meets_throughput_def throughput_def per_second_def
        accounted_def lossless_def loss_pct_def lost_def within_latency_def added_latency_def throughput_target_def
        TARGET_BURST_EPS_def)
  have t: "total_events sample_args = 3"
    by (simp add: total_events_def announced_per_sender_def event_count_def sample_args_def)
  show ?thesis
    using exit_zero_means [OF z] z t by (auto simp: sample_args_def sample_perf_env_def given_def)
qed

end
