(* ===== verification/Perf_Report.thy ===== *)
theory Perf_Report
  imports Complex_Main Prelude Py_Float Number_Format Perf_Counters Perf_Harness Perf_Main
begin

text \<open>
  What \<open>ssperf\<close> prints, line by line: the report of a run, the verdict, and the banner of the command; and
  the probing of a starting Vector. The latency that an empty sample gives is not a number.
\<close>

definition horizontal_rule :: "nat \<Rightarrow> string" where
  "horizontal_rule n = replicate n (CHR ''='')"

definition fmt_us :: "rat option \<Rightarrow> string" where
  "fmt_us v = (case v of None \<Rightarrow> ''n/a'' | Some x \<Rightarrow> fmt_grouped 0 x @ '' us'')"

text \<open>A count with its rate, as the first lines of a report have it.\<close>

definition count_and_rate :: "string \<Rightarrow> int \<Rightarrow> rat \<Rightarrow> string" where
  "count_and_rate name n rate =
     ''    '' @ left_align 14 name @ right_align 10 (fmt_int n) @ ''  at '' @ right_align 10 (fmt_grouped 0 rate) @ '' EPS''"

definition latency_line :: "run_result \<Rightarrow> string" where
  "latency_line r = ''    latency       p50 '' @ fmt_us (p50 r) @ ''   p99 '' @ fmt_us (p99 r) @ ''   mean '' @
     fmt_us (mean_us r) @ ''   (n='' @ fmt_int (int (length (rr_latencies r))) @ '')''"

definition buffer_line :: "run_result \<Rightarrow> string" where
  "buffer_line r = ''    SO_RCVBUF     requested '' @ fmt_int (rr_requested r) @ '', got '' @ fmt_int (rr_actual r) @
     (if buffer_capped r then ''  <-- kernel capped this; raise net.core.rmem_max'' else [])"

definition kernel_line :: "udp_counters \<Rightarrow> string" where
  "kernel_line k =
     (case receive_buffer_errors k of
        Some n \<Rightarrow> ''    kernel drops  '' @ right_align 10 (fmt_int n) @
          ''  (receive buffer overflow, system-wide, via '' @ uc_source k @ '')''
      | None \<Rightarrow> ''    kernel drops  unavailable on this platform (see D-24)'')"

definition report :: "run_result \<Rightarrow> string list" where
  "report r =
     [[], ''  '' @ rr_label r,
      count_and_rate ''sent'' (rr_sent r) (send_rate r), count_and_rate ''forwarded'' (rr_received r) (receive_rate r)] @
     (if rr_dropped r \<noteq> 0
      then [''    dropped       '' @ right_align 10 (fmt_int (rr_dropped r)) @ ''  by rule (counted from the audit sink)'']
      else []) @
     [count_and_rate ''processed'' (accounted r) (throughput r),
      ''    lost          '' @ right_align 10 (fmt_int (lost r)) @ ''  ('' @ fmt_fixed 3 (loss_pct r) @ ''%)'',
      latency_line r] @
     (if rr_actual r \<noteq> 0 then [buffer_line r] else []) @ [kernel_line (rr_kernel r)]"

section \<open>The verdict in words\<close>

definition judged :: "bool \<Rightarrow> string \<Rightarrow> string" where
  "judged ok what = (if ok then ''  PASS  '' else ''  FAIL  '') @ what"

definition throughput_line :: "run_result \<Rightarrow> int \<Rightarrow> string" where
  "throughput_line p rate = judged (meets_throughput p rate)
     ((if 0 < rate then ''sustained'' else ''burst'') @ '' throughput: '' @ fmt_grouped 0 (throughput p) @
      '' EPS against a '' @ fmt_int (throughput_target rate) @ '' EPS target'')"

definition loss_line :: "run_result \<Rightarrow> string" where
  "loss_line p = judged (lossless p)
     (''loss through the proxy: '' @ fmt_fixed 3 (loss_pct p) @ ''% ('' @ fmt_int (lost p) @ '' events)'')"

definition added_line :: "run_result option \<Rightarrow> run_result \<Rightarrow> string" where
  "added_line baseline p =
     (case added_latency baseline p of
        None \<Rightarrow> ''  ----  added latency: no baseline, so nothing to subtract''
      | Some added \<Rightarrow> judged (within_latency baseline p)
          (''added p99 latency: '' @ fmt_grouped 0 added @ '' us (proxy '' @ fmt_grouped 0 (the (p99 p)) @
           '' minus baseline '' @ fmt_grouped 0 (the (p99 (the baseline))) @ ''), budget '' @
           fmt_grouped 0 TARGET_ADDED_P99_US @ '' us''))"

definition warning_lines :: "run_result \<Rightarrow> string list" where
  "warning_lines p =
     (if kernel_warning p
      then [''  WARN  the kernel discarded '' @ fmt_int (the (receive_buffer_errors (rr_kernel p))) @
        '' datagrams during this run. Application counters alone would not have shown this.'']
      else [])"

definition print_verdict :: "run_result option \<Rightarrow> run_result option \<Rightarrow> int \<Rightarrow> string list \<times> int" where
  "print_verdict baseline proxy rate =
     ([[], horizontal_rule 74, ''  Verdict against D-21'', horizontal_rule 74] @
      (case proxy of
         None \<Rightarrow> [''  Proxy run skipped, so there is nothing to judge.'']
       | Some p \<Rightarrow> [throughput_line p rate, loss_line p, added_line baseline p] @ warning_lines p @ [horizontal_rule 74]),
      verdict_code baseline proxy rate)"

definition says_fail :: "string \<Rightarrow> bool" where
  "says_fail l \<longleftrightarrow> py_startswith ''  FAIL'' l"

lemma says_fail_judged: "says_fail (judged ok what) \<longleftrightarrow> \<not> ok"
  by (simp add: says_fail_def judged_def py_startswith_def)

lemma verdict_lines_fail:
  "list_ex says_fail (fst (print_verdict baseline (Some p) rate)) \<longleftrightarrow> snd (print_verdict baseline (Some p) rate) = 1"
proof -
  have "says_fail (added_line baseline p) \<longleftrightarrow> \<not> within_latency baseline p"
    by (cases "added_latency baseline p")
      (simp_all add: added_line_def says_fail_judged, simp add: within_latency_def says_fail_def py_startswith_def)
  moreover have "\<not> list_ex says_fail (warning_lines p)" by (simp add: warning_lines_def says_fail_def py_startswith_def)
  moreover have "\<not> says_fail (horizontal_rule 74)" "\<not> says_fail []" "\<not> says_fail ''  Verdict against D-21''"
    by (simp_all add: says_fail_def horizontal_rule_def py_startswith_def numeral_eq_Suc)
  ultimately show ?thesis
    by (auto simp: print_verdict_def verdict_code_def throughput_line_def loss_line_def says_fail_judged)
qed

section \<open>The banner\<close>

definition banner :: "perf_args \<Rightarrow> int option \<Rightarrow> udp_counters \<Rightarrow> string list" where
  "banner a rmem counters =
     [horizontal_rule 74, ''  sixthsense throughput harness'', horizontal_rule 74,
      ''  events        '' @ fmt_int (total_events a) @ '' ('' @ fmt_int (announced_per_sender a) @ '' per sender x '' @
        int_str (pa_senders a) @ '')'',
      (if pa_rate a \<noteq> 0 then ''  pacing        '' @ fmt_int (pa_rate a) @ '' EPS per sender'' else ''  pacing        unpaced''),
      (case rmem of
         Some n \<Rightarrow> if n \<noteq> 0 then ''  kernel rmem   '' @ fmt_int n else ''  kernel rmem   unknown''
       | None \<Rightarrow> ''  kernel rmem   unknown''),
      ''  udp counters  '' @ uc_source counters]"

section \<open>Waiting for Vector\<close>

definition PROBE :: string where
  "PROBE = ''<134>Jul 31 12:00:00 readyhost CEF:0|v|p|1|1|Ready|5|eventid=1''"

text \<open>
  One try: the clock at the head of the loop, and whether the probe came back before the receive timed
  out. The result has the number of probes sent; \<open>None\<close> is a loop that is still running.
\<close>

fun probe_loop :: "rat \<Rightarrow> nat \<Rightarrow> (rat \<times> bool) list \<Rightarrow> (bool \<times> nat) option" where
  "probe_loop deadline n [] = None"
| "probe_loop deadline n ((now, answered) # tries) =
     (if now < deadline then (if answered then Some (True, Suc n) else probe_loop deadline (Suc n) tries)
      else Some (False, n))"

definition wait_for_vector :: "rat \<Rightarrow> rat \<Rightarrow> (rat \<times> bool) list \<Rightarrow> (bool \<times> nat) option" where
  "wait_for_vector start timeout tries = probe_loop (start + timeout) 0 tries"

text \<open>A receive that times out takes half a second, so the clock moves on.\<close>

fun half_second_apart :: "rat \<Rightarrow> (rat \<times> bool) list \<Rightarrow> bool" where
  "half_second_apart earliest [] \<longleftrightarrow> True"
| "half_second_apart earliest ((now, answered) # tries) \<longleftrightarrow>
     earliest \<le> now \<and> (\<not> answered \<longrightarrow> half_second_apart (now + 1 / 2) tries)"

lemma half_second_mono: "half_second_apart b tries \<Longrightarrow> a \<le> b \<Longrightarrow> half_second_apart a tries"
  by (cases "(a, tries)" rule: half_second_apart.cases) auto

lemma probe_loop_ends:
  assumes "half_second_apart start tries" "tries \<noteq> []" "deadline \<le> start + of_nat (length tries - 1) / 2"
  shows "\<exists>b m. probe_loop deadline n tries = Some (b, m) \<and> m \<le> n + length tries"
  using assms
proof (induction tries arbitrary: start n)
  case (Cons t tries)
  obtain now answered where t: "t = (now, answered)" by (cases t)
  show ?case
  proof (cases "now < deadline \<and> \<not> answered")
    case True
    then have a: "half_second_apart (now + 1 / 2) tries" "start \<le> now" using Cons.prems(1) t by auto
    then have ne: "tries \<noteq> []" using True Cons.prems(3) by auto
    then have "(of_nat (length tries) :: rat) = of_nat (length tries - 1) + 1"
      by (cases tries) simp_all
    moreover have "deadline \<le> start + of_nat (length tries) / 2" using Cons.prems(3) by simp
    ultimately have "deadline \<le> now + 1 / 2 + of_nat (length tries - 1) / 2" using a(2) by linarith
    then obtain b m where "probe_loop deadline (Suc n) tries = Some (b, m)" "m \<le> Suc n + length tries"
      using Cons.IH [of "now + 1 / 2" "Suc n", OF a(1) ne] by blast
    with True t show ?thesis by auto
  qed (auto simp: t)
qed simp

text \<open>With the default of 30 seconds the loop is over after 61 tries at most.\<close>

lemma wait_for_vector_ends:
  assumes "half_second_apart start tries" "61 \<le> length tries"
  shows "\<exists>b m. wait_for_vector start 30 tries = Some (b, m)"
proof -
  have "60 \<le> length tries - 1" using assms(2) by simp
  then have "(60 :: rat) \<le> of_nat (length tries - 1)" by (metis of_nat_le_iff of_nat_numeral)
  then have "start + 30 \<le> start + of_nat (length tries - 1) / 2" by linarith
  moreover have "tries \<noteq> []" using assms(2) by auto
  ultimately show ?thesis
    unfolding wait_for_vector_def using probe_loop_ends [OF assms(1)] by blast
qed

end
