(* ===== verification/Perf_Sweeps.thy ===== *)
theory Perf_Sweeps
  imports Complex_Main Prelude Py_Float Number_Format Perf_Counters Perf_Harness Perf_Main Perf_Report
begin

text \<open>
  The three sweeps of \<open>ssperf\<close>: the processes they start and stop, what they print, and the rows they
  collect. What a configuration meets (whether each Vector can be spawned, gets ready and ends when asked
  to, and the measurement) is a parameter.
\<close>

datatype sweep_kind = Scale | Rule_Counts | Workers

record vector_case =
  vc_spawns :: "nat \<Rightarrow> bool"
  vc_ready :: "nat \<Rightarrow> bool"
  vc_stops :: "nat \<Rightarrow> bool"
  vc_run :: "(run_error, run_result) result"

text \<open>A process is the position of its configuration in the list and its number there.\<close>

type_synonym pid = "nat \<times> nat"

datatype sweep_action = Started pid | Measured nat | Terminated pid | Ended pid | Killed pid | Removed pid

datatype sweep_error = Spawn_Failed | No_Ingress | Run_Failed run_error

section \<open>One configuration\<close>

definition needed :: "sweep_kind \<Rightarrow> int \<Rightarrow> nat" where
  "needed kind n = (if kind = Workers then nat n else 1)"

definition sweep_senders :: "sweep_kind \<Rightarrow> int \<Rightarrow> int \<Rightarrow> int" where
  "sweep_senders kind senders n = (if kind = Workers then max senders n else senders)"

text \<open>The processes started before the first that cannot be spawned.\<close>

definition spawned :: "sweep_kind \<Rightarrow> int \<Rightarrow> vector_case \<Rightarrow> nat" where
  "spawned kind n c = length (takeWhile (vc_spawns c) [0..<needed kind n])"

text \<open>The \<open>finally\<close> block: every process is asked to end and killed after ten seconds, then the directories go.\<close>

definition stop_process :: "vector_case \<Rightarrow> nat \<Rightarrow> nat \<Rightarrow> sweep_action list" where
  "stop_process c pos i = [Terminated (pos, i), if vc_stops c i then Ended (pos, i) else Killed (pos, i)]"

definition stop_all :: "vector_case \<Rightarrow> nat \<Rightarrow> nat \<Rightarrow> sweep_action list" where
  "stop_all c pos k = concat (map (stop_process c pos) [0..<k]) @ map (\<lambda>i. Removed (pos, i)) [0..<k]"

definition not_ready_line :: "sweep_kind \<Rightarrow> int \<Rightarrow> string" where
  "not_ready_line kind n = ''  '' @ int_str n @
     (case kind of
        Scale \<Rightarrow> '' threads: vector did not become ready''
      | Rule_Counts \<Rightarrow> '' rules: vector did not become ready''
      | Workers \<Rightarrow> '' workers: at least one did not become ready'')"

definition kernel_drops :: "run_result \<Rightarrow> int" where
  "kernel_drops r = (case receive_buffer_errors (rr_kernel r) of Some n \<Rightarrow> n | None \<Rightarrow> 0)"

definition fmt_p99 :: "nat \<Rightarrow> run_result \<Rightarrow> string" where
  "fmt_p99 w r = right_align w (case p99 r of Some x \<Rightarrow> fmt_grouped 0 x | None \<Rightarrow> ''nan'')"

definition row_line :: "sweep_kind \<Rightarrow> int \<Rightarrow> int \<Rightarrow> run_result \<Rightarrow> string" where
  "row_line kind senders n r =
     (let eps = right_align 9 (fmt_grouped 0 (throughput r)) @ '' EPS  loss '' @ right_align 6 (fmt_fixed 2 (loss_pct r)) @ ''%  ''
      in case kind of
        Scale \<Rightarrow> ''  '' @ right_align 2 (int_str n) @ '' threads  '' @ eps @ ''p99 '' @ fmt_p99 8 r @
          '' us  kernel drops '' @ right_align 8 (fmt_int (kernel_drops r))
      | Rule_Counts \<Rightarrow> ''  '' @ right_align 4 (int_str n) @ '' rules  '' @ eps @ ''dropped-by-rule '' @
          right_align 6 (fmt_int (rr_dropped r)) @ ''  p99 '' @ fmt_p99 9 r @ '' us''
      | Workers \<Rightarrow> ''  '' @ right_align 2 (int_str n) @ '' workers ('' @ int_str (sweep_senders kind senders n) @ '' senders)  '' @
          eps @ ''p99 '' @ fmt_p99 9 r @ '' us  kernel drops '' @ right_align 8 (fmt_int (kernel_drops r)))"

text \<open>
  A configuration up to its \<open>finally\<close> block: the actions, the lines, and an error, or the measurement
  unless Vector was not ready. Without a worker there is no first ingress to send to.
\<close>

definition measure_case :: "sweep_kind \<Rightarrow> int \<Rightarrow> nat \<Rightarrow> int \<Rightarrow> vector_case \<Rightarrow>
    sweep_action list \<times> string list \<times> (sweep_error, run_result option) result" where
  "measure_case kind senders pos n c =
     (let starts = map (\<lambda>i. Started (pos, i)) [0..<spawned kind n c] in
      if spawned kind n c < needed kind n then (starts, [], Inl Spawn_Failed)
      else if \<not> list_all (vc_ready c) [0..<needed kind n] then (starts, [not_ready_line kind n], Inr None)
      else if needed kind n = 0 then (starts, [], Inl No_Ingress)
      else case vc_run c of
        Inl e \<Rightarrow> (starts @ [Measured pos], [], Inl (Run_Failed e))
      | Inr r \<Rightarrow> (starts @ [Measured pos], [row_line kind senders n r], Inr (Some r)))"

definition one_case :: "sweep_kind \<Rightarrow> int \<Rightarrow> nat \<Rightarrow> int \<Rightarrow> vector_case \<Rightarrow>
    sweep_action list \<times> string list \<times> (sweep_error, run_result option) result" where
  "one_case kind senders pos n c =
     (case measure_case kind senders pos n c of
        (acts, lines, out) \<Rightarrow> (acts @ stop_all c pos (spawned kind n c), lines, out))"

section \<open>The loop and the tables\<close>

fun sweep_cases :: "sweep_kind \<Rightarrow> int \<Rightarrow> (nat \<Rightarrow> vector_case) \<Rightarrow> nat \<Rightarrow> int list \<Rightarrow>
    sweep_action list \<times> string list \<times> (sweep_error, (int \<times> run_result) list) result" where
  "sweep_cases kind senders env pos [] = ([], [], Inr [])"
| "sweep_cases kind senders env pos (n # ns) =
     (case one_case kind senders pos n (env pos) of
        (acts, lines, Inl e) \<Rightarrow> (acts, lines, Inl e)
      | (acts, lines, Inr out) \<Rightarrow>
          (case sweep_cases kind senders env (Suc pos) ns of
             (acts', lines', res) \<Rightarrow> (acts @ acts', lines @ lines',
               bindR res (\<lambda>rows. Inr ((case out of None \<Rightarrow> [] | Some r \<Rightarrow> [(n, r)]) @ rows)))))"

definition title_lines :: "sweep_kind \<Rightarrow> string list" where
  "title_lines kind =
     (case kind of
        Scale \<Rightarrow> [[], horizontal_rule 74, ''  Scaling sweep'', horizontal_rule 74]
      | Rule_Counts \<Rightarrow> [[], horizontal_rule 78,
          ''  Rule-count sweep: no rule matches, so every event traverses the whole chain'', horizontal_rule 78]
      | Workers \<Rightarrow> [[], horizontal_rule 78,
          ''  Worker sweep: separate Vector processes, senders spread across them'', horizontal_rule 78])"

definition scaling_line :: "sweep_kind \<Rightarrow> int \<Rightarrow> rat \<times> rat \<times> rat \<Rightarrow> string" where
  "scaling_line kind n row =
     (case row of (factor, cores, efficiency) \<Rightarrow>
        ''  '' @ right_align 2 (int_str n) @ (if kind = Scale then '' threads  '' else '' workers  '') @
        right_align 5 (fmt_fixed 2 factor) @ ''x throughput  for '' @ right_align 4 (fmt_fixed 1 cores) @
        (if kind = Scale then ''x the cores  ('' else ''x the processes  ('') @
        right_align 5 (fmt_fixed 1 efficiency) @ ''% scaling efficiency)'')"

definition scaling_lines :: "sweep_kind \<Rightarrow> (int \<times> run_result) list \<Rightarrow> string list" where
  "scaling_lines kind rows =
     (if 2 \<le> length rows
      then [[], ''  Scaling relative to the smallest configuration measured:''] @
           map (\<lambda>(n, row). scaling_line kind n row) (zip (map fst rows) (scaling_table rows)) @
           (if kind = Scale
            then [[], ''  Read the efficiency column, not the throughput column. Below roughly 70%,'',
                  ''  more cores on one node are worth less than another node.'']
            else [])
      else [])"

definition rules_line :: "int \<Rightarrow> int \<Rightarrow> rat \<times> rat \<Rightarrow> string" where
  "rules_line base n row =
     (case row of (factor, percent) \<Rightarrow>
        ''  '' @ right_align 4 (int_str n) @ '' rules  '' @ right_align 5 (fmt_fixed 2 factor) @ ''x  ('' @
        fmt_signed 1 percent @ ''% against '' @ int_str base @ '' rules)'')"

definition rules_lines :: "(int \<times> run_result) list \<Rightarrow> string list" where
  "rules_lines rows =
     (if not_worst_case rows then [[], ''  WARNING: a synthetic rule matched. The sweep is no longer worst case.''] else []) @
     (if 2 \<le> length rows
      then [[], ''  Throughput relative to the shortest chain measured:''] @
           map (\<lambda>(n, row). rules_line (fst (hd rows)) n row) (zip (map fst rows) (rules_table rows))
      else [])"

definition table_lines :: "sweep_kind \<Rightarrow> (int \<times> run_result) list \<Rightarrow> string list" where
  "table_lines kind rows =
     (case kind of
        Scale \<Rightarrow> scaling_lines kind rows @ [horizontal_rule 74]
      | Rule_Counts \<Rightarrow> rules_lines rows @ [horizontal_rule 78]
      | Workers \<Rightarrow> scaling_lines kind rows @ [horizontal_rule 78])"

text \<open>A whole sweep: \<open>None\<close> for the list of counts is the \<open>ValueError\<close>, before anything is printed.\<close>

definition run_sweep :: "sweep_kind \<Rightarrow> int \<Rightarrow> (nat \<Rightarrow> vector_case) \<Rightarrow> string \<Rightarrow>
    (sweep_action list \<times> string list \<times> (sweep_error, int) result) option" where
  "run_sweep kind senders env counts =
     (case parse_counts counts of
        None \<Rightarrow> None
      | Some ns \<Rightarrow>
          (case sweep_cases kind senders env 0 ns of
             (acts, lines, res) \<Rightarrow> Some (acts,
               title_lines kind @ lines @ (case res of Inl e \<Rightarrow> [] | Inr rows \<Rightarrow> table_lines kind rows),
               bindR res (\<lambda>rows. Inr 0))))"

section \<open>What is running\<close>

fun effect :: "sweep_action \<Rightarrow> pid list \<Rightarrow> pid list" where
  "effect (Started p) ps = ps @ [p]"
| "effect (Ended p) ps = remove1 p ps"
| "effect (Killed p) ps = remove1 p ps"
| "effect _ ps = ps"

definition running :: "sweep_action list \<Rightarrow> pid list" where
  "running acts = fold effect acts []"

text \<open>The directories that are still there: one is made with each process.\<close>

fun directory_effect :: "sweep_action \<Rightarrow> pid list \<Rightarrow> pid list" where
  "directory_effect (Started p) ps = ps @ [p]"
| "directory_effect (Removed p) ps = remove1 p ps"
| "directory_effect _ ps = ps"

definition directories :: "sweep_action list \<Rightarrow> pid list" where
  "directories acts = fold directory_effect acts []"

lemma running_append: "running (xs @ ys) = fold effect ys (running xs)"
  by (simp add: running_def)

lemma started_all:
  "fold effect (map (\<lambda>i. Started (pos, i)) is) ps = ps @ map (Pair pos) is"
  "fold directory_effect (map (\<lambda>i. Started (pos, i)) is) ps = ps @ map (Pair pos) is"
  by (induction "is" arbitrary: ps) simp_all

lemma stopped_all:
  "Pair pos ` set is \<inter> set ps = {} \<Longrightarrow>
     fold effect (concat (map (stop_process c pos) is)) (ps @ map (Pair pos) is) = ps"
  by (induction "is") (auto simp: stop_process_def remove1_append)

lemma stopping_keeps:
  "fold directory_effect (concat (map (stop_process c pos) is)) ps = ps"
  "fold effect (map (\<lambda>i. Removed (pos, i)) is) ps = ps"
  by (induction "is" arbitrary: ps) (auto simp: stop_process_def)

lemma removed_all:
  "Pair pos ` set is \<inter> set ps = {} \<Longrightarrow>
     fold directory_effect (map (\<lambda>i. Removed (pos, i)) is) (ps @ map (Pair pos) is) = ps"
  by (induction "is") (auto simp: remove1_append)

lemma spawned_le: "spawned kind n c \<le> needed kind n"
  unfolding spawned_def using length_takeWhile_le [of "vc_spawns c" "[0..<needed kind n]"] by simp

text \<open>The actions of a configuration: its processes start, it may be measured with all of them, they stop.\<close>

lemma one_case_shape:
  assumes "one_case kind senders pos n c = (acts, lines, out)"
  obtains middle where
    "acts = map (\<lambda>i. Started (pos, i)) [0..<spawned kind n c] @ middle @ stop_all c pos (spawned kind n c)"
    "middle = [] \<or> middle = [Measured pos] \<and> spawned kind n c = needed kind n"
  using assms spawned_le [of kind n c]
  by (auto simp: one_case_def measure_case_def Let_def split: prod.splits if_splits sum.splits)

lemma one_case_stops:
  assumes "one_case kind senders pos n c = (acts, lines, out)"
  shows "running acts = []" "directories acts = []"
proof -
  obtain middle where a: "acts = map (\<lambda>i. Started (pos, i)) [0..<spawned kind n c] @ middle @ stop_all c pos (spawned kind n c)"
    and m: "middle = [] \<or> middle = [Measured pos] \<and> spawned kind n c = needed kind n"
    by (rule one_case_shape [OF assms])
  have e: "fold effect middle ps = ps" "fold directory_effect middle ps = ps" for ps using m by auto
  show "running acts = []"
    using stopped_all [of pos "[0..<spawned kind n c]" "[]" c]
    by (simp add: a running_def started_all e stop_all_def stopping_keeps)
  show "directories acts = []"
    using removed_all [of pos "[0..<spawned kind n c]" "[]"]
    by (simp add: a directories_def started_all e stop_all_def stopping_keeps)
qed

fun is_start :: "sweep_action \<Rightarrow> bool" where
  "is_start (Started p) \<longleftrightarrow> True"
| "is_start _ \<longleftrightarrow> False"

lemma running_length: "length (fold effect xs ps) \<le> length ps + length (filter is_start xs)"
proof (induction xs arbitrary: ps)
  case (Cons a xs)
  have "length (effect a ps) \<le> length ps + (if is_start a then 1 else 0)"
    by (cases a) (simp_all add: length_remove1)
  with Cons.IH [of "effect a ps"] show ?case by (auto intro: le_trans)
qed simp

lemma one_case_peak:
  assumes "one_case kind senders pos n c = (acts, lines, out)"
  shows "length (running (take k acts)) \<le> needed kind n"
proof (rule one_case_shape [OF assms])
  fix middle assume a: "acts = map (\<lambda>i. Started (pos, i)) [0..<spawned kind n c] @ middle @ stop_all c pos (spawned kind n c)"
    and m: "middle = [] \<or> middle = [Measured pos] \<and> spawned kind n c = needed kind n"
  have s: "filter is_start (stop_all c pos k) = []" for k
    by (auto simp: stop_all_def stop_process_def filter_empty_conv split: if_splits)
  have f: "filter is_start (map (\<lambda>i. Started (pos, i)) xs) = map (\<lambda>i. Started (pos, i)) xs" for xs :: "nat list"
    by (induction xs) simp_all
  have "length (filter is_start acts) = spawned kind n c" using m by (auto simp: a s f)
  moreover have "length (filter is_start (take k acts)) \<le> length (filter is_start acts)"
    by (metis append_take_drop_id filter_append length_append le_add1)
  ultimately show ?thesis
    using running_length [of "take k acts" "[]"] spawned_le [of kind n c] by (simp add: running_def)
qed

lemma one_case_measured:
  assumes "one_case kind senders pos n c = (acts, lines, out)" "acts = pre @ Measured p # post"
  shows "p = pos \<and> running pre = map (Pair pos) [0..<needed kind n]"
proof (rule one_case_shape [OF assms(1)])
  let ?starts = "map (\<lambda>i. Started (pos, i)) [0..<spawned kind n c]"
  fix middle assume a: "acts = ?starts @ middle @ stop_all c pos (spawned kind n c)"
    and m: "middle = [] \<or> middle = [Measured pos] \<and> spawned kind n c = needed kind n"
  have no: "Measured q \<notin> set ?starts" "Measured q \<notin> set (stop_all c pos k)" for q k
    by (auto simp: stop_all_def stop_process_def split: if_splits)
  have "Measured p \<in> set acts" using assms(2) by simp
  then have mid: "middle = [Measured pos]" "spawned kind n c = needed kind n" "p = pos"
    using m no by (auto simp: a)
  then have eq: "?starts @ Measured pos # stop_all c pos (spawned kind n c) = pre @ Measured pos # post"
    using a assms(2) by simp
  have "Measured pos \<notin> set pre \<and> pre = ?starts"
    using eq no by (metis (no_types, lifting) append_Cons_eq_iff)
  then show ?thesis using mid by (simp add: running_def started_all)
qed

text \<open>The whole sweep.\<close>

lemma sweep_cases_process:
  assumes "sweep_cases kind senders env pos ns = (acts, lines, res)"
  shows "running acts = [] \<and> directories acts = [] \<and>
    (\<forall>k. length (running (take k acts)) \<le> Max (insert 0 (needed kind ` set ns))) \<and>
    (\<forall>pre p post. acts = pre @ Measured p # post \<longrightarrow>
       pos \<le> p \<and> p < pos + length ns \<and> running pre = map (Pair p) [0..<needed kind (ns ! (p - pos))])"
  using assms
proof (induction ns arbitrary: pos acts lines res)
  case (Cons n ns)
  obtain a l out where o: "one_case kind senders pos n (env pos) = (a, l, out)" by (cases "one_case kind senders pos n (env pos)")
  obtain a' l' r where s: "sweep_cases kind senders env (Suc pos) ns = (a', l', r)"
    by (cases "sweep_cases kind senders env (Suc pos) ns")
  note c = one_case_stops [OF o] and ih = Cons.IH [OF s]
  have mx: "needed kind n \<le> Max (insert 0 (needed kind ` set (n # ns)))"
    "Max (insert 0 (needed kind ` set ns)) \<le> Max (insert 0 (needed kind ` set (n # ns)))"
    by (auto intro!: Max_ge Max_mono)
  have peak: "length (running (take k a)) \<le> Max (insert 0 (needed kind ` set (n # ns)))" for k
    using one_case_peak [OF o, of k] mx(1) by (rule le_trans)
  show ?case
  proof (cases out)
    case (Inl e)
    then have "acts = a" using Cons.prems o by simp
    then show ?thesis using c peak one_case_measured [OF o] by auto
  next
    case (Inr x)
    then have acts: "acts = a @ a'" using Cons.prems o s by simp
    have r: "running (a @ xs) = running xs" "directories (a @ xs) = directories xs" for xs
      using c by (simp_all add: running_def directories_def)
    have "length (running (take k acts)) \<le> Max (insert 0 (needed kind ` set (n # ns)))" for k
    proof (cases "k \<le> length a")
      case True
      then show ?thesis using peak [of k] by (simp add: acts)
    next
      case False
      then have "running (take k acts) = running (take (k - length a) a')" by (simp add: acts r)
      then show ?thesis using ih mx(2) le_trans by metis
    qed
    moreover have "pos \<le> p \<and> p < pos + length (n # ns) \<and> running pre = map (Pair p) [0..<needed kind ((n # ns) ! (p - pos))]"
      if "acts = pre @ Measured p # post" for pre p post
    proof -
      from that [unfolded acts append_eq_append_conv2]
      consider us where "a = pre @ us" "us @ a' = Measured p # post" | us where "a @ us = pre" "a' = us @ Measured p # post"
        by auto
      then show ?thesis
      proof cases
        case 1
        show ?thesis
        proof (cases us)
          case Nil
          then have "a' = [] @ Measured p # post" "pre = a" using 1 by simp_all
          then show ?thesis using ih c(1) by (fastforce simp: Suc_le_eq Suc_diff_Suc nth_Cons' running_def)
        next
          case (Cons u us')
          then have "a = pre @ Measured p # us'" using 1 by simp
          from one_case_measured [OF o this] show ?thesis by simp
        qed
      next
        case 2
        then have "Suc pos \<le> p" "p < Suc pos + length ns" "running us = map (Pair p) [0..<needed kind (ns ! (p - Suc pos))]"
          using ih by blast+
        moreover have "running pre = running us" using 2(1) r(1) by blast
        ultimately show ?thesis by (simp add: nth_Cons' )
      qed
    qed
    ultimately show ?thesis using ih by (simp add: acts r)
  qed
qed (simp add: running_def directories_def)

text \<open>What was measured is what the rows hold, in order; an error of a run or of a start ends the sweep.\<close>

lemma sweep_cases_rows:
  assumes "sweep_cases kind senders env pos ns = (acts, lines, Inr rows)"
  shows "rows = concat (map (\<lambda>(p, n). case snd (snd (measure_case kind senders p n (env p))) of
      Inr (Some r) \<Rightarrow> [(n, r)] | _ \<Rightarrow> []) (enumerate pos ns))"
  using assms
proof (induction ns arbitrary: pos acts lines rows)
  case (Cons n ns)
  obtain a l out where m: "measure_case kind senders pos n (env pos) = (a, l, out)"
    by (cases "measure_case kind senders pos n (env pos)")
  obtain a' l' r where s: "sweep_cases kind senders env (Suc pos) ns = (a', l', r)"
    by (cases "sweep_cases kind senders env (Suc pos) ns")
  from Cons.prems m s obtain x rest where "out = Inr x" "r = Inr rest"
    "rows = (case x of None \<Rightarrow> [] | Some q \<Rightarrow> [(n, q)]) @ rest"
    by (auto simp: one_case_def bindR_Inr_iff split: sum.splits)
  then show ?case using Cons.IH [of "Suc pos" a' l' rest] s m by (auto split: option.splits)
qed simp

text \<open>
  The rows are those of the plain loop \<open>sweep_rows\<close> over the measurements, when the binary is there and
  every configuration has a process: the account of processes adds nothing to the result.
\<close>

definition probe_of :: "sweep_kind \<Rightarrow> (int \<Rightarrow> vector_case) \<Rightarrow> int \<Rightarrow> (run_error, run_result) result option" where
  "probe_of kind f n = (if list_all (vc_ready (f n)) [0..<needed kind n] then Some (vc_run (f n)) else None)"

lemma sweep_cases_refine:
  assumes "list_all (\<lambda>n. spawned kind n (f n) = needed kind n \<and> needed kind n \<noteq> 0) ns"
    and "\<forall>i < length ns. env (pos + i) = f (ns ! i)"
  shows "snd (snd (sweep_cases kind senders env pos ns)) = mapError Run_Failed (sweep_rows (probe_of kind f) ns)"
  using assms
proof (induction ns arbitrary: pos)
  case (Cons n ns)
  have "env pos = f n" using Cons.prems(2) by force
  moreover have "\<forall>i < length ns. env (Suc pos + i) = f (ns ! i)" using Cons.prems(2) by force
  ultimately have "snd (snd (sweep_cases kind senders env (Suc pos) ns)) = mapError Run_Failed (sweep_rows (probe_of kind f) ns)"
    "env pos = f n" using Cons by simp_all
  then show ?case
    using Cons.prems(1)
    by (cases "vc_run (f n)"; cases "sweep_rows (probe_of kind f) ns")
      (auto simp: one_case_def measure_case_def probe_of_def [of kind f n] Let_def split: prod.splits)
qed simp

section \<open>Properties\<close>

definition sample_case :: "nat \<Rightarrow> vector_case" where
  "sample_case pos = \<lparr>vc_spawns = (\<lambda>i. pos < 2 \<or> i < 1), vc_ready = (\<lambda>i. pos \<noteq> 1), vc_stops = (\<lambda>i. i = 0),
     vc_run = run ''sample'' 3 1 20 0 True sample_run\<rparr>"



end
