(* ===== verification/Spec2Isabelle.thy ===== *)
theory Spec2Isabelle
  imports Prelude Ip_Address Rule_Model Encoder Py_Float Compiler Lexical Injection Program_Text Decision
    Predicate_Syntax Condition_Meaning Program_Run Program_Message
    Json Vector_Config Validate Settings Database Change_Log Rules_Service Bundles Interleaving
    Node_Records Data_Plane Agent Agent_Loop Sampling Auth Simulate Api Preview Live_Sample Sample_Share Node_Sync Deployment App Routing Engine Number_Format Cefgen Cefgen_Send Cli
    Perf_Counters Perf_Harness Perf_Main Perf_Report Perf_Sweeps
begin

text \<open>
  A verification library for sixthsense, the control plane of a filtering proxy for CEF and syslog
  events. The source is under \<open>src/src/sixthsense\<close>; paths below are relative to it.

  The program. Analysts keep an ordered chain of rules. The compiler turns the chain into a program
  in VRL, the language of the Vector data plane, inside a Vector configuration; a bundle is such a
  configuration with a version and a checksum. Publishing validates a bundle with the Vector binary
  and makes it the active one, rolling back makes an earlier one active again. Nodes poll for the
  active bundle, verify it, and replace their configuration. Decisions come back to the control
  plane, where a ring buffer, live sockets, a persisted sample and an impact preview use them.
  Accounts with four ordered roles guard the routes.

  The model. Data are records and datatypes with the source's names and fields; an exception is the
  left side of a sum; a database session is a pair of the committed and the current tables, and
  \<open>session_scope\<close> commits or rolls back; files are a map, and a crash is a prefix of the file
  operations a step performs. Definitions compute, and the instances at the end of the theories
  evaluate them or apply the properties to them.

  Theories, in the order of the dependencies:

  \<^item> \<open>Prelude\<close>: results of fallible calls, Python's strings, slices, \<open>str\<close> and \<open>int\<close>.
    \<open>Ip_Address\<close> and \<open>Py_Float\<close>: what the source uses of \<open>ipaddress\<close> and \<open>float\<close>.
    \<open>Json\<close>: JSON documents.

  \<^item> \<open>Rule_Model\<close> (\<open>models/rule.py\<close>): conditions, rules, chains and payloads with all
    validators. Validation normalises and is idempotent.

  \<^item> \<open>Encoder\<close> (\<open>compiler/encoder.py\<close>): every literal form, with a reader for each that states
    the round trip; numbers are exact and bounded.

  \<^item> \<open>Compiler\<close> (\<open>compiler/compiler.py\<close>): the program text, character for character. \<open>Lexical\<close>
    holds the scanners of \<open>tests/test_compiler_properties.py\<close> behind the locales
    \<open>literal_scanner\<close> and \<open>program_scanner\<close> (interpreted on the literal stripper, the
    skeleton and the bracket counter); \<open>Injection\<close> and \<open>Program_Text\<close> prove that user text stays
    inside literals and comments, that brackets balance, and which conditions and chains compile;
    \<open>Decision\<close> proves that the matching and enforcement sections decide as the specification
    \<open>decide\<close> in every semantics of VRL with the laws of \<open>vrl_statements\<close>.

  \<^item> \<open>Predicate_Syntax\<close> reads the generated predicates back with a parser of VRL's expressions;
    \<open>Condition_Meaning\<close> gives the operators of the rule model their meaning on an event,
    \<open>matches_event\<close>, and proves under the laws of \<open>vrl_library\<close> and \<open>vrl_predicates\<close> that every
    compiled condition evaluates to it. \<open>Program_Run\<close> follows the whole program from a raw
    message, through the constant prelude that parses it (specified by \<open>read_event\<close>), to the record
    under \<open>.ss\<close> (\<open>ss_record\<close>), under the laws of \<open>vrl_program\<close>; \<open>Program_Message\<close> interprets that
    locale on an executable semantics with nested blocks, for any two parsers.

  \<^item> \<open>Vector_Config\<close> and \<open>Validate\<close> (\<open>compiler/vector_config.py\<close>, \<open>compiler/validate.py\<close>):
    the topology and that it fails open; the gate and exactly when it passes. \<open>Node_Records\<close> gives the
    audit and sample programs of the configuration the meaning VRL documents (the locale
    \<open>vrl_records\<close>, interpreted on an executable semantics) and \<open>Data_Plane\<close> follows an event through
    the topology: a forwarded message reaches the collector as it came, a dropped one leaves one
    audit record, and the control plane is sent every drop and the sampled rest.

  \<^item> \<open>Settings\<close> (\<open>config.py\<close>): the guards on exposed settings. \<open>Database\<close>
    (\<open>db/models.py\<close>, \<open>db/session.py\<close>, \<open>models/bundle.py\<close>): tables and sessions. \<open>Engine\<close>
    (\<open>db/session.py\<close>): the engine and the session factory as unlocked globals, called by one thread
    and stepped through by many.

  \<^item> \<open>Change_Log\<close>: the contract of an audited store, the locales \<open>change_log\<close> and
    \<open>persistent_log\<close>. \<open>Rules_Service\<close> (\<open>services/rules.py\<close>) and \<open>Bundles\<close>
    (\<open>services/bundles.py\<close>) interpret it and prove what each operation does, errors included:
    rules are never deleted, bundles never change, a rollback restores the bytes. \<open>Interleaving\<close>
    splits a request into what it reads and what it writes and lets requests overlap: one alone is the
    two steps together, any interleaving keeps the tables sound and loses nothing, but two overlapping
    updates can store a rule that neither wrote and that no request repairs.

  \<^item> \<open>Agent\<close> and \<open>Agent_Loop\<close> (\<open>agent/main.py\<close>): checked writes under crashes; the signal to Vector,
    the polling loop and the command. \<open>Node_Sync\<close> puts the agent and the route it polls together and
    shows the one order of a crash and a rollback that ends on the wrong configuration. \<open>Deployment\<close>
    is the whole system, a control plane and its nodes as a step relation: a node reaches the active
    bundle in one poll, and runs nothing but what was published, which decides as the chain says.

  \<^item> \<open>Sampling\<close> (\<open>sampling/store.py\<close>): ring, subscriber queues and persisted sample, the first
    and the last as interpretations of \<open>bounded_store\<close>. \<open>Simulate\<close> (\<open>services/simulate.py\<close>):
    the preview counts the verdicts of \<open>decide\<close>. \<open>Preview\<close> puts it on the sample as the intake
    keeps it: without the texts of the events it counts nothing. \<open>Live_Sample\<close> takes the record a node
    posts, reads it as a decision record under the law of \<open>decision_posts\<close>, and shows it as the newest
    frame of the live view and the newest row of the sample. \<open>Sample_Share\<close> follows a stream of messages
    through node and preview: drops are all sampled and the rest is not, which skews the projected share.

  \<^item> \<open>Auth\<close> (\<open>api/auth.py\<close>, \<open>cli.py\<close>): roles as a linear order, passwords, tokens. \<open>Api\<close>
    (\<open>api/routes.py\<close>): every route; a request is nothing or one authorised transaction.
    \<open>App\<close> (\<open>api/app.py\<close>, \<open>cli.py\<close>): the catch-all route against a file system with
    links, the startup announcement and the \<open>compile\<close> command. \<open>Routing\<close> is the table of routes, which
    every call of the system's own parts reaches, under the laws of \<open>web_framework\<close>, and the guard of each
    handler. \<open>Cli\<close> (\<open>cli.py\<close>): the commands with their output, and the dispatch.

  \<^item> \<open>Number_Format\<close>: the formats of printed numbers. \<open>Cefgen\<close> and \<open>Cefgen_Send\<close>
    (\<open>cefgen/main.py\<close>): generated events read back; the paced sender keeps its rate. \<open>Perf_Counters\<close>,
    \<open>Perf_Harness\<close>, \<open>Perf_Main\<close>, \<open>Perf_Report\<close> and \<open>Perf_Sweeps\<close> (\<open>perf/counters.py\<close>,
    \<open>perf/harness.py\<close>, \<open>perf/main.py\<close>): kernel counters, sender, receiver, accounting, verdict and
    exit code; the printed report; the sweeps and the processes they start and stop.

  Parameters. The Vector binary, \<open>json\<close>, the TOML writer, SHA-256, Argon2, the token library, VRL
  itself with its standard library and its syslog and CEF parsers, the choice of a route, clocks, sockets, processes and
  random draws, the runtime of Vector and the validation of a posted record are arguments or locale
  parameters; what the code relies on is a named hypothesis (a
  fresh hash verifies, a signed token decodes until it expires, the laws of VRL, JSON round trips, a
  sleep that does not end early), and each has an instance.

  Bounds. Strings are code points below 256, which for ASCII operators covers UTF-8 bytes; time
  stamps are integers; floats of the preview and of the measurement are exact rationals, literals
  are exact decimals. \<open>unique_id\<close> is shown to end for fewer than \<open>10 ^ 13\<close> rows, where a numbered
  name still fits the identifier pattern; integers read from text have at most 4300 digits, as in
  Python; the synthetic chain is valid up to \<open>10 ^ 58\<close> rules. \<open>resolve\<close> follows at most the links of
  its fuel; running out, as on a loop, is the error the source raises, and confinement holds for any fuel.
  The parser of predicates recurses with the length of the text as fuel, which no nesting exceeds; a path
  of the topology has four components, and more fuel changes nothing. A wait for Vector of 30 seconds is over after 61 probes, the loop of the agent is shown for any number
  of iterations, and the schedules of threads and of overlapping requests have any length.

  Not modelled. The text of the metrics and the mounted asset directory (\<open>api/app.py\<close>); the parsers of
  command lines and the creation of tables; socket options, free ports and the multiprocessing
  plumbing of a measurement (\<open>perf/harness.py\<close>); the test generators. They are input, output or
  library calls without state of their own.
\<close>

end
